(* ===== verification/Yass_Prelude.thy ===== *)
theory Yass_Prelude
  imports Main "HOL-Library.Word" "HOL-Library.Monad_Syntax"
begin

unbundle bit_operations_syntax

text \<open>
  Shared vocabulary of the development: bytes and byte memory, network byte order, and the
  rule collections that the component theories extend.

  A C++ object that lives in memory is a \<^typ>\<open>8 word list\<close>. Reading or writing outside an
  object is undefined behaviour, and a failed \<^verbatim>\<open>CHECK\<close> aborts the process: both are the
  value \<^const>\<open>None\<close> of an option type, so a theorem that an operation returns \<^const>\<open>Some\<close>
  also says that it neither aborts nor touches memory it does not own. \<^verbatim>\<open>DCHECK\<close>s are compiled
  out of a release build and have no effect here.
\<close>

type_synonym byte = "8 word"
type_synonym u16 = "16 word"
type_synonym u32 = "32 word"
type_synonym u64 = "64 word"

named_theorems buf_simps \<open>what an operation of a byte buffer does to its visible bytes\<close>
named_theorems mem_simps \<open>reads and writes of byte memory that stay in bounds\<close>

section \<open>Byte memory\<close>

text \<open>\<^verbatim>\<open>*(p + i)\<close>: one byte of an object.\<close>

definition mem_read :: "byte list \<Rightarrow> nat \<Rightarrow> byte option" where
  "mem_read m i = (if i < length m then Some (m ! i) else None)"

text \<open>The source operand of \<^verbatim>\<open>memcpy(_, p + i, n)\<close>.\<close>

definition mem_slice :: "byte list \<Rightarrow> nat \<Rightarrow> nat \<Rightarrow> byte list option" where
  "mem_slice m i n = (if i + n \<le> length m then Some (take n (drop i m)) else None)"

text \<open>\<^verbatim>\<open>memcpy(p + i, xs, n)\<close> with \<open>n = length xs\<close>.\<close>

definition mem_write :: "byte list \<Rightarrow> nat \<Rightarrow> byte list \<Rightarrow> byte list option" where
  "mem_write m i xs =
     (if i + length xs \<le> length m then Some (take i m @ xs @ drop (i + length xs) m) else None)"

text \<open>
  \<^verbatim>\<open>realloc(p, n)\<close>: the first bytes are kept; the contents of new bytes are indeterminate and
  given by \<open>junk\<close>, over which every theorem quantifies.
\<close>

definition mem_realloc :: "(nat \<Rightarrow> byte) \<Rightarrow> byte list \<Rightarrow> nat \<Rightarrow> byte list" where
  "mem_realloc junk m n = take n m @ map junk [length m..<n]"

lemma length_mem_realloc [simp]: "length (mem_realloc junk m n) = n"
  by (simp add: mem_realloc_def)

lemma take_mem_realloc: "k \<le> n \<Longrightarrow> k \<le> length m \<Longrightarrow> take k (mem_realloc junk m n) = take k m"
  by (simp add: mem_realloc_def)

lemma mem_read_Some [mem_simps]: "i < length m \<Longrightarrow> mem_read m i = Some (m ! i)"
  by (simp add: mem_read_def)

lemma mem_read_None [mem_simps]: "length m \<le> i \<Longrightarrow> mem_read m i = None"
  by (simp add: mem_read_def)

lemma mem_slice_Some [mem_simps]:
  "i + n \<le> length m \<Longrightarrow> mem_slice m i n = Some (take n (drop i m))"
  by (simp add: mem_slice_def)

lemma mem_slice_None [mem_simps]: "length m < i + n \<Longrightarrow> mem_slice m i n = None"
  by (simp add: mem_slice_def)

lemma mem_write_Some [mem_simps]:
  "i + length xs \<le> length m \<Longrightarrow>
     mem_write m i xs = Some (take i m @ xs @ drop (i + length xs) m)"
  by (simp add: mem_write_def)

lemma mem_write_None [mem_simps]: "length m < i + length xs \<Longrightarrow> mem_write m i xs = None"
  by (simp add: mem_write_def)

lemma length_mem_write: "mem_write m i xs = Some m' \<Longrightarrow> length m' = length m"
  by (auto simp: mem_write_def split: if_splits)

lemma length_mem_slice: "mem_slice m i n = Some xs \<Longrightarrow> length xs = n"
  by (auto simp: mem_slice_def split: if_splits)

text \<open>A write inside a window of memory, seen through that window.\<close>

lemma window_write:
  assumes "off + i + length xs \<le> c" "c \<le> length m"
  shows "drop off (take c (take (off + i) m @ xs @ drop (off + i + length xs) m)) =
    take i (drop off (take c m)) @ xs @ drop (i + length xs) (drop off (take c m))"
proof -
  obtain a m1 where 1: "m = a @ m1" "length a = off"
    using assms by (metis append_take_drop_id length_take min_absorb2 le_trans add_leD1)
  obtain b m2 where 2: "m1 = b @ m2" "length b = i"
    using assms 1 that [of "take i m1" "drop i m1"] by auto
  obtain x m3 where 3: "m2 = x @ m3" "length x = length xs"
    using assms 1 2 that [of "take (length xs) m2" "drop (length xs) m2"] by auto
  show ?thesis using assms 1 2 3 by simp
qed

text \<open>Rounding a division up, as the loops that count blocks do.\<close>

lemma ceil_div:
  assumes "0 < (b :: nat)"
  shows "(if L mod b \<noteq> 0 then L div b + 1 else L div b) = (L + (b - 1)) div b"
proof -
  have "(L + (b - 1)) div b = (b * (L div b) + (L mod b + (b - 1))) div b" by (simp flip: add.assoc)
  also have "\<dots> = L div b + (L mod b + (b - 1)) div b" using assms by (intro div_mult_self4) simp
  also have "(L mod b + (b - 1)) div b = (if L mod b \<noteq> 0 then 1 else 0)"
    using assms mod_less_divisor [OF assms, of L] by (auto intro!: div_nat_eqI)
  finally show ?thesis by simp
qed
section \<open>Network byte order\<close>

text \<open>\<^verbatim>\<open>(hi << 8) | lo\<close> on an unsigned short, the idiom every port accessor uses.\<close>

definition be16 :: "byte \<Rightarrow> byte \<Rightarrow> u16" where
  "be16 hi lo = (push_bit 8 (ucast hi) AND 0xff00) OR ucast lo"

definition hi8 :: "u16 \<Rightarrow> byte" where
  "hi8 w = ucast (drop_bit 8 w AND 0xff)"

definition lo8 :: "u16 \<Rightarrow> byte" where
  "lo8 w = ucast (w AND 0xff)"

lemma bit_255 [simp]: "bit (255 :: 'a::len word) n \<longleftrightarrow> n < min 8 LENGTH('a)"
proof -
  have "bit (mask 8 :: 'a word) n \<longleftrightarrow> n < min 8 LENGTH('a)" by (auto simp: bit_mask_iff)
  then show ?thesis by (simp add: mask_eq_exp_minus_1)
qed

lemma bit_255_int [simp]: "bit (255 :: int) n \<longleftrightarrow> n < 8"
proof -
  have "bit (mask 8 :: int) n \<longleftrightarrow> n < 8" by (auto simp: bit_mask_iff)
  then show ?thesis by (simp add: mask_eq_exp_minus_1)
qed

lemma bit_0xff00_int [simp]: "bit (0xff00 :: int) n \<longleftrightarrow> 8 \<le> n \<and> n < 16"
proof -
  have "bit (push_bit 8 (mask 8) :: int) n \<longleftrightarrow> 8 \<le> n \<and> n < 16" by (auto simp: bit_simps)
  then show ?thesis by (simp add: mask_eq_exp_minus_1 push_bit_eq_mult)
qed

lemma bit_0xff00 [simp]: "bit (0xff00 :: u16) n \<longleftrightarrow> 8 \<le> n \<and> n < 16"
proof -
  have "bit (push_bit 8 (mask 8) :: u16) n \<longleftrightarrow> 8 \<le> n \<and> n < 16" by (auto simp: bit_simps)
  then show ?thesis by (simp add: mask_eq_exp_minus_1 push_bit_eq_mult)
qed

lemma bit_byte_high [simp]: "8 \<le> n \<Longrightarrow> \<not> bit (b :: byte) n"
  using bit_imp_le_length [of b n] by auto

lemma hi8_be16 [simp]: "hi8 (be16 h l) = h"
  by (rule bit_eqI) (auto simp: hi8_def be16_def bit_simps)

lemma lo8_be16 [simp]: "lo8 (be16 h l) = l"
  by (rule bit_eqI) (auto simp: lo8_def be16_def bit_simps)

lemma be16_hi8_lo8 [simp]: "be16 (hi8 w) (lo8 w) = w"
proof (rule bit_eqI)
  fix n
  show "bit (be16 (hi8 w) (lo8 w)) n = bit w n"
    by (cases "8 \<le> n") (auto simp: hi8_def lo8_def be16_def bit_simps dest: bit_imp_le_length)
qed

lemma be16_inject [simp]: "be16 h l = be16 h' l' \<longleftrightarrow> h = h' \<and> l = l'"
  by (metis hi8_be16 lo8_be16)

end
