(* ===== verification/IO_Buffer.thy ===== *)
theory IO_Buffer
  imports Yass_Prelude
begin

text \<open>
  The I/O buffers of \<^verbatim>\<open>net/io_buffer.hpp\<close> and \<^verbatim>\<open>net/io_buffer.cpp\<close>.

  The class hierarchy is a hierarchy of records. \<open>mem\<close> is the memory block the buffer points into,
  \<open>buf_data\<close> the pointer as a position in that block (a null pointer is position 0 of the empty block)
  and \<open>buf_size\<close> the visible length. A \<^verbatim>\<open>GrowableIOBuffer\<close> owns its block, so its \<open>mem\<close> is the
  memory behind \<^verbatim>\<open>real_data_\<close>: it may be longer than \<open>capacity\<close>, because shrinking keeps the
  allocation. C++ \<^verbatim>\<open>int\<close>s are mathematical integers whose overflow, undefined in C++, is the
  value \<^const>\<open>None\<close>.
\<close>

definition INT_MAX :: int where
  "INT_MAX = 2147483647"

definition in_int :: "int \<Rightarrow> bool" where
  "in_int x \<longleftrightarrow> - INT_MAX - 1 \<le> x \<and> x \<le> INT_MAX"

lemma in_int_nonneg: "0 \<le> x \<Longrightarrow> in_int x \<longleftrightarrow> x \<le> INT_MAX"
  by (auto simp: in_int_def INT_MAX_def)

section \<open>IOBuffer and its subclasses\<close>

record io_buffer =
  mem :: "byte list"
  buf_data :: int
  buf_size :: int

definition iobuf_empty :: "'a io_buffer_scheme \<Rightarrow> bool" where
  "iobuf_empty b \<longleftrightarrow> buf_size b = 0"

definition span :: "'a io_buffer_scheme \<Rightarrow> byte list option" where
  "span b = (if 0 \<le> buf_data b \<and> 0 \<le> buf_size b then mem_slice (mem b) (nat (buf_data b)) (nat (buf_size b)) else None)"

definition AssertValidBufferSize :: "nat \<Rightarrow> unit option" where
  "AssertValidBufferSize n = (if int n \<le> INT_MAX then Some () else None)"

text \<open>\<^verbatim>\<open>IOBufferWithSize\<close>: the contents of \<^verbatim>\<open>new char[n]\<close> are indeterminate.\<close>

definition IOBufferWithSize :: "(nat \<Rightarrow> byte) \<Rightarrow> nat \<Rightarrow> io_buffer option" where
  "IOBufferWithSize junk n =
     do { AssertValidBufferSize n;
          Some (if n \<noteq> 0 then \<lparr>mem = map junk [0..<n], buf_data = 0, buf_size = int n\<rparr>
                else \<lparr>mem = [], buf_data = 0, buf_size = 0\<rparr>) }"

definition StringIOBuffer :: "byte list \<Rightarrow> io_buffer option" where
  "StringIOBuffer s =
     do { AssertValidBufferSize (length s);
          Some \<lparr>mem = s, buf_data = 0, buf_size = int (length s)\<rparr> }"

definition WrappedIOBuffer :: "byte list \<Rightarrow> nat \<Rightarrow> io_buffer option" where
  "WrappedIOBuffer m n =
     do { AssertValidBufferSize n;
          Some \<lparr>mem = m, buf_data = 0, buf_size = int n\<rparr> }"

subsection \<open>DrainableIOBuffer\<close>

text \<open>\<open>base_data\<close> is the pointer \<^verbatim>\<open>base_->data()\<close> of the wrapped buffer.\<close>

record drainable = io_buffer +
  base_data :: int
  used :: int

definition DrainableIOBuffer :: "'a io_buffer_scheme \<Rightarrow> nat \<Rightarrow> drainable option" where
  "DrainableIOBuffer base n =
     do { AssertValidBufferSize n;
          Some \<lparr>mem = mem base, buf_data = buf_data base, buf_size = int n,
                base_data = buf_data base, used = 0\<rparr> }"

definition SetOffset :: "int \<Rightarrow> drainable \<Rightarrow> drainable option" where
  "SetOffset bytes b =
     (if 0 \<le> bytes \<and> bytes \<le> buf_size b
      then Some (b\<lparr>used := bytes, buf_data := base_data b + bytes\<rparr>) else None)"

definition DidConsume :: "int \<Rightarrow> drainable \<Rightarrow> drainable option" where
  "DidConsume bytes b = (if in_int (used b + bytes) then SetOffset (used b + bytes) b else None)"

definition BytesRemaining :: "drainable \<Rightarrow> int" where
  "BytesRemaining b = buf_size b - used b"

definition BytesConsumed :: "drainable \<Rightarrow> int" where
  "BytesConsumed b = used b"

subsection \<open>GrowableIOBuffer\<close>

record growable = io_buffer +
  capacity :: int
  offset :: int

definition GrowableIOBuffer :: growable where
  "GrowableIOBuffer = \<lparr>mem = [], buf_data = 0, buf_size = 0, capacity = 0, offset = 0\<rparr>"

definition set_offset :: "int \<Rightarrow> growable \<Rightarrow> growable option" where
  "set_offset off b =
     (if 0 \<le> off \<and> off \<le> capacity b
      then Some (b\<lparr>offset := off, buf_data := off, buf_size := capacity b - off\<rparr>) else None)"

text \<open>An argument that is not an \<^verbatim>\<open>int\<close> stands for a sum that overflowed in the caller.\<close>

definition SetCapacity :: "(nat \<Rightarrow> byte) \<Rightarrow> int \<Rightarrow> growable \<Rightarrow> growable option" where
  "SetCapacity junk cap b =
     (if \<not> in_int cap then None
      else if \<not> 0 \<le> cap then None
      else if cap \<le> capacity b then set_offset (offset b) (b\<lparr>capacity := cap\<rparr>)
      else let b1 = b\<lparr>buf_data := 0, buf_size := 0\<rparr>;
               b2 = b1\<lparr>mem := mem_realloc junk (mem b1) (nat cap), capacity := cap\<rparr>
           in if offset b2 > cap then set_offset cap b2 else set_offset (offset b2) b2)"

definition RemainingCapacity :: "growable \<Rightarrow> int" where
  "RemainingCapacity b = capacity b - offset b"

definition everything :: "growable \<Rightarrow> byte list option" where
  "everything b = (if 0 \<le> capacity b then mem_slice (mem b) 0 (nat (capacity b)) else None)"

definition span_before_offset :: "growable \<Rightarrow> byte list option" where
  "span_before_offset b =
     do { e \<leftarrow> everything b;
          if 0 \<le> offset b \<and> nat (offset b) \<le> length e then Some (take (nat (offset b)) e) else None }"

text \<open>\<^verbatim>\<open>memcpy(_, buf->data() + i, n)\<close> and \<^verbatim>\<open>memcpy(buf->data() + i, xs, n)\<close>, the way callers read a
  buffer and fill one they have sized.\<close>

definition data_slice :: "growable \<Rightarrow> int \<Rightarrow> nat \<Rightarrow> byte list option" where
  "data_slice b i n = (if 0 \<le> buf_data b + i then mem_slice (mem b) (nat (buf_data b + i)) n else None)"

definition memcpy_data :: "int \<Rightarrow> byte list \<Rightarrow> growable \<Rightarrow> growable option" where
  "memcpy_data i xs b =
     (if 0 \<le> buf_data b + i
      then do { m \<leftarrow> mem_write (mem b) (nat (buf_data b + i)) xs; Some (b\<lparr>mem := m\<rparr>) } else None)"

definition appendBytesAtEnd :: "(nat \<Rightarrow> byte) \<Rightarrow> byte list \<Rightarrow> growable \<Rightarrow> growable option" where
  "appendBytesAtEnd junk bytes b =
     (let old_capacity = capacity b; len = int (length bytes) in
      if \<not> in_int (old_capacity + len) then None
      else do { b1 \<leftarrow> SetCapacity junk (old_capacity + len) b;
                m \<leftarrow> mem_write (mem b1) (nat old_capacity) bytes;
                Some (b1\<lparr>mem := m\<rparr>) })"

definition copyBuffer :: "(nat \<Rightarrow> byte) \<Rightarrow> byte list \<Rightarrow> growable option" where
  "copyBuffer junk bytes =
     (if \<not> in_int (int (length bytes)) then None
      else do { b \<leftarrow> SetCapacity junk (int (length bytes)) GrowableIOBuffer;
                memcpy_data 0 bytes b })"

definition copyFrom :: "(nat \<Rightarrow> byte) \<Rightarrow> 'a io_buffer_scheme \<Rightarrow> growable option" where
  "copyFrom junk b = do { xs \<leftarrow> span b; copyBuffer junk xs }"

section \<open>Invariants and visible bytes\<close>

definition growable_inv :: "growable \<Rightarrow> bool" where
  "growable_inv b \<longleftrightarrow>
     0 \<le> offset b \<and> offset b \<le> capacity b \<and> capacity b \<le> int (length (mem b)) \<and>
     capacity b \<le> INT_MAX \<and> buf_data b = offset b \<and> buf_size b = capacity b - offset b"

definition view :: "growable \<Rightarrow> byte list" where
  "view b = drop (nat (offset b)) (take (nat (capacity b)) (mem b))"

definition room :: "growable \<Rightarrow> nat" where
  "room b = nat (INT_MAX - capacity b)"

definition consume :: "nat \<Rightarrow> growable \<Rightarrow> growable option" where
  "consume n b = set_offset (offset b + int n) b"

definition drainable_inv :: "drainable \<Rightarrow> bool" where
  "drainable_inv b \<longleftrightarrow>
     0 \<le> used b \<and> used b \<le> buf_size b \<and> buf_size b \<le> INT_MAX \<and> 0 \<le> base_data b \<and>
     base_data b + buf_size b \<le> int (length (mem b)) \<and> buf_data b = base_data b + used b"

definition unconsumed :: "drainable \<Rightarrow> byte list" where
  "unconsumed b = take (nat (BytesRemaining b)) (drop (nat (buf_data b)) (mem b))"

text \<open>
  Running a consumer: \<open>drain\<close> takes the given numbers of bytes off the front one after the other
  and collects the pieces a client saw; \<open>run_ops\<close> interleaves that with bytes being appended.
\<close>

datatype buf_op = Append "byte list" | Consume nat

primrec drain :: "('b \<Rightarrow> byte list) \<Rightarrow> (nat \<Rightarrow> 'b \<Rightarrow> 'b option) \<Rightarrow> nat list \<Rightarrow> 'b
    \<Rightarrow> (byte list \<times> 'b) option" where
  "drain vw eat [] b = Some ([], b)"
| "drain vw eat (n # ns) b =
     do { b1 \<leftarrow> eat n b; (xs, b2) \<leftarrow> drain vw eat ns b1; Some (take n (vw b) @ xs, b2) }"

primrec run_ops :: "('b \<Rightarrow> byte list) \<Rightarrow> (byte list \<Rightarrow> 'b \<Rightarrow> 'b option) \<Rightarrow>
    (nat \<Rightarrow> 'b \<Rightarrow> 'b option) \<Rightarrow> buf_op list \<Rightarrow> 'b \<Rightarrow> (byte list \<times> 'b) option" where
  "run_ops vw app eat [] b = Some ([], b)"
| "run_ops vw app eat (oper # os) b =
     (case oper of
        Append xs \<Rightarrow> do { b1 \<leftarrow> app xs b; run_ops vw app eat os b1 }
      | Consume n \<Rightarrow> do { b1 \<leftarrow> eat n b; (ys, b2) \<leftarrow> run_ops vw app eat os b1; Some (take n (vw b) @ ys, b2) })"

primrec appended :: "buf_op list \<Rightarrow> byte list" where
  "appended [] = []"
| "appended (oper # os) = (case oper of Append xs \<Rightarrow> xs @ appended os | Consume n \<Rightarrow> appended os)"

text \<open>The interleavings that fit: \<open>n\<close> bytes are visible and \<open>r\<close> more fit.\<close>

primrec ops_fit :: "buf_op list \<Rightarrow> nat \<Rightarrow> nat \<Rightarrow> bool" where
  "ops_fit [] n r \<longleftrightarrow> True"
| "ops_fit (oper # os) n r \<longleftrightarrow>
     (case oper of
        Append xs \<Rightarrow> length xs \<le> r \<and> ops_fit os (n + length xs) (r - length xs)
      | Consume k \<Rightarrow> k \<le> n \<and> ops_fit os (n - k) r)"

section \<open>The contract of a buffer that is read from the front\<close>

locale consumable =
  fixes inv :: "'b \<Rightarrow> bool"
    and vw :: "'b \<Rightarrow> byte list"
    and eat :: "nat \<Rightarrow> 'b \<Rightarrow> 'b option"
  assumes eat_ok: "inv b \<Longrightarrow> n \<le> length (vw b) \<Longrightarrow> \<exists>b'. eat n b = Some b' \<and> inv b' \<and> vw b' = drop n (vw b)"
    and eat_too_much: "inv b \<Longrightarrow> length (vw b) < n \<Longrightarrow> eat n b = None"
begin

lemma eat_SomeD:
  assumes "inv b" "eat n b = Some b'"
  shows "n \<le> length (vw b) \<and> inv b' \<and> vw b' = drop n (vw b)"
  using assms eat_ok [of b n] eat_too_much [of b n] by (cases "n \<le> length (vw b)") auto

lemma drain_ok:
  "inv b \<Longrightarrow> sum_list ns \<le> length (vw b) \<Longrightarrow>
     \<exists>b'. drain vw eat ns b = Some (take (sum_list ns) (vw b), b') \<and> inv b' \<and>
          vw b' = drop (sum_list ns) (vw b)"
proof (induction ns arbitrary: b)
  case (Cons n ns)
  then obtain b1 where b1: "eat n b = Some b1" "inv b1" "vw b1 = drop n (vw b)"
    using eat_ok [of b n] by auto
  moreover have "sum_list ns \<le> length (vw b1)" using Cons.prems b1 by simp
  ultimately obtain b' where
    "drain vw eat ns b1 = Some (take (sum_list ns) (vw b1), b')" "inv b'"
    "vw b' = drop (sum_list ns) (vw b1)"
    using Cons.IH by blast
  with b1 show ?case by (simp add: take_add add.commute)
qed simp

lemma drain_too_much:
  "inv b \<Longrightarrow> length (vw b) < sum_list ns \<Longrightarrow> drain vw eat ns b = None"
proof (induction ns arbitrary: b)
  case (Cons n ns)
  show ?case
  proof (cases "eat n b")
    case (Some b1)
    with Cons.prems have "inv b1" "length (vw b1) < sum_list ns"
      using eat_SomeD [of b n b1] by auto
    with Cons.IH Some show ?thesis by simp
  qed simp
qed simp

end

locale byte_buffer = consumable inv vw eat
  for inv :: "'b \<Rightarrow> bool" and vw :: "'b \<Rightarrow> byte list" and eat :: "nat \<Rightarrow> 'b \<Rightarrow> 'b option" +
  fixes app :: "byte list \<Rightarrow> 'b \<Rightarrow> 'b option"
    and rm :: "'b \<Rightarrow> nat"
  assumes app_ok: "inv b \<Longrightarrow> length xs \<le> rm b \<Longrightarrow>
      \<exists>b'. app xs b = Some b' \<and> inv b' \<and> vw b' = vw b @ xs \<and> rm b' = rm b - length xs"
    and app_full: "inv b \<Longrightarrow> rm b < length xs \<Longrightarrow> app xs b = None"
    and eat_room: "inv b \<Longrightarrow> eat n b = Some b' \<Longrightarrow> rm b' = rm b"
begin

lemma app_SomeD:
  assumes "inv b" "app xs b = Some b'"
  shows "inv b' \<and> vw b' = vw b @ xs"
  using assms app_ok [of b xs] app_full [of b xs] by (cases "length xs \<le> rm b") auto

text \<open>No byte is lost, duplicated or reordered, however appends and reads interleave.\<close>

lemma run_ops_returns_iff:
  "inv b \<Longrightarrow> run_ops vw app eat os b \<noteq> None \<longleftrightarrow> ops_fit os (length (vw b)) (rm b)"
proof (induction os arbitrary: b)
  case (Cons oper os)
  show ?case
  proof (cases oper)
    case (Append xs)
    show ?thesis
    proof (cases "length xs \<le> rm b")
      case True
      then obtain b1 where "app xs b = Some b1" "inv b1" "vw b1 = vw b @ xs" "rm b1 = rm b - length xs"
        using app_ok [OF Cons.prems] by auto
      with Cons.IH [of b1] Append True show ?thesis by simp
    qed (use Append app_full [OF Cons.prems] in simp)
  next
    case (Consume n)
    show ?thesis
    proof (cases "n \<le> length (vw b)")
      case True
      then obtain b1 where "eat n b = Some b1" "inv b1" "vw b1 = drop n (vw b)"
        using eat_ok [OF Cons.prems] by auto
      with Cons.IH [of b1] eat_room [OF Cons.prems] Consume True show ?thesis
        by (auto simp: bind_eq_None_conv split: option.splits)
    qed (use Consume eat_too_much [OF Cons.prems] in simp)
  qed
qed simp

lemma run_ops_conserves:
  "inv b \<Longrightarrow> run_ops vw app eat os b = Some (ys, b') \<Longrightarrow> inv b' \<and> ys @ vw b' = vw b @ appended os"
proof (induction os arbitrary: b ys)
  case (Cons oper os)
  show ?case
  proof (cases oper)
    case (Append xs)
    with Cons.prems obtain b1 where b1: "app xs b = Some b1" "run_ops vw app eat os b1 = Some (ys, b')"
      by (auto simp: bind_eq_Some_conv)
    with Cons.prems have "inv b1" "vw b1 = vw b @ xs" using app_SomeD [of b xs b1] by auto
    with Cons.IH [OF \<open>inv b1\<close> b1(2)] Append show ?thesis by simp
  next
    case (Consume n)
    with Cons.prems obtain b1 zs where b1: "eat n b = Some b1" "run_ops vw app eat os b1 = Some (zs, b')"
      "ys = take n (vw b) @ zs" by (auto simp: bind_eq_Some_conv)
    with Cons.prems have "inv b1" "vw b1 = drop n (vw b)" using eat_SomeD [of b n b1] by auto
    with Cons.IH [OF \<open>inv b1\<close> b1(2)] b1 Consume show ?thesis by simp
  qed
qed simp

end

section \<open>GrowableIOBuffer meets its contract\<close>

lemmas growable_unfolds = growable_inv_def view_def set_offset_def SetCapacity_def

lemma length_view: "growable_inv b \<Longrightarrow> length (view b) = nat (buf_size b)"
  by (auto simp: growable_inv_def view_def min_def nat_diff_distrib)

lemma buf_size_view [buf_simps]: "growable_inv b \<Longrightarrow> buf_size b = int (length (view b))"
  by (simp add: length_view) (simp add: growable_inv_def)

lemma RemainingCapacity_view [buf_simps]: "growable_inv b \<Longrightarrow> RemainingCapacity b = int (length (view b))"
  by (simp add: buf_size_view [symmetric]) (simp add: growable_inv_def RemainingCapacity_def)

lemma iobuf_empty_view [buf_simps]: "growable_inv b \<Longrightarrow> iobuf_empty b \<longleftrightarrow> view b = []"
  by (simp add: iobuf_empty_def buf_size_view)

lemma span_view [buf_simps]: "growable_inv b \<Longrightarrow> span b = Some (view b)"
  by (auto simp: span_def growable_inv_def view_def mem_slice_def drop_take nat_diff_distrib)

lemma new_buffer [simp]: "growable_inv GrowableIOBuffer" "view GrowableIOBuffer = []"
    "capacity GrowableIOBuffer = 0" "offset GrowableIOBuffer = 0"
  by (simp_all add: GrowableIOBuffer_def growable_inv_def view_def INT_MAX_def)

lemma set_offset_ok:
  assumes "growable_inv b" "0 \<le> off" "off \<le> capacity b"
  shows "\<exists>b'. set_offset off b = Some b' \<and> growable_inv b' \<and> offset b' = off \<and>
     capacity b' = capacity b \<and> mem b' = mem b"
  using assms by (simp add: growable_unfolds)

lemma set_offset_None: "off < 0 \<or> capacity b < off \<Longrightarrow> set_offset off b = None"
  by (auto simp: set_offset_def)

lemma SetCapacity_shrink:
  assumes "growable_inv b" "offset b \<le> cap" "cap \<le> capacity b"
  shows "\<exists>b'. SetCapacity junk cap b = Some b' \<and> growable_inv b' \<and> offset b' = offset b \<and>
     capacity b' = cap \<and> view b' = take (nat (cap - offset b)) (view b)"
  using assms by (auto simp: growable_unfolds in_int_nonneg drop_take nat_diff_distrib min_def)

lemma SetCapacity_grow:
  assumes "growable_inv b" "capacity b \<le> cap" "cap \<le> INT_MAX"
  shows "\<exists>b' fresh. SetCapacity junk cap b = Some b' \<and> growable_inv b' \<and> offset b' = offset b \<and>
     capacity b' = cap \<and> view b' = view b @ fresh \<and> length fresh = nat (cap - capacity b)"
proof (cases "cap = capacity b")
  case True
  then show ?thesis using SetCapacity_shrink [of b cap junk] assms
    by (auto simp: growable_inv_def view_def)
next
  case False
  let ?m = "mem_realloc junk (mem b) (nat cap)"
  let ?b = "b\<lparr>mem := ?m, capacity := cap, buf_data := offset b, buf_size := cap - offset b\<rparr>"
  have "SetCapacity junk cap b = Some ?b"
    using assms False by (auto simp: growable_unfolds in_int_nonneg Let_def)
  moreover have inv: "growable_inv ?b" using assms False by (auto simp: growable_inv_def)
  moreover have "take (length (view b)) (view ?b) = view b"
  proof -
    have "take (nat (capacity b)) ?m = take (nat (capacity b)) (mem b)"
      using assms False by (intro take_mem_realloc) (auto simp: growable_inv_def)
    then have "drop (nat (offset b)) (take (nat (capacity b)) ?m) = view b" by (simp add: view_def)
    moreover have "length (view b) = nat (capacity b) - nat (offset b)"
      using assms by (simp add: length_view growable_inv_def nat_diff_distrib)
    ultimately show ?thesis
      using assms by (simp add: view_def [of ?b] drop_take min_absorb1 nat_mono diff_le_mono)
  qed
  then have "view ?b = view b @ drop (length (view b)) (view ?b)" by (metis append_take_drop_id)
  moreover have "length (drop (length (view b)) (view ?b)) = nat (cap - capacity b)"
    using assms length_view [OF inv] length_view [OF assms(1)] by (auto simp: growable_inv_def)
  ultimately show ?thesis by (intro exI conjI) auto
qed

lemma SetCapacity_None: "growable_inv b \<Longrightarrow> cap < offset b \<Longrightarrow> SetCapacity junk cap b = None"
  by (auto simp: growable_unfolds)

lemma memcpy_data_ok:
  assumes "growable_inv b" "0 \<le> i" "nat i + length xs \<le> length (view b)"
  shows "\<exists>b'. memcpy_data i xs b = Some b' \<and> growable_inv b' \<and> offset b' = offset b \<and>
     capacity b' = capacity b \<and> view b' = take (nat i) (view b) @ xs @ drop (nat i + length xs) (view b)"
proof -
  let ?k = "nat (offset b) + nat i"
  let ?m = "take ?k (mem b) @ xs @ drop (?k + length xs) (mem b)"
  have bounds: "?k + length xs \<le> nat (capacity b)" "nat (capacity b) \<le> length (mem b)"
    using assms length_view [OF assms(1)] by (auto simp: growable_inv_def)
  have "memcpy_data i xs b = Some (b\<lparr>mem := ?m\<rparr>)"
    using assms bounds by (auto simp: memcpy_data_def growable_inv_def mem_write_def nat_add_distrib)
  moreover have "growable_inv (b\<lparr>mem := ?m\<rparr>)" using assms bounds by (auto simp: growable_inv_def)
  moreover have "view (b\<lparr>mem := ?m\<rparr>) = take (nat i) (view b) @ xs @ drop (nat i + length xs) (view b)"
    using window_write [OF bounds] by (simp add: view_def)
  ultimately show ?thesis by simp
qed

text \<open>
  Enlarge by \<open>n\<close> bytes, then fill exactly those: the idiom of every writer of a growable buffer
  (\<^verbatim>\<open>appendBytesAtEnd\<close>, the frame encoder of the cipher, the padding encoder).
\<close>

lemma grow_and_fill:
  assumes "growable_inv b" "capacity b + int (length xs) \<le> INT_MAX"
    "SetCapacity junk (capacity b + int (length xs)) b = Some b1"
  shows "\<exists>b2. memcpy_data (int (length (view b))) xs b1 = Some b2 \<and> growable_inv b2 \<and>
     view b2 = view b @ xs \<and> offset b2 = offset b \<and> capacity b2 = capacity b + int (length xs)"
proof -
  obtain fresh where b1: "growable_inv b1" "view b1 = view b @ fresh" "length fresh = length xs"
    "offset b1 = offset b" "capacity b1 = capacity b + int (length xs)"
    using SetCapacity_grow [of b "capacity b + int (length xs)" junk] assms by auto
  then show ?thesis using memcpy_data_ok [OF b1(1), of "int (length (view b))" xs] by auto
qed

lemma appendBytesAtEnd_memcpy:
  assumes "growable_inv b"
  shows "appendBytesAtEnd junk xs b =
    (if capacity b + int (length xs) \<le> INT_MAX
     then do { b1 \<leftarrow> SetCapacity junk (capacity b + int (length xs)) b;
               memcpy_data (int (length (view b))) xs b1 } else None)"
proof (cases "capacity b + int (length xs) \<le> INT_MAX")
  case True
  obtain b1 where b1: "SetCapacity junk (capacity b + int (length xs)) b = Some b1"
    "growable_inv b1" "offset b1 = offset b"
    using SetCapacity_grow [OF assms, of "capacity b + int (length xs)" junk] True by auto
  have "buf_data b1 + int (length (view b)) = capacity b"
    using assms b1 length_view [OF assms] by (simp add: growable_inv_def)
  then show ?thesis using b1 True assms
    by (simp add: appendBytesAtEnd_def Let_def in_int_def memcpy_data_def growable_inv_def INT_MAX_def)
qed (use assms in \<open>simp add: appendBytesAtEnd_def in_int_def\<close>)

lemma appendBytesAtEnd_ok:
  assumes "growable_inv b" "length xs \<le> room b"
  shows "\<exists>b'. appendBytesAtEnd junk xs b = Some b' \<and> growable_inv b' \<and> view b' = view b @ xs \<and>
     offset b' = offset b \<and> capacity b' = capacity b + int (length xs)"
proof -
  have le: "capacity b + int (length xs) \<le> INT_MAX"
    using assms by (auto simp: room_def growable_inv_def)
  obtain b1 where "SetCapacity junk (capacity b + int (length xs)) b = Some b1"
    using SetCapacity_grow [OF assms(1), of "capacity b + int (length xs)" junk] le by auto
  with grow_and_fill [OF assms(1) le this] le show ?thesis by (simp add: appendBytesAtEnd_memcpy assms)
qed

lemma copyBuffer_ok:
  assumes "int (length xs) \<le> INT_MAX"
  shows "\<exists>b. copyBuffer junk xs = Some b \<and> growable_inv b \<and> view b = xs \<and> offset b = 0 \<and>
     capacity b = int (length xs)"
proof -
  obtain b1 where b1: "SetCapacity junk (int (length xs)) GrowableIOBuffer = Some b1"
    using SetCapacity_grow [of GrowableIOBuffer "int (length xs)" junk] assms by auto
  with grow_and_fill [of GrowableIOBuffer xs junk b1] assms show ?thesis
    by (simp add: copyBuffer_def in_int_def INT_MAX_def)
qed

lemma copyFrom_ok:
  assumes "growable_inv b"
  shows "\<exists>c. copyFrom junk b = Some c \<and> growable_inv c \<and> view c = view b"
proof -
  have "int (length (view b)) \<le> INT_MAX"
    using assms length_view [OF assms] by (auto simp: growable_inv_def)
  with copyBuffer_ok [of "view b" junk] show ?thesis by (auto simp: copyFrom_def span_view assms)
qed

interpretation gb: byte_buffer growable_inv view consume "appendBytesAtEnd junk" room
proof (standard, goal_cases)
  case (1 b n)
  then have "offset b + int n \<le> capacity b" by (auto simp: length_view growable_inv_def)
  with 1 show ?case using set_offset_ok [of b "offset b + int n"]
    by (auto simp: consume_def growable_inv_def view_def nat_add_distrib add.commute)
next
  case (2 b n)
  then have "capacity b < offset b + int n" by (auto simp: length_view growable_inv_def)
  then show ?case by (simp add: consume_def set_offset_None)
next
  case (3 b xs)
  then show ?case using appendBytesAtEnd_ok [of b xs junk] by (auto simp: room_def)
next
  case (4 b xs)
  then show ?case by (auto simp: appendBytesAtEnd_memcpy room_def)
next
  case (5 b n b')
  then show ?case by (auto simp: consume_def set_offset_def room_def split: if_splits)
qed

section \<open>DrainableIOBuffer meets its contract\<close>

interpretation db: consumable drainable_inv unconsumed "\<lambda>n. DidConsume (int n)"
proof (standard, goal_cases)
  case (1 b n)
  have "length (unconsumed b) = nat (BytesRemaining b)"
    using 1 by (auto simp: unconsumed_def drainable_inv_def BytesRemaining_def)
  with 1 have "int n \<le> buf_size b - used b" by (auto simp: BytesRemaining_def drainable_inv_def)
  moreover define b' where "b' = b\<lparr>used := used b + int n, buf_data := base_data b + (used b + int n)\<rparr>"
  ultimately have "DidConsume (int n) b = Some b'" "drainable_inv b'"
    using 1(1) by (auto simp: DidConsume_def SetOffset_def in_int_def INT_MAX_def drainable_inv_def)
  moreover have "unconsumed b' = drop n (unconsumed b)"
  proof -
    have "nat (buf_data b') = nat (buf_data b) + n"
      "nat (BytesRemaining b') = nat (BytesRemaining b) - n"
      using 1(1) by (auto simp: b'_def drainable_inv_def BytesRemaining_def)
    then show ?thesis by (simp add: unconsumed_def drop_take add.commute) (simp add: b'_def)
  qed
  ultimately show ?case by blast
next
  case (2 b n)
  then show ?case
    by (auto simp: DidConsume_def SetOffset_def drainable_inv_def unconsumed_def BytesRemaining_def)
qed

lemma DrainableIOBuffer_ok:
  assumes "0 \<le> buf_data base" "buf_data base + int n \<le> int (length (mem base))" "int n \<le> INT_MAX"
  shows "\<exists>d. DrainableIOBuffer base n = Some d \<and> drainable_inv d \<and> buf_data d = buf_data base \<and>
     mem d = mem base \<and> buf_size d = int n \<and> unconsumed d = take n (drop (nat (buf_data base)) (mem base))"
  using assms
  by (simp add: DrainableIOBuffer_def AssertValidBufferSize_def drainable_inv_def unconsumed_def BytesRemaining_def)

section \<open>Buffers seen through their visible bytes\<close>

lemma data_slice_view:
  assumes "growable_inv b" "n \<le> length (view b)"
  shows "data_slice b 0 n = Some (take n (view b))"
proof -
  have "nat (offset b) + n \<le> nat (capacity b)" "nat (capacity b) \<le> length (mem b)"
    using assms length_view [OF assms(1)] by (auto simp: growable_inv_def)
  then show ?thesis
    using assms(1) by (auto simp: data_slice_def growable_inv_def mem_slice_def view_def drop_take min_def)
qed

lemma set_offset_advance:
  assumes "growable_inv b" "n \<le> length (view b)"
  shows "\<exists>b'. set_offset (offset b + int n) b = Some b' \<and> growable_inv b' \<and> view b' = drop n (view b) \<and>
     offset b' = offset b + int n \<and> capacity b' = capacity b"
  using gb.eat_ok [OF assms] assms(1)
  by (auto simp: consume_def set_offset_def growable_inv_def split: if_splits)

lemma set_offset_return:
  assumes "growable_inv b" "set_offset x b = Some b'"
  shows "set_offset (offset b) b' = Some b"
  using assms by (auto simp: set_offset_def growable_inv_def split: if_splits)

lemma memcpy_append:
  assumes "growable_inv b" "view b = xs @ ys @ zs"
    "length ys = length ws"
  shows "\<exists>b'. memcpy_data (int (length xs)) ws b = Some b' \<and> growable_inv b' \<and> view b' = xs @ ws @ zs \<and>
     offset b' = offset b \<and> capacity b' = capacity b"
  using memcpy_data_ok [OF assms(1), of "int (length xs)" ws] assms by auto

text \<open>A new buffer with the bytes of an old one and more bytes after them.\<close>

lemma append_copy:
  assumes "growable_inv p" "int (length (view p)) + int (length xs) \<le> INT_MAX"
  shows "\<exists>b1 b2 b. SetCapacity junk (int (length (view p)) + int (length xs)) GrowableIOBuffer = Some b1 \<and>
    memcpy_data 0 (view p) b1 = Some b2 \<and> memcpy_data (int (length (view p))) xs b2 = Some b \<and>
    growable_inv b \<and> view b = view p @ xs"
proof -
  let ?sz = "int (length (view p)) + int (length xs)"
  obtain b1 fresh where b1: "SetCapacity junk ?sz GrowableIOBuffer = Some b1" "growable_inv b1"
    "view b1 = fresh" "length fresh = length (view p) + length xs"
    using SetCapacity_grow [of GrowableIOBuffer ?sz junk] assms(2) by auto
  define f1 f2 where "f1 = take (length (view p)) fresh" and "f2 = drop (length (view p)) fresh"
  have f: "view b1 = [] @ f1 @ f2" "length f1 = length (view p)" "length f2 = length xs"
    using b1(3,4) by (simp_all add: f1_def f2_def)
  obtain b2 where b2: "memcpy_data 0 (view p) b1 = Some b2" "growable_inv b2" "view b2 = view p @ f2 @ []"
    using memcpy_append [OF b1(2) f(1,2)] by auto
  obtain b3 where "memcpy_data (int (length (view p))) xs b2 = Some b3" "growable_inv b3" "view b3 = view p @ xs"
    using memcpy_append [OF b2(2,3) f(3)] by auto
  with b1(1) b2(1) show ?thesis by blast
qed

section \<open>Properties\<close>

text \<open>C4: Appends and reads on a \<^verbatim>\<open>GrowableIOBuffer\<close>, interleaved in any order, return exactly when
  no read asks for more than is buffered and the capacity stays an \<^verbatim>\<open>int\<close>; the bytes read, followed
  by the bytes still visible, are the bytes that were visible followed by the bytes appended. The
  reallocations in between lose nothing, whatever fresh memory contains.\<close>

theorem growable_stream:
  assumes "growable_inv b"
  shows "(run_ops view (appendBytesAtEnd junk) consume os b \<noteq> None \<longleftrightarrow> ops_fit os (length (view b)) (room b)) \<and>
    (\<forall>ys b'. run_ops view (appendBytesAtEnd junk) consume os b = Some (ys, b') \<longrightarrow>
       growable_inv b' \<and> ys @ view b' = view b @ appended os)"
  using gb.run_ops_returns_iff [OF assms] gb.run_ops_conserves [OF assms] by blast

theorem growable_stream_witness:
  "growable_inv GrowableIOBuffer \<and>
   run_ops view (appendBytesAtEnd (\<lambda>_. 0)) consume [Append [1, 2, 3], Consume 2, Append [4]] GrowableIOBuffer \<noteq> None"
  using growable_stream [OF new_buffer(1), of "\<lambda>_. 0" "[Append [1, 2, 3], Consume 2, Append [4]]"]
  by (simp add: room_def INT_MAX_def del: run_ops.simps)

text \<open>\<^verbatim>\<open>SetCapacity\<close> on a well-formed buffer: below the current offset it aborts (the branch that
  clamps the offset is never reached, because shrinking takes the early return); otherwise the offset
  is unchanged, the new capacity is the one asked for and the visible bytes are kept up to it.\<close>

theorem SetCapacity_spec:
  assumes "growable_inv b" "cap \<le> INT_MAX"
  shows "if cap < offset b then SetCapacity junk cap b = None
    else \<exists>b'. SetCapacity junk cap b = Some b' \<and> growable_inv b' \<and> offset b' = offset b \<and>
           capacity b' = cap \<and> length (view b') = nat (cap - offset b) \<and>
           take (length (view b)) (view b') = take (nat (cap - offset b)) (view b)"
proof (cases "cap \<le> capacity b")
  case True
  then show ?thesis
    using assms SetCapacity_None [of b cap junk] SetCapacity_shrink [of b cap junk]
    by (auto simp: length_view growable_inv_def)
next
  case False
  then show ?thesis
    using assms SetCapacity_grow [of b cap junk]
    by (fastforce simp: length_view growable_inv_def)
qed

theorem SetCapacity_spec_witness:
  "SetCapacity (\<lambda>_. 0) 1 \<lparr>mem = [1, 2, 3], buf_data = 2, buf_size = 1, capacity = 3, offset = 2\<rparr> = None"
  using SetCapacity_spec [of "\<lparr>mem = [1, 2, 3], buf_data = 2, buf_size = 1, capacity = 3, offset = 2\<rparr>" 1 "\<lambda>_. 0"]
  by (simp add: growable_inv_def INT_MAX_def)

text \<open>The write loop \<^verbatim>\<open>DrainableIOBuffer\<close> is documented for: consuming a payload in pieces of
  any sizes that add up to its length hands out exactly the payload and leaves nothing, and consuming
  more than the payload aborts.\<close>

theorem drainable_writes_payload:
  assumes "0 \<le> buf_data base" "buf_data base + int n \<le> int (length (mem base))" "int n \<le> INT_MAX"
  shows "\<exists>d. DrainableIOBuffer base n = Some d \<and>
    (\<forall>ns. sum_list ns = n \<longrightarrow>
       (\<exists>d'. drain unconsumed (\<lambda>k. DidConsume (int k)) ns d =
               Some (take n (drop (nat (buf_data base)) (mem base)), d') \<and> unconsumed d' = [])) \<and>
    (\<forall>ns. n < sum_list ns \<longrightarrow> drain unconsumed (\<lambda>k. DidConsume (int k)) ns d = None)"
proof -
  obtain d where d: "DrainableIOBuffer base n = Some d" "drainable_inv d"
    "unconsumed d = take n (drop (nat (buf_data base)) (mem base))"
    using DrainableIOBuffer_ok [OF assms] by auto
  then have len: "length (unconsumed d) = n" using assms by auto
  have "\<exists>d'. drain unconsumed (\<lambda>k. DidConsume (int k)) ns d = Some (unconsumed d, d') \<and> unconsumed d' = []"
    if "sum_list ns = n" for ns
    using db.drain_ok [OF d(2), of ns] that len by auto
  moreover have "drain unconsumed (\<lambda>k. DidConsume (int k)) ns d = None" if "n < sum_list ns" for ns
    using db.drain_too_much [OF d(2)] that len by simp
  ultimately show ?thesis using d by auto
qed

theorem drainable_writes_payload_witness:
  "\<exists>d d'. DrainableIOBuffer \<lparr>mem = [7, 8, 9], buf_data = 0, buf_size = 3\<rparr> 3 = Some d \<and>
     drain unconsumed (\<lambda>k. DidConsume (int k)) [1, 2] d = Some ([7, 8, 9], d')"
proof -
  obtain d where "DrainableIOBuffer \<lparr>mem = [7, 8, 9], buf_data = 0, buf_size = 3\<rparr> 3 = Some d"
    and d: "\<And>ns. sum_list ns = 3 \<Longrightarrow>
      \<exists>d'. drain unconsumed (\<lambda>k. DidConsume (int k)) ns d = Some ([7, 8, 9], d')"
    using drainable_writes_payload [of "\<lparr>mem = [7, 8, 9], buf_data = 0, buf_size = 3\<rparr>" 3]
    by (simp add: INT_MAX_def) blast
  with d [of "[1, 2]"] show ?thesis by (simp del: drain.simps)
qed

text \<open>A \<^verbatim>\<open>DrainableIOBuffer\<close> over a whole block keeps reporting its original \<^verbatim>\<open>size()\<close> after
  bytes were consumed while \<^verbatim>\<open>data()\<close> has moved on, so the inherited \<^verbatim>\<open>span()\<close> reaches past the end
  of the block.\<close>

theorem drainable_span_overruns:
  assumes "0 < k" "k \<le> length s" "int (length s) \<le> INT_MAX" "StringIOBuffer s = Some base"
    "DrainableIOBuffer base (length s) = Some d" "DidConsume (int k) d = Some d'"
  shows "span d' = None \<and> BytesRemaining d' = int (length s - k)"
  using assms
  by (auto simp: StringIOBuffer_def DrainableIOBuffer_def AssertValidBufferSize_def DidConsume_def SetOffset_def
      span_def BytesRemaining_def mem_slice_def of_nat_diff split: if_splits)

theorem drainable_span_overruns_witness:
  "\<exists>base d d'. StringIOBuffer [1, 2, 3] = Some base \<and> DrainableIOBuffer base 3 = Some d \<and>
     DidConsume 1 d = Some d' \<and> span d' = None"
  using drainable_span_overruns [of 1 "[1, 2, 3]"]
  by (simp add: StringIOBuffer_def DrainableIOBuffer_def AssertValidBufferSize_def DidConsume_def
      SetOffset_def in_int_def INT_MAX_def)

end
