(* ===== verification/IO_Queue.thy ===== *)
theory IO_Queue
  imports IO_Buffer
begin

text \<open>
  The ring buffer \<^verbatim>\<open>IoQueue\<close> of \<^verbatim>\<open>net/io_queue.hpp\<close>, which holds the buffers that wait to be
  written to a socket. A slot is \<^const>\<open>None\<close> when it holds a null pointer. \<open>dql\<close> is the template
  parameter \<^verbatim>\<open>DEFAULT_QUEUE_LENGTH\<close> (8 or 16, at least 2). An access outside the vector is the
  result \<^const>\<open>None\<close> of the operation. The queue is shown to implement a list: one contract
  (locale \<open>fifo\<close>) and one simulation lemma per operation.
\<close>

section \<open>The ring buffer\<close>

record 'a ioqueue =
  idx :: nat
  end_idx :: nat
  queue :: "'a option list"

definition IoQueue :: "nat \<Rightarrow> 'a ioqueue" where
  "IoQueue dql = \<lparr>idx = 0, end_idx = 0, queue = replicate dql None\<rparr>"

definition IoQueue_move :: "nat \<Rightarrow> 'a ioqueue \<Rightarrow> 'a ioqueue \<times> 'a ioqueue" where
  "IoQueue_move dql rhs =
     (let this = IoQueue dql;
          this1 = this\<lparr>idx := idx rhs, end_idx := end_idx rhs\<rparr>
      in (this1\<lparr>queue := queue rhs\<rparr>, rhs\<lparr>queue := queue this1, idx := 0, end_idx := 0\<rparr>))"

definition move_assign :: "nat \<Rightarrow> 'a ioqueue \<Rightarrow> 'a ioqueue \<Rightarrow> 'a ioqueue \<times> 'a ioqueue" where
  "move_assign dql this rhs =
     (let this1 = this\<lparr>idx := idx rhs, end_idx := end_idx rhs\<rparr>;
          this2 = this1\<lparr>queue := queue rhs\<rparr>;
          rhs1 = rhs\<lparr>queue := queue this1, idx := 0, end_idx := 0\<rparr>;
          empty_queue = replicate dql None
      in (this2, rhs1\<lparr>queue := empty_queue\<rparr>))"

definition ioq_empty :: "'a ioqueue \<Rightarrow> bool" where
  "ioq_empty q \<longleftrightarrow> idx q = end_idx q"

definition vector_insert_end :: "'a list \<Rightarrow> 'a list \<Rightarrow> nat \<Rightarrow> nat \<Rightarrow> 'a list" where
  "vector_insert_end v src i j = v @ drop i (take j src)"

definition enlarge_queue_by_2x :: "'a ioqueue \<Rightarrow> 'a ioqueue" where
  "enlarge_queue_by_2x q =
     (let n = length (queue q);
          new_queue =
            (if idx q < end_idx q then vector_insert_end [] (queue q) (idx q) (end_idx q)
             else vector_insert_end (vector_insert_end [] (queue q) (idx q) n) (queue q) 0 (end_idx q));
          resized = take (2 * n) new_queue @ replicate (2 * n - length new_queue) None
      in \<lparr>idx = 0, end_idx = n, queue = resized\<rparr>)"

definition push_back :: "'a \<Rightarrow> 'a ioqueue \<Rightarrow> 'a ioqueue option" where
  "push_back buf q =
     (if \<not> end_idx q < length (queue q) then None
      else let q1 = q\<lparr>queue := (queue q)[end_idx q := Some buf]\<rparr>;
               q2 = q1\<lparr>end_idx := (end_idx q1 + 1) mod length (queue q1)\<rparr>
           in if end_idx q2 = idx q2 then Some (enlarge_queue_by_2x q2) else Some q2)"

definition push_back_bytes :: "(nat \<Rightarrow> byte) \<Rightarrow> byte list \<Rightarrow> growable ioqueue \<Rightarrow> growable ioqueue option" where
  "push_back_bytes junk bytes q = do { buf \<leftarrow> copyBuffer junk bytes; push_back buf q }"

text \<open>The inner option of \<open>front\<close> and \<open>ioq_back\<close> is the pointer that is returned.\<close>

definition front :: "'a ioqueue \<Rightarrow> 'a option option" where
  "front q = (if idx q < length (queue q) then Some (queue q ! idx q) else None)"

definition pop_front :: "'a ioqueue \<Rightarrow> 'a ioqueue option" where
  "pop_front q =
     (if \<not> idx q < length (queue q) then None
      else let q1 = q\<lparr>queue := (queue q)[idx q := None]\<rparr>
           in Some (q1\<lparr>idx := (idx q1 + 1) mod length (queue q1)\<rparr>))"

definition ioq_back :: "'a ioqueue \<Rightarrow> 'a option option" where
  "ioq_back q =
     (let n = length (queue q) in
      if n = 0 then None
      else let i = (end_idx q + n - 1) mod n in Some (queue q ! i))"

definition ioq_length :: "'a ioqueue \<Rightarrow> nat" where
  "ioq_length q = (end_idx q + length (queue q) - idx q) mod length (queue q)"

partial_function (option) byte_length_loop ::
    "'b io_buffer_scheme option list \<Rightarrow> nat \<Rightarrow> nat \<Rightarrow> nat \<Rightarrow> nat option" where
  "byte_length_loop vec stop i ret =
     (if i = stop then Some ret
      else if \<not> i < length vec then None
      else case vec ! i of
             None \<Rightarrow> None
           | Some buf \<Rightarrow> byte_length_loop vec stop ((i + 1) mod length vec) (ret + nat (buf_size buf)))"

definition byte_length :: "'b io_buffer_scheme ioqueue \<Rightarrow> nat option" where
  "byte_length q = (if ioq_empty q then Some 0 else byte_length_loop (queue q) (end_idx q) (idx q) 0)"

definition ioq_clear :: "nat \<Rightarrow> 'a ioqueue \<Rightarrow> 'a ioqueue" where
  "ioq_clear dql q = fst (move_assign dql q (IoQueue dql))"

definition ioq_swap :: "'a ioqueue \<Rightarrow> 'a ioqueue \<Rightarrow> 'a ioqueue \<times> 'a ioqueue" where
  "ioq_swap this other =
     (\<lparr>idx = idx other, end_idx = end_idx other, queue = queue other\<rparr>,
      \<lparr>idx = idx this, end_idx = end_idx this, queue = queue this\<rparr>)"

section \<open>The contract of a FIFO queue\<close>

datatype 'a fifo_op = Push 'a | Pop

primrec run_fifo :: "('a \<Rightarrow> 'q \<Rightarrow> 'q option) \<Rightarrow> ('q \<Rightarrow> 'a option option) \<Rightarrow> ('q \<Rightarrow> 'q option) \<Rightarrow>
    'a fifo_op list \<Rightarrow> 'q \<Rightarrow> ('a list \<times> 'q) option" where
  "run_fifo psh frt pp [] q = Some ([], q)"
| "run_fifo psh frt pp (oper # os) q =
     (case oper of
        Push x \<Rightarrow> do { q1 \<leftarrow> psh x q; run_fifo psh frt pp os q1 }
      | Pop \<Rightarrow> do { r \<leftarrow> frt q; x \<leftarrow> r; q1 \<leftarrow> pp q; (xs, q2) \<leftarrow> run_fifo psh frt pp os q1; Some (x # xs, q2) })"

primrec pushed :: "'a fifo_op list \<Rightarrow> 'a list" where
  "pushed [] = []"
| "pushed (oper # os) = (case oper of Push x \<Rightarrow> x # pushed os | Pop \<Rightarrow> pushed os)"

text \<open>No prefix of the operations pops more than was there.\<close>

primrec pops_fit :: "'a fifo_op list \<Rightarrow> nat \<Rightarrow> bool" where
  "pops_fit [] n \<longleftrightarrow> True"
| "pops_fit (oper # os) n \<longleftrightarrow>
     (case oper of Push x \<Rightarrow> pops_fit os (Suc n) | Pop \<Rightarrow> 0 < n \<and> pops_fit os (n - 1))"

locale fifo =
  fixes inv :: "'q \<Rightarrow> bool"
    and elems :: "'q \<Rightarrow> 'a list"
    and psh :: "'a \<Rightarrow> 'q \<Rightarrow> 'q option"
    and frt :: "'q \<Rightarrow> 'a option option"
    and pp :: "'q \<Rightarrow> 'q option"
  assumes psh_ok: "inv q \<Longrightarrow> \<exists>q'. psh x q = Some q' \<and> inv q' \<and> elems q' = elems q @ [x]"
    and frt_ok: "inv q \<Longrightarrow> elems q = x # xs \<Longrightarrow> frt q = Some (Some x)"
    and frt_empty: "inv q \<Longrightarrow> elems q = [] \<Longrightarrow> frt q = Some None"
    and pp_ok: "inv q \<Longrightarrow> elems q = x # xs \<Longrightarrow> \<exists>q'. pp q = Some q' \<and> inv q' \<and> elems q' = xs"
begin

lemma run_fifo_spec:
  "inv q \<Longrightarrow> pops_fit os (length (elems q)) \<Longrightarrow>
     \<exists>ys q'. run_fifo psh frt pp os q = Some (ys, q') \<and> inv q' \<and> ys @ elems q' = elems q @ pushed os"
proof (induction os arbitrary: q)
  case (Cons oper os)
  show ?case
  proof (cases oper)
    case (Push x)
    obtain q1 where q1: "psh x q = Some q1" "inv q1" "elems q1 = elems q @ [x]"
      using psh_ok [OF Cons.prems(1)] by blast
    with Cons.prems Push Cons.IH [OF q1(2)] show ?thesis by simp
  next
    case Pop
    with Cons.prems obtain x xs where e: "elems q = x # xs" by (cases "elems q") auto
    obtain q1 where q1: "pp q = Some q1" "inv q1" "elems q1 = xs"
      using pp_ok [OF Cons.prems(1) e] by blast
    with Cons.prems Pop e Cons.IH [OF q1(2)] frt_ok [OF Cons.prems(1) e] show ?thesis by auto
  qed
qed simp

lemma run_fifo_underflow:
  "inv q \<Longrightarrow> \<not> pops_fit os (length (elems q)) \<Longrightarrow> run_fifo psh frt pp os q = None"
proof (induction os arbitrary: q)
  case (Cons oper os)
  show ?case
  proof (cases oper)
    case (Push x)
    obtain q1 where "psh x q = Some q1" "inv q1" "elems q1 = elems q @ [x]"
      using psh_ok [OF Cons.prems(1)] by blast
    with Cons.prems Push Cons.IH [of q1] show ?thesis by simp
  next
    case Pop
    show ?thesis
    proof (cases "elems q")
      case Nil
      with Pop frt_empty [OF Cons.prems(1)] show ?thesis by simp
    next
      case e: (Cons x xs)
      obtain q1 where "pp q = Some q1" "inv q1" "elems q1 = xs"
        using pp_ok [OF Cons.prems(1) e] by blast
      with Cons.prems Pop e Cons.IH [of q1] frt_ok [OF Cons.prems(1) e] show ?thesis by simp
    qed
  qed
qed simp

end

section \<open>The ring represents a list\<close>

text \<open>
  \<open>ioq_rep dql q xs\<close>: read from \<open>idx\<close>, the ring holds \<open>xs\<close> and then null pointers only, and
  at least one slot is free (so that equal indices mean an empty queue).
\<close>

definition ioq_rep :: "nat \<Rightarrow> 'a ioqueue \<Rightarrow> 'a list \<Rightarrow> bool" where
  "ioq_rep dql q xs \<longleftrightarrow>
     (let n = length (queue q) in
      2 \<le> dql \<and> dql \<le> n \<and> idx q < n \<and> length xs < n \<and> end_idx q = (idx q + length xs) mod n \<and>
      rotate (idx q) (queue q) = map Some xs @ replicate (n - length xs) None)"

definition ioq_elems :: "'a ioqueue \<Rightarrow> 'a list" where
  "ioq_elems q = map the (take (ioq_length q) (rotate (idx q) (queue q)))"

definition ioq_inv :: "nat \<Rightarrow> 'a ioqueue \<Rightarrow> bool" where
  "ioq_inv dql q \<longleftrightarrow> ioq_rep dql q (ioq_elems q)"

lemma mod_add_once: "m < n \<Longrightarrow> k < n \<Longrightarrow> (m + k) mod n = (if m + k < n then m + k else m + k - (n :: nat))"
  by (simp add: le_mod_geq)

lemma mod_add_inject:
  "m < n \<Longrightarrow> j < n \<Longrightarrow> k < n \<Longrightarrow> (m + j) mod n = (m + k) mod n \<longleftrightarrow> j = (k :: nat)"
  by (auto simp: mod_add_once split: if_splits)

lemma mod_add_pred:
  assumes "m < n" "k < n" "0 < k"
  shows "((m + k) mod n + n - 1) mod n = (m + (k - 1)) mod (n :: nat)"
proof (cases "m + k < n")
  case True
  then have "(m + k) mod n + n - 1 = (m + (k - 1)) + n" using assms by simp
  then show ?thesis by simp
next
  case False
  then have "(m + k) mod n + n - 1 = m + (k - 1)" using assms by (simp add: mod_add_once)
  then show ?thesis by simp
qed

lemma rotate_update:
  assumes "m < length xs" "k < length xs"
  shows "rotate m (xs[(m + k) mod length xs := v]) = (rotate m xs)[k := v]"
proof (rule nth_equalityI)
  fix j assume "j < length (rotate m (xs[(m + k) mod length xs := v]))"
  then have "j < length xs" "(m + k) mod length xs < length xs" by (auto intro: mod_less_divisor)
  then show "rotate m (xs[(m + k) mod length xs := v]) ! j = (rotate m xs)[k := v] ! j"
    using assms mod_add_inject [of m "length xs" k j]
    by (auto simp: nth_rotate nth_list_update)
qed simp

lemma ioq_rep_length: "ioq_rep dql q xs \<Longrightarrow> ioq_length q = length xs"
  by (auto simp: ioq_rep_def ioq_length_def Let_def mod_add_once)

lemma ioq_rep_elems: "ioq_rep dql q xs \<Longrightarrow> ioq_elems q = xs"
  by (simp add: ioq_elems_def ioq_rep_length) (simp add: ioq_rep_def Let_def comp_def)

lemma ioq_rep_inv: "ioq_rep dql q xs \<Longrightarrow> ioq_inv dql q \<and> ioq_elems q = xs"
  using ioq_rep_elems [of dql q xs] by (simp add: ioq_inv_def)

lemma ioq_rep_nth:
  assumes "ioq_rep dql q xs" "k < length (queue q)"
  shows "queue q ! ((idx q + k) mod length (queue q)) = (if k < length xs then Some (xs ! k) else None)"
proof -
  have "queue q ! ((idx q + k) mod length (queue q)) = rotate (idx q) (queue q) ! k"
    using assms by (simp add: nth_rotate)
  then show ?thesis using assms by (simp add: ioq_rep_def Let_def nth_append)
qed

lemma IoQueue_rep: "2 \<le> dql \<Longrightarrow> ioq_rep dql (IoQueue dql) []"
  by (simp add: ioq_rep_def IoQueue_def)

lemma rotated_push:
  assumes "ioq_rep dql q xs"
  shows "rotate (idx q) ((queue q)[end_idx q := Some x]) =
    map Some (xs @ [x]) @ replicate (length (queue q) - Suc (length xs)) None"
proof -
  let ?n = "length (queue q)"
  have len: "length xs < ?n" and r: "rotate (idx q) (queue q) = map Some xs @ replicate (?n - length xs) None"
    using assms by (simp_all add: ioq_rep_def Let_def)
  have "rotate (idx q) ((queue q)[end_idx q := Some x]) = (rotate (idx q) (queue q))[length xs := Some x]"
    using assms rotate_update [of "idx q" "queue q" "length xs"] by (simp add: ioq_rep_def Let_def)
  also have "\<dots> = map Some xs @ (replicate (Suc (?n - Suc (length xs))) None)[0 := Some x]"
    using len by (simp add: r list_update_append Suc_diff_Suc del: replicate_Suc)
  finally show ?thesis by simp
qed

lemma push_back_rep:
  assumes "ioq_rep dql q xs"
  shows "\<exists>q'. push_back x q = Some q' \<and> ioq_rep dql q' (xs @ [x])"
proof -
  let ?n = "length (queue q)" and ?v = "(queue q)[end_idx q := Some x]"
  let ?e = "(end_idx q + 1) mod ?n"
  note ring = rotated_push [OF assms, of x]
  have facts: "2 \<le> dql" "dql \<le> ?n" "idx q < ?n" "length xs < ?n" "end_idx q = (idx q + length xs) mod ?n"
    using assms by (simp_all add: ioq_rep_def Let_def)
  then have e: "end_idx q < ?n" "?e = (idx q + Suc (length xs)) mod ?n"
    by (auto simp: mod_simps intro: mod_less_divisor)
  show ?thesis
  proof (cases "Suc (length xs) = ?n")
    case True
    with e facts have full: "?e = idx q" by simp
    have "drop (idx q) ?v @ take (idx q) ?v = map Some (xs @ [x])"
      using ring facts True rotate_drop_take [of "idx q" ?v] by simp
    then have "push_back x q = Some \<lparr>idx = 0, end_idx = ?n, queue = map Some (xs @ [x]) @ replicate ?n None\<rparr>"
      using e full facts True
      by (simp add: push_back_def Let_def enlarge_queue_by_2x_def vector_insert_end_def)
    moreover have "ioq_rep dql \<lparr>idx = 0, end_idx = ?n, queue = map Some (xs @ [x]) @ replicate ?n None\<rparr> (xs @ [x])"
      using facts by (cases "queue q = []") (simp_all add: ioq_rep_def Let_def True [symmetric])
    ultimately show ?thesis by blast
  next
    case False
    with e facts have "?e \<noteq> idx q" using mod_add_inject [of "idx q" ?n "Suc (length xs)" 0]
      by (cases "queue q = []") simp_all
    then have "push_back x q = Some (q\<lparr>queue := ?v, end_idx := ?e\<rparr>)"
      using e by (simp add: push_back_def Let_def)
    moreover have "ioq_rep dql (q\<lparr>queue := ?v, end_idx := ?e\<rparr>) (xs @ [x])"
      using ring facts e False by (simp add: ioq_rep_def Let_def)
    ultimately show ?thesis by blast
  qed
qed

lemma front_rep: "ioq_rep dql q xs \<Longrightarrow> front q = Some (if xs = [] then None else Some (hd xs))"
  using ioq_rep_nth [of dql q xs 0]
  by (cases "queue q = []") (auto simp: front_def ioq_rep_def Let_def hd_conv_nth)

lemma pop_front_rep:
  assumes "ioq_rep dql q (x # xs)"
  shows "\<exists>q'. pop_front q = Some q' \<and> ioq_rep dql q' xs"
proof -
  let ?n = "length (queue q)" and ?v = "(queue q)[idx q := None]"
  have facts: "2 \<le> dql" "dql \<le> ?n" "idx q < ?n" "Suc (length xs) < ?n"
    "end_idx q = (idx q + Suc (length xs)) mod ?n"
    "rotate (idx q) (queue q) = Some x # map Some xs @ replicate (?n - Suc (length xs)) None"
    using assms by (simp_all add: ioq_rep_def Let_def)
  have "rotate (idx q) ?v = None # map Some xs @ replicate (?n - Suc (length xs)) None"
    using rotate_update [of "idx q" "queue q" 0 None] facts by (cases "queue q = []") auto
  then have "rotate (Suc (idx q)) ?v = map Some xs @ replicate (?n - length xs) None"
    using facts by (simp add: replicate_append_same Suc_diff_Suc flip: replicate_Suc)
  then have "rotate (Suc (idx q) mod ?n) ?v = map Some xs @ replicate (?n - length xs) None"
    using rotate_conv_mod [of "Suc (idx q)" ?v] by simp
  then have "ioq_rep dql (q\<lparr>queue := ?v, idx := Suc (idx q) mod ?n\<rparr>) xs"
    using facts by (auto simp: ioq_rep_def Let_def mod_simps intro: mod_less_divisor)
  then show ?thesis using facts by (simp add: pop_front_def Let_def)
qed

lemma back_rep:
  assumes "ioq_rep dql q xs" "xs \<noteq> []"
  shows "ioq_back q = Some (Some (last xs))"
proof -
  let ?n = "length (queue q)"
  have facts: "idx q < ?n" "length xs < ?n" "end_idx q = (idx q + length xs) mod ?n"
    using assms by (simp_all add: ioq_rep_def Let_def)
  have "(end_idx q + ?n - 1) mod ?n = (idx q + (length xs - 1)) mod ?n"
    using facts assms(2) mod_add_pred [of "idx q" ?n "length xs"] by simp
  then show ?thesis
    using facts assms ioq_rep_nth [OF assms(1), of "length xs - 1"]
    by (auto simp: ioq_back_def Let_def last_conv_nth)
qed

lemma byte_length_loop_rep:
  assumes "ioq_rep dql q xs" "k \<le> length xs"
  shows "byte_length_loop (queue q) (end_idx q) ((idx q + k) mod length (queue q)) ret =
    Some (ret + sum_list (map (nat \<circ> buf_size) (drop k xs)))"
  using assms(2)
proof (induction "length xs - k" arbitrary: k ret)
  case 0
  then show ?case
    using assms(1) byte_length_loop.simps [of "queue q" "end_idx q" "end_idx q" ret]
    by (simp add: ioq_rep_def Let_def)
next
  case (Suc d)
  let ?n = "length (queue q)"
  have facts: "idx q < ?n" "length xs < ?n" "end_idx q = (idx q + length xs) mod ?n" "0 < ?n"
    using assms by (auto simp: ioq_rep_def Let_def)
  have "(idx q + k) mod ?n \<noteq> end_idx q"
    using facts Suc mod_add_inject [of "idx q" ?n k "length xs"] by simp
  moreover have "queue q ! ((idx q + k) mod ?n) = Some (xs ! k)"
    using ioq_rep_nth [OF assms(1), of k] facts Suc by simp
  ultimately have "byte_length_loop (queue q) (end_idx q) ((idx q + k) mod ?n) ret =
    byte_length_loop (queue q) (end_idx q) ((idx q + Suc k) mod ?n) (ret + nat (buf_size (xs ! k)))"
    using facts byte_length_loop.simps [of "queue q" "end_idx q" "(idx q + k) mod ?n"]
    by (simp add: mod_simps)
  moreover have "drop k xs = xs ! k # drop (Suc k) xs" using Suc by (simp add: Cons_nth_drop_Suc)
  ultimately show ?case using Suc.hyps(1) [of "Suc k"] Suc.hyps(2) Suc.prems by simp
qed

interpretation ioq: fifo "ioq_inv dql" ioq_elems push_back front pop_front
proof (standard, goal_cases)
  case (1 q x)
  then obtain q' where "push_back x q = Some q'" "ioq_rep dql q' (ioq_elems q @ [x])"
    using push_back_rep [of dql q "ioq_elems q" x] by (auto simp: ioq_inv_def)
  then show ?case using ioq_rep_inv by blast
next
  case (2 q x xs)
  then show ?case using front_rep [of dql q "ioq_elems q"] by (simp add: ioq_inv_def)
next
  case (3 q)
  then show ?case using front_rep [of dql q "ioq_elems q"] by (simp add: ioq_inv_def)
next
  case (4 q x xs)
  then obtain q' where "pop_front q = Some q'" "ioq_rep dql q' xs"
    using pop_front_rep [of dql q x xs] by (auto simp: ioq_inv_def)
  then show ?case using ioq_rep_inv by blast
qed

lemma move_assign_rep:
  assumes "ioq_rep dql rhs ys"
  shows "ioq_rep dql (fst (move_assign dql this rhs)) ys \<and> snd (move_assign dql this rhs) = IoQueue dql"
  using assms by (simp add: move_assign_def Let_def ioq_rep_def IoQueue_def)

section \<open>Properties\<close>

text \<open>The ring buffer is a first-in first-out queue. Starting from an empty queue, any sequence
  of \<^verbatim>\<open>push_back\<close> and \<^verbatim>\<open>front\<close>/\<^verbatim>\<open>pop_front\<close> in which no pop finds the queue empty stays inside the
  vector, and the buffers popped, followed by those still queued, are exactly the buffers pushed, in
  order, across wrap-arounds and enlargements.\<close>

theorem ioqueue_is_fifo:
  assumes "2 \<le> dql" "pops_fit os 0"
  shows "\<exists>ys q. run_fifo push_back front pop_front os (IoQueue dql) = Some (ys, q) \<and>
     ioq_inv dql q \<and> ys @ ioq_elems q = pushed os"
proof -
  note empty = ioq_rep_inv [OF IoQueue_rep [OF assms(1)]]
  show ?thesis using ioq.run_fifo_spec [of dql "IoQueue dql" os] assms(2) by (simp add: empty)
qed

theorem ioqueue_is_fifo_witness:
  "\<exists>ys q. run_fifo push_back front pop_front [Push 5, Push 6, Pop, Push 7] (IoQueue 2) = Some (ys, q) \<and>
     ys @ ioq_elems q = [5, 6, 7 :: nat]"
  using ioqueue_is_fifo [of 2 "[Push 5, Push 6, Pop, Push 7 :: nat fifo_op]"] by (auto simp del: run_fifo.simps)

text \<open>C2: The operations of the ring agree with those of the list it represents. \<^verbatim>\<open>push_back\<close> appends, across wrap-around and
  enlargement, \<^verbatim>\<open>front\<close> reads the head (a null pointer when the queue is empty) and \<^verbatim>\<open>pop_front\<close> removes it; \<^verbatim>\<open>empty\<close>,
  \<^verbatim>\<open>length\<close> and \<^verbatim>\<open>back\<close> read off the list, \<^verbatim>\<open>byte_length\<close> terminates with the total size of the queued buffers; the
  constructor and \<^verbatim>\<open>clear\<close> give the empty queue, and moving or swapping hands the list over.\<close>

theorem ioqueue_refines_list:
  assumes "ioq_rep dql q xs" "ioq_rep dql q' ys"
  shows "(\<exists>q1. push_back x q = Some q1 \<and> ioq_rep dql q1 (xs @ [x])) \<and>
    front q = Some (if xs = [] then None else Some (hd xs)) \<and>
    (xs \<noteq> [] \<longrightarrow> (\<exists>q1. pop_front q = Some q1 \<and> ioq_rep dql q1 (tl xs))) \<and>
    ioq_rep dql (IoQueue dql) [] \<and>
    (ioq_empty q \<longleftrightarrow> xs = []) \<and> ioq_length q = length xs \<and>
    (xs \<noteq> [] \<longrightarrow> ioq_back q = Some (Some (last xs))) \<and>
    byte_length q = Some (sum_list (map (nat \<circ> buf_size) xs)) \<and>
    ioq_rep dql (ioq_clear dql q) [] \<and>
    ioq_rep dql (fst (IoQueue_move dql q)) xs \<and> snd (IoQueue_move dql q) = IoQueue dql \<and>
    ioq_rep dql (fst (move_assign dql q q')) ys \<and> snd (move_assign dql q q') = IoQueue dql \<and>
    ioq_swap q q' = (q', q)"
proof (intro conjI)
  show "\<exists>q1. push_back x q = Some q1 \<and> ioq_rep dql q1 (xs @ [x])" using push_back_rep [OF assms(1)] by blast
  show "front q = Some (if xs = [] then None else Some (hd xs))" by (rule front_rep [OF assms(1)])
  show "xs \<noteq> [] \<longrightarrow> (\<exists>q1. pop_front q = Some q1 \<and> ioq_rep dql q1 (tl xs))"
    using pop_front_rep [of dql q "hd xs" "tl xs"] assms(1) by auto
  have facts: "idx q < length (queue q)" "length xs < length (queue q)"
    "end_idx q = (idx q + length xs) mod length (queue q)" "2 \<le> dql"
    using assms(1) by (simp_all add: ioq_rep_def Let_def)
  show "ioq_rep dql (IoQueue dql) []" by (rule IoQueue_rep [OF facts(4)])
  from facts show empty: "ioq_empty q \<longleftrightarrow> xs = []"
    using mod_add_inject [of "idx q" "length (queue q)" 0 "length xs"]
    by (cases "queue q = []") (auto simp: ioq_empty_def)
  show "byte_length q = Some (sum_list (map (nat \<circ> buf_size) xs))"
    using byte_length_loop_rep [OF assms(1), of 0 0] empty facts by (simp add: byte_length_def)
  show "ioq_rep dql (ioq_clear dql q) []"
    using move_assign_rep [OF IoQueue_rep [OF facts(4)], of q] by (simp add: ioq_clear_def)
  show "ioq_rep dql (fst (IoQueue_move dql q)) xs" "snd (IoQueue_move dql q) = IoQueue dql"
    using assms(1) by (simp_all add: IoQueue_move_def IoQueue_def Let_def ioq_rep_def)
  show "ioq_length q = length xs" "xs \<noteq> [] \<longrightarrow> ioq_back q = Some (Some (last xs))"
    using assms(1) by (auto simp: ioq_rep_length back_rep)
  show "ioq_rep dql (fst (move_assign dql q q')) ys" "snd (move_assign dql q q') = IoQueue dql"
    using move_assign_rep [OF assms(2), of q] by auto
  show "ioq_swap q q' = (q', q)" by (simp add: ioq_swap_def)
qed

theorem ioqueue_refines_list_witness:
  "let x = \<lparr>mem = [], buf_data = 0, buf_size = 5\<rparr>; y = \<lparr>mem = [], buf_data = 0, buf_size = 6\<rparr>;
       q = \<lparr>idx = 1, end_idx = 0, queue = [None, Some x, Some y]\<rparr>
   in byte_length q = Some 11 \<and> (\<exists>q1. push_back x q = Some q1 \<and> ioq_rep 2 q1 [x, y, x])"
proof -
  let ?x = "\<lparr>mem = [], buf_data = 0, buf_size = 5\<rparr>" and ?y = "\<lparr>mem = [], buf_data = 0, buf_size = 6\<rparr>"
  let ?q = "\<lparr>idx = 1, end_idx = 0, queue = [None, Some ?x, Some ?y]\<rparr>"
  have "ioq_rep 2 ?q [?x, ?y]" by (simp add: ioq_rep_def Let_def)
  note r = ioqueue_refines_list [OF this this, of ?x]
  then have "\<exists>q1. push_back ?x ?q = Some q1 \<and> ioq_rep 2 q1 ([?x, ?y] @ [?x])" by (rule conjunct1)
  moreover have "byte_length ?q = Some (sum_list (map (nat \<circ> buf_size) [?x, ?y]))" using r by (elim conjE)
  ultimately show ?thesis unfolding Let_def by simp
qed

end
