(* ===== verification/Cipher_Methods.thy ===== *)
theory Cipher_Methods
  imports Yass_Prelude
begin

text \<open>
  The registry of cipher methods (\<^verbatim>\<open>yass/crypto.h\<close>, \<^verbatim>\<open>crypto/crypter_export.hpp\<close>,
  \<^verbatim>\<open>crypto/crypter_export.cpp\<close>, \<^verbatim>\<open>yass/crypto.c\<close>) and the ALPN protocol names of
  \<^verbatim>\<open>net/protocol.cpp\<close>. The X-macro tables are lists of rows (number, name, string) in source order,
  for the default build (\<^verbatim>\<open>HAVE_MBEDTLS\<close> and \<^verbatim>\<open>HAVE_QUICHE\<close> defined). \<^verbatim>\<open>enum cipher_method\<close> has
  underlying type \<^verbatim>\<open>uint32_t\<close> and may hold any 32-bit value.
\<close>

type_synonym cipher_method = u32
type_synonym method_row = "cipher_method \<times> string \<times> string"

abbreviation row_num :: "method_row \<Rightarrow> cipher_method" where "row_num r \<equiv> fst r"
abbreviation row_name :: "method_row \<Rightarrow> string" where "row_name r \<equiv> fst (snd r)"
abbreviation row_str :: "method_row \<Rightarrow> string" where "row_str r \<equiv> snd (snd r)"

section \<open>Tables\<close>

definition YASS_CIPHER_METHOD_MAP_SODIUM :: "method_row list" where
  "YASS_CIPHER_METHOD_MAP_SODIUM =
    [(0x3, ''AES256GCMSHA256'', ''aes-256-gcm''),
     (0x4, ''CHACHA20POLY1305IETF'', ''chacha20-ietf-poly1305''),
     (0x5, ''XCHACHA20POLY1305IETF'', ''xchacha20-ietf-poly1305'')]"

definition YASS_CIPHER_METHOD_MAP_BORINGSSL :: "method_row list" where
  "YASS_CIPHER_METHOD_MAP_BORINGSSL =
    [(0x14, ''CHACHA20POLY1305IETF_EVP'', ''chacha20-ietf-poly1305-evp''),
     (0x15, ''XCHACHA20POLY1305IETF_EVP'', ''xchacha20-ietf-poly1305-evp''),
     (0x16, ''AES128GCMSHA256_EVP'', ''aes-128-gcm-evp''),
     (0x17, ''AES128GCM12SHA256_EVP'', ''aes-128-gcm12-evp''),
     (0x18, ''AES192GCMSHA256_EVP'', ''aes-192-gcm-evp''),
     (0x19, ''AES256GCMSHA256_EVP'', ''aes-256-gcm-evp'')]"

definition YASS_CIPHER_METHOD_MAP_MBEDTLS :: "method_row list" where
  "YASS_CIPHER_METHOD_MAP_MBEDTLS =
    [(0x22, ''AES_128_CFB'', ''aes-128-cfb''),
     (0x23, ''AES_192_CFB'', ''aes-192-cfb''),
     (0x24, ''AES_256_CFB'', ''aes-256-cfb''),
     (0x25, ''AES_128_CTR'', ''aes-128-ctr''),
     (0x26, ''AES_192_CTR'', ''aes-192-ctr''),
     (0x27, ''AES_256_CTR'', ''aes-256-ctr''),
     (0x29, ''CAMELLIA_128_CFB'', ''camellia-128-cfb''),
     (0x30, ''CAMELLIA_192_CFB'', ''camellia-192-cfb''),
     (0x31, ''CAMELLIA_256_CFB'', ''camellia-256-cfb'')]"

definition YASS_CIPHER_METHOD_MAP_HTTP :: "method_row list" where
  "YASS_CIPHER_METHOD_MAP_HTTP = [(0x110, ''HTTPS'', ''https'')]"

definition YASS_CIPHER_METHOD_MAP_HTTP2 :: "method_row list" where
  "YASS_CIPHER_METHOD_MAP_HTTP2 =
    [(0x120, ''HTTP2_PLAINTEXT'', ''http2-plaintext''), (0x121, ''HTTP2'', ''http2'')]"

definition YASS_CIPHER_METHOD_MAP_SOCKS :: "method_row list" where
  "YASS_CIPHER_METHOD_MAP_SOCKS =
    [(0x150, ''SOCKS4'', ''socks4''), (0x151, ''SOCKS4A'', ''socks4a''),
     (0x152, ''SOCKS5'', ''socks5''), (0x153, ''SOCKS5H'', ''socks5h'')]"

definition YASS_CIPHER_METHOD_OLD_MAP :: "method_row list" where
  "YASS_CIPHER_METHOD_OLD_MAP =
    YASS_CIPHER_METHOD_MAP_SODIUM @ YASS_CIPHER_METHOD_MAP_BORINGSSL @ YASS_CIPHER_METHOD_MAP_MBEDTLS"

definition YASS_CIPHER_METHOD_VALID_MAP :: "method_row list" where
  "YASS_CIPHER_METHOD_VALID_MAP =
    YASS_CIPHER_METHOD_MAP_SODIUM @ YASS_CIPHER_METHOD_MAP_BORINGSSL @ YASS_CIPHER_METHOD_MAP_MBEDTLS @
    YASS_CIPHER_METHOD_MAP_HTTP @ YASS_CIPHER_METHOD_MAP_HTTP2 @ YASS_CIPHER_METHOD_MAP_SOCKS"

definition YASS_CIPHER_METHOD_MAP :: "method_row list" where
  "YASS_CIPHER_METHOD_MAP = (0x0, ''INVALID'', ''invalid'') # YASS_CIPHER_METHOD_VALID_MAP"

lemmas method_tables = YASS_CIPHER_METHOD_MAP_def YASS_CIPHER_METHOD_VALID_MAP_def
  YASS_CIPHER_METHOD_MAP_SODIUM_def YASS_CIPHER_METHOD_MAP_BORINGSSL_def
  YASS_CIPHER_METHOD_MAP_MBEDTLS_def YASS_CIPHER_METHOD_MAP_HTTP_def
  YASS_CIPHER_METHOD_MAP_HTTP2_def YASS_CIPHER_METHOD_MAP_SOCKS_def

section \<open>The enumerators the code names\<close>

abbreviation "CRYPTO_INVALID \<equiv> (0x0 :: cipher_method)"
abbreviation "CRYPTO_AES256GCMSHA256 \<equiv> (0x3 :: cipher_method)"
abbreviation "CRYPTO_CHACHA20POLY1305IETF \<equiv> (0x4 :: cipher_method)"
abbreviation "CRYPTO_XCHACHA20POLY1305IETF \<equiv> (0x5 :: cipher_method)"
abbreviation "CRYPTO_CHACHA20POLY1305IETF_EVP \<equiv> (0x14 :: cipher_method)"
abbreviation "CRYPTO_XCHACHA20POLY1305IETF_EVP \<equiv> (0x15 :: cipher_method)"
abbreviation "CRYPTO_AES128GCMSHA256_EVP \<equiv> (0x16 :: cipher_method)"
abbreviation "CRYPTO_AES128GCM12SHA256_EVP \<equiv> (0x17 :: cipher_method)"
abbreviation "CRYPTO_AES192GCMSHA256_EVP \<equiv> (0x18 :: cipher_method)"
abbreviation "CRYPTO_AES256GCMSHA256_EVP \<equiv> (0x19 :: cipher_method)"
abbreviation "CRYPTO_AES_128_CFB \<equiv> (0x22 :: cipher_method)"
abbreviation "CRYPTO_AES_192_CFB \<equiv> (0x23 :: cipher_method)"
abbreviation "CRYPTO_AES_256_CFB \<equiv> (0x24 :: cipher_method)"
abbreviation "CRYPTO_AES_128_CTR \<equiv> (0x25 :: cipher_method)"
abbreviation "CRYPTO_AES_192_CTR \<equiv> (0x26 :: cipher_method)"
abbreviation "CRYPTO_AES_256_CTR \<equiv> (0x27 :: cipher_method)"
abbreviation "CRYPTO_CAMELLIA_128_CFB \<equiv> (0x29 :: cipher_method)"
abbreviation "CRYPTO_CAMELLIA_192_CFB \<equiv> (0x30 :: cipher_method)"
abbreviation "CRYPTO_CAMELLIA_256_CFB \<equiv> (0x31 :: cipher_method)"
abbreviation "CRYPTO_HTTPS \<equiv> (0x110 :: cipher_method)"
abbreviation "CRYPTO_HTTP2_PLAINTEXT \<equiv> (0x120 :: cipher_method)"
abbreviation "CRYPTO_HTTP2 \<equiv> (0x121 :: cipher_method)"
abbreviation "CRYPTO_SOCKS4 \<equiv> (0x150 :: cipher_method)"
abbreviation "CRYPTO_SOCKS4A \<equiv> (0x151 :: cipher_method)"
abbreviation "CRYPTO_SOCKS5 \<equiv> (0x152 :: cipher_method)"
abbreviation "CRYPTO_SOCKS5H \<equiv> (0x153 :: cipher_method)"

section \<open>Look-ups\<close>

text \<open>An X-macro expanded into a chain of \<^verbatim>\<open>if\<close>s or of \<^verbatim>\<open>case\<close> labels: the first matching row wins.\<close>

primrec first_row :: "('r \<Rightarrow> bool) \<Rightarrow> 'r list \<Rightarrow> 'r option" where
  "first_row p [] = None"
| "first_row p (r # rs) = (if p r then Some r else first_row p rs)"

definition to_cipher_method :: "string \<Rightarrow> cipher_method" where
  "to_cipher_method method =
     (case first_row (\<lambda>r. method = row_str r) YASS_CIPHER_METHOD_MAP of
        Some r \<Rightarrow> row_num r
      | None \<Rightarrow> CRYPTO_INVALID)"

definition to_cipher_method_name :: "cipher_method \<Rightarrow> string" where
  "to_cipher_method_name method =
     (case first_row (\<lambda>r. method = row_num r) YASS_CIPHER_METHOD_MAP of
        Some r \<Rightarrow> row_name r
      | None \<Rightarrow> ''INVALID'')"

definition to_cipher_method_str :: "cipher_method \<Rightarrow> string" where
  "to_cipher_method_str method =
     (case first_row (\<lambda>r. method = row_num r) YASS_CIPHER_METHOD_MAP of
        Some r \<Rightarrow> row_str r
      | None \<Rightarrow> ''invalid'')"

definition is_valid_cipher_method :: "cipher_method \<Rightarrow> bool" where
  "is_valid_cipher_method method =
     (case first_row (\<lambda>r. method = row_num r) YASS_CIPHER_METHOD_MAP of
        Some _ \<Rightarrow> True
      | None \<Rightarrow> False)"

definition kCipherMethods :: "cipher_method list" where
  "kCipherMethods = map row_num YASS_CIPHER_METHOD_VALID_MAP"

definition kCipherMethodStrs :: "string list" where
  "kCipherMethodStrs = map row_str YASS_CIPHER_METHOD_VALID_MAP"

text \<open>
  The C interface of \<^verbatim>\<open>yass/crypto.c\<close> compares at most 80 characters; C strings end at the first
  NUL, which an argument modelled as a list does not contain.
\<close>

definition yass_to_cipher_method :: "string \<Rightarrow> cipher_method" where
  "yass_to_cipher_method method =
     (case first_row (\<lambda>r. take 80 method = take 80 (row_str r)) YASS_CIPHER_METHOD_MAP of
        Some r \<Rightarrow> row_num r
      | None \<Rightarrow> CRYPTO_INVALID)"

definition yass_to_cipher_method_name :: "cipher_method \<Rightarrow> string" where
  "yass_to_cipher_method_name method =
     (case first_row (\<lambda>r. method = row_num r) YASS_CIPHER_METHOD_MAP of
        Some r \<Rightarrow> row_name r
      | None \<Rightarrow> ''INVALID'')"

definition yass_to_cipher_method_str :: "cipher_method \<Rightarrow> string" where
  "yass_to_cipher_method_str method =
     (case first_row (\<lambda>r. method = row_num r) YASS_CIPHER_METHOD_MAP of
        Some r \<Rightarrow> row_str r
      | None \<Rightarrow> ''invalid'')"

definition yass_is_valid_cipher_method :: "cipher_method \<Rightarrow> int" where
  "yass_is_valid_cipher_method method =
     (case first_row (\<lambda>r. method = row_num r) YASS_CIPHER_METHOD_MAP of
        Some _ \<Rightarrow> 0
      | None \<Rightarrow> -1)"

section \<open>Classification macros\<close>

definition CIPHER_METHOD_IS_HTTP2 :: "cipher_method \<Rightarrow> bool" where
  "CIPHER_METHOD_IS_HTTP2 m \<longleftrightarrow> m = CRYPTO_HTTP2_PLAINTEXT \<or> m = CRYPTO_HTTP2"

definition CIPHER_METHOD_IS_TLS :: "cipher_method \<Rightarrow> bool" where
  "CIPHER_METHOD_IS_TLS m \<longleftrightarrow> m = CRYPTO_HTTPS \<or> m = CRYPTO_HTTP2"

definition CIPHER_METHOD_IS_HTTPS :: "cipher_method \<Rightarrow> bool" where
  "CIPHER_METHOD_IS_HTTPS m \<longleftrightarrow> m = CRYPTO_HTTPS"

definition CIPHER_METHOD_IS_HTTP :: "cipher_method \<Rightarrow> bool" where
  "CIPHER_METHOD_IS_HTTP m \<longleftrightarrow> m = CRYPTO_HTTPS \<or> m = CRYPTO_HTTP2_PLAINTEXT \<or> m = CRYPTO_HTTP2"

definition CIPHER_METHOD_IS_SOCKS :: "cipher_method \<Rightarrow> bool" where
  "CIPHER_METHOD_IS_SOCKS m \<longleftrightarrow>
     m = CRYPTO_SOCKS4 \<or> m = CRYPTO_SOCKS4A \<or> m = CRYPTO_SOCKS5 \<or> m = CRYPTO_SOCKS5H"

definition CIPHER_METHOD_IS_SOCKS_NON_DOMAIN_NAME :: "cipher_method \<Rightarrow> bool" where
  "CIPHER_METHOD_IS_SOCKS_NON_DOMAIN_NAME m \<longleftrightarrow> m = CRYPTO_SOCKS4 \<or> m = CRYPTO_SOCKS5"

definition CIPHER_METHOD_IS_SOCKS_DOMAIN_NAME :: "cipher_method \<Rightarrow> bool" where
  "CIPHER_METHOD_IS_SOCKS_DOMAIN_NAME m \<longleftrightarrow> m = CRYPTO_SOCKS4A \<or> m = CRYPTO_SOCKS5H"

definition CIPHER_METHOD_IS_SOCKS5 :: "cipher_method \<Rightarrow> bool" where
  "CIPHER_METHOD_IS_SOCKS5 m \<longleftrightarrow> m = CRYPTO_SOCKS5 \<or> m = CRYPTO_SOCKS5H"

section \<open>ALPN protocols\<close>

datatype NextProto = kProtoUnknown | kProtoHTTP11 | kProtoHTTP2 | kProtoQUIC

definition NextProtoFromString :: "string \<Rightarrow> NextProto" where
  "NextProtoFromString s =
     (if s = ''http/1.1'' then kProtoHTTP11
      else if s = ''h2'' then kProtoHTTP2
      else if s = ''quic'' \<or> s = ''hq'' then kProtoQUIC
      else kProtoUnknown)"

primrec NextProtoToString :: "NextProto \<Rightarrow> string" where
  "NextProtoToString kProtoHTTP11 = ''http/1.1''"
| "NextProtoToString kProtoHTTP2 = ''h2''"
| "NextProtoToString kProtoQUIC = ''quic''"
| "NextProtoToString kProtoUnknown = ''unknown''"

section \<open>The contract of an X-macro table\<close>

lemma first_row_SomeD: "first_row p rs = Some r \<Longrightarrow> r \<in> set rs \<and> p r"
  by (induction rs) (auto split: if_splits)

lemma first_row_None: "first_row p rs = None \<longleftrightarrow> (\<forall>r\<in>set rs. \<not> p r)"
  by (induction rs) auto

lemma first_row_unique:
  assumes "r \<in> set rs" "p r" "\<forall>r'\<in>set rs. p r' \<longrightarrow> r' = r"
  shows "first_row p rs = Some r"
proof (cases "first_row p rs")
  case None
  with assms(1,2) show ?thesis by (auto simp: first_row_None)
next
  case (Some r')
  with assms(3) first_row_SomeD [OF Some] have "r' = r" by blast
  with Some show ?thesis by simp
qed

locale row_table =
  fixes rows :: "'r list" and key :: "'r \<Rightarrow> 'k" and label :: "'r \<Rightarrow> 's"
  assumes keys_distinct: "distinct (map key rows)"
    and labels_distinct: "distinct (map label rows)"
begin

lemma find_by_key: "first_row (\<lambda>r. k = key r) rows = Some r \<longleftrightarrow> r \<in> set rows \<and> key r = k"
  using keys_distinct first_row_SomeD [of "\<lambda>r. k = key r" rows r]
  by (auto simp: distinct_map intro!: first_row_unique dest: inj_onD)

lemma find_by_label: "first_row (\<lambda>r. s = label r) rows = Some r \<longleftrightarrow> r \<in> set rows \<and> label r = s"
  using labels_distinct first_row_SomeD [of "\<lambda>r. s = label r" rows r]
  by (auto simp: distinct_map intro!: first_row_unique dest: inj_onD)

lemma label_then_key:
  "first_row (\<lambda>r. k = key r) rows = Some r \<Longrightarrow> first_row (\<lambda>r'. label r = label r') rows = Some r"
  by (simp add: find_by_key find_by_label)

lemma key_then_label:
  "first_row (\<lambda>r. s = label r) rows = Some r \<Longrightarrow> first_row (\<lambda>r'. key r = key r') rows = Some r"
  by (simp add: find_by_key find_by_label)

end

interpretation methods: row_table YASS_CIPHER_METHOD_MAP row_num row_str
  by standard (code_simp+)

interpretation method_names: row_table YASS_CIPHER_METHOD_MAP row_num row_name
  by standard (code_simp+)

lemma to_cipher_method_range: "to_cipher_method s = CRYPTO_INVALID \<or> to_cipher_method s \<in> set kCipherMethods"
proof (cases "first_row (\<lambda>r. s = row_str r) YASS_CIPHER_METHOD_MAP")
  case (Some r)
  then have "r \<in> set YASS_CIPHER_METHOD_MAP" "to_cipher_method s = row_num r"
    using first_row_SomeD [OF Some] by (simp_all add: to_cipher_method_def)
  then show ?thesis by (auto simp: YASS_CIPHER_METHOD_MAP_def kCipherMethods_def)
qed (simp add: to_cipher_method_def)

lemma is_valid_cipher_method_iff:
  "is_valid_cipher_method m \<longleftrightarrow> m = CRYPTO_INVALID \<or> m \<in> set kCipherMethods"
proof -
  have "is_valid_cipher_method m \<longleftrightarrow> (\<exists>r\<in>set YASS_CIPHER_METHOD_MAP. m = fst r)"
    using first_row_None [of "\<lambda>r. m = row_num r" YASS_CIPHER_METHOD_MAP]
    by (auto simp: is_valid_cipher_method_def split: option.splits)
  also have "\<dots> \<longleftrightarrow> m = CRYPTO_INVALID \<or> m \<in> set kCipherMethods"
    by (auto simp: YASS_CIPHER_METHOD_MAP_def kCipherMethods_def)
  finally show ?thesis .
qed

section \<open>Properties\<close>

text \<open>C8: Printing and parsing a cipher method are inverse: every registered method is recovered from
  its string, and every string that parses to a method other than \<^verbatim>\<open>CRYPTO_INVALID\<close> is that method's
  string.\<close>

theorem cipher_method_roundtrip:
  "(is_valid_cipher_method m \<longrightarrow> to_cipher_method (to_cipher_method_str m) = m) \<and>
   (to_cipher_method s \<noteq> CRYPTO_INVALID \<longrightarrow> to_cipher_method_str (to_cipher_method s) = s)"
proof (intro conjI impI)
  assume "is_valid_cipher_method m"
  then obtain r where "first_row (\<lambda>r. m = row_num r) YASS_CIPHER_METHOD_MAP = Some r"
    by (auto simp: is_valid_cipher_method_def split: option.splits)
  then show "to_cipher_method (to_cipher_method_str m) = m"
    using methods.label_then_key [of m r] methods.find_by_key [of m r]
    by (simp add: to_cipher_method_def to_cipher_method_str_def)
next
  assume "to_cipher_method s \<noteq> CRYPTO_INVALID"
  then obtain r where "first_row (\<lambda>r. s = row_str r) YASS_CIPHER_METHOD_MAP = Some r"
    by (auto simp: to_cipher_method_def split: option.splits)
  then show "to_cipher_method_str (to_cipher_method s) = s"
    using methods.key_then_label [of s r] methods.find_by_label [of s r]
    by (simp add: to_cipher_method_def to_cipher_method_str_def)
qed

theorem cipher_method_roundtrip_witness:
  "to_cipher_method (to_cipher_method_str 0x121) = 0x121 \<and> to_cipher_method_str (to_cipher_method ''socks4a'') = ''socks4a''"
  using cipher_method_roundtrip [of "0x121" "''socks4a''"]
  by (simp add: is_valid_cipher_method_def to_cipher_method_def method_tables)

text \<open>\<^verbatim>\<open>is_valid_cipher_method\<close> accepts the placeholder \<^verbatim>\<open>CRYPTO_INVALID\<close> besides the usable
  methods, so it accepts whatever \<^verbatim>\<open>to_cipher_method\<close> returns, for every string: a guard on a parsed
  method never fires.\<close>

theorem parsed_method_always_valid:
  "is_valid_cipher_method (to_cipher_method s) \<and>
   (is_valid_cipher_method m \<longleftrightarrow> m = CRYPTO_INVALID \<or> m \<in> set kCipherMethods)"
  using to_cipher_method_range [of s] by (simp add: is_valid_cipher_method_iff)

text \<open>The C interface and the C++ interface to the registry are equivalent: same parse for every
  string although the former compares at most 80 characters, same names and strings, and the C
  validity test returns 0 exactly where the C++ one returns true.\<close>

theorem c_api_agrees:
  "yass_to_cipher_method s = to_cipher_method s \<and> yass_to_cipher_method_name m = to_cipher_method_name m \<and>
   yass_to_cipher_method_str m = to_cipher_method_str m \<and>
   yass_is_valid_cipher_method m = (if is_valid_cipher_method m then 0 else -1)"
proof -
  have cmp: "take 80 s = take 80 str \<longleftrightarrow> s = str" if "length str < 80" for str :: string
    using that by (metis length_take min_less_iff_conj min.strict_order_iff nless_le not_less take_all)
  have "first_row (\<lambda>r. take 80 s = take 80 (row_str r)) rs =
        first_row (\<lambda>r. s = row_str r) rs"
    if "\<forall>r\<in>set rs. length (row_str r) < 80" for rs :: "method_row list"
    using that by (induction rs) (auto simp: cmp)
  moreover have "\<forall>r\<in>set YASS_CIPHER_METHOD_MAP. length (row_str r) < 80"
    by (simp add: method_tables)
  ultimately have "yass_to_cipher_method s = to_cipher_method s"
    by (simp add: yass_to_cipher_method_def to_cipher_method_def)
  then show ?thesis
    by (auto simp: yass_to_cipher_method_name_def to_cipher_method_name_def yass_to_cipher_method_str_def
        to_cipher_method_str_def yass_is_valid_cipher_method_def is_valid_cipher_method_def split: option.splits)
qed

text \<open>ALPN names round trip: a protocol is recovered from its string, and the only string mapped
  to a known protocol without being its canonical name is \<^verbatim>\<open>hq\<close>.\<close>

theorem next_proto_roundtrip:
  "NextProtoFromString (NextProtoToString p) = p \<and>
   (NextProtoFromString s \<noteq> kProtoUnknown \<longrightarrow> NextProtoToString (NextProtoFromString s) = s \<or> s = ''hq'')"
  by (cases p) (auto simp: NextProtoFromString_def)

theorem next_proto_roundtrip_witness: "NextProtoToString (NextProtoFromString ''h2'') = ''h2''"
  using next_proto_roundtrip [of kProtoHTTP2 "''h2''"] by (simp add: NextProtoFromString_def)

end
