(* ===== verification/Crypters.thy ===== *)
theory Crypters
  imports Cipher_Methods
begin

text \<open>
  The packet crypters of \<^verbatim>\<open>src/crypto\<close>: nonce construction, the common base classes, the three
  families of encrypters and decrypters (BoringSSL AEADs with libsodium-style nonces, BoringSSL AEADs
  with trailing packet numbers, mbedTLS stream ciphers), the concrete suites and the two factories.

  BoringSSL and mbedTLS are not part of the sources. The functions the code calls are the fields of
  the record \<open>crypto_lib\<close>, an argument of every definition that uses them. The classes
  \<^verbatim>\<open>AeadBaseEncrypter\<close> and \<^verbatim>\<open>AeadBaseDecrypter\<close> have the same data, so one record models both, with
  \<open>is_enc\<close> and \<open>family\<close> telling the class a virtual call dispatches on. An operation returns
  \<^const>\<open>None\<close> when it would touch memory out of bounds or use a context that was never set up; the
  \<^verbatim>\<open>bool\<close> results of the code are returned as such, with the new object.
\<close>

section \<open>The libraries\<close>

datatype EVP_AEAD =
  EVP_aead_aes_128_gcm | EVP_aead_aes_192_gcm | EVP_aead_aes_256_gcm |
  EVP_aead_chacha20_poly1305 | EVP_aead_xchacha20_poly1305

datatype mbedtls_cipher_type =
  MBEDTLS_CIPHER_AES_128_CFB128 | MBEDTLS_CIPHER_AES_192_CFB128 | MBEDTLS_CIPHER_AES_256_CFB128 |
  MBEDTLS_CIPHER_AES_128_CTR | MBEDTLS_CIPHER_AES_192_CTR | MBEDTLS_CIPHER_AES_256_CTR |
  MBEDTLS_CIPHER_CAMELLIA_128_CFB128 | MBEDTLS_CIPHER_CAMELLIA_192_CFB128 |
  MBEDTLS_CIPHER_CAMELLIA_256_CFB128

text \<open>
  \<open>'c\<close> is an initialised \<^verbatim>\<open>EVP_AEAD_CTX\<close> and \<open>'m\<close> a \<^verbatim>\<open>mbedtls_cipher_context_t\<close>. \<open>seal\<close> and \<open>open\<close>
  take the context, the size of the output buffer, the nonce, the input and the associated data;
  \<^const>\<open>None\<close> is a failure code.
\<close>

record ('c, 'm) crypto_lib =
  EVP_AEAD_CTX_init :: "EVP_AEAD \<Rightarrow> byte list \<Rightarrow> nat \<Rightarrow> 'c option"
  EVP_AEAD_CTX_seal :: "'c \<Rightarrow> nat \<Rightarrow> byte list \<Rightarrow> byte list \<Rightarrow> byte list \<Rightarrow> byte list option"
  EVP_AEAD_CTX_open :: "'c \<Rightarrow> nat \<Rightarrow> byte list \<Rightarrow> byte list \<Rightarrow> byte list \<Rightarrow> byte list option"
  mbedtls_cipher_setup :: "mbedtls_cipher_type \<Rightarrow> 'm option"
  mbedtls_cipher_setkey :: "'m \<Rightarrow> byte list \<Rightarrow> bool \<Rightarrow> 'm option"
  mbedtls_cipher_set_iv :: "'m \<Rightarrow> byte list \<Rightarrow> 'm option"
  mbedtls_cipher_reset :: "'m \<Rightarrow> 'm option"
  mbedtls_cipher_update :: "'m \<Rightarrow> byte list \<Rightarrow> (byte list \<times> 'm) option"

section \<open>Nonces\<close>

definition PacketNumberToNonceSodium :: "byte list \<Rightarrow> u64 \<Rightarrow> byte list option" where
  "PacketNumberToNonceSodium nonce packet_number =
     (let pn_1 = ucast (packet_number AND 0xff);
          pn_2 = ucast (drop_bit 8 (packet_number AND 0xff00));
          pn_3 = ucast (drop_bit 16 (packet_number AND 0xff0000));
          pn_4 = ucast (drop_bit 24 (packet_number AND 0xff000000))
      in mem_write nonce 0 [pn_1, pn_2, pn_3, pn_4])"

text \<open>The bytes of a \<^verbatim>\<open>uint64_t\<close> in memory on a little-endian machine.\<close>

definition le64 :: "u64 \<Rightarrow> byte list" where
  "le64 w = map (\<lambda>i. ucast (drop_bit (8 * i) w)) [0..<8]"

text \<open>\<^verbatim>\<open>nonce_size - sizeof(uint64_t)\<close> in \<^verbatim>\<open>size_t\<close> arithmetic.\<close>

definition nonce_prefix_len :: "nat \<Rightarrow> nat" where
  "nonce_prefix_len nonce_size = (nonce_size + 2 ^ 64 - 8) mod 2 ^ 64"

definition PacketNumberToNonceEvp :: "byte list \<Rightarrow> nat \<Rightarrow> u64 \<Rightarrow> byte list option" where
  "PacketNumberToNonceEvp nonce nonce_size packet_number =
     mem_write nonce (nonce_prefix_len nonce_size) (le64 packet_number)"

section \<open>Base classes\<close>

datatype crypter_family = Sodium | Evp | Mbedtls

definition kMaxKeySize :: nat where
  "kMaxKeySize = 64"

definition kMaxNonceSize :: nat where
  "kMaxNonceSize = 32"

record ('c, 'm) crypter =
  family :: crypter_family
  is_enc :: bool
  cipher_id :: cipher_method
  aead_alg :: "EVP_AEAD option"
  key_size :: nat
  auth_tag_size :: nat
  nonce_size :: nat
  have_preliminary_key :: bool
  key :: "byte list"
  iv :: "byte list"
  ctx :: "'c option"
  evp :: "'m option"

definition AeadBaseEncrypter :: "crypter_family \<Rightarrow> EVP_AEAD option \<Rightarrow> cipher_method \<Rightarrow> nat \<Rightarrow> nat \<Rightarrow> nat \<Rightarrow> ('c, 'm) crypter" where
  "AeadBaseEncrypter fam alg cid ks ts ns =
     \<lparr>family = fam, is_enc = True, cipher_id = cid, aead_alg = alg,
      key_size = ks, auth_tag_size = ts, nonce_size = ns, have_preliminary_key = False,
      key = replicate kMaxKeySize 0, iv = replicate kMaxNonceSize 0, ctx = None, evp = None\<rparr>"

definition AeadBaseEncrypter_SetKey :: "byte list \<Rightarrow> ('c, 'm) crypter \<Rightarrow> (bool \<times> ('c, 'm) crypter) option" where
  "AeadBaseEncrypter_SetKey k c =
     (if length k \<noteq> key_size c then Some (False, c)
      else do { m \<leftarrow> mem_write (key c) 0 k; Some (True, c\<lparr>key := m\<rparr>) })"

definition AeadBaseEncrypter_SetNoncePrefix :: "byte list \<Rightarrow> ('c, 'm) crypter \<Rightarrow> (bool \<times> ('c, 'm) crypter) option" where
  "AeadBaseEncrypter_SetNoncePrefix nonce_prefix c =
     (if length nonce_prefix \<noteq> nonce_prefix_len (nonce_size c) then Some (False, c)
      else do { m \<leftarrow> mem_write (iv c) 0 nonce_prefix; Some (True, c\<lparr>iv := m\<rparr>) })"

definition AeadBaseEncrypter_SetIV :: "byte list \<Rightarrow> ('c, 'm) crypter \<Rightarrow> (bool \<times> ('c, 'm) crypter) option" where
  "AeadBaseEncrypter_SetIV v c =
     (if length v \<noteq> nonce_size c then Some (False, c)
      else do { m \<leftarrow> mem_write (iv c) 0 v; Some (True, c\<lparr>iv := m\<rparr>) })"

definition AeadBaseDecrypter :: "crypter_family \<Rightarrow> EVP_AEAD option \<Rightarrow> cipher_method \<Rightarrow> nat \<Rightarrow> nat \<Rightarrow> nat \<Rightarrow> ('c, 'm) crypter" where
  "AeadBaseDecrypter fam alg cid ks ts ns =
     \<lparr>family = fam, is_enc = False, cipher_id = cid, aead_alg = alg,
      key_size = ks, auth_tag_size = ts, nonce_size = ns, have_preliminary_key = False,
      key = replicate kMaxKeySize 0, iv = replicate kMaxNonceSize 0, ctx = None, evp = None\<rparr>"

definition AeadBaseDecrypter_SetKey :: "byte list \<Rightarrow> ('c, 'm) crypter \<Rightarrow> (bool \<times> ('c, 'm) crypter) option" where
  "AeadBaseDecrypter_SetKey k c =
     (if length k \<noteq> key_size c then Some (False, c)
      else do { m \<leftarrow> mem_write (key c) 0 k; Some (True, c\<lparr>key := m\<rparr>) })"

definition AeadBaseDecrypter_SetNoncePrefix :: "byte list \<Rightarrow> ('c, 'm) crypter \<Rightarrow> (bool \<times> ('c, 'm) crypter) option" where
  "AeadBaseDecrypter_SetNoncePrefix nonce_prefix c =
     (if length nonce_prefix \<noteq> nonce_prefix_len (nonce_size c) then Some (False, c)
      else do { m \<leftarrow> mem_write (iv c) 0 nonce_prefix; Some (True, c\<lparr>iv := m\<rparr>) })"

definition AeadBaseDecrypter_SetIV :: "byte list \<Rightarrow> ('c, 'm) crypter \<Rightarrow> (bool \<times> ('c, 'm) crypter) option" where
  "AeadBaseDecrypter_SetIV v c =
     (if length v \<noteq> nonce_size c then Some (False, c)
      else do { m \<leftarrow> mem_write (iv c) 0 v; Some (True, c\<lparr>iv := m\<rparr>) })"

definition GetNoncePrefixSize :: "('c, 'm) crypter \<Rightarrow> nat" where
  "GetNoncePrefixSize c = nonce_prefix_len (nonce_size c)"

definition GetMaxPlaintextSize :: "nat \<Rightarrow> ('c, 'm) crypter \<Rightarrow> nat" where
  "GetMaxPlaintextSize ciphertext_size c = ciphertext_size - min ciphertext_size (auth_tag_size c)"

definition GetCiphertextSize :: "nat \<Rightarrow> ('c, 'm) crypter \<Rightarrow> nat" where
  "GetCiphertextSize plaintext_size c = plaintext_size + auth_tag_size c"

section \<open>BoringSSL families\<close>

text \<open>
  \<open>EncryptPacket\<close> and \<open>DecryptPacket\<close> return the bytes written to the output buffer, or
  \<^const>\<open>None\<close> where the code returns false.
\<close>

definition packet_nonce_sodium :: "('c, 'm) crypter \<Rightarrow> u64 \<Rightarrow> byte list option" where
  "packet_nonce_sodium c packet_number =
     do { v \<leftarrow> mem_slice (iv c) 0 (nonce_size c);
          nonce \<leftarrow> mem_write (replicate kMaxNonceSize 0) 0 v;
          n \<leftarrow> PacketNumberToNonceSodium nonce packet_number;
          mem_slice n 0 (nonce_size c) }"

definition packet_nonce_evp :: "('c, 'm) crypter \<Rightarrow> u64 \<Rightarrow> byte list option" where
  "packet_nonce_evp c packet_number =
     do { v \<leftarrow> mem_slice (iv c) 0 (nonce_size c);
          nonce \<leftarrow> mem_write (replicate kMaxNonceSize 0) 0 v;
          n \<leftarrow> PacketNumberToNonceEvp nonce (nonce_size c) packet_number;
          mem_slice n 0 (nonce_size c) }"

definition SodiumAeadEncrypter_SetKey :: "('c, 'm) crypto_lib \<Rightarrow> byte list \<Rightarrow> ('c, 'm) crypter
    \<Rightarrow> (bool \<times> ('c, 'm) crypter) option" where
  "SodiumAeadEncrypter_SetKey lib k c =
     do { (ok, c1) \<leftarrow> AeadBaseEncrypter_SetKey k c;
          if \<not> ok then Some (False, c1)
          else do { alg \<leftarrow> aead_alg c1;
                    let c2 = c1\<lparr>ctx := None\<rparr>;
                    case EVP_AEAD_CTX_init lib alg (take (key_size c2) (key c2)) (auth_tag_size c2) of
                      None \<Rightarrow> Some (False, c2)
                    | Some x \<Rightarrow> Some (True, c2\<lparr>ctx := Some x\<rparr>) } }"

definition SodiumAeadEncrypter_Encrypt :: "('c, 'm) crypto_lib \<Rightarrow> byte list \<Rightarrow> byte list \<Rightarrow> byte list \<Rightarrow> nat
    \<Rightarrow> ('c, 'm) crypter \<Rightarrow> byte list option option" where
  "SodiumAeadEncrypter_Encrypt lib nonce associated_data plaintext max_output_length c =
     do { x \<leftarrow> ctx c; Some (EVP_AEAD_CTX_seal lib x max_output_length nonce plaintext associated_data) }"

definition SodiumAeadEncrypter_EncryptPacket :: "('c, 'm) crypto_lib \<Rightarrow> u64 \<Rightarrow> byte list \<Rightarrow> byte list \<Rightarrow> nat
    \<Rightarrow> ('c, 'm) crypter \<Rightarrow> (byte list option \<times> ('c, 'm) crypter) option" where
  "SodiumAeadEncrypter_EncryptPacket lib packet_number associated_data plaintext max_output_length c =
     (if max_output_length < GetCiphertextSize (length plaintext) c then Some (None, c)
      else do { nonce \<leftarrow> packet_nonce_sodium c packet_number;
                out \<leftarrow> SodiumAeadEncrypter_Encrypt lib nonce associated_data plaintext max_output_length c;
                Some (out, c) })"

definition EvpAeadEncrypter_SetKey :: "('c, 'm) crypto_lib \<Rightarrow> byte list \<Rightarrow> ('c, 'm) crypter
    \<Rightarrow> (bool \<times> ('c, 'm) crypter) option" where
  "EvpAeadEncrypter_SetKey lib k c =
     do { (ok, c1) \<leftarrow> AeadBaseEncrypter_SetKey k c;
          if \<not> ok then Some (False, c1)
          else do { alg \<leftarrow> aead_alg c1;
                    let c2 = c1\<lparr>ctx := None\<rparr>;
                    case EVP_AEAD_CTX_init lib alg (take (key_size c2) (key c2)) (auth_tag_size c2) of
                      None \<Rightarrow> Some (False, c2)
                    | Some x \<Rightarrow> Some (True, c2\<lparr>ctx := Some x\<rparr>) } }"

definition EvpAeadEncrypter_Encrypt :: "('c, 'm) crypto_lib \<Rightarrow> byte list \<Rightarrow> byte list \<Rightarrow> byte list \<Rightarrow> nat
    \<Rightarrow> ('c, 'm) crypter \<Rightarrow> byte list option option" where
  "EvpAeadEncrypter_Encrypt lib nonce associated_data plaintext max_output_length c =
     do { x \<leftarrow> ctx c; Some (EVP_AEAD_CTX_seal lib x max_output_length nonce plaintext associated_data) }"

definition EvpAeadEncrypter_EncryptPacket :: "('c, 'm) crypto_lib \<Rightarrow> u64 \<Rightarrow> byte list \<Rightarrow> byte list \<Rightarrow> nat
    \<Rightarrow> ('c, 'm) crypter \<Rightarrow> (byte list option \<times> ('c, 'm) crypter) option" where
  "EvpAeadEncrypter_EncryptPacket lib packet_number associated_data plaintext max_output_length c =
     (if max_output_length < GetCiphertextSize (length plaintext) c then Some (None, c)
      else do { nonce \<leftarrow> packet_nonce_evp c packet_number;
                out \<leftarrow> EvpAeadEncrypter_Encrypt lib nonce associated_data plaintext max_output_length c;
                Some (out, c) })"

definition AeadSodiumDecrypter_SetKey :: "('c, 'm) crypto_lib \<Rightarrow> byte list \<Rightarrow> ('c, 'm) crypter
    \<Rightarrow> (bool \<times> ('c, 'm) crypter) option" where
  "AeadSodiumDecrypter_SetKey lib k c =
     do { (ok, c1) \<leftarrow> AeadBaseDecrypter_SetKey k c;
          if \<not> ok then Some (False, c1)
          else do { alg \<leftarrow> aead_alg c1;
                    let c2 = c1\<lparr>ctx := None\<rparr>;
                    case EVP_AEAD_CTX_init lib alg (take (key_size c2) (key c2)) (auth_tag_size c2) of
                      None \<Rightarrow> Some (False, c2)
                    | Some x \<Rightarrow> Some (True, c2\<lparr>ctx := Some x\<rparr>) } }"

definition AeadSodiumDecrypter_DecryptPacket :: "('c, 'm) crypto_lib \<Rightarrow> u64 \<Rightarrow> byte list \<Rightarrow> byte list \<Rightarrow> nat
    \<Rightarrow> ('c, 'm) crypter \<Rightarrow> (byte list option \<times> ('c, 'm) crypter) option" where
  "AeadSodiumDecrypter_DecryptPacket lib packet_number associated_data ciphertext max_output_length c =
     (if length ciphertext < auth_tag_size c then Some (None, c)
      else if have_preliminary_key c then Some (None, c)
      else do { nonce \<leftarrow> packet_nonce_sodium c packet_number;
                x \<leftarrow> ctx c;
                Some (EVP_AEAD_CTX_open lib x max_output_length nonce ciphertext associated_data, c) })"

definition AeadEvpDecrypter_SetKey :: "('c, 'm) crypto_lib \<Rightarrow> byte list \<Rightarrow> ('c, 'm) crypter
    \<Rightarrow> (bool \<times> ('c, 'm) crypter) option" where
  "AeadEvpDecrypter_SetKey lib k c =
     do { (ok, c1) \<leftarrow> AeadBaseDecrypter_SetKey k c;
          if \<not> ok then Some (False, c1)
          else do { alg \<leftarrow> aead_alg c1;
                    let c2 = c1\<lparr>ctx := None\<rparr>;
                    case EVP_AEAD_CTX_init lib alg (take (key_size c2) (key c2)) (auth_tag_size c2) of
                      None \<Rightarrow> Some (False, c2)
                    | Some x \<Rightarrow> Some (True, c2\<lparr>ctx := Some x\<rparr>) } }"

definition AeadEvpDecrypter_DecryptPacket :: "('c, 'm) crypto_lib \<Rightarrow> u64 \<Rightarrow> byte list \<Rightarrow> byte list \<Rightarrow> nat
    \<Rightarrow> ('c, 'm) crypter \<Rightarrow> (byte list option \<times> ('c, 'm) crypter) option" where
  "AeadEvpDecrypter_DecryptPacket lib packet_number associated_data ciphertext max_output_length c =
     (if length ciphertext < auth_tag_size c then Some (None, c)
      else if have_preliminary_key c then Some (None, c)
      else do { nonce \<leftarrow> packet_nonce_evp c packet_number;
                x \<leftarrow> ctx c;
                Some (EVP_AEAD_CTX_open lib x max_output_length nonce ciphertext associated_data, c) })"

section \<open>mbedTLS family\<close>

definition mbedtls_get_cipher :: "cipher_method \<Rightarrow> mbedtls_cipher_type option" where
  "mbedtls_get_cipher method =
     (if method = CRYPTO_AES_128_CFB then Some MBEDTLS_CIPHER_AES_128_CFB128
      else if method = CRYPTO_AES_192_CFB then Some MBEDTLS_CIPHER_AES_192_CFB128
      else if method = CRYPTO_AES_256_CFB then Some MBEDTLS_CIPHER_AES_256_CFB128
      else if method = CRYPTO_AES_128_CTR then Some MBEDTLS_CIPHER_AES_128_CTR
      else if method = CRYPTO_AES_192_CTR then Some MBEDTLS_CIPHER_AES_192_CTR
      else if method = CRYPTO_AES_256_CTR then Some MBEDTLS_CIPHER_AES_256_CTR
      else if method = CRYPTO_CAMELLIA_128_CFB then Some MBEDTLS_CIPHER_CAMELLIA_128_CFB128
      else if method = CRYPTO_CAMELLIA_192_CFB then Some MBEDTLS_CIPHER_CAMELLIA_192_CFB128
      else if method = CRYPTO_CAMELLIA_256_CFB then Some MBEDTLS_CIPHER_CAMELLIA_256_CFB128
      else None)"

definition mbedtls_create_evp :: "('c, 'm) crypto_lib \<Rightarrow> cipher_method \<Rightarrow> 'm option" where
  "mbedtls_create_evp lib method =
     (case mbedtls_get_cipher method of None \<Rightarrow> None | Some info \<Rightarrow> mbedtls_cipher_setup lib info)"

text \<open>\<^verbatim>\<open>return -1\<close> from a function of type \<^verbatim>\<open>uint8_t\<close> is 255.\<close>

definition mbedtls_get_nonce_size :: "cipher_method \<Rightarrow> byte" where
  "mbedtls_get_nonce_size method =
     (if method = CRYPTO_AES_128_CFB \<or> method = CRYPTO_AES_192_CFB \<or> method = CRYPTO_AES_256_CFB \<or>
         method = CRYPTO_AES_128_CTR \<or> method = CRYPTO_AES_192_CTR \<or> method = CRYPTO_AES_256_CTR then 16
      else if method = CRYPTO_CAMELLIA_128_CFB \<or> method = CRYPTO_CAMELLIA_192_CFB \<or>
              method = CRYPTO_CAMELLIA_256_CFB then 16
      else -1)"

definition mbedtls_get_key_size :: "cipher_method \<Rightarrow> byte" where
  "mbedtls_get_key_size method =
     (if method = CRYPTO_AES_128_CFB then 16
      else if method = CRYPTO_AES_192_CFB then 24
      else if method = CRYPTO_AES_256_CFB then 32
      else if method = CRYPTO_AES_128_CTR then 16
      else if method = CRYPTO_AES_192_CTR then 24
      else if method = CRYPTO_AES_256_CTR then 32
      else if method = CRYPTO_CAMELLIA_128_CFB then 16
      else if method = CRYPTO_CAMELLIA_192_CFB then 24
      else if method = CRYPTO_CAMELLIA_256_CFB then 32
      else -1)"

definition AeadMbedtlsEncrypter :: "cipher_method \<Rightarrow> 'm option \<Rightarrow> nat \<Rightarrow> nat \<Rightarrow> nat \<Rightarrow> ('c, 'm) crypter" where
  "AeadMbedtlsEncrypter method e ks ts ns = (AeadBaseEncrypter Mbedtls None method ks ts ns)\<lparr>evp := e\<rparr>"

definition AeadMbedtlsEncrypter_SetKey :: "('c, 'm) crypto_lib \<Rightarrow> byte list \<Rightarrow> ('c, 'm) crypter
    \<Rightarrow> (bool \<times> ('c, 'm) crypter) option" where
  "AeadMbedtlsEncrypter_SetKey lib k c =
     do { (ok, c1) \<leftarrow> AeadBaseEncrypter_SetKey k c;
          if \<not> ok then Some (False, c1)
          else do { e \<leftarrow> evp c1;
                    v \<leftarrow> mem_slice (iv c1) 0 (nonce_size c1);
                    case mbedtls_cipher_setkey lib e k True of
                      None \<Rightarrow> Some (False, c1)
                    | Some e1 \<Rightarrow>
                        (case mbedtls_cipher_set_iv lib e1 v of
                           None \<Rightarrow> Some (False, c1\<lparr>evp := Some e1\<rparr>)
                         | Some e2 \<Rightarrow>
                             (case mbedtls_cipher_reset lib e2 of
                                None \<Rightarrow> Some (False, c1\<lparr>evp := Some e2\<rparr>)
                              | Some e3 \<Rightarrow> Some (True, c1\<lparr>evp := Some e3\<rparr>))) } }"

definition AeadMbedtlsEncrypter_Encrypt :: "('c, 'm) crypto_lib \<Rightarrow> byte list \<Rightarrow> ('c, 'm) crypter
    \<Rightarrow> (byte list option \<times> ('c, 'm) crypter) option" where
  "AeadMbedtlsEncrypter_Encrypt lib plaintext c =
     do { e \<leftarrow> evp c;
          case mbedtls_cipher_update lib e plaintext of
            None \<Rightarrow> Some (None, c)
          | Some (out, e1) \<Rightarrow> Some (Some out, c\<lparr>evp := Some e1\<rparr>) }"

definition AeadMbedtlsEncrypter_EncryptPacket :: "('c, 'm) crypto_lib \<Rightarrow> u64 \<Rightarrow> byte list \<Rightarrow> byte list \<Rightarrow> nat
    \<Rightarrow> ('c, 'm) crypter \<Rightarrow> (byte list option \<times> ('c, 'm) crypter) option" where
  "AeadMbedtlsEncrypter_EncryptPacket lib packet_number associated_data plaintext max_output_length c =
     (if max_output_length < GetCiphertextSize (length plaintext) c then Some (None, c)
      else AeadMbedtlsEncrypter_Encrypt lib plaintext c)"

definition AeadMbedtlsDecrypter :: "cipher_method \<Rightarrow> 'm option \<Rightarrow> nat \<Rightarrow> nat \<Rightarrow> nat \<Rightarrow> ('c, 'm) crypter" where
  "AeadMbedtlsDecrypter method e ks ts ns = (AeadBaseDecrypter Mbedtls None method ks ts ns)\<lparr>evp := e\<rparr>"

definition AeadMbedtlsDecrypter_SetKey :: "('c, 'm) crypto_lib \<Rightarrow> byte list \<Rightarrow> ('c, 'm) crypter
    \<Rightarrow> (bool \<times> ('c, 'm) crypter) option" where
  "AeadMbedtlsDecrypter_SetKey lib k c =
     do { (ok, c1) \<leftarrow> AeadBaseDecrypter_SetKey k c;
          if \<not> ok then Some (False, c1)
          else do { e \<leftarrow> evp c1;
                    v \<leftarrow> mem_slice (iv c1) 0 (nonce_size c1);
                    case mbedtls_cipher_setkey lib e k False of
                      None \<Rightarrow> Some (False, c1)
                    | Some e1 \<Rightarrow>
                        (case mbedtls_cipher_set_iv lib e1 v of
                           None \<Rightarrow> Some (False, c1\<lparr>evp := Some e1\<rparr>)
                         | Some e2 \<Rightarrow>
                             (case mbedtls_cipher_reset lib e2 of
                                None \<Rightarrow> Some (False, c1\<lparr>evp := Some e2\<rparr>)
                              | Some e3 \<Rightarrow> Some (True, c1\<lparr>evp := Some e3\<rparr>))) } }"

definition AeadMbedtlsDecrypter_DecryptPacket :: "('c, 'm) crypto_lib \<Rightarrow> u64 \<Rightarrow> byte list \<Rightarrow> byte list \<Rightarrow> nat
    \<Rightarrow> ('c, 'm) crypter \<Rightarrow> (byte list option \<times> ('c, 'm) crypter) option" where
  "AeadMbedtlsDecrypter_DecryptPacket lib packet_number associated_data ciphertext max_output_length c =
     (if length ciphertext < auth_tag_size c then Some (None, c)
      else if have_preliminary_key c then Some (None, c)
      else do { e \<leftarrow> evp c;
                case mbedtls_cipher_update lib e ciphertext of
                  None \<Rightarrow> Some (None, c)
                | Some (out, e1) \<Rightarrow> Some (Some out, c\<lparr>evp := Some e1\<rparr>) })"

section \<open>Virtual dispatch\<close>

definition SetKey :: "('c, 'm) crypto_lib \<Rightarrow> byte list \<Rightarrow> ('c, 'm) crypter \<Rightarrow> (bool \<times> ('c, 'm) crypter) option" where
  "SetKey lib k c =
     (if is_enc c
      then case family c of
             Sodium \<Rightarrow> SodiumAeadEncrypter_SetKey lib k c
           | Evp \<Rightarrow> EvpAeadEncrypter_SetKey lib k c
           | Mbedtls \<Rightarrow> AeadMbedtlsEncrypter_SetKey lib k c
      else case family c of
             Sodium \<Rightarrow> AeadSodiumDecrypter_SetKey lib k c
           | Evp \<Rightarrow> AeadEvpDecrypter_SetKey lib k c
           | Mbedtls \<Rightarrow> AeadMbedtlsDecrypter_SetKey lib k c)"

definition SetNoncePrefix :: "byte list \<Rightarrow> ('c, 'm) crypter \<Rightarrow> (bool \<times> ('c, 'm) crypter) option" where
  "SetNoncePrefix p c =
     (if is_enc c then AeadBaseEncrypter_SetNoncePrefix p c else AeadBaseDecrypter_SetNoncePrefix p c)"

definition SetIV :: "byte list \<Rightarrow> ('c, 'm) crypter \<Rightarrow> (bool \<times> ('c, 'm) crypter) option" where
  "SetIV v c = (if is_enc c then AeadBaseEncrypter_SetIV v c else AeadBaseDecrypter_SetIV v c)"

definition SetPreliminaryKey :: "('c, 'm) crypto_lib \<Rightarrow> byte list \<Rightarrow> ('c, 'm) crypter
    \<Rightarrow> (bool \<times> ('c, 'm) crypter) option" where
  "SetPreliminaryKey lib k c =
     do { (_, c1) \<leftarrow> SetKey lib k c; Some (True, c1\<lparr>have_preliminary_key := True\<rparr>) }"

definition EncryptPacket :: "('c, 'm) crypto_lib \<Rightarrow> u64 \<Rightarrow> byte list \<Rightarrow> byte list \<Rightarrow> nat
    \<Rightarrow> ('c, 'm) crypter \<Rightarrow> (byte list option \<times> ('c, 'm) crypter) option" where
  "EncryptPacket lib pn ad m mx c =
     (case family c of
        Sodium \<Rightarrow> SodiumAeadEncrypter_EncryptPacket lib pn ad m mx c
      | Evp \<Rightarrow> EvpAeadEncrypter_EncryptPacket lib pn ad m mx c
      | Mbedtls \<Rightarrow> AeadMbedtlsEncrypter_EncryptPacket lib pn ad m mx c)"

definition DecryptPacket :: "('c, 'm) crypto_lib \<Rightarrow> u64 \<Rightarrow> byte list \<Rightarrow> byte list \<Rightarrow> nat
    \<Rightarrow> ('c, 'm) crypter \<Rightarrow> (byte list option \<times> ('c, 'm) crypter) option" where
  "DecryptPacket lib pn ad m mx c =
     (case family c of
        Sodium \<Rightarrow> AeadSodiumDecrypter_DecryptPacket lib pn ad m mx c
      | Evp \<Rightarrow> AeadEvpDecrypter_DecryptPacket lib pn ad m mx c
      | Mbedtls \<Rightarrow> AeadMbedtlsDecrypter_DecryptPacket lib pn ad m mx c)"

section \<open>Cipher suites\<close>

definition Aes256GcmSodiumEncrypter :: "('c, 'm) crypter" where
  "Aes256GcmSodiumEncrypter = AeadBaseEncrypter Sodium (Some EVP_aead_aes_256_gcm) CRYPTO_AES256GCMSHA256 32 16 12"

definition ChaCha20Poly1305SodiumEncrypter :: "('c, 'm) crypter" where
  "ChaCha20Poly1305SodiumEncrypter = AeadBaseEncrypter Sodium (Some EVP_aead_chacha20_poly1305) CRYPTO_CHACHA20POLY1305IETF 32 16 12"

definition XChaCha20Poly1305SodiumEncrypter :: "('c, 'm) crypter" where
  "XChaCha20Poly1305SodiumEncrypter = AeadBaseEncrypter Sodium (Some EVP_aead_xchacha20_poly1305) CRYPTO_XCHACHA20POLY1305IETF 32 16 24"

definition ChaCha20Poly1305EvpEncrypter :: "('c, 'm) crypter" where
  "ChaCha20Poly1305EvpEncrypter = AeadBaseEncrypter Evp (Some EVP_aead_chacha20_poly1305) CRYPTO_CHACHA20POLY1305IETF_EVP 32 12 12"

definition XChaCha20Poly1305EvpEncrypter :: "('c, 'm) crypter" where
  "XChaCha20Poly1305EvpEncrypter = AeadBaseEncrypter Evp (Some EVP_aead_xchacha20_poly1305) CRYPTO_XCHACHA20POLY1305IETF_EVP 32 12 24"

definition Aes128GcmEvpEncrypter :: "('c, 'm) crypter" where
  "Aes128GcmEvpEncrypter = AeadBaseEncrypter Evp (Some EVP_aead_aes_128_gcm) CRYPTO_AES128GCMSHA256_EVP 16 16 12"

definition Aes128Gcm12EvpEncrypter :: "('c, 'm) crypter" where
  "Aes128Gcm12EvpEncrypter = AeadBaseEncrypter Evp (Some EVP_aead_aes_128_gcm) CRYPTO_AES128GCM12SHA256_EVP 16 12 12"

definition Aes192GcmEvpEncrypter :: "('c, 'm) crypter" where
  "Aes192GcmEvpEncrypter = AeadBaseEncrypter Evp (Some EVP_aead_aes_192_gcm) CRYPTO_AES192GCMSHA256_EVP 24 16 12"

definition Aes256GcmEvpEncrypter :: "('c, 'm) crypter" where
  "Aes256GcmEvpEncrypter = AeadBaseEncrypter Evp (Some EVP_aead_aes_256_gcm) CRYPTO_AES256GCMSHA256_EVP 32 16 12"

definition Aes256GcmSodiumDecrypter :: "('c, 'm) crypter" where
  "Aes256GcmSodiumDecrypter = AeadBaseDecrypter Sodium (Some EVP_aead_aes_256_gcm) CRYPTO_AES256GCMSHA256 32 16 12"

definition ChaCha20Poly1305SodiumDecrypter :: "('c, 'm) crypter" where
  "ChaCha20Poly1305SodiumDecrypter = AeadBaseDecrypter Sodium (Some EVP_aead_chacha20_poly1305) CRYPTO_CHACHA20POLY1305IETF 32 16 12"

definition XChaCha20Poly1305SodiumDecrypter :: "('c, 'm) crypter" where
  "XChaCha20Poly1305SodiumDecrypter = AeadBaseDecrypter Sodium (Some EVP_aead_xchacha20_poly1305) CRYPTO_XCHACHA20POLY1305IETF 32 16 24"

definition ChaCha20Poly1305EvpDecrypter :: "('c, 'm) crypter" where
  "ChaCha20Poly1305EvpDecrypter = AeadBaseDecrypter Evp (Some EVP_aead_chacha20_poly1305) CRYPTO_CHACHA20POLY1305IETF_EVP 32 12 12"

definition XChaCha20Poly1305EvpDecrypter :: "('c, 'm) crypter" where
  "XChaCha20Poly1305EvpDecrypter = AeadBaseDecrypter Evp (Some EVP_aead_xchacha20_poly1305) CRYPTO_XCHACHA20POLY1305IETF_EVP 32 12 24"

definition Aes128GcmEvpDecrypter :: "('c, 'm) crypter" where
  "Aes128GcmEvpDecrypter = AeadBaseDecrypter Evp (Some EVP_aead_aes_128_gcm) CRYPTO_AES128GCMSHA256_EVP 16 16 12"

definition Aes128Gcm12EvpDecrypter :: "('c, 'm) crypter" where
  "Aes128Gcm12EvpDecrypter = AeadBaseDecrypter Evp (Some EVP_aead_aes_128_gcm) CRYPTO_AES128GCM12SHA256_EVP 16 12 12"

definition Aes192GcmEvpDecrypter :: "('c, 'm) crypter" where
  "Aes192GcmEvpDecrypter = AeadBaseDecrypter Evp (Some EVP_aead_aes_192_gcm) CRYPTO_AES192GCMSHA256_EVP 24 16 12"

definition Aes256GcmEvpDecrypter :: "('c, 'm) crypter" where
  "Aes256GcmEvpDecrypter = AeadBaseDecrypter Evp (Some EVP_aead_aes_256_gcm) CRYPTO_AES256GCMSHA256_EVP 32 16 12"

definition Encrypter_CreateFromCipherSuite :: "('c, 'm) crypto_lib \<Rightarrow> cipher_method \<Rightarrow> ('c, 'm) crypter option" where
  "Encrypter_CreateFromCipherSuite lib cipher_suite =
     (if cipher_suite = CRYPTO_AES256GCMSHA256 then Some Aes256GcmSodiumEncrypter
      else if cipher_suite = CRYPTO_CHACHA20POLY1305IETF then Some ChaCha20Poly1305SodiumEncrypter
      else if cipher_suite = CRYPTO_XCHACHA20POLY1305IETF then Some XChaCha20Poly1305SodiumEncrypter
      else if cipher_suite = CRYPTO_CHACHA20POLY1305IETF_EVP then Some ChaCha20Poly1305EvpEncrypter
      else if cipher_suite = CRYPTO_XCHACHA20POLY1305IETF_EVP then Some XChaCha20Poly1305EvpEncrypter
      else if cipher_suite = CRYPTO_AES128GCMSHA256_EVP then Some Aes128GcmEvpEncrypter
      else if cipher_suite = CRYPTO_AES128GCM12SHA256_EVP then Some Aes128Gcm12EvpEncrypter
      else if cipher_suite = CRYPTO_AES192GCMSHA256_EVP then Some Aes192GcmEvpEncrypter
      else if cipher_suite = CRYPTO_AES256GCMSHA256_EVP then Some Aes256GcmEvpEncrypter
      else if cipher_suite \<in> {CRYPTO_AES_128_CFB, CRYPTO_AES_192_CFB, CRYPTO_AES_256_CFB, CRYPTO_AES_128_CTR,
          CRYPTO_AES_192_CTR, CRYPTO_AES_256_CTR, CRYPTO_CAMELLIA_128_CFB, CRYPTO_CAMELLIA_192_CFB,
          CRYPTO_CAMELLIA_256_CFB}
      then let e = mbedtls_create_evp lib cipher_suite;
               key_len = mbedtls_get_key_size cipher_suite;
               nonce_len = mbedtls_get_nonce_size cipher_suite
           in Some (AeadMbedtlsEncrypter cipher_suite e (unat key_len) 0 (unat nonce_len))
      else None)"

definition Decrypter_CreateFromCipherSuite :: "('c, 'm) crypto_lib \<Rightarrow> cipher_method \<Rightarrow> ('c, 'm) crypter option" where
  "Decrypter_CreateFromCipherSuite lib cipher_suite =
     (if cipher_suite = CRYPTO_AES256GCMSHA256 then Some Aes256GcmSodiumDecrypter
      else if cipher_suite = CRYPTO_CHACHA20POLY1305IETF then Some ChaCha20Poly1305SodiumDecrypter
      else if cipher_suite = CRYPTO_XCHACHA20POLY1305IETF then Some XChaCha20Poly1305SodiumDecrypter
      else if cipher_suite = CRYPTO_CHACHA20POLY1305IETF_EVP then Some ChaCha20Poly1305EvpDecrypter
      else if cipher_suite = CRYPTO_XCHACHA20POLY1305IETF_EVP then Some XChaCha20Poly1305EvpDecrypter
      else if cipher_suite = CRYPTO_AES128GCMSHA256_EVP then Some Aes128GcmEvpDecrypter
      else if cipher_suite = CRYPTO_AES128GCM12SHA256_EVP then Some Aes128Gcm12EvpDecrypter
      else if cipher_suite = CRYPTO_AES192GCMSHA256_EVP then Some Aes192GcmEvpDecrypter
      else if cipher_suite = CRYPTO_AES256GCMSHA256_EVP then Some Aes256GcmEvpDecrypter
      else if cipher_suite \<in> {CRYPTO_AES_128_CFB, CRYPTO_AES_192_CFB, CRYPTO_AES_256_CFB, CRYPTO_AES_128_CTR,
          CRYPTO_AES_192_CTR, CRYPTO_AES_256_CTR, CRYPTO_CAMELLIA_128_CFB, CRYPTO_CAMELLIA_192_CFB,
          CRYPTO_CAMELLIA_256_CFB}
      then let e = mbedtls_create_evp lib cipher_suite;
               key_len = mbedtls_get_key_size cipher_suite;
               nonce_len = mbedtls_get_nonce_size cipher_suite
           in Some (AeadMbedtlsDecrypter cipher_suite e (unat key_len) 0 (unat nonce_len))
      else None)"

section \<open>What the code relies on in BoringSSL\<close>

primrec evp_key_length :: "EVP_AEAD \<Rightarrow> nat" where
  "evp_key_length EVP_aead_aes_128_gcm = 16"
| "evp_key_length EVP_aead_aes_192_gcm = 24"
| "evp_key_length EVP_aead_aes_256_gcm = 32"
| "evp_key_length EVP_aead_chacha20_poly1305 = 32"
| "evp_key_length EVP_aead_xchacha20_poly1305 = 32"

primrec evp_nonce_length :: "EVP_AEAD \<Rightarrow> nat" where
  "evp_nonce_length EVP_aead_aes_128_gcm = 12"
| "evp_nonce_length EVP_aead_aes_192_gcm = 12"
| "evp_nonce_length EVP_aead_aes_256_gcm = 12"
| "evp_nonce_length EVP_aead_chacha20_poly1305 = 12"
| "evp_nonce_length EVP_aead_xchacha20_poly1305 = 24"

text \<open>
  The documented behaviour of the \<^verbatim>\<open>EVP_AEAD\<close> interface: initialising with a key of the right length
  and a tag of 1 to 16 bytes succeeds; sealing under a nonce of the right length appends a tag of that
  length when the buffer is large enough; opening what was sealed under the same key, nonce and
  associated data returns the input.
\<close>

definition evp_seals :: "('c, 'm) crypto_lib \<Rightarrow> 'c \<Rightarrow> nat \<Rightarrow> nat \<Rightarrow> bool" where
  "evp_seals lib x tag nlen \<longleftrightarrow>
     (\<forall>nonce pt ad. length nonce = nlen \<longrightarrow>
        (\<exists>ct. length ct = length pt + tag \<and>
          (\<forall>mx. length pt + tag \<le> mx \<longrightarrow> EVP_AEAD_CTX_seal lib x mx nonce pt ad = Some ct) \<and>
          (\<forall>mx. length pt \<le> mx \<longrightarrow> EVP_AEAD_CTX_open lib x mx nonce ct ad = Some pt)))"

definition aead_lib_ok :: "('c, 'm) crypto_lib \<Rightarrow> bool" where
  "aead_lib_ok lib \<longleftrightarrow>
     (\<forall>alg k tag. length k = evp_key_length alg \<longrightarrow> 0 < tag \<longrightarrow> tag \<le> 16 \<longrightarrow>
        (\<exists>x. EVP_AEAD_CTX_init lib alg k tag = Some x \<and> evp_seals lib x tag (evp_nonce_length alg)))"

text \<open>
  A library with these properties: it appends zero bytes as the tag and leaves stream data alone.
\<close>

definition plain_lib :: "(nat, unit) crypto_lib" where
  "plain_lib =
     \<lparr>EVP_AEAD_CTX_init = (\<lambda>alg k tag. Some tag),
      EVP_AEAD_CTX_seal = (\<lambda>tag mx nonce pt ad. if length pt + tag \<le> mx then Some (pt @ replicate tag 0) else None),
      EVP_AEAD_CTX_open = (\<lambda>tag mx nonce ct ad.
        if tag \<le> length ct \<and> length ct - tag \<le> mx \<and> drop (length ct - tag) ct = replicate tag 0
        then Some (take (length ct - tag) ct) else None),
      mbedtls_cipher_setup = (\<lambda>ty. Some ()), mbedtls_cipher_setkey = (\<lambda>m k e. Some ()),
      mbedtls_cipher_set_iv = (\<lambda>m v. Some ()), mbedtls_cipher_reset = (\<lambda>m. Some ()),
      mbedtls_cipher_update = (\<lambda>m xs. Some (xs, ()))\<rparr>"

lemma plain_lib_ok: "aead_lib_ok plain_lib"
proof -
  have "evp_seals plain_lib tag tag n" for tag n
    unfolding evp_seals_def
  proof (intro allI impI)
    fix nonce pt ad :: "byte list"
    show "\<exists>ct. length ct = length pt + tag \<and>
        (\<forall>mx. length pt + tag \<le> mx \<longrightarrow> EVP_AEAD_CTX_seal plain_lib tag mx nonce pt ad = Some ct) \<and>
        (\<forall>mx. length pt \<le> mx \<longrightarrow> EVP_AEAD_CTX_open plain_lib tag mx nonce ct ad = Some pt)"
      by (rule exI [of _ "pt @ replicate tag 0"]) (simp add: plain_lib_def)
  qed
  moreover have "EVP_AEAD_CTX_init plain_lib alg k tag = Some tag" for alg k tag
    by (simp add: plain_lib_def)
  ultimately show ?thesis by (simp add: aead_lib_ok_def)
qed

section \<open>Well-formed crypters and their nonces\<close>

definition crypter_inv :: "('c, 'm) crypter \<Rightarrow> bool" where
  "crypter_inv c \<longleftrightarrow> length (key c) = kMaxKeySize \<and> length (iv c) = kMaxNonceSize \<and>
     key_size c \<le> kMaxKeySize \<and> 8 \<le> nonce_size c \<and> nonce_size c \<le> kMaxNonceSize"

lemma length_le64 [simp]: "length (le64 w) = 8"
  by (simp add: le64_def)

lemma nonce_prefix_len_eq: "8 \<le> n \<Longrightarrow> n \<le> kMaxNonceSize \<Longrightarrow> nonce_prefix_len n = n - 8"
  by (simp add: nonce_prefix_len_def kMaxNonceSize_def le_mod_geq)

definition le32 :: "u64 \<Rightarrow> byte list" where
  "le32 w = take 4 (le64 w)"

lemma length_le32 [simp]: "length (le32 w) = 4"
  by (simp add: le32_def)

lemma packet_nonce_evp_eq:
  assumes "crypter_inv c"
  shows "packet_nonce_evp c pn = Some (take (nonce_size c - 8) (iv c) @ le64 pn)"
  using assms
  by (auto simp: packet_nonce_evp_def PacketNumberToNonceEvp_def crypter_inv_def nonce_prefix_len_eq
      mem_simps kMaxNonceSize_def min_def)

definition packet_nonce :: "('c, 'm) crypter \<Rightarrow> u64 \<Rightarrow> byte list" where
  "packet_nonce c pn =
     (if family c = Sodium then le32 pn @ drop 4 (take (nonce_size c) (iv c))
      else take (nonce_size c - 8) (iv c) @ le64 pn)"

lemma byte_of_masked:
  "ucast (w AND 0xff :: u64) = (ucast w :: byte)"
  "ucast (drop_bit 8 (w AND 0xff00 :: u64)) = (ucast (drop_bit 8 w) :: byte)"
  "ucast (drop_bit 16 (w AND 0xff0000 :: u64)) = (ucast (drop_bit 16 w) :: byte)"
  "ucast (drop_bit 24 (w AND 0xff000000 :: u64)) = (ucast (drop_bit 24 w) :: byte)"
proof -
  have m: "(0xff00 :: u64) = push_bit 8 (mask 8)" "(0xff0000 :: u64) = push_bit 16 (mask 8)"
    "(0xff000000 :: u64) = push_bit 24 (mask 8)" "(0xff :: u64) = mask 8"
    by (simp_all add: mask_eq_exp_minus_1 push_bit_eq_mult)
  show "ucast (w AND 0xff :: u64) = (ucast w :: byte)"
    "ucast (drop_bit 8 (w AND 0xff00 :: u64)) = (ucast (drop_bit 8 w) :: byte)"
    "ucast (drop_bit 16 (w AND 0xff0000 :: u64)) = (ucast (drop_bit 16 w) :: byte)"
    "ucast (drop_bit 24 (w AND 0xff000000 :: u64)) = (ucast (drop_bit 24 w) :: byte)"
    unfolding m by (rule bit_eqI, auto simp: bit_simps)+
qed

lemma packet_nonce_sodium_eq:
  assumes "crypter_inv c"
  shows "packet_nonce_sodium c pn = Some (le32 pn @ drop 4 (take (nonce_size c) (iv c)))"
proof -
  have "le32 pn = [ucast pn, ucast (drop_bit 8 pn), ucast (drop_bit 16 pn), ucast (drop_bit 24 pn)]"
    by (simp add: le32_def le64_def upt_rec numeral_eq_Suc)
  then have "PacketNumberToNonceSodium nonce pn = mem_write nonce 0 (le32 pn)" for nonce
    by (simp add: PacketNumberToNonceSodium_def Let_def byte_of_masked)
  with assms show ?thesis
    by (auto simp: packet_nonce_sodium_def crypter_inv_def mem_simps kMaxNonceSize_def)
qed

lemma le64_inject [simp]: "le64 v = le64 w \<longleftrightarrow> v = w"
proof
  assume eq: "le64 v = le64 w"
  show "v = w"
  proof (rule bit_eqI)
    fix n assume "possible_bit TYPE(64 word) n"
    then have n: "n div 8 < 8" "n mod 8 < 8" "n = 8 * (n div 8) + n mod 8" by auto
    from eq have "le64 v ! (n div 8) = le64 w ! (n div 8)" by simp
    then have "(ucast (drop_bit (8 * (n div 8)) v) :: byte) = ucast (drop_bit (8 * (n div 8)) w)"
      using n by (simp add: le64_def)
    then have "bit (ucast (drop_bit (8 * (n div 8)) v) :: byte) (n mod 8) \<longleftrightarrow>
        bit (ucast (drop_bit (8 * (n div 8)) w) :: byte) (n mod 8)" by simp
    then show "bit v n \<longleftrightarrow> bit w n" using n by (simp add: bit_simps)
  qed
qed simp

lemma le32_eq_iff: "le32 v = le32 w \<longleftrightarrow> take_bit 32 v = take_bit 32 w"
proof -
  have "le32 v = le32 w \<longleftrightarrow> (\<forall>i<4. (ucast (drop_bit (8 * i) v) :: byte) = ucast (drop_bit (8 * i) w))"
    by (auto simp: le32_def le64_def list_eq_iff_nth_eq)
  also have "\<dots> \<longleftrightarrow> (\<forall>i<4. \<forall>j<8. bit v (8 * i + j) = bit w (8 * i + j))"
    by (auto simp: bit_eq_iff bit_simps)
  also have "\<dots> \<longleftrightarrow> (\<forall>n<32. bit v n = bit w n)"
  proof safe
    fix n :: nat assume "n < 32" and h: "\<forall>i<4. \<forall>j<8. bit v (8 * i + j) = bit w (8 * i + j)"
    then have "n div 8 < 4" "n mod 8 < 8" by auto
    with h show "bit v n \<Longrightarrow> bit w n" "bit w n \<Longrightarrow> bit v n" by (metis mult_div_mod_eq)+
  qed auto
  also have "\<dots> \<longleftrightarrow> take_bit 32 v = take_bit 32 w"
  proof
    assume "take_bit 32 v = take_bit 32 w"
    then have "bit (take_bit 32 v) n = bit (take_bit 32 w) n" for n by simp
    then show "\<forall>n<32. bit v n = bit w n" by (simp add: bit_simps) blast
  qed (auto simp: bit_eq_iff bit_simps)
  finally show ?thesis .
qed

section \<open>Matching encrypters and decrypters\<close>

definition aead_suite :: "('c, 'm) crypter \<Rightarrow> bool" where
  "aead_suite c \<longleftrightarrow> crypter_inv c \<and> family c \<noteq> Mbedtls \<and> \<not> have_preliminary_key c \<and>
     0 < auth_tag_size c \<and> auth_tag_size c \<le> 16 \<and>
     (\<exists>alg. aead_alg c = Some alg \<and> key_size c = evp_key_length alg \<and> nonce_size c = evp_nonce_length alg)"

definition same_suite :: "('c, 'm) crypter \<Rightarrow> ('c, 'm) crypter \<Rightarrow> bool" where
  "same_suite e d \<longleftrightarrow> is_enc e \<and> \<not> is_enc d \<and> family e = family d \<and> cipher_id e = cipher_id d \<and>
     aead_alg e = aead_alg d \<and> key_size e = key_size d \<and> auth_tag_size e = auth_tag_size d \<and>
     nonce_size e = nonce_size d \<and> key e = key d \<and> iv e = iv d \<and> evp e = evp d"

text \<open>The ciphertext of a packet, as the encrypter produces it in a buffer of exactly the right size.\<close>

definition sealed :: "('c, 'm) crypto_lib \<Rightarrow> ('c, 'm) crypter \<Rightarrow> u64 \<Rightarrow> byte list \<Rightarrow> byte list" where
  "sealed lib e pn pt = the (fst (the (EncryptPacket lib pn [] pt (length pt + auth_tag_size e) e)))"

text \<open>What the framing layer above relies on: packets sealed by \<open>e\<close> are opened by \<open>d\<close>.\<close>

definition packet_pair :: "('c, 'm) crypto_lib \<Rightarrow> ('c, 'm) crypter \<Rightarrow> ('c, 'm) crypter \<Rightarrow> bool" where
  "packet_pair lib e d \<longleftrightarrow> auth_tag_size e = auth_tag_size d \<and> family e \<noteq> Mbedtls \<and> family d \<noteq> Mbedtls \<and>
     (\<forall>pn pt. length (sealed lib e pn pt) = length pt + auth_tag_size e \<and>
       (\<forall>mx. length pt + auth_tag_size e \<le> mx \<longrightarrow> EncryptPacket lib pn [] pt mx e = Some (Some (sealed lib e pn pt), e)) \<and>
       (\<forall>mx. length pt \<le> mx \<longrightarrow> DecryptPacket lib pn [] (sealed lib e pn pt) mx d = Some (Some pt, d)))"

lemmas setkey_unfolds = SetKey_def SodiumAeadEncrypter_SetKey_def EvpAeadEncrypter_SetKey_def
  AeadSodiumDecrypter_SetKey_def AeadEvpDecrypter_SetKey_def AeadBaseEncrypter_SetKey_def
  AeadBaseDecrypter_SetKey_def

lemmas setprefix_unfolds = SetNoncePrefix_def AeadBaseEncrypter_SetNoncePrefix_def
  AeadBaseDecrypter_SetNoncePrefix_def

lemmas packet_unfolds = EncryptPacket_def SodiumAeadEncrypter_EncryptPacket_def
  EvpAeadEncrypter_EncryptPacket_def SodiumAeadEncrypter_Encrypt_def EvpAeadEncrypter_Encrypt_def
  DecryptPacket_def AeadSodiumDecrypter_DecryptPacket_def AeadEvpDecrypter_DecryptPacket_def
  GetCiphertextSize_def

lemma SetKey_aead:
  assumes "aead_lib_ok lib" "aead_suite c" "length k = key_size c"
  shows "\<exists>x. SetKey lib k c = Some (True, c\<lparr>key := k @ drop (length k) (key c), ctx := Some x\<rparr>) \<and>
     EVP_AEAD_CTX_init lib (the (aead_alg c)) k (auth_tag_size c) = Some x \<and>
     evp_seals lib x (auth_tag_size c) (nonce_size c)"
proof -
  obtain alg where alg: "aead_alg c = Some alg" "key_size c = evp_key_length alg" "nonce_size c = evp_nonce_length alg"
    using assms(2) by (auto simp: aead_suite_def)
  then obtain x where x: "EVP_AEAD_CTX_init lib alg k (auth_tag_size c) = Some x"
    "evp_seals lib x (auth_tag_size c) (nonce_size c)"
    using assms unfolding aead_lib_ok_def aead_suite_def by metis
  then have "SetKey lib k c = Some (True, c\<lparr>key := k @ drop (length k) (key c), ctx := Some x\<rparr>)"
    using assms(2,3) alg
    by (cases "family c") (auto simp: setkey_unfolds aead_suite_def crypter_inv_def mem_simps)
  with x alg show ?thesis by simp
qed

lemma SetKey_wrong_length: "length k \<noteq> key_size c \<Longrightarrow> family c \<noteq> Mbedtls \<Longrightarrow> SetKey lib k c = Some (False, c)"
  by (cases "family c") (auto simp: setkey_unfolds)

lemma SetNoncePrefix_ok:
  assumes "crypter_inv c" "length p = nonce_size c - 8"
  shows "SetNoncePrefix p c = Some (True, c\<lparr>iv := p @ drop (length p) (iv c)\<rparr>)"
  using assms
  by (auto simp: setprefix_unfolds crypter_inv_def nonce_prefix_len_eq mem_simps)

lemma length_packet_nonce: "crypter_inv c \<Longrightarrow> length (packet_nonce c pn) = nonce_size c"
  by (auto simp: packet_nonce_def crypter_inv_def kMaxNonceSize_def)

lemma EncryptPacket_aead:
  assumes "aead_suite c" "ctx c = Some x" "length pt + auth_tag_size c \<le> mx"
  shows "EncryptPacket lib pn ad pt mx c = Some (EVP_AEAD_CTX_seal lib x mx (packet_nonce c pn) pt ad, c)"
  using assms
  by (cases "family c")
     (auto simp: packet_unfolds packet_nonce_sodium_eq packet_nonce_evp_eq packet_nonce_def aead_suite_def)

lemma DecryptPacket_aead:
  assumes "aead_suite c" "ctx c = Some x" "auth_tag_size c \<le> length ct"
  shows "DecryptPacket lib pn ad ct mx c = Some (EVP_AEAD_CTX_open lib x mx (packet_nonce c pn) ct ad, c)"
  using assms
  by (cases "family c")
     (auto simp: packet_unfolds packet_nonce_sodium_eq packet_nonce_evp_eq packet_nonce_def aead_suite_def)

lemma DecryptPacket_short:
  assumes "length ct < auth_tag_size c"
  shows "DecryptPacket lib pn ad ct mx c = Some (None, c)"
  using assms by (cases "family c") (auto simp: packet_unfolds AeadMbedtlsDecrypter_DecryptPacket_def)

text \<open>Two crypters of one suite with the same key, prefix and context agree on every packet.\<close>

lemma keyed_roundtrip:
  assumes "aead_suite e" "aead_suite d" "packet_nonce e pn = packet_nonce d pn"
    "auth_tag_size e = auth_tag_size d" "ctx e = Some x" "ctx d = Some x"
    "evp_seals lib x (auth_tag_size e) (nonce_size e)"
  shows "\<exists>ct. length ct = length pt + auth_tag_size e \<and>
    (\<forall>mx. length pt + auth_tag_size e \<le> mx \<longrightarrow> EncryptPacket lib pn ad pt mx e = Some (Some ct, e)) \<and>
    (\<forall>mx. length pt \<le> mx \<longrightarrow> DecryptPacket lib pn ad ct mx d = Some (Some pt, d))"
proof -
  have "length (packet_nonce e pn) = nonce_size e"
    using assms(1) by (simp add: length_packet_nonce aead_suite_def)
  then obtain ct where "length ct = length pt + auth_tag_size e"
    "\<forall>mx. length pt + auth_tag_size e \<le> mx \<longrightarrow> EVP_AEAD_CTX_seal lib x mx (packet_nonce e pn) pt ad = Some ct"
    "\<forall>mx. length pt \<le> mx \<longrightarrow> EVP_AEAD_CTX_open lib x mx (packet_nonce e pn) ct ad = Some pt"
    using assms(7) unfolding evp_seals_def by meson
  then show ?thesis
    using assms EncryptPacket_aead [OF assms(1,5)] DecryptPacket_aead [OF assms(2,6)]
    by (intro exI [of _ ct]) auto
qed

lemma keyed_packet_pair:
  assumes "aead_suite e" "aead_suite d" "\<And>pn. packet_nonce e pn = packet_nonce d pn"
    "auth_tag_size e = auth_tag_size d" "ctx e = Some x" "ctx d = Some x"
    "evp_seals lib x (auth_tag_size e) (nonce_size e)"
  shows "packet_pair lib e d"
  unfolding packet_pair_def
proof (intro conjI allI)
  fix pn pt
  obtain ct where ct: "length ct = length pt + auth_tag_size e"
    "\<forall>mx. length pt + auth_tag_size e \<le> mx \<longrightarrow> EncryptPacket lib pn [] pt mx e = Some (Some ct, e)"
    "\<forall>mx. length pt \<le> mx \<longrightarrow> DecryptPacket lib pn [] ct mx d = Some (Some pt, d)"
    using keyed_roundtrip [OF assms, of pt pn "[]"] by blast
  then have "sealed lib e pn pt = ct" by (simp add: sealed_def)
  with ct show "length (sealed lib e pn pt) = length pt + auth_tag_size e"
    "\<And>mx. length pt + auth_tag_size e \<le> mx \<longrightarrow> EncryptPacket lib pn [] pt mx e = Some (Some (sealed lib e pn pt), e)"
    "\<And>mx. length pt \<le> mx \<longrightarrow> DecryptPacket lib pn [] (sealed lib e pn pt) mx d = Some (Some pt, d)"
    by auto
qed (use assms in \<open>auto simp: aead_suite_def\<close>)

lemma keyed_pair:
  assumes "aead_lib_ok lib" "same_suite e d" "aead_suite e" "aead_suite d" "length k = key_size e"
    "length p = nonce_size e - 8"
  shows "\<exists>e1 e2 d1 d2 x. SetKey lib k e = Some (True, e1) \<and> SetNoncePrefix p e1 = Some (True, e2) \<and>
    SetKey lib k d = Some (True, d1) \<and> SetNoncePrefix p d1 = Some (True, d2) \<and>
    aead_suite e2 \<and> aead_suite d2 \<and> (\<forall>pn. packet_nonce e2 pn = packet_nonce d2 pn) \<and>
    auth_tag_size e2 = auth_tag_size e \<and> auth_tag_size d2 = auth_tag_size e \<and>
    ctx e2 = Some x \<and> ctx d2 = Some x \<and> evp_seals lib x (auth_tag_size e) (nonce_size e) \<and>
    nonce_size e2 = nonce_size e"
proof -
  define set where "set c x = c\<lparr>key := k @ drop (length k) (key c), ctx := Some x\<rparr>" for c :: "('a, 'b) crypter" and x
  obtain x where x: "SetKey lib k e = Some (True, set e x)" "evp_seals lib x (auth_tag_size e) (nonce_size e)"
    "EVP_AEAD_CTX_init lib (the (aead_alg e)) k (auth_tag_size e) = Some x"
    using SetKey_aead [OF assms(1,3,5)] by (auto simp: set_def)
  have "length k = key_size d" using assms(2,5) by (simp add: same_suite_def)
  then have d: "SetKey lib k d = Some (True, set d x)"
    using SetKey_aead [OF assms(1,4), of k] x(3) assms(2) by (auto simp: set_def same_suite_def)
  have inv: "aead_suite (set e x)" "aead_suite (set d x)"
    using assms(2-5) by (auto simp: set_def aead_suite_def crypter_inv_def same_suite_def)
  have p: "SetNoncePrefix p (set c x) = Some (True, (set c x)\<lparr>iv := p @ drop (length p) (iv c)\<rparr>)"
    if "c = e \<or> c = d" for c
    using that inv assms(2,6) SetNoncePrefix_ok [of "set c x" p]
    by (auto simp: aead_suite_def same_suite_def set_def)
  let ?e2 = "(set e x)\<lparr>iv := p @ drop (length p) (iv e)\<rparr>" and ?d2 = "(set d x)\<lparr>iv := p @ drop (length p) (iv d)\<rparr>"
  have "aead_suite ?e2" "aead_suite ?d2"
    using inv assms(2,6) by (auto simp: set_def aead_suite_def crypter_inv_def same_suite_def kMaxNonceSize_def)
  moreover have "packet_nonce ?e2 pn = packet_nonce ?d2 pn" for pn
    using assms(2) by (auto simp: packet_nonce_def set_def same_suite_def)
  moreover have "auth_tag_size ?e2 = auth_tag_size e" "auth_tag_size ?d2 = auth_tag_size e"
    "ctx ?e2 = Some x" "ctx ?d2 = Some x" "nonce_size ?e2 = nonce_size e"
    using assms(2) by (auto simp: set_def same_suite_def)
  ultimately show ?thesis using x(1,2) d p [of e] p [of d] by blast
qed

section \<open>The factories\<close>

lemmas encrypter_suites = Aes256GcmSodiumEncrypter_def ChaCha20Poly1305SodiumEncrypter_def
  XChaCha20Poly1305SodiumEncrypter_def ChaCha20Poly1305EvpEncrypter_def XChaCha20Poly1305EvpEncrypter_def
  Aes128GcmEvpEncrypter_def Aes128Gcm12EvpEncrypter_def Aes192GcmEvpEncrypter_def Aes256GcmEvpEncrypter_def
  AeadMbedtlsEncrypter_def AeadBaseEncrypter_def

lemmas decrypter_suites = Aes256GcmSodiumDecrypter_def ChaCha20Poly1305SodiumDecrypter_def
  XChaCha20Poly1305SodiumDecrypter_def ChaCha20Poly1305EvpDecrypter_def XChaCha20Poly1305EvpDecrypter_def
  Aes128GcmEvpDecrypter_def Aes128Gcm12EvpDecrypter_def Aes192GcmEvpDecrypter_def Aes256GcmEvpDecrypter_def
  AeadMbedtlsDecrypter_def AeadBaseDecrypter_def

lemmas suite_unfolds = aead_suite_def crypter_inv_def kMaxKeySize_def kMaxNonceSize_def

lemma mbedtls_sizes:
  assumes "m \<in> {CRYPTO_AES_128_CFB, CRYPTO_AES_192_CFB, CRYPTO_AES_256_CFB, CRYPTO_AES_128_CTR, CRYPTO_AES_192_CTR,
    CRYPTO_AES_256_CTR, CRYPTO_CAMELLIA_128_CFB, CRYPTO_CAMELLIA_192_CFB, CRYPTO_CAMELLIA_256_CFB}"
  shows "unat (mbedtls_get_nonce_size m) = 16" "16 \<le> unat (mbedtls_get_key_size m)" "unat (mbedtls_get_key_size m) \<le> 32"
  using assms by (auto simp: mbedtls_get_nonce_size_def mbedtls_get_key_size_def)

lemma Encrypter_Create_ok:
  assumes "Encrypter_CreateFromCipherSuite lib m = Some e"
  shows "is_enc e \<and> cipher_id e = m \<and> crypter_inv e \<and> (family e \<noteq> Mbedtls \<longrightarrow> aead_suite e) \<and>
    (family e = Mbedtls \<longleftrightarrow> CRYPTO_AES_128_CFB \<le> m \<and> m \<le> CRYPTO_CAMELLIA_256_CFB) \<and> \<not> have_preliminary_key e"
  using assms
  by (auto simp: Encrypter_CreateFromCipherSuite_def encrypter_suites suite_unfolds Let_def mbedtls_sizes
      mbedtls_get_nonce_size_def mbedtls_get_key_size_def split: if_splits)

lemma Create_same_suite:
  assumes "Encrypter_CreateFromCipherSuite lib m = Some e" "Decrypter_CreateFromCipherSuite lib m = Some d"
  shows "same_suite e d \<and> (family d \<noteq> Mbedtls \<longrightarrow> aead_suite d) \<and> crypter_inv d \<and> \<not> have_preliminary_key d"
  using assms
  by (auto simp: Encrypter_CreateFromCipherSuite_def Decrypter_CreateFromCipherSuite_def encrypter_suites
      decrypter_suites suite_unfolds same_suite_def Let_def mbedtls_sizes mbedtls_get_nonce_size_def
      mbedtls_get_key_size_def split: if_splits)

lemma Create_iff:
  "(Encrypter_CreateFromCipherSuite lib m = None) = (m \<notin> set (map row_num YASS_CIPHER_METHOD_OLD_MAP))"
  "(Decrypter_CreateFromCipherSuite lib m = None) = (m \<notin> set (map row_num YASS_CIPHER_METHOD_OLD_MAP))"
  by (auto simp: Encrypter_CreateFromCipherSuite_def Decrypter_CreateFromCipherSuite_def Let_def
      YASS_CIPHER_METHOD_OLD_MAP_def method_tables split: if_splits)

section \<open>Properties\<close>

text \<open>The two factories agree. Both build a crypter exactly for the registered cipher methods that
  are not tunnelled over HTTP or SOCKS; for any other value the encrypter factory aborts and the
  decrypter factory returns null. What they build for one method belongs to the same family and
  algorithm with the same key, tag and nonce sizes, within the fixed arrays, and the numeric range by
  which the framing layer recognises stream ciphers contains exactly the mbedTLS suites.\<close>

theorem factories_agree:
  "(Encrypter_CreateFromCipherSuite lib m \<noteq> None \<longleftrightarrow> m \<in> set (map row_num YASS_CIPHER_METHOD_OLD_MAP)) \<and>
   (Decrypter_CreateFromCipherSuite lib m \<noteq> None \<longleftrightarrow> m \<in> set (map row_num YASS_CIPHER_METHOD_OLD_MAP)) \<and>
   (\<forall>e d. Encrypter_CreateFromCipherSuite lib m = Some e \<and> Decrypter_CreateFromCipherSuite lib m = Some d \<longrightarrow>
      cipher_id e = m \<and> same_suite e d \<and> crypter_inv e \<and> crypter_inv d \<and>
      (family e = Mbedtls \<longleftrightarrow> CRYPTO_AES_128_CFB \<le> m \<and> m \<le> CRYPTO_CAMELLIA_256_CFB) \<and>
      (family e \<noteq> Mbedtls \<longrightarrow> aead_suite e \<and> aead_suite d))"
proof -
  have "cipher_id e = m \<and> same_suite e d \<and> crypter_inv e \<and> crypter_inv d \<and>
      (family e = Mbedtls \<longleftrightarrow> CRYPTO_AES_128_CFB \<le> m \<and> m \<le> CRYPTO_CAMELLIA_256_CFB) \<and>
      (family e \<noteq> Mbedtls \<longrightarrow> aead_suite e \<and> aead_suite d)"
    if "Encrypter_CreateFromCipherSuite lib m = Some e \<and> Decrypter_CreateFromCipherSuite lib m = Some d" for e d
  proof -
    have "same_suite e d" using that Create_same_suite by blast
    then have "family d = family e" by (simp add: same_suite_def)
    then show ?thesis using that Encrypter_Create_ok [of lib m e] Create_same_suite [of lib m e d] by auto
  qed
  then show ?thesis by (simp only: Create_iff not_not) blast
qed

theorem factories_agree_witness:
  "\<exists>e d. Encrypter_CreateFromCipherSuite plain_lib CRYPTO_AES192GCMSHA256_EVP = Some e \<and>
     Decrypter_CreateFromCipherSuite plain_lib CRYPTO_AES192GCMSHA256_EVP = Some d \<and> same_suite e d"
proof -
  have "CRYPTO_AES192GCMSHA256_EVP \<in> set (map row_num YASS_CIPHER_METHOD_OLD_MAP)"
    by (simp add: YASS_CIPHER_METHOD_OLD_MAP_def method_tables)
  then show ?thesis using factories_agree [of plain_lib CRYPTO_AES192GCMSHA256_EVP] by auto
qed

text \<open>C3: Packet round trip, for every AEAD suite. After the same key and nonce prefix are installed
  on the encrypter and the decrypter of a suite, every packet number and plaintext gives a ciphertext
  that is exactly the tag longer, that does not depend on the size of the output buffer, and that the
  decrypter opens to the plaintext. It rests on the documented behaviour of \<^verbatim>\<open>EVP_AEAD\<close>.\<close>

theorem packet_roundtrip:
  assumes "aead_lib_ok lib" "Encrypter_CreateFromCipherSuite lib m = Some e"
    "Decrypter_CreateFromCipherSuite lib m = Some d" "family e \<noteq> Mbedtls"
    "length k = key_size e" "length p = GetNoncePrefixSize e"
  shows "\<exists>e1 e2 d1 d2. SetKey lib k e = Some (True, e1) \<and> SetNoncePrefix p e1 = Some (True, e2) \<and>
    SetKey lib k d = Some (True, d1) \<and> SetNoncePrefix p d1 = Some (True, d2) \<and>
    (\<forall>pn ad pt. \<exists>ct. length ct = GetCiphertextSize (length pt) e \<and>
       (\<forall>mx\<ge>length ct. EncryptPacket lib pn ad pt mx e2 = Some (Some ct, e2)) \<and>
       (\<forall>mx\<ge>length pt. DecryptPacket lib pn ad ct mx d2 = Some (Some pt, d2)))"
proof -
  have suite: "same_suite e d" "aead_suite e" "aead_suite d"
    using Encrypter_Create_ok [OF assms(2)] Create_same_suite [OF assms(2,3)] assms(4)
    by (auto simp: same_suite_def)
  then have "length p = nonce_size e - 8"
    using assms(6) by (simp add: GetNoncePrefixSize_def nonce_prefix_len_eq aead_suite_def crypter_inv_def)
  from keyed_pair [OF assms(1) suite assms(5) this] obtain e1 e2 d1 d2 x where
    s: "SetKey lib k e = Some (True, e1)" "SetNoncePrefix p e1 = Some (True, e2)"
       "SetKey lib k d = Some (True, d1)" "SetNoncePrefix p d1 = Some (True, d2)"
    and r: "aead_suite e2" "aead_suite d2" "\<And>pn. packet_nonce e2 pn = packet_nonce d2 pn"
       "auth_tag_size e2 = auth_tag_size d2" "ctx e2 = Some x" "ctx d2 = Some x"
       "evp_seals lib x (auth_tag_size e2) (nonce_size e2)" "auth_tag_size e2 = auth_tag_size e"
    by auto
  have "\<exists>ct. length ct = GetCiphertextSize (length pt) e \<and>
       (\<forall>mx\<ge>length ct. EncryptPacket lib pn ad pt mx e2 = Some (Some ct, e2)) \<and>
       (\<forall>mx\<ge>length pt. DecryptPacket lib pn ad ct mx d2 = Some (Some pt, d2))" for pn ad pt
  proof -
    obtain ct where "length ct = length pt + auth_tag_size e2"
      "\<forall>mx. length pt + auth_tag_size e2 \<le> mx \<longrightarrow> EncryptPacket lib pn ad pt mx e2 = Some (Some ct, e2)"
      "\<forall>mx. length pt \<le> mx \<longrightarrow> DecryptPacket lib pn ad ct mx d2 = Some (Some pt, d2)"
      using keyed_roundtrip [OF r(1-7), of pt pn ad] by blast
    then show ?thesis using r(8) by (intro exI [of _ ct]) (simp add: GetCiphertextSize_def)
  qed
  with s show ?thesis by blast
qed

theorem packet_roundtrip_witness:
  "\<exists>e1 e2. SetKey plain_lib (replicate 32 7) Aes256GcmSodiumEncrypter = Some (True, e1) \<and>
     SetNoncePrefix (replicate 4 0) e1 = Some (True, e2)"
proof -
  have "Encrypter_CreateFromCipherSuite plain_lib CRYPTO_AES256GCMSHA256 = Some Aes256GcmSodiumEncrypter"
    "Decrypter_CreateFromCipherSuite plain_lib CRYPTO_AES256GCMSHA256 = Some Aes256GcmSodiumDecrypter"
    by (simp_all add: Encrypter_CreateFromCipherSuite_def Decrypter_CreateFromCipherSuite_def)
  moreover have "family Aes256GcmSodiumEncrypter \<noteq> Mbedtls"
    "length (replicate 32 7) = key_size Aes256GcmSodiumEncrypter"
    "length (replicate 4 0) = GetNoncePrefixSize Aes256GcmSodiumEncrypter"
    by (simp_all add: Aes256GcmSodiumEncrypter_def AeadBaseEncrypter_def GetNoncePrefixSize_def nonce_prefix_len_def)
  ultimately show ?thesis
    using packet_roundtrip [OF plain_lib_ok, of CRYPTO_AES256GCMSHA256 Aes256GcmSodiumEncrypter
        Aes256GcmSodiumDecrypter "replicate 32 7" "replicate 4 0"] by blast
qed

text \<open>C9: Nonces. With a trailing 64-bit packet number (the EVP suites) two packets under one key have
  different nonces unless their numbers are equal. The libsodium-style suites write only the low four
  bytes of the number, so their nonces coincide exactly when the numbers agree modulo \<open>2 ^ 32\<close>: packet
  \<open>2 ^ 32\<close> reuses the nonce of packet 0, although the interface promises a 64-bit packet number.\<close>

theorem nonce_reuse:
  assumes "crypter_inv c"
  shows "(packet_nonce_evp c v = packet_nonce_evp c w \<longleftrightarrow> v = w) \<and>
    (packet_nonce_sodium c v = packet_nonce_sodium c w \<longleftrightarrow> unat v mod 2 ^ 32 = unat w mod 2 ^ 32) \<and>
    packet_nonce_sodium c (2 ^ 32) = packet_nonce_sodium c 0"
proof -
  have low: "le32 v = le32 w \<longleftrightarrow> unat v mod 2 ^ 32 = unat w mod 2 ^ 32" for v w
  proof -
    have "unat x mod 2 ^ 32 = unat (take_bit 32 x)" for x :: u64
      by (subst unsigned_take_bit_eq) (simp only: take_bit_eq_mod)
    then show ?thesis by (simp only: le32_eq_iff word_unat_eq_iff)
  qed
  then show ?thesis using low [of "2 ^ 32" 0] assms by (simp add: packet_nonce_evp_eq packet_nonce_sodium_eq)
qed

theorem nonce_reuse_witness:
  "packet_nonce_sodium (Aes256GcmSodiumEncrypter :: (nat, unit) crypter) (2 ^ 32) =
   packet_nonce_sodium (Aes256GcmSodiumEncrypter :: (nat, unit) crypter) 0"
proof -
  have "crypter_inv (Aes256GcmSodiumEncrypter :: (nat, unit) crypter)"
    by (simp add: Aes256GcmSodiumEncrypter_def AeadBaseEncrypter_def suite_unfolds)
  from nonce_reuse [OF this] show ?thesis by blast
qed

end
