(* ===== verification/Key_Derivation.thy ===== *)
theory Key_Derivation
  imports Yass_Prelude
begin

text \<open>
  Key derivation: HMAC-SHA1 (\<^verbatim>\<open>net/hmac_sha1.cpp\<close>), HKDF-SHA1 (\<^verbatim>\<open>net/hkdf_sha1.cpp\<close>) and the master
  key of a cipher (\<^verbatim>\<open>parse_key\<close> and \<^verbatim>\<open>derive_key\<close> of \<^verbatim>\<open>net/cipher.cpp\<close>).

  The hash functions and base64 come from BoringSSL and are arguments of the definitions. A
  \<^verbatim>\<open>SHA_CTX\<close> or \<^verbatim>\<open>MD5_CTX\<close> is the message fed to it so far: \<^verbatim>\<open>Init\<close> empties it, \<^verbatim>\<open>Update\<close> appends
  and \<^verbatim>\<open>Final\<close> applies the hash. A pointer that the code compares with null is an option. The
  routines are compared with the definitions of RFC 2104 and RFC 5869 and of \<^verbatim>\<open>EVP_BytesToKey\<close>.
\<close>

type_synonym hash = "byte list \<Rightarrow> byte list"
type_synonym hash_ctx = "byte list"

definition hash_init :: hash_ctx where
  "hash_init = []"

definition hash_update :: "hash_ctx \<Rightarrow> byte list \<Rightarrow> hash_ctx" where
  "hash_update c xs = c @ xs"

definition hash_final :: "hash \<Rightarrow> hash_ctx \<Rightarrow> byte list" where
  "hash_final h c = h c"

lemmas hash_unfolds [simp] = hash_init_def hash_update_def hash_final_def

definition SHA_DIGEST_LENGTH :: nat where
  "SHA_DIGEST_LENGTH = 20"

definition HASH_BLOCK_SIZE_256 :: nat where
  "HASH_BLOCK_SIZE_256 = 64"

definition MD_MAX_SIZE_256 :: nat where
  "MD_MAX_SIZE_256 = 32"

section \<open>HMAC-SHA1\<close>

text \<open>The loop that folds the key into both pads.\<close>

primrec xor_key_loop :: "nat \<Rightarrow> byte list \<Rightarrow> byte list \<times> byte list \<Rightarrow> byte list \<times> byte list" where
  "xor_key_loop 0 key pads = pads"
| "xor_key_loop (Suc n) key pads =
     (let (ipad, opad) = xor_key_loop n key pads
      in (ipad[n := ipad ! n XOR key ! n], opad[n := opad ! n XOR key ! n]))"

definition hmac_sha1_starts :: "hash \<Rightarrow> byte list \<Rightarrow> hash_ctx \<times> byte list \<times> byte list" where
  "hmac_sha1_starts sha1 key =
     (let key' = (if length key > HASH_BLOCK_SIZE_256
                  then hash_final sha1 (hash_update hash_init key) else key);
          keylen' = (if length key > HASH_BLOCK_SIZE_256 then SHA_DIGEST_LENGTH else length key);
          (ipad, opad) = xor_key_loop keylen' key'
             (replicate HASH_BLOCK_SIZE_256 0x36, replicate HASH_BLOCK_SIZE_256 0x5C)
      in (hash_update hash_init ipad, ipad, opad))"

definition hmac_sha1_update :: "hash_ctx \<Rightarrow> byte list \<Rightarrow> hash_ctx" where
  "hmac_sha1_update c input = hash_update c input"

definition hmac_sha1_finish :: "hash \<Rightarrow> hash_ctx \<Rightarrow> byte list \<Rightarrow> byte list" where
  "hmac_sha1_finish sha1 c opad =
     (let tmp = hash_final sha1 c;
          c1 = hash_update hash_init opad;
          c2 = hash_update c1 tmp
      in hash_final sha1 c2)"

definition hmac_sha1_reset :: "byte list \<Rightarrow> hash_ctx" where
  "hmac_sha1_reset ipad = hash_update hash_init ipad"

definition hmac_sha1 :: "hash \<Rightarrow> byte list \<Rightarrow> byte list \<Rightarrow> byte list" where
  "hmac_sha1 sha1 key input =
     (let (c, ipad, opad) = hmac_sha1_starts sha1 key;
          c1 = hmac_sha1_update c input
      in hmac_sha1_finish sha1 c1 opad)"

section \<open>HKDF-SHA1\<close>

text \<open>
  The results are the return code with the output; \<open>prk\<close> is written only on success.
\<close>

definition crypto_hkdf_extract :: "hash \<Rightarrow> byte list option \<Rightarrow> int \<Rightarrow> byte list \<Rightarrow> (int \<times> byte list option) option" where
  "crypto_hkdf_extract sha1 salt salt_len ikm =
     (if salt_len < 0 then Some (-1, None)
      else do { s \<leftarrow> (case salt of None \<Rightarrow> Some (replicate SHA_DIGEST_LENGTH 0)
                      | Some m \<Rightarrow> mem_slice m 0 (nat salt_len));
                Some (0, Some (hmac_sha1 sha1 s ikm)) })"

text \<open>
  One pass of the loop per \<open>i\<close>: \<open>T\<close> holds the previous block (its first \<open>T_len\<close> bytes), \<open>pos\<close> is
  \<^verbatim>\<open>where\<close>, and \<open>okm\<close> is the output memory. \<^const>\<open>None\<close> is a write outside \<open>okm\<close>.
\<close>

function hkdf_expand_loop :: "hash \<Rightarrow> byte list \<Rightarrow> byte list \<Rightarrow> nat \<Rightarrow> nat \<Rightarrow> nat \<Rightarrow> byte list \<Rightarrow> nat \<Rightarrow>
    nat \<Rightarrow> byte list \<Rightarrow> byte list option" where
  "hkdf_expand_loop sha1 prk info okm_len N i T T_len pos okm =
     (if i \<le> N then
        let (c0, ipad, opad) = hmac_sha1_starts sha1 prk;
            c1 = hmac_sha1_update c0 (take T_len T);
            c2 = hmac_sha1_update c1 info;
            c3 = hmac_sha1_update c2 [of_nat i];
            T' = hmac_sha1_finish sha1 c3 opad
        in do { okm' \<leftarrow> mem_write okm pos (take (if i \<noteq> N then SHA_DIGEST_LENGTH else okm_len - pos) T');
                hkdf_expand_loop sha1 prk info okm_len N (i + 1) T' SHA_DIGEST_LENGTH (pos + SHA_DIGEST_LENGTH) okm' }
      else Some okm)"
  by pat_completeness auto
termination by (relation "measure (\<lambda>(sha1, prk, info, okm_len, N, i, T, T_len, pos, okm). N + 1 - i)") auto

declare hkdf_expand_loop.simps [simp del]

definition crypto_hkdf_expand :: "hash \<Rightarrow> byte list \<Rightarrow> byte list option \<Rightarrow> int \<Rightarrow> byte list option \<Rightarrow> int
    \<Rightarrow> (int \<times> byte list option) option" where
  "crypto_hkdf_expand sha1 prk info info_len okm okm_len =
     (if info_len < 0 \<or> okm_len < 0 \<or> okm = None then Some (-1, okm)
      else let hash_len = SHA_DIGEST_LENGTH in
        if length prk < hash_len then Some (-1, okm)
        else let N0 = nat okm_len div hash_len;
                 N = (if nat okm_len mod hash_len \<noteq> 0 then N0 + 1 else N0)
             in if N > 255 then Some (-1, okm)
                else do { info' \<leftarrow> mem_slice (case info of None \<Rightarrow> [0] | Some x \<Rightarrow> x) 0 (nat info_len);
                          out \<leftarrow> hkdf_expand_loop sha1 prk info' (nat okm_len) N 1 [] 0 0 (the okm);
                          Some (0, Some out) })"

text \<open>The result of \<^verbatim>\<open>a || b\<close> is 0 or 1.\<close>

definition crypto_hkdf :: "hash \<Rightarrow> byte list option \<Rightarrow> int \<Rightarrow> byte list \<Rightarrow> byte list option \<Rightarrow> int \<Rightarrow>
    byte list option \<Rightarrow> int \<Rightarrow> (int \<times> byte list option) option" where
  "crypto_hkdf sha1 salt salt_len ikm info info_len okm okm_len =
     do { (err, prk) \<leftarrow> crypto_hkdf_extract sha1 salt salt_len ikm;
          if err \<noteq> 0 then Some (1, okm)
          else do { (err', okm') \<leftarrow> crypto_hkdf_expand sha1 (take SHA_DIGEST_LENGTH (the prk)) info info_len okm okm_len;
                    Some (if err' \<noteq> 0 then 1 else 0, okm') } }"

definition SUBKEY_INFO :: "byte list" where
  "SUBKEY_INFO = [0x73, 0x73, 0x2d, 0x73, 0x75, 0x62, 0x6b, 0x65, 0x79]"

section \<open>The master key\<close>

text \<open>
  \<^verbatim>\<open>EVP_DecodeBase64\<close> returns 1 or 0 and stores the decoded length through its second argument; the
  code then assigns the returned value to that same variable.
\<close>

definition parse_key :: "(nat \<Rightarrow> nat option) \<Rightarrow> (nat \<Rightarrow> byte list \<Rightarrow> byte list option) \<Rightarrow> byte list \<Rightarrow> byte list \<Rightarrow> nat
    \<Rightarrow> (nat \<times> byte list) option" where
  "parse_key EVP_DecodedLength EVP_DecodeBase64 key skey skey_len =
     (case EVP_DecodedLength (length key) of
        None \<Rightarrow> Some (0, skey)
      | Some max_out \<Rightarrow>
          let decoded = EVP_DecodeBase64 max_out key;
              out = (case decoded of None \<Rightarrow> replicate max_out 0
                     | Some d \<Rightarrow> d @ replicate (max_out - length d) 0);
              out_len = (if decoded = None then 0 else 1)
          in if out_len > 0 \<and> out_len \<ge> skey_len
             then do { k \<leftarrow> mem_slice out 0 skey_len; m \<leftarrow> mem_write skey 0 k; Some (skey_len, m) }
             else Some (0, skey))"

text \<open>The inner loop copies at most 16 bytes of the digest, stopping at \<open>skey_len\<close>.\<close>

function derive_copy :: "byte list \<Rightarrow> nat \<Rightarrow> nat \<Rightarrow> nat \<Rightarrow> byte list \<Rightarrow> (nat \<times> byte list) option" where
  "derive_copy md_buf skey_len i j skey =
     (if i < 16 then
        if j \<ge> skey_len then Some (j, skey)
        else do { b \<leftarrow> mem_read md_buf i; skey' \<leftarrow> mem_write skey j [b];
                  derive_copy md_buf skey_len (i + 1) (j + 1) skey' }
      else Some (j, skey))"
  by pat_completeness auto
termination by (relation "measure (\<lambda>(md_buf, skey_len, i, j, skey). 16 - i)") auto

declare derive_copy.simps [simp del]

partial_function (option) derive_loop :: "hash \<Rightarrow> byte list \<Rightarrow> nat \<Rightarrow> nat \<Rightarrow> nat \<Rightarrow> byte list \<Rightarrow> byte list \<Rightarrow> byte list option" where
  "derive_loop md5 pass skey_len j addmd md_buf skey =
     (if j < skey_len then
        let c0 = hash_init;
            c1 = (if addmd \<noteq> 0 then hash_update c0 md_buf else c0);
            c2 = hash_update c1 pass;
            md = hash_final md5 c2
        in do { (j', skey') \<leftarrow> derive_copy md skey_len 0 j skey;
                derive_loop md5 pass skey_len j' (addmd + 1) md skey' }
      else Some skey)"

definition derive_key :: "hash \<Rightarrow> byte list \<Rightarrow> byte list \<Rightarrow> nat \<Rightarrow> (nat \<times> byte list) option" where
  "derive_key md5 key skey skey_len =
     (if key = [] then Some (skey_len, skey)
      else do { m \<leftarrow> derive_loop md5 key skey_len 0 0 [] skey; Some (skey_len, m) })"

section \<open>Reference definitions\<close>

text \<open>HMAC as in RFC 2104, with 64-byte blocks.\<close>

definition rfc2104 :: "hash \<Rightarrow> byte list \<Rightarrow> byte list \<Rightarrow> byte list" where
  "rfc2104 H K msg =
     (let K1 = (if length K > 64 then H K else K);
          K0 = K1 @ replicate (64 - length K1) 0
      in H (map (\<lambda>b. b XOR 0x5C) K0 @ H (map (\<lambda>b. b XOR 0x36) K0 @ msg)))"

text \<open>HKDF as in RFC 5869: the blocks are indexed from 1 and the output is their first \<open>L\<close> octets.\<close>

primrec rfc5869_T :: "hash \<Rightarrow> byte list \<Rightarrow> byte list \<Rightarrow> nat \<Rightarrow> byte list" where
  "rfc5869_T H prk info 0 = []"
| "rfc5869_T H prk info (Suc n) = rfc2104 H prk (rfc5869_T H prk info n @ info @ [of_nat (Suc n)])"

text \<open>The first \<open>L\<close> bytes of the blocks \<open>B 1\<close>, \<open>B 2\<close> and so on.\<close>

definition blocks :: "(nat \<Rightarrow> byte list) \<Rightarrow> nat \<Rightarrow> byte list" where
  "blocks B n = concat (map B [1..<Suc n])"

definition rfc5869 :: "hash \<Rightarrow> byte list \<Rightarrow> byte list \<Rightarrow> byte list \<Rightarrow> nat \<Rightarrow> byte list" where
  "rfc5869 H salt ikm info L = take L (blocks (rfc5869_T H (rfc2104 H salt ikm) info) ((L + 19) div 20))"

text \<open>\<^verbatim>\<open>EVP_BytesToKey\<close> with one iteration and no salt.\<close>

primrec bytes_to_key_D :: "hash \<Rightarrow> byte list \<Rightarrow> nat \<Rightarrow> byte list" where
  "bytes_to_key_D md5 pass 0 = []"
| "bytes_to_key_D md5 pass (Suc n) = md5 (bytes_to_key_D md5 pass n @ pass)"

definition EVP_BytesToKey :: "hash \<Rightarrow> byte list \<Rightarrow> nat \<Rightarrow> byte list" where
  "EVP_BytesToKey md5 pass L = take L (blocks (bytes_to_key_D md5 pass) ((L + 15) div 16))"

section \<open>Filling memory block by block\<close>

text \<open>
  Both derivation loops fill the first \<open>L\<close> bytes of an array with consecutive blocks of \<open>b\<close> bytes, the
  last one cut off. \<open>filled\<close> is the array after \<open>k\<close> blocks.
\<close>

definition filled :: "(nat \<Rightarrow> byte list) \<Rightarrow> nat \<Rightarrow> nat \<Rightarrow> byte list \<Rightarrow> nat \<Rightarrow> byte list" where
  "filled B b L m k = take L (blocks B k) @ drop (min L (b * k)) m"

lemma blocks_0 [simp]: "blocks B 0 = []"
  by (simp add: blocks_def)

lemma blocks_Suc [simp]: "blocks B (Suc k) = blocks B k @ B (Suc k)"
  by (simp add: blocks_def)

lemma filled_0 [simp]: "filled B b L m 0 = m"
  by (simp add: filled_def)

lemma length_blocks: "(\<And>i. 0 < i \<Longrightarrow> length (B i) = b) \<Longrightarrow> length (blocks B k) = b * k"
  by (induction k) simp_all

lemma fill_step:
  assumes "\<And>i. 0 < i \<Longrightarrow> length (B i) = b" "b * k < L" "L \<le> length m"
  shows "mem_write (filled B b L m k) (b * k) (take (L - b * k) (B (Suc k))) = Some (filled B b L m (Suc k))"
proof -
  have len: "length (blocks B k) = b * k" "length (B (Suc k)) = b"
    using assms(1) by (auto intro: length_blocks)
  have "length (filled B b L m k) = length m" using assms len by (simp add: filled_def)
  moreover have "take (b * k) (filled B b L m k) = blocks B k"
    using assms len by (simp add: filled_def)
  moreover have "drop (b * k + min (L - b * k) b) (filled B b L m k) = drop (min L (b * Suc k)) m"
    using assms len by (simp add: filled_def min_def)
  ultimately have "mem_write (filled B b L m k) (b * k) (take (L - b * k) (B (Suc k))) =
      Some (blocks B k @ take (L - b * k) (B (Suc k)) @ drop (min L (b * Suc k)) m)"
    using assms len by (simp add: mem_write_def min.commute)
  then show ?thesis using assms len by (simp add: filled_def)
qed

lemma filled_done:
  assumes "\<And>i. 0 < i \<Longrightarrow> length (B i) = b" "L \<le> b * k"
  shows "filled B b L m k = take L (blocks B k) @ drop L m"
  using assms by (simp add: filled_def min_def)

section \<open>HMAC and HKDF meet their specifications\<close>

lemma xor_key_loop_eq:
  assumes "n \<le> length key" "n \<le> length ip" "n \<le> length op'"
  shows "xor_key_loop n key (ip, op') =
    (map2 (XOR) (take n ip) (take n key) @ drop n ip, map2 (XOR) (take n op') (take n key) @ drop n op')"
  using assms
proof (induction n)
  case (Suc n)
  have *: "(map2 (XOR) (take n xs) (take n key) @ drop n xs)
      [n := (map2 (XOR) (take n xs) (take n key) @ drop n xs) ! n XOR key ! n] =
    map2 (XOR) (take (Suc n) xs) (take (Suc n) key) @ drop (Suc n) xs"
    if "Suc n \<le> length xs" for xs :: "byte list"
    using that Suc.prems
    by (simp add: take_Suc_conv_app_nth list_update_append nth_append Cons_nth_drop_Suc [symmetric])
  from Suc show ?case by (simp add: * Let_def)
qed simp

lemma map2_xor_replicate: "n = length key \<Longrightarrow> map2 (XOR) (replicate n x) key = map (\<lambda>b. b XOR x) (key :: byte list)"
  by (simp add: zip_replicate1 xor.commute)

lemma hmac_sha1_starts_eq:
  assumes "\<And>x. length (sha1 x) = SHA_DIGEST_LENGTH"
  shows "\<exists>ipad opad. hmac_sha1_starts sha1 key = (ipad, ipad, opad) \<and>
    (\<forall>m. hmac_sha1_finish sha1 (ipad @ m) opad = rfc2104 sha1 key m)"
proof -
  define k where "k = (if length key > 64 then sha1 key else key)"
  have len: "length k \<le> 64" using assms by (simp add: k_def SHA_DIGEST_LENGTH_def)
  have "hmac_sha1_starts sha1 key =
      (map (\<lambda>b. b XOR 0x36) (k @ replicate (64 - length k) 0), map (\<lambda>b. b XOR 0x36) (k @ replicate (64 - length k) 0),
       map (\<lambda>b. b XOR 0x5C) (k @ replicate (64 - length k) 0))"
    using len assms [of key] xor_key_loop_eq [of "length k" k "replicate 64 0x36" "replicate 64 0x5C"]
    by (simp add: hmac_sha1_starts_def HASH_BLOCK_SIZE_256_def k_def map2_xor_replicate split: if_splits)
  then show ?thesis
    by (auto simp: hmac_sha1_finish_def rfc2104_def Let_def k_def)
qed

lemma hmac_sha1_eq:
  assumes "\<And>x. length (sha1 x) = SHA_DIGEST_LENGTH"
  shows "hmac_sha1 sha1 key input = rfc2104 sha1 key input"
  using hmac_sha1_starts_eq [of sha1 key, OF assms]
  by (auto simp: hmac_sha1_def hmac_sha1_update_def)

lemma length_rfc2104: "(\<And>x. length (H x) = n) \<Longrightarrow> length (rfc2104 H K m) = n"
  by (simp add: rfc2104_def Let_def)

lemma length_rfc5869_T: "(\<And>x. length (H x) = n) \<Longrightarrow> 0 < i \<Longrightarrow> length (rfc5869_T H prk info i) = n"
  by (cases i) (simp_all add: length_rfc2104)

lemma hkdf_expand_loop_eq:
  assumes sha: "\<And>x. length (sha1 x) = SHA_DIGEST_LENGTH" and L: "L \<le> length m" and N: "N = (L + 19) div 20"
    and "k \<le> N" "T_len = (if k = 0 then 0 else 20)" "take T_len T = rfc5869_T sha1 prk info k"
  shows "hkdf_expand_loop sha1 prk info L N (Suc k) T T_len (20 * k) (filled (rfc5869_T sha1 prk info) 20 L m k) =
    Some (filled (rfc5869_T sha1 prk info) 20 L m N)"
  using assms(4-)
proof (induction "N - k" arbitrary: k T T_len)
  case 0
  then show ?case by (simp add: hkdf_expand_loop.simps)
next
  case (Suc d)
  let ?B = "rfc5869_T sha1 prk info"
  have B: "0 < i \<Longrightarrow> length (?B i) = 20" for i
    using sha by (simp add: length_rfc5869_T SHA_DIGEST_LENGTH_def)
  have k: "k < N" "20 * k < L" using Suc N by auto
  obtain ipad opad where start: "hmac_sha1_starts sha1 prk = (ipad, ipad, opad)"
    "\<And>m. hmac_sha1_finish sha1 (ipad @ m) opad = rfc2104 sha1 prk m"
    using hmac_sha1_starts_eq [of sha1 prk, OF sha] by auto
  have "hmac_sha1_finish sha1 (ipad @ take T_len T @ info @ [of_nat (Suc k)]) opad = ?B (Suc k)"
    using Suc.prems(3) start(2) [of "take T_len T @ info @ [of_nat (Suc k)]"] by simp
  moreover have "take (if Suc k \<noteq> N then SHA_DIGEST_LENGTH else L - 20 * k) (?B (Suc k)) =
      take (L - 20 * k) (?B (Suc k))"
    using B [of "Suc k"] k N by (auto simp: SHA_DIGEST_LENGTH_def)
  ultimately have "hkdf_expand_loop sha1 prk info L N (Suc k) T T_len (20 * k) (filled ?B 20 L m k) =
    hkdf_expand_loop sha1 prk info L N (Suc (Suc k)) (?B (Suc k)) 20 (20 * Suc k) (filled ?B 20 L m (Suc k))"
    using k start(1) fill_step [where B = ?B and b = 20 and k = k and L = L and m = m, OF B k(2) L]
    by (subst hkdf_expand_loop.simps) (simp add: hmac_sha1_update_def SHA_DIGEST_LENGTH_def add.commute [of 20])
  also have "\<dots> = Some (filled ?B 20 L m N)"
    using Suc.hyps(1) [of "Suc k" 20 "?B (Suc k)"] Suc.hyps(2) B [of "Suc k"] k by simp
  finally show ?case .
qed

lemma crypto_hkdf_expand_eq:
  assumes sha: "\<And>x. length (sha1 x) = SHA_DIGEST_LENGTH"
    and "length prk \<ge> 20" "L \<le> length m" "L \<le> 255 * 20"
  shows "crypto_hkdf_expand sha1 prk (Some info) (int (length info)) (Some m) (int L) =
    Some (0, Some (take L (blocks (rfc5869_T sha1 prk info) ((L + 19) div 20)) @ drop L m))"
proof -
  let ?B = "rfc5869_T sha1 prk info" and ?N = "(L + 19) div 20"
  have B: "0 < i \<Longrightarrow> length (?B i) = 20" for i
    using sha by (simp add: length_rfc5869_T SHA_DIGEST_LENGTH_def)
  have N: "(if L mod 20 \<noteq> 0 then L div 20 + 1 else L div 20) = ?N"
    using ceil_div [of 20 L] by simp
  have "hkdf_expand_loop sha1 prk info L ?N 1 [] 0 0 m = Some (filled ?B 20 L m ?N)"
    using hkdf_expand_loop_eq [of sha1 L m ?N 0 0 "[]" prk info, OF sha assms(3)] by simp
  moreover have "filled ?B 20 L m ?N = take L (blocks ?B ?N) @ drop L m"
    using filled_done [of ?B 20 L ?N m] B by auto
  ultimately show ?thesis
    using assms(2,4) N by (simp add: crypto_hkdf_expand_def Let_def SHA_DIGEST_LENGTH_def mem_simps)
qed

section \<open>The master key is that of EVP_BytesToKey\<close>

lemma derive_copy_eq:
  assumes "length md = 16" "i \<le> 16" "j \<le> L" "L \<le> length skey"
  shows "derive_copy md L i j skey =
    Some (j + min (16 - i) (L - j), take j skey @ take (L - j) (drop i md) @ drop (j + min (16 - i) (L - j)) skey)"
  using assms
proof (induction "16 - i" arbitrary: i j skey)
  case 0
  then show ?case by (simp add: derive_copy.simps)
next
  case (Suc d)
  show ?case
  proof (cases "j < L")
    case True
    let ?s = "take j skey @ [md ! i] @ drop (j + 1) skey"
    have "derive_copy md L i j skey = derive_copy md L (i + 1) (j + 1) ?s"
      using Suc True by (subst derive_copy.simps) (simp add: mem_simps)
    also have "\<dots> = Some (j + 1 + min (16 - (i + 1)) (L - (j + 1)),
        take (j + 1) ?s @ take (L - (j + 1)) (drop (i + 1) md) @ drop (j + 1 + min (16 - (i + 1)) (L - (j + 1))) ?s)"
      using Suc True by (intro Suc.hyps(1)) auto
    also have "take (L - j) (drop i md) = md ! i # take (L - (j + 1)) (drop (i + 1) md)"
      using Suc True by (simp add: Cons_nth_drop_Suc [symmetric] take_Cons')
    moreover have "min (16 - i) (L - j) = Suc (min (16 - (i + 1)) (L - (j + 1)))"
      using Suc True by (auto simp: min_def)
    ultimately show ?thesis using Suc.prems True by (simp add: add.commute)
  qed (use Suc in \<open>simp add: derive_copy.simps\<close>)
qed

lemma derive_loop_eq:
  assumes md5: "\<And>x. length (md5 x) = 16" and L: "L \<le> length m" and N: "N = (L + 15) div 16"
    and "k \<le> N" "addmd = k" "md = bytes_to_key_D md5 pass k"
  shows "derive_loop md5 pass L (min L (16 * k)) addmd md (filled (bytes_to_key_D md5 pass) 16 L m k) =
    Some (filled (bytes_to_key_D md5 pass) 16 L m N)"
  using assms(4-)
proof (induction "N - k" arbitrary: k addmd md)
  case 0
  then have "min L (16 * k) = L" using N by auto
  with 0 show ?case by (simp add: derive_loop.simps)
next
  case (Suc d)
  let ?B = "bytes_to_key_D md5 pass"
  have B: "0 < i \<Longrightarrow> length (?B i) = 16" for i
    using md5 by (cases i) simp_all
  have k: "16 * k < L" using Suc N by auto
  have len: "length (blocks ?B k) = 16 * k" using B by (auto intro: length_blocks)
  have step: "mem_write (filled ?B 16 L m k) (16 * k) (take (L - 16 * k) (?B (Suc k))) = Some (filled ?B 16 L m (Suc k))"
    using fill_step [where B = ?B and b = 16 and k = k and L = L and m = m, OF B k L] by simp
  have "derive_copy (?B (Suc k)) L 0 (16 * k) (filled ?B 16 L m k) = Some (min L (16 * Suc k), filled ?B 16 L m (Suc k))"
  proof -
    let ?f = "filled ?B 16 L m k" and ?c = "min 16 (L - 16 * k)"
    have "length (take (L - 16 * k) (?B (Suc k))) = ?c" using B [of "Suc k"] by (simp add: min.commute)
    then have "take (16 * k) ?f @ take (L - 16 * k) (?B (Suc k)) @ drop (16 * k + ?c) ?f = filled ?B 16 L m (Suc k)"
      using step by (simp add: mem_write_def del: length_take split: if_splits)
    moreover have "16 * k + ?c = min L (16 * Suc k)" "length ?f = length m"
      using k L len by (auto simp: min_def filled_def)
    ultimately show ?thesis
      using derive_copy_eq [of "?B (Suc k)" 0 "16 * k" L ?f] B [of "Suc k"] k L by simp
  qed
  then have "derive_loop md5 pass L (min L (16 * k)) addmd md (filled ?B 16 L m k) =
    derive_loop md5 pass L (min L (16 * Suc k)) (addmd + 1) (?B (Suc k)) (filled ?B 16 L m (Suc k))"
    using k Suc.prems by (cases "k = 0") (subst derive_loop.simps, simp add: Let_def)+
  also have "\<dots> = Some (filled ?B 16 L m N)"
    using Suc.hyps(1) [of "Suc k"] Suc.hyps(2) Suc.prems by simp
  finally show ?case .
qed

lemma crypto_hkdf_eq:
  assumes "\<forall>x. length (sha1 x) = SHA_DIGEST_LENGTH" "L \<le> length okm" "n \<le> length salt"
  shows "crypto_hkdf sha1 (Some salt) (int n) ikm (Some info) (int (length info)) (Some okm) (int L) =
    (if L \<le> 255 * 20 then Some (0, Some (rfc5869 sha1 (take n salt) ikm info L @ drop L okm)) else Some (1, Some okm))"
proof -
  have sha: "length (sha1 x) = SHA_DIGEST_LENGTH" for x using assms by blast
  let ?prk = "rfc2104 sha1 (take n salt) ikm"
  have prk: "length ?prk = 20" using sha by (simp add: length_rfc2104 SHA_DIGEST_LENGTH_def)
  have ext: "crypto_hkdf_extract sha1 (Some salt) (int n) ikm = Some (0, Some ?prk)"
    using hmac_sha1_eq [of sha1 "take n salt" ikm, OF sha] assms(3) by (simp add: crypto_hkdf_extract_def mem_simps)
  show ?thesis
  proof (cases "L \<le> 255 * 20")
    case True
    have "crypto_hkdf_expand sha1 ?prk (Some info) (int (length info)) (Some okm) (int L) =
        Some (0, Some (take L (blocks (rfc5869_T sha1 ?prk info) ((L + 19) div 20)) @ drop L okm))"
      by (rule crypto_hkdf_expand_eq [of sha1, OF sha _ assms(2) True]) (simp add: prk)
    with ext prk True show ?thesis by (simp add: crypto_hkdf_def rfc5869_def SHA_DIGEST_LENGTH_def)
  next
    case False
    then have "255 < (L + 19) div 20" by simp
    then have "crypto_hkdf_expand sha1 ?prk (Some info) (int (length info)) (Some okm) (int L) = Some (-1, Some okm)"
      using prk ceil_div [of 20 L] by (simp add: crypto_hkdf_expand_def Let_def SHA_DIGEST_LENGTH_def split: if_splits)
    with ext prk False show ?thesis by (simp add: crypto_hkdf_def SHA_DIGEST_LENGTH_def)
  qed
qed

lemma derive_key_eq:
  assumes "\<forall>x. length (md5 x) = 16" "L \<le> length skey"
  shows "derive_key md5 pass skey L =
    Some (L, if pass = [] then skey else EVP_BytesToKey md5 pass L @ drop L skey)"
proof -
  have md5: "length (md5 x) = 16" for x using assms by blast
  let ?B = "bytes_to_key_D md5 pass" and ?N = "(L + 15) div 16"
  have B: "0 < i \<Longrightarrow> length (?B i) = 16" for i using md5 by (cases i) simp_all
  have "derive_loop md5 pass L 0 0 [] skey = Some (filled ?B 16 L skey ?N)"
    using derive_loop_eq [of md5 L skey ?N 0 0 "[]" pass, OF md5 assms(2)] by simp
  moreover have "filled ?B 16 L skey ?N = EVP_BytesToKey md5 pass L @ drop L skey"
    using filled_done [of ?B 16 L ?N skey] B by (auto simp: EVP_BytesToKey_def)
  ultimately show ?thesis by (simp add: derive_key_def)
qed

section \<open>Properties\<close>

text \<open>C6: \<^verbatim>\<open>hmac_sha1\<close> is HMAC of RFC 2104 for every key and message, keys longer than the 64-byte
  block included, given only that SHA-1 has 20-byte digests; feeding the message in pieces through
  \<^verbatim>\<open>hmac_sha1_update\<close> gives the same result.\<close>

theorem hmac_sha1_is_rfc2104:
  assumes "\<forall>x. length (sha1 x) = SHA_DIGEST_LENGTH"
  shows "hmac_sha1 sha1 k (concat pieces) = rfc2104 sha1 k (concat pieces) \<and>
    (case hmac_sha1_starts sha1 k of (c, ipad, opad) \<Rightarrow>
       hmac_sha1_finish sha1 (fold (\<lambda>p c. hmac_sha1_update c p) pieces c) opad) = rfc2104 sha1 k (concat pieces) \<and>
    (case hmac_sha1_starts sha1 k of (c, ipad, opad) \<Rightarrow> hmac_sha1_reset ipad = c)"
proof -
  have sha: "length (sha1 x) = SHA_DIGEST_LENGTH" for x using assms by blast
  have "fold (\<lambda>p c. hmac_sha1_update c p) pieces c = c @ concat pieces" for c
    by (induction pieces arbitrary: c) (simp_all add: hmac_sha1_update_def)
  then show ?thesis
    using hmac_sha1_starts_eq [of sha1 k, OF sha] hmac_sha1_eq [of sha1 k, OF sha]
    by (auto simp: hmac_sha1_reset_def)
qed

theorem hmac_sha1_is_rfc2104_witness:
  "hmac_sha1 (\<lambda>x. replicate 20 (of_nat (length x))) [1, 2] [3] = rfc2104 (\<lambda>x. replicate 20 (of_nat (length x))) [1, 2] [3]"
  using hmac_sha1_is_rfc2104 [of "\<lambda>x. replicate 20 (of_nat (length x))" "[1, 2]" "[[3]]"]
  by (simp add: SHA_DIGEST_LENGTH_def)

text \<open>C5: \<^verbatim>\<open>crypto_hkdf\<close> is HKDF of RFC 5869: up to the limit of 255 blocks it returns 0 and writes
  exactly the first \<open>L\<close> octets of the output keying material, leaving the rest of the buffer alone;
  beyond the limit it returns 1 and writes nothing.\<close>

theorem crypto_hkdf_is_rfc5869:
  assumes "\<forall>x. length (sha1 x) = SHA_DIGEST_LENGTH" "L \<le> length okm"
  shows "crypto_hkdf sha1 (Some salt) (int (length salt)) ikm (Some info) (int (length info)) (Some okm) (int L) =
    (if L \<le> 255 * 20 then Some (0, Some (rfc5869 sha1 salt ikm info L @ drop L okm)) else Some (1, Some okm))"
  using crypto_hkdf_eq [OF assms, of "length salt" salt ikm info] by simp

theorem crypto_hkdf_is_rfc5869_witness:
  "\<exists>out. crypto_hkdf (\<lambda>x. replicate 20 9) (Some [1]) 1 [2] (Some SUBKEY_INFO) 9 (Some (replicate 64 0)) 32 =
     Some (0, Some (out @ replicate 32 0))"
  using crypto_hkdf_is_rfc5869 [of "\<lambda>x. replicate 20 9" 32 "replicate 64 0" "[1]" "[2]" SUBKEY_INFO]
  by (auto simp: SHA_DIGEST_LENGTH_def SUBKEY_INFO_def)

text \<open>C7: \<^verbatim>\<open>derive_key\<close> terminates and stores the \<open>L\<close>-byte key of \<^verbatim>\<open>EVP_BytesToKey\<close> (MD5, one
  iteration, no salt) for a non-empty password. For an empty password it reports \<open>L\<close> bytes but leaves
  the key array as it was, so the key is all zeros.\<close>

theorem derive_key_is_bytes_to_key:
  assumes "\<forall>x. length (md5 x) = 16" "L \<le> length skey"
  shows "derive_key md5 pass skey L =
    Some (L, if pass = [] then skey else EVP_BytesToKey md5 pass L @ drop L skey)"
  using derive_key_eq [OF assms] by simp

theorem derive_key_is_bytes_to_key_witness:
  "\<exists>k. derive_key (\<lambda>x. replicate 16 5) [1] (replicate 64 0) 32 = Some (32, k @ replicate 32 0)"
  using derive_key_is_bytes_to_key [of "\<lambda>x. replicate 16 5" 32 "replicate 64 0" "[1]"] by simp

text \<open>C10: \<^verbatim>\<open>parse_key\<close> never accepts a base64 key of two bytes or more. The decoded length is
  overwritten by the success flag of \<^verbatim>\<open>EVP_DecodeBase64\<close>, so whatever the decoder returns the test
  against the key length fails, 0 is returned and no key is stored.\<close>

theorem parse_key_never_succeeds:
  assumes "2 \<le> skey_len"
  shows "parse_key EVP_DecodedLength EVP_DecodeBase64 k skey skey_len = Some (0, skey)"
  using assms by (simp add: parse_key_def Let_def split: option.splits)

theorem parse_key_never_succeeds_witness:
  "parse_key (\<lambda>n. Some n) (\<lambda>mx s. Some (replicate 32 1)) (replicate 44 65) (replicate 64 0) 32 = Some (0, replicate 64 0)"
  using parse_key_never_succeeds [of 32] by simp

end
