(* ===== verification/Cipher.thy ===== *)
theory Cipher
  imports IO_Buffer Crypters Key_Derivation
begin

text \<open>
  The framing layer \<^verbatim>\<open>net/cipher.cpp\<close>: \<^verbatim>\<open>cipher_impl\<close>, which holds an encrypter or a decrypter, and
  \<^verbatim>\<open>cipher\<close>, which turns plaintext blocks into a salted stream of length-prefixed packets and back.

  The parts that are not in the sources are the fields of \<open>cipher_env\<close>: the crypto libraries, the
  hashes, base64, the random generator, and the contents of freshly allocated memory. The visitor a
  cipher reports to is a pair of functions on a state of its own; a call of the code becomes a state
  change. The result \<^const>\<open>None\<close> is an abort, an access outside an object, or (for the loop of
  \<^verbatim>\<open>process_bytes\<close>) not terminating.
\<close>

record ('c, 'm) cipher_env =
  lib :: "('c, 'm) crypto_lib"
  sha1 :: hash
  md5 :: hash
  decoded_length :: "nat \<Rightarrow> nat option"
  decode_base64 :: "nat \<Rightarrow> byte list \<Rightarrow> byte list option"
  RandBytes :: "nat \<Rightarrow> byte list"
  junk :: "nat \<Rightarrow> byte"

record 's visitor =
  on_received_data :: "growable \<Rightarrow> 's \<Rightarrow> bool \<times> 's"
  on_protocol_error :: "'s \<Rightarrow> 's"

definition CHUNK_SIZE_LEN :: nat where
  "CHUNK_SIZE_LEN = 2"

definition CHUNK_SIZE_MASK :: nat where
  "CHUNK_SIZE_MASK = 0x3FFF"

definition SOCKET_BUF_SIZE :: int where
  "SOCKET_BUF_SIZE = 17 * 1024"

definition MAX_KEY_LENGTH :: nat where
  "MAX_KEY_LENGTH = 64"

definition MAX_NONCE_LENGTH :: nat where
  "MAX_NONCE_LENGTH = 32"

section \<open>cipher_impl\<close>

record ('c, 'm) cipher_impl =
  encrypter :: "('c, 'm) crypter option"
  decrypter :: "('c, 'm) crypter option"

definition new_cipher_impl :: "('c, 'm) crypto_lib \<Rightarrow> cipher_method \<Rightarrow> bool \<Rightarrow> ('c, 'm) cipher_impl option" where
  "new_cipher_impl l method enc =
     (if enc
      then do { e \<leftarrow> Encrypter_CreateFromCipherSuite l method; Some \<lparr>encrypter = Some e, decrypter = None\<rparr> }
      else Some \<lparr>encrypter = None, decrypter = Decrypter_CreateFromCipherSuite l method\<rparr>)"

text \<open>\<open>clen\<close> and \<open>plen\<close> are the sizes of the output buffers; a result \<^const>\<open>None\<close> inside is \<^verbatim>\<open>err = -1\<close>.\<close>

definition impl_EncryptPacket :: "('c, 'm) crypto_lib \<Rightarrow> u64 \<Rightarrow> nat \<Rightarrow> byte list \<Rightarrow> ('c, 'm) cipher_impl
    \<Rightarrow> (byte list option \<times> ('c, 'm) cipher_impl) option" where
  "impl_EncryptPacket l pn clen m i =
     do { e \<leftarrow> encrypter i;
          (out, e1) \<leftarrow> EncryptPacket l pn [] m clen e;
          Some (out, i\<lparr>encrypter := Some e1\<rparr>) }"

definition impl_DecryptPacket :: "('c, 'm) crypto_lib \<Rightarrow> u64 \<Rightarrow> nat \<Rightarrow> byte list \<Rightarrow> ('c, 'm) cipher_impl
    \<Rightarrow> (byte list option \<times> ('c, 'm) cipher_impl) option" where
  "impl_DecryptPacket l pn plen m i =
     do { d \<leftarrow> decrypter i;
          (out, d1) \<leftarrow> DecryptPacket l pn [] m plen d;
          Some (out, i\<lparr>decrypter := Some d1\<rparr>) }"

definition impl_SetKey :: "('c, 'm) crypto_lib \<Rightarrow> byte list \<Rightarrow> ('c, 'm) cipher_impl
    \<Rightarrow> (bool \<times> ('c, 'm) cipher_impl) option" where
  "impl_SetKey l k i =
     (case encrypter i of
        Some e \<Rightarrow> do { (ok, e1) \<leftarrow> SetKey l k e; Some (ok, i\<lparr>encrypter := Some e1\<rparr>) }
      | None \<Rightarrow>
          (case decrypter i of
             Some d \<Rightarrow> do { (ok, d1) \<leftarrow> SetKey l k d; Some (ok, i\<lparr>decrypter := Some d1\<rparr>) }
           | None \<Rightarrow> Some (False, i)))"

definition impl_SetNoncePrefix :: "byte list \<Rightarrow> nat \<Rightarrow> ('c, 'm) cipher_impl
    \<Rightarrow> (bool \<times> ('c, 'm) cipher_impl) option" where
  "impl_SetNoncePrefix p len i =
     (case encrypter i of
        Some e \<Rightarrow> do { q \<leftarrow> mem_slice p 0 (min len (GetNoncePrefixSize e));
                       (ok, e1) \<leftarrow> SetNoncePrefix q e; Some (ok, i\<lparr>encrypter := Some e1\<rparr>) }
      | None \<Rightarrow>
          (case decrypter i of
             Some d \<Rightarrow> do { q \<leftarrow> mem_slice p 0 (min len (GetNoncePrefixSize d));
                            (ok, d1) \<leftarrow> SetNoncePrefix q d; Some (ok, i\<lparr>decrypter := Some d1\<rparr>) }
           | None \<Rightarrow> Some (False, i)))"

definition impl_SetIV :: "byte list \<Rightarrow> ('c, 'm) cipher_impl \<Rightarrow> (bool \<times> ('c, 'm) cipher_impl) option" where
  "impl_SetIV v i =
     (case encrypter i of
        Some e \<Rightarrow> do { (ok, e1) \<leftarrow> SetIV v e; Some (ok, i\<lparr>encrypter := Some e1\<rparr>) }
      | None \<Rightarrow>
          (case decrypter i of
             Some d \<Rightarrow> do { (ok, d1) \<leftarrow> SetIV v d; Some (ok, i\<lparr>decrypter := Some d1\<rparr>) }
           | None \<Rightarrow> Some (False, i)))"

text \<open>The getters read the encrypter if there is one and dereference the decrypter otherwise.\<close>

definition crypter_of :: "('c, 'm) cipher_impl \<Rightarrow> ('c, 'm) crypter option" where
  "crypter_of i = (case encrypter i of Some e \<Rightarrow> Some e | None \<Rightarrow> decrypter i)"

definition impl_GetKeySize :: "('c, 'm) cipher_impl \<Rightarrow> nat option" where
  "impl_GetKeySize i = map_option key_size (crypter_of i)"

definition impl_GetNoncePrefixSize :: "('c, 'm) cipher_impl \<Rightarrow> nat option" where
  "impl_GetNoncePrefixSize i = map_option GetNoncePrefixSize (crypter_of i)"

definition impl_GetIVSize :: "('c, 'm) cipher_impl \<Rightarrow> nat option" where
  "impl_GetIVSize i = map_option nonce_size (crypter_of i)"

definition impl_GetTagSize :: "('c, 'm) cipher_impl \<Rightarrow> nat option" where
  "impl_GetTagSize i = map_option auth_tag_size (crypter_of i)"

definition impl_cipher_id :: "('c, 'm) cipher_impl \<Rightarrow> cipher_method" where
  "impl_cipher_id i = (case crypter_of i of Some c \<Rightarrow> cipher_id c | None \<Rightarrow> CRYPTO_INVALID)"

section \<open>cipher\<close>

record ('c, 'm) cipher =
  salt :: "byte list"
  master_key :: "byte list"
  key_len :: nat
  tag_len :: nat
  impl :: "('c, 'm) cipher_impl"
  counter :: u64
  init :: bool
  chunk :: "growable option"

definition new_cipher :: "('c, 'm) cipher_env \<Rightarrow> byte list \<Rightarrow> byte list \<Rightarrow> cipher_method \<Rightarrow> bool
    \<Rightarrow> ('c, 'm) cipher option" where
  "new_cipher env k password method enc =
     do { i \<leftarrow> new_cipher_impl (lib env) method enc;
          ks \<leftarrow> impl_GetKeySize i;
          let key0 = replicate MAX_KEY_LENGTH 0;
          (kl, mk) \<leftarrow> (if k \<noteq> [] then parse_key (decoded_length env) (decode_base64 env) k key0 (ks * 8 div 8)
                      else derive_key (md5 env) password key0 (ks * 8 div 8));
          ts \<leftarrow> impl_GetTagSize i;
          Some \<lparr>salt = replicate MAX_KEY_LENGTH 0, master_key = mk, key_len = kl, tag_len = ts, impl = i,
                counter = 0, init = False, chunk = None\<rparr> }"

definition is_stream :: "('c, 'm) cipher \<Rightarrow> bool" where
  "is_stream c \<longleftrightarrow> impl_cipher_id (impl c) \<ge> CRYPTO_AES_128_CFB \<and> impl_cipher_id (impl c) \<le> CRYPTO_CAMELLIA_256_CFB"

definition set_key_stream :: "('c, 'm) cipher_env \<Rightarrow> byte list \<Rightarrow> ('c, 'm) cipher \<Rightarrow> ('c, 'm) cipher option" where
  "set_key_stream env nonce c =
     do { let c0 = c\<lparr>counter := 0\<rparr>;
          (_, i1) \<leftarrow> impl_SetIV nonce (impl c0);
          k \<leftarrow> mem_slice (master_key c0) 0 (key_len c0);
          (_, i2) \<leftarrow> impl_SetKey (lib env) k i1;
          Some (c0\<lparr>impl := i2\<rparr>) }"

definition set_key_aead :: "('c, 'm) cipher_env \<Rightarrow> byte list \<Rightarrow> nat \<Rightarrow> ('c, 'm) cipher \<Rightarrow> ('c, 'm) cipher option" where
  "set_key_aead env s salt_len c =
     do { ikm \<leftarrow> mem_slice (master_key c) 0 (key_len c);
          (err, okm) \<leftarrow> crypto_hkdf (sha1 env) (Some s) (int salt_len) ikm (Some SUBKEY_INFO)
                         (int (length SUBKEY_INFO)) (Some (replicate MAX_KEY_LENGTH 0)) (int (key_len c));
          if err \<noteq> 0 then None
          else do { skey \<leftarrow> okm;
                    let c0 = c\<lparr>counter := 0\<rparr>;
                    k \<leftarrow> mem_slice skey 0 (key_len c0);
                    (_, i1) \<leftarrow> impl_SetKey (lib env) k (impl c0);
                    n \<leftarrow> impl_GetNoncePrefixSize i1;
                    (_, i2) \<leftarrow> impl_SetNoncePrefix (replicate MAX_NONCE_LENGTH 0) n i1;
                    Some (c0\<lparr>impl := i2\<rparr>) } }"

definition decrypt_salt :: "('c, 'm) cipher_env \<Rightarrow> growable \<Rightarrow> ('c, 'm) cipher \<Rightarrow> (growable \<times> ('c, 'm) cipher) option" where
  "decrypt_salt env ch c =
     (if is_stream c
      then do { nonce_len \<leftarrow> impl_GetIVSize (impl c);
                xs \<leftarrow> data_slice ch 0 nonce_len;
                nonce \<leftarrow> mem_write (replicate MAX_NONCE_LENGTH 0) 0 xs;
                ch1 \<leftarrow> set_offset (offset ch + int nonce_len) ch;
                v \<leftarrow> mem_slice nonce 0 nonce_len;
                c1 \<leftarrow> set_key_stream env v c;
                Some (ch1, c1) }
      else do { let salt_len = key_len c;
                xs \<leftarrow> data_slice ch 0 salt_len;
                s \<leftarrow> mem_write (salt c) 0 xs;
                ch1 \<leftarrow> set_offset (offset ch + int salt_len) ch;
                c1 \<leftarrow> set_key_aead env s salt_len (c\<lparr>salt := s\<rparr>);
                Some (ch1, c1) })"

definition encrypt_salt :: "('c, 'm) cipher_env \<Rightarrow> growable \<Rightarrow> ('c, 'm) cipher \<Rightarrow> (growable \<times> ('c, 'm) cipher) option" where
  "encrypt_salt env ch c =
     (if is_stream c
      then do { nonce_len \<leftarrow> impl_GetIVSize (impl c);
                nonce \<leftarrow> mem_write (replicate MAX_NONCE_LENGTH 0) 0 (RandBytes env nonce_len);
                let previous_capacity = capacity ch;
                ch1 \<leftarrow> SetCapacity (junk env) (previous_capacity + int nonce_len) ch;
                v \<leftarrow> mem_slice nonce 0 nonce_len;
                ch2 \<leftarrow> memcpy_data 0 v ch1;
                c1 \<leftarrow> set_key_stream env v c;
                Some (ch2, c1) }
      else do { let salt_len = key_len c;
                s \<leftarrow> mem_write (salt c) 0 (RandBytes env salt_len);
                let previous_capacity = capacity ch;
                ch1 \<leftarrow> SetCapacity (junk env) (previous_capacity + int salt_len) ch;
                xs \<leftarrow> mem_slice s 0 salt_len;
                m \<leftarrow> mem_write (mem ch1) (nat previous_capacity) xs;
                c1 \<leftarrow> set_key_aead env s salt_len (c\<lparr>salt := s\<rparr>);
                Some (ch1\<lparr>mem := m\<rparr>, c1) })"

section \<open>Frames\<close>

text \<open>The return codes 0, \<^verbatim>\<open>-EAGAIN\<close> and \<^verbatim>\<open>-EBADMSG\<close>.\<close>

datatype frame_ret = FRAME_OK | FRAME_EAGAIN | FRAME_EBADMSG

text \<open>\<^verbatim>\<open>htons\<close> of a 16-bit length, in memory order.\<close>

definition len_bytes :: "nat \<Rightarrow> byte list" where
  "len_bytes n = (let w = of_nat n :: u16 in [hi8 w, lo8 w])"

definition chunk_decrypt_frame_aead :: "('c, 'm) cipher_env \<Rightarrow> ('c, 'm) cipher \<Rightarrow> u64 \<Rightarrow> growable \<Rightarrow> growable
    \<Rightarrow> (frame_ret \<times> u64 \<times> growable \<times> growable \<times> ('c, 'm) cipher_impl) option" where
  "chunk_decrypt_frame_aead env c ctr plaintext ciphertext =
     (let tlen = tag_len c; clen = CHUNK_SIZE_LEN + tlen in
      if buf_size ciphertext < int (tlen + CHUNK_SIZE_LEN + tlen)
      then Some (FRAME_EAGAIN, ctr, plaintext, ciphertext, impl c)
      else do {
        xs \<leftarrow> data_slice ciphertext 0 clen;
        (out, i1) \<leftarrow> impl_DecryptPacket (lib env) ctr 2 xs (impl c);
        case out of
          None \<Rightarrow> Some (FRAME_EBADMSG, ctr, plaintext, ciphertext, i1)
        | Some len \<Rightarrow>
            if length len \<noteq> 2 then None
            else let mlen = unat (be16 (len ! 0) (len ! 1)) AND CHUNK_SIZE_MASK in
            if mlen = 0 then Some (FRAME_EBADMSG, ctr, plaintext, ciphertext, i1)
            else do {
              ciphertext1 \<leftarrow> set_offset (offset ciphertext + int clen) ciphertext;
              plaintext1 \<leftarrow> SetCapacity (junk env) (offset plaintext + int mlen) plaintext;
              let clen2 = tlen + mlen;
              if buf_size ciphertext1 < int clen2
              then do { ciphertext2 \<leftarrow> set_offset (offset ciphertext1 - int CHUNK_SIZE_LEN - int tlen) ciphertext1;
                        Some (FRAME_EAGAIN, ctr, plaintext1, ciphertext2, i1) }
              else do {
                let ctr1 = ctr + 1;
                ys \<leftarrow> data_slice ciphertext1 0 clen2;
                (out2, i2) \<leftarrow> impl_DecryptPacket (lib env) ctr1 (nat (capacity plaintext1)) ys i1;
                case out2 of
                  None \<Rightarrow> do { ciphertext2 \<leftarrow> set_offset (offset ciphertext1 - int CHUNK_SIZE_LEN - int tlen) ciphertext1;
                              Some (FRAME_EBADMSG, ctr1, plaintext1, ciphertext2, i2) }
                | Some pt \<Rightarrow>
                    do { plaintext2 \<leftarrow> memcpy_data 0 pt plaintext1;
                         ciphertext2 \<leftarrow> set_offset (offset ciphertext1 + int clen2) ciphertext1;
                         plaintext3 \<leftarrow> set_offset (offset plaintext2 + int (length pt)) plaintext2;
                         Some (FRAME_OK, ctr1 + 1, plaintext3, ciphertext2, i2) } } } })"

definition chunk_decrypt_frame_stream :: "('c, 'm) cipher_env \<Rightarrow> ('c, 'm) cipher \<Rightarrow> u64 \<Rightarrow> growable \<Rightarrow> growable
    \<Rightarrow> (frame_ret \<times> u64 \<times> growable \<times> growable \<times> ('c, 'm) cipher_impl) option" where
  "chunk_decrypt_frame_stream env c ctr plaintext ciphertext =
     do { let plen = nat (buf_size ciphertext);
          plaintext1 \<leftarrow> SetCapacity (junk env) (offset plaintext + buf_size ciphertext) plaintext;
          xs \<leftarrow> data_slice ciphertext 0 plen;
          (out, i1) \<leftarrow> impl_DecryptPacket (lib env) ctr plen xs (impl c);
          case out of
            None \<Rightarrow> Some (FRAME_EBADMSG, ctr, plaintext1, ciphertext, i1)
          | Some pt \<Rightarrow>
              do { plaintext2 \<leftarrow> memcpy_data 0 pt plaintext1;
                   plaintext3 \<leftarrow> set_offset (offset plaintext2 + int (length pt)) plaintext2;
                   ciphertext1 \<leftarrow> set_offset (offset ciphertext + buf_size ciphertext) ciphertext;
                   Some (FRAME_OK, ctr + 1, plaintext3, ciphertext1, i1) } }"

definition chunk_decrypt_frame :: "('c, 'm) cipher_env \<Rightarrow> ('c, 'm) cipher \<Rightarrow> u64 \<Rightarrow> growable \<Rightarrow> growable
    \<Rightarrow> (frame_ret \<times> u64 \<times> growable \<times> growable \<times> ('c, 'm) cipher_impl) option" where
  "chunk_decrypt_frame env c ctr plaintext ciphertext =
     (if is_stream c then chunk_decrypt_frame_stream env c ctr plaintext ciphertext
      else chunk_decrypt_frame_aead env c ctr plaintext ciphertext)"

definition chunk_encrypt_frame_aead :: "('c, 'm) cipher_env \<Rightarrow> ('c, 'm) cipher \<Rightarrow> u64 \<Rightarrow> byte list \<Rightarrow> growable
    \<Rightarrow> (frame_ret \<times> u64 \<times> growable \<times> ('c, 'm) cipher_impl) option" where
  "chunk_encrypt_frame_aead env c ctr plaintext ciphertext =
     (let tlen = tag_len c;
          c_total_len = 2 * tlen + CHUNK_SIZE_LEN + length plaintext;
          previous_capacity = capacity ciphertext;
          clen = CHUNK_SIZE_LEN + tlen;
          headroom = RemainingCapacity ciphertext
      in do {
        ciphertext1 \<leftarrow> SetCapacity (junk env) (previous_capacity + int c_total_len) ciphertext;
        let len = len_bytes (length plaintext AND CHUNK_SIZE_MASK);
        (out, i1) \<leftarrow> impl_EncryptPacket (lib env) ctr clen len (impl c);
        case out of
          None \<Rightarrow> do { ciphertext2 \<leftarrow> SetCapacity (junk env) previous_capacity ciphertext1;
                      Some (FRAME_EBADMSG, ctr, ciphertext2, i1) }
        | Some xs \<Rightarrow> do {
            ciphertext2 \<leftarrow> memcpy_data headroom xs ciphertext1;
            let headroom1 = headroom + int (length xs);
            let ctr1 = ctr + 1;
            let clen2 = length plaintext + tlen;
            ciphertext3 \<leftarrow> memcpy_data headroom1 (replicate clen2 0) ciphertext2;
            (out2, i2) \<leftarrow> impl_EncryptPacket (lib env) ctr1 clen2 plaintext i1;
            case out2 of
              None \<Rightarrow> do { ciphertext4 \<leftarrow> SetCapacity (junk env) previous_capacity ciphertext3;
                          Some (FRAME_EBADMSG, ctr1, ciphertext4, i2) }
            | Some ys \<Rightarrow> do { ciphertext4 \<leftarrow> memcpy_data headroom1 ys ciphertext3;
                             Some (FRAME_OK, ctr1 + 1, ciphertext4, i2) } } })"

definition chunk_encrypt_frame_stream :: "('c, 'm) cipher_env \<Rightarrow> ('c, 'm) cipher \<Rightarrow> u64 \<Rightarrow> byte list \<Rightarrow> growable
    \<Rightarrow> (frame_ret \<times> u64 \<times> growable \<times> ('c, 'm) cipher_impl) option" where
  "chunk_encrypt_frame_stream env c ctr plaintext ciphertext =
     (let previous_capacity = capacity ciphertext;
          headroom = previous_capacity - offset ciphertext;
          clen = length plaintext
      in do {
        ciphertext1 \<leftarrow> SetCapacity (junk env) (previous_capacity + int clen) ciphertext;
        (out, i1) \<leftarrow> impl_EncryptPacket (lib env) ctr clen plaintext (impl c);
        case out of
          None \<Rightarrow> do { ciphertext2 \<leftarrow> SetCapacity (junk env) previous_capacity ciphertext1;
                      Some (FRAME_EBADMSG, ctr, ciphertext2, i1) }
        | Some xs \<Rightarrow> do { ciphertext2 \<leftarrow> memcpy_data headroom xs ciphertext1;
                         Some (FRAME_OK, ctr + 1, ciphertext2, i1) } })"

definition chunk_encrypt_frame :: "('c, 'm) cipher_env \<Rightarrow> ('c, 'm) cipher \<Rightarrow> u64 \<Rightarrow> byte list \<Rightarrow> growable
    \<Rightarrow> (frame_ret \<times> u64 \<times> growable \<times> ('c, 'm) cipher_impl) option" where
  "chunk_encrypt_frame env c ctr plaintext ciphertext =
     (if is_stream c then chunk_encrypt_frame_stream env c ctr plaintext ciphertext
      else chunk_encrypt_frame_aead env c ctr plaintext ciphertext)"

section \<open>Entry points\<close>

definition encrypt :: "('c, 'm) cipher_env \<Rightarrow> 's visitor \<Rightarrow> byte list \<Rightarrow> growable \<Rightarrow> ('c, 'm) cipher \<Rightarrow> 's
    \<Rightarrow> (growable \<times> ('c, 'm) cipher \<times> 's) option" where
  "encrypt env vis plaintext ciphertext c s =
     do { (ct, c0) \<leftarrow> (if init c then Some (ciphertext, c)
                      else do { (ct, c1) \<leftarrow> encrypt_salt env ciphertext c; Some (ct, c1\<lparr>init := True\<rparr>) });
          (ret, ctr, ct1, i1) \<leftarrow> chunk_encrypt_frame env c0 (counter c0) plaintext ct;
          let c1 = c0\<lparr>impl := i1\<rparr>;
          if ret \<noteq> FRAME_OK then Some (ct1, c1, on_protocol_error vis s)
          else Some (ct1, c1\<lparr>counter := ctr\<rparr>, s) }"

text \<open>The loop of \<^verbatim>\<open>process_bytes\<close>; \<open>ch\<close> is \<^verbatim>\<open>chunk_\<close>.\<close>

partial_function (option) process_loop :: "('c, 'm) cipher_env \<Rightarrow> 's visitor \<Rightarrow> growable \<Rightarrow> ('c, 'm) cipher \<Rightarrow> 's
    \<Rightarrow> (growable \<times> ('c, 'm) cipher \<times> 's) option" where
  "process_loop env vis ch c s =
     (if iobuf_empty ch then Some (ch, c, s)
      else do {
        plaintext \<leftarrow> SetCapacity (junk env) SOCKET_BUF_SIZE GrowableIOBuffer;
        (ret, ctr, plaintext1, ch1, i1) \<leftarrow> chunk_decrypt_frame env c (counter c) plaintext ch;
        let c1 = c\<lparr>impl := i1\<rparr>;
        if ret = FRAME_EAGAIN then Some (ch1, c1, s)
        else if ret = FRAME_EBADMSG then Some (ch1, c1, on_protocol_error vis s)
        else do {
          let c2 = c1\<lparr>counter := ctr\<rparr>;
          plaintext2 \<leftarrow> SetCapacity (junk env) (offset plaintext1) plaintext1;
          plaintext3 \<leftarrow> set_offset 0 plaintext2;
          let (more, s1) = on_received_data vis plaintext3 s;
          if \<not> more then Some (ch1, c2, s1) else process_loop env vis ch1 c2 s1 } })"

text \<open>Appending the new bytes to what was left over from the last call.\<close>

definition merge_chunk :: "(nat \<Rightarrow> byte) \<Rightarrow> growable option \<Rightarrow> growable \<Rightarrow> growable option" where
  "merge_chunk jk prev ciphertext =
     (case prev of
        None \<Rightarrow> Some ciphertext
      | Some previous_chunk \<Rightarrow>
          let chunk_size = RemainingCapacity previous_chunk + buf_size ciphertext in
          if \<not> in_int chunk_size then None
          else do { ch1 \<leftarrow> SetCapacity jk chunk_size GrowableIOBuffer;
                    xs \<leftarrow> data_slice previous_chunk 0 (nat (RemainingCapacity previous_chunk));
                    ch2 \<leftarrow> memcpy_data 0 xs ch1;
                    ys \<leftarrow> data_slice ciphertext 0 (nat (RemainingCapacity ciphertext));
                    memcpy_data (RemainingCapacity previous_chunk) ys ch2 })"

definition process_bytes :: "('c, 'm) cipher_env \<Rightarrow> 's visitor \<Rightarrow> growable \<Rightarrow> ('c, 'm) cipher \<Rightarrow> 's
    \<Rightarrow> (('c, 'm) cipher \<times> 's) option" where
  "process_bytes env vis ciphertext c s =
     do { ch \<leftarrow> merge_chunk (junk env) (chunk c) ciphertext;
          if \<not> init c \<and> buf_size ch < int (key_len c) then Some (c\<lparr>chunk := Some ch\<rparr>, s)
          else do {
            (ch0, c0) \<leftarrow> (if init c then Some (ch, c)
                         else do { (ch1, c1) \<leftarrow> decrypt_salt env ch c; Some (ch1, c1\<lparr>init := True\<rparr>) });
            (ch2, c2, s2) \<leftarrow> process_loop env vis ch0 c0 s;
            Some (c2\<lparr>chunk := Some ch2\<rparr>, s2) } }"

end
