(* ===== verification/Cipher_Stream.thy ===== *)
theory Cipher_Stream
  imports Cipher
begin

text \<open>
  Correctness of the framing layer for the AEAD suites: the byte stream the encoder produces, and that
  the decoder recovers the plaintext blocks from it however the stream is cut into segments.
\<close>

section \<open>The wire format\<close>

text \<open>A frame is the sealed two-byte length followed by the sealed payload, under consecutive counters.\<close>

definition frame :: "('c, 'm) crypto_lib \<Rightarrow> ('c, 'm) crypter \<Rightarrow> u64 \<Rightarrow> byte list \<Rightarrow> byte list" where
  "frame l e n pt = sealed l e n (len_bytes (length pt)) @ sealed l e (n + 1) pt"

primrec wire :: "('c, 'm) crypto_lib \<Rightarrow> ('c, 'm) crypter \<Rightarrow> u64 \<Rightarrow> byte list list \<Rightarrow> byte list" where
  "wire l e n [] = []"
| "wire l e n (p # ps) = frame l e n p @ wire l e (n + 2) ps"

definition block_ok :: "byte list \<Rightarrow> bool" where
  "block_ok pt \<longleftrightarrow> 0 < length pt \<and> length pt \<le> CHUNK_SIZE_MASK"

text \<open>A strict prefix of the next frame, or nothing: what can be left over between two segments.\<close>

definition partial_frame :: "('c, 'm) crypto_lib \<Rightarrow> ('c, 'm) crypter \<Rightarrow> u64 \<Rightarrow> byte list \<Rightarrow> bool" where
  "partial_frame l e n r \<longleftrightarrow>
     r = [] \<or> (\<exists>q more. block_ok q \<and> more \<noteq> [] \<and> r @ more = frame l e n q)"

lemma and_chunk_mask: "n \<le> CHUNK_SIZE_MASK \<Longrightarrow> n AND CHUNK_SIZE_MASK = n"
proof -
  assume n: "n \<le> CHUNK_SIZE_MASK"
  have "CHUNK_SIZE_MASK = mask 14" by (simp add: CHUNK_SIZE_MASK_def mask_eq_exp_minus_1)
  then have "n AND CHUNK_SIZE_MASK = take_bit 14 n" by (simp add: take_bit_eq_mask)
  also have "\<dots> = n" using n by (simp add: take_bit_eq_mod CHUNK_SIZE_MASK_def)
  finally show ?thesis .
qed

lemma length_len_bytes [simp]: "length (len_bytes n) = 2"
  by (simp add: len_bytes_def Let_def)

lemma len_bytes_decode:
  assumes "n \<le> CHUNK_SIZE_MASK"
  shows "unat (be16 (len_bytes n ! 0) (len_bytes n ! 1)) AND CHUNK_SIZE_MASK = n"
proof -
  have "be16 (len_bytes n ! 0) (len_bytes n ! 1) = (of_nat n :: u16)" by (simp add: len_bytes_def Let_def)
  moreover have "unat (of_nat n :: u16) = n" using assms by (simp add: unat_of_nat CHUNK_SIZE_MASK_def)
  ultimately show ?thesis by (simp add: and_chunk_mask assms)
qed

lemma length_sealed: "packet_pair l e d \<Longrightarrow> length (sealed l e n pt) = length pt + auth_tag_size e"
  by (simp add: packet_pair_def)

lemma length_frame:
  "packet_pair l e d \<Longrightarrow> length (frame l e n pt) = 2 * auth_tag_size e + CHUNK_SIZE_LEN + length pt"
  by (simp add: frame_def length_sealed CHUNK_SIZE_LEN_def)

section \<open>Encoding a frame\<close>

text \<open>The cipher state of a keyed encoder and of a keyed decoder of an AEAD suite.\<close>

definition keyed_enc :: "('c, 'm) crypter \<Rightarrow> ('c, 'm) cipher \<Rightarrow> bool" where
  "keyed_enc e c \<longleftrightarrow> encrypter (impl c) = Some e \<and> \<not> is_stream c \<and> tag_len c = auth_tag_size e \<and> init c"

definition keyed_dec :: "('c, 'm) crypter \<Rightarrow> ('c, 'm) cipher \<Rightarrow> bool" where
  "keyed_dec d c \<longleftrightarrow> encrypter (impl c) = None \<and> decrypter (impl c) = Some d \<and> \<not> is_stream c \<and>
     tag_len c = auth_tag_size d \<and> init c"

lemma impl_Encrypt_eq:
  assumes "packet_pair l e d" "encrypter i = Some e" "length pt + auth_tag_size e \<le> mx"
  shows "impl_EncryptPacket l n mx pt i = Some (Some (sealed l e n pt), i)"
  using assms by (simp add: impl_EncryptPacket_def packet_pair_def)

lemma impl_Decrypt_eq:
  assumes "packet_pair l e d" "decrypter i = Some d" "length pt \<le> mx"
  shows "impl_DecryptPacket l n mx (sealed l e n pt) i = Some (Some pt, i)"
  using assms by (simp add: impl_DecryptPacket_def packet_pair_def)

lemma encrypt_frame:
  assumes pair: "packet_pair (lib env) e d" and "encrypter (impl c) = Some e" "\<not> is_stream c"
    "tag_len c = auth_tag_size e" and pt: "length pt \<le> CHUNK_SIZE_MASK" and inv: "growable_inv ct"
    and room: "capacity ct + int (length (frame (lib env) e n pt)) \<le> INT_MAX"
  shows "\<exists>ct'. chunk_encrypt_frame env c n pt ct = Some (FRAME_OK, n + 2, ct', impl c) \<and> growable_inv ct' \<and>
     view ct' = view ct @ frame (lib env) e n pt \<and> offset ct' = offset ct \<and>
     capacity ct' = capacity ct + int (length (frame (lib env) e n pt))"
proof -
  let ?xs = "sealed (lib env) e n (len_bytes (length pt))" and ?ys = "sealed (lib env) e (n + 1) pt"
  have len: "length ?xs = 2 + auth_tag_size e" "length ?ys = length pt + auth_tag_size e"
    by (simp_all add: length_sealed [OF pair])
  have total: "2 * auth_tag_size e + CHUNK_SIZE_LEN + length pt = length (frame (lib env) e n pt)"
    by (simp add: length_frame [OF pair])
  obtain ct1 fresh where ct1: "SetCapacity (junk env) (capacity ct + int (length (frame (lib env) e n pt))) ct = Some ct1"
    "growable_inv ct1" "view ct1 = view ct @ fresh" "length fresh = length (frame (lib env) e n pt)"
    "offset ct1 = offset ct" "capacity ct1 = capacity ct + int (length (frame (lib env) e n pt))"
    using SetCapacity_grow [OF inv, of "capacity ct + int (length (frame (lib env) e n pt))" "junk env"] room by auto
  define f1 f2 where "f1 = take (length ?xs) fresh" and "f2 = drop (length ?xs) fresh"
  have f: "fresh = f1 @ f2" "length f1 = length ?xs" "length f2 = length ?ys"
    using ct1(4) by (simp_all add: f1_def f2_def frame_def)
  obtain ct2 where ct2: "memcpy_data (int (length (view ct))) ?xs ct1 = Some ct2" "growable_inv ct2"
    "view ct2 = view ct @ ?xs @ f2" "offset ct2 = offset ct" "capacity ct2 = capacity ct1"
    using memcpy_append [OF ct1(2), of "view ct" f1 f2 ?xs] ct1(3,5) f by auto
  obtain ct3 where ct3: "memcpy_data (int (length (view ct @ ?xs))) (replicate (length ?ys) 0) ct2 = Some ct3"
    "growable_inv ct3" "view ct3 = (view ct @ ?xs) @ replicate (length ?ys) 0" "offset ct3 = offset ct" "capacity ct3 = capacity ct1"
    using memcpy_append [OF ct2(2), of "view ct @ ?xs" f2 "[]" "replicate (length ?ys) 0"] ct2(3-) f by auto
  obtain ct4 where ct4: "memcpy_data (int (length (view ct @ ?xs))) ?ys ct3 = Some ct4"
    "growable_inv ct4" "view ct4 = (view ct @ ?xs) @ ?ys" "offset ct4 = offset ct" "capacity ct4 = capacity ct1"
    using memcpy_append [OF ct3(2), of "view ct @ ?xs" "replicate (length ?ys) 0" "[]" ?ys] ct3(3-) by auto
  have w3: "memcpy_data (int (length (view ct)) + int (length ?xs)) (replicate (length pt + auth_tag_size e) 0) ct2 = Some ct3"
    and w4: "memcpy_data (int (length (view ct)) + int (length ?xs)) ?ys ct3 = Some ct4"
    using ct3(1) ct4(1) len(2) by simp_all
  have enc1: "impl_EncryptPacket (lib env) n (CHUNK_SIZE_LEN + auth_tag_size e) (len_bytes (length pt)) (impl c) = Some (Some ?xs, impl c)"
    and enc2: "impl_EncryptPacket (lib env) (n + 1) (length pt + auth_tag_size e) pt (impl c) = Some (Some ?ys, impl c)"
    by (rule impl_Encrypt_eq [OF pair assms(2)], simp add: CHUNK_SIZE_LEN_def)+
  have "chunk_encrypt_frame env c n pt ct = Some (FRAME_OK, n + 1 + 1, ct4, impl c)"
    unfolding chunk_encrypt_frame_def chunk_encrypt_frame_aead_def Let_def RemainingCapacity_view [OF inv]
      and_chunk_mask [OF pt] assms(4) total
    using assms(3) by (simp only: if_False bind.bind_lunit ct1(1) ct2(1) w3 w4 enc1 enc2 prod.case option.case)
  then have "chunk_encrypt_frame env c n pt ct = Some (FRAME_OK, n + 2, ct4, impl c)" by (simp add: add.assoc)
  with ct4 ct1 show ?thesis by (simp add: frame_def)
qed

section \<open>Decoding a frame\<close>

text \<open>
  The buffer a frame is decrypted into: it has the size of a socket buffer and is cut to the announced
  length, filled, and rewound.
\<close>

lemma SetCapacity_mem: "SetCapacity jk cap b = Some b' \<Longrightarrow> length (mem b') = (if cap \<le> capacity b then length (mem b) else nat cap)"
  by (auto simp: SetCapacity_def set_offset_def mem_realloc_def Let_def split: if_splits)

lemma memcpy_data_mem: "memcpy_data i xs b = Some b' \<Longrightarrow> length (mem b') = length (mem b)"
  by (auto simp: memcpy_data_def mem_write_def split: if_splits)

lemma plaintext_buffer:
  assumes "block_ok pt"
  shows "\<exists>p0 p1 p2 p3 p4 p5. SetCapacity jk SOCKET_BUF_SIZE GrowableIOBuffer = Some p0 \<and> offset p0 = 0 \<and>
    SetCapacity jk (int (length pt)) p0 = Some p1 \<and> capacity p1 = int (length pt) \<and>
    memcpy_data 0 pt p1 = Some p2 \<and> offset p2 = 0 \<and>
    set_offset (int (length pt)) p2 = Some p3 \<and> offset p3 = int (length pt) \<and>
    SetCapacity jk (int (length pt)) p3 = Some p4 \<and>
    set_offset 0 p4 = Some p5 \<and> growable_inv p5 \<and> view p5 = pt \<and> offset p5 = 0 \<and> length (mem p5) = nat SOCKET_BUF_SIZE"
proof -
  obtain p0 where p0: "SetCapacity jk SOCKET_BUF_SIZE GrowableIOBuffer = Some p0" "growable_inv p0" "offset p0 = 0"
    "capacity p0 = SOCKET_BUF_SIZE"
    using SetCapacity_grow [of GrowableIOBuffer SOCKET_BUF_SIZE jk] by (auto simp: SOCKET_BUF_SIZE_def INT_MAX_def)
  obtain p1 where p1: "SetCapacity jk (int (length pt)) p0 = Some p1" "growable_inv p1" "offset p1 = 0"
    "capacity p1 = int (length pt)" "view p1 = take (length pt) (view p0)"
    using SetCapacity_shrink [OF p0(2), of "int (length pt)" jk] assms p0
    by (auto simp: block_ok_def CHUNK_SIZE_MASK_def SOCKET_BUF_SIZE_def)
  have "length (view p1) = length pt" using length_view [OF p1(2)] p1 by (simp add: growable_inv_def)
  then obtain p2 where p2: "memcpy_data 0 pt p1 = Some p2" "growable_inv p2" "view p2 = pt" "offset p2 = 0"
    "capacity p2 = int (length pt)"
    using memcpy_append [OF p1(2), of "[]" "view p1" "[]" pt] p1(3,4) by auto
  obtain p3 where p3: "set_offset (int (length pt)) p2 = Some p3" "growable_inv p3" "offset p3 = int (length pt)"
    "capacity p3 = int (length pt)" "mem p3 = mem p2"
    using set_offset_ok [OF p2(2), of "int (length pt)"] p2 by auto
  obtain p5 where p5: "set_offset 0 p3 = Some p5" "growable_inv p5" "offset p5 = 0" "capacity p5 = int (length pt)"
    "mem p5 = mem p3"
    using set_offset_ok [OF p3(2), of 0] p3 by auto
  have "SetCapacity jk (int (length pt)) p3 = Some p3"
    using p3 by (auto simp: SetCapacity_def set_offset_def growable_inv_def in_int_nonneg)
  moreover have "length (mem p5) = nat SOCKET_BUF_SIZE"
    using SetCapacity_mem [OF p0(1)] SetCapacity_mem [OF p1(1)] memcpy_data_mem [OF p2(1)] p0(4) p1(4) p3(5) p5(5) assms
    by (simp add: block_ok_def CHUNK_SIZE_MASK_def SOCKET_BUF_SIZE_def)
  moreover have "view p5 = pt" using p2 p3 p5 by (simp add: view_def)
  ultimately show ?thesis using p0 p1 p2 p3 p5 by blast
qed

text \<open>A complete frame at the front of the buffer is decoded and consumed.\<close>

lemma decrypt_complete:
  assumes pair: "packet_pair (lib env) e d" and dec: "keyed_dec d c" and pt: "block_ok pt"
    and inv: "growable_inv ch" and v: "view ch = frame (lib env) e n pt @ rest"
    and p0: "SetCapacity (junk env) SOCKET_BUF_SIZE GrowableIOBuffer = Some p0"
  shows "\<exists>p1 p2 p3 ch'. chunk_decrypt_frame env c n p0 ch = Some (FRAME_OK, n + 2, p1, ch', impl c) \<and>
    SetCapacity (junk env) (offset p1) p1 = Some p2 \<and> set_offset 0 p2 = Some p3 \<and>
    growable_inv p3 \<and> view p3 = pt \<and> offset p3 = 0 \<and> length (mem p3) = nat SOCKET_BUF_SIZE \<and> growable_inv ch' \<and> view ch' = rest"
proof -
  let ?xs = "sealed (lib env) e n (len_bytes (length pt))" and ?ys = "sealed (lib env) e (n + 1) pt"
  let ?tlen = "auth_tag_size e"
  have tag: "tag_len c = ?tlen" "decrypter (impl c) = Some d" "\<not> is_stream c"
    using dec pair by (auto simp: keyed_dec_def packet_pair_def)
  have len: "length ?xs = CHUNK_SIZE_LEN + ?tlen" "length ?ys = ?tlen + length pt"
    by (simp_all add: length_sealed [OF pair] CHUNK_SIZE_LEN_def)
  have size: "\<not> buf_size ch < int (?tlen + CHUNK_SIZE_LEN + ?tlen)"
    by (simp add: buf_size_view [OF inv] v length_frame [OF pair])
  have s1: "data_slice ch 0 (CHUNK_SIZE_LEN + ?tlen) = Some ?xs"
    using data_slice_view [OF inv, of "CHUNK_SIZE_LEN + ?tlen"] len(1) by (simp add: v frame_def)
  obtain ch1 where ch1: "set_offset (offset ch + int (CHUNK_SIZE_LEN + ?tlen)) ch = Some ch1" "growable_inv ch1"
    "view ch1 = ?ys @ rest"
    using set_offset_advance [OF inv, of "CHUNK_SIZE_LEN + ?tlen"] len(1) by (auto simp: v frame_def)
  have size1: "\<not> buf_size ch1 < int (?tlen + length pt)"
    using len(2) by (simp add: buf_size_view [OF ch1(2)] ch1(3))
  have s2: "data_slice ch1 0 (?tlen + length pt) = Some ?ys"
    using data_slice_view [OF ch1(2), of "?tlen + length pt"] len(2) by (simp add: ch1(3))
  obtain ch2 where ch2: "set_offset (offset ch1 + int (?tlen + length pt)) ch1 = Some ch2" "growable_inv ch2" "view ch2 = rest"
    using set_offset_advance [OF ch1(2), of "?tlen + length pt"] len(2) by (auto simp: ch1(3))
  obtain p1 p2 p3 p4 p5 where p: "offset p0 = 0" "SetCapacity (junk env) (int (length pt)) p0 = Some p1"
    "capacity p1 = int (length pt)" "memcpy_data 0 pt p1 = Some p2" "offset p2 = 0"
    "set_offset (int (length pt)) p2 = Some p3" "offset p3 = int (length pt)"
    "SetCapacity (junk env) (int (length pt)) p3 = Some p4" "set_offset 0 p4 = Some p5" "growable_inv p5" "view p5 = pt"
    "offset p5 = 0" "length (mem p5) = nat SOCKET_BUF_SIZE"
    using plaintext_buffer [OF pt, of "junk env"] p0 by auto
  have d1: "impl_DecryptPacket (lib env) n 2 ?xs (impl c) = Some (Some (len_bytes (length pt)), impl c)"
    and d2: "impl_DecryptPacket (lib env) (n + 1) (length pt) ?ys (impl c) = Some (Some pt, impl c)"
    by (rule impl_Decrypt_eq [OF pair tag(2)], simp)+
  have mlen: "unat (be16 (len_bytes (length pt) ! 0) (len_bytes (length pt) ! 1)) AND CHUNK_SIZE_MASK = length pt" "length pt \<noteq> 0"
    using pt len_bytes_decode [of "length pt"] by (auto simp: block_ok_def)
  have "chunk_decrypt_frame env c n p0 ch = Some (FRAME_OK, n + 1 + 1, p3, ch2, impl c)"
    using tag(3) size mlen(2) size1
    by (simp only: chunk_decrypt_frame_def chunk_decrypt_frame_aead_def Let_def tag(1) if_False if_True s1 d1 mlen(1)
        bind.bind_lunit prod.case option.case length_len_bytes p ch1(1) s2 ch2(1) nat_int add_0 simp_thms d2)
  then show ?thesis using p ch2 by (auto simp: add.assoc)
qed

text \<open>An incomplete frame is left untouched.\<close>

lemma decrypt_incomplete:
  assumes pair: "packet_pair (lib env) e d" and dec: "keyed_dec d c"
    and inv: "growable_inv ch" and r: "partial_frame (lib env) e n (view ch)" "view ch \<noteq> []"
    and p0: "SetCapacity (junk env) SOCKET_BUF_SIZE GrowableIOBuffer = Some p0"
  shows "\<exists>p1. chunk_decrypt_frame env c n p0 ch = Some (FRAME_EAGAIN, n, p1, ch, impl c)"
proof -
  obtain q more where q: "block_ok q" "more \<noteq> []" "view ch @ more = frame (lib env) e n q"
    using r by (auto simp: partial_frame_def)
  let ?xs = "sealed (lib env) e n (len_bytes (length q))" and ?ys = "sealed (lib env) e (n + 1) q"
  let ?tlen = "auth_tag_size e"
  have tag: "tag_len c = ?tlen" "decrypter (impl c) = Some d" "\<not> is_stream c"
    using dec pair by (auto simp: keyed_dec_def packet_pair_def)
  have len: "length ?xs = CHUNK_SIZE_LEN + ?tlen" "length ?ys = ?tlen + length q"
    by (simp_all add: length_sealed [OF pair] CHUNK_SIZE_LEN_def)
  have short: "length (view ch) < CHUNK_SIZE_LEN + ?tlen + (?tlen + length q)"
  proof -
    have "length (view ch) + length more = CHUNK_SIZE_LEN + ?tlen + (?tlen + length q)"
      using arg_cong [OF q(3), of length] by (simp add: frame_def len)
    moreover have "0 < length more" using q(2) by simp
    ultimately show ?thesis by linarith
  qed
  show ?thesis
  proof (cases "buf_size ch < int (?tlen + CHUNK_SIZE_LEN + ?tlen)")
    case True
    then show ?thesis using tag by (simp add: chunk_decrypt_frame_def chunk_decrypt_frame_aead_def Let_def)
  next
    case False
    then have ge: "CHUNK_SIZE_LEN + ?tlen \<le> length (view ch)" by (simp add: buf_size_view [OF inv])
    have "take (length ?xs) (view ch) = ?xs"
      using arg_cong [OF q(3), of "take (length ?xs)"] ge len by (simp add: frame_def)
    then have s1: "data_slice ch 0 (CHUNK_SIZE_LEN + ?tlen) = Some ?xs"
      using data_slice_view [OF inv ge] len by simp
    obtain ch1 where ch1: "set_offset (offset ch + int (CHUNK_SIZE_LEN + ?tlen)) ch = Some ch1" "growable_inv ch1"
      "view ch1 = drop (CHUNK_SIZE_LEN + ?tlen) (view ch)" "offset ch1 = offset ch + int (CHUNK_SIZE_LEN + ?tlen)"
      using set_offset_advance [OF inv ge] by auto
    have size1: "buf_size ch1 < int (?tlen + length q)"
      using short ge by (simp add: buf_size_view [OF ch1(2)] ch1(3))
    have rewind: "set_offset (offset ch1 - int CHUNK_SIZE_LEN - int ?tlen) ch1 = Some ch"
      using set_offset_return [OF inv ch1(1)] ch1(4) by simp
    obtain p1 where p: "offset p0 = 0" "SetCapacity (junk env) (int (length q)) p0 = Some p1"
      using plaintext_buffer [OF q(1), of "junk env"] p0 by auto
    have d1: "impl_DecryptPacket (lib env) n 2 ?xs (impl c) = Some (Some (len_bytes (length q)), impl c)"
      by (rule impl_Decrypt_eq [OF pair tag(2)]) simp
    have mlen: "unat (be16 (len_bytes (length q) ! 0) (len_bytes (length q) ! 1)) AND CHUNK_SIZE_MASK = length q" "length q \<noteq> 0"
      using q(1) len_bytes_decode [of "length q"] by (auto simp: block_ok_def)
    have "chunk_decrypt_frame env c n p0 ch = Some (FRAME_EAGAIN, n, p1, ch, impl c)"
      using tag(3) False mlen(2) size1
      by (simp only: chunk_decrypt_frame_def chunk_decrypt_frame_aead_def Let_def tag(1) if_False if_True s1 d1 mlen(1)
          bind.bind_lunit prod.case option.case length_len_bytes p ch1(1) rewind nat_int add_0 simp_thms)
    then show ?thesis by blast
  qed
qed

section \<open>The decoding loop\<close>

text \<open>A visitor that records the blocks it is handed and whether an error was reported.\<close>

type_synonym log = "byte list list \<times> bool"

definition recorder :: "log visitor" where
  "recorder =
     \<lparr>on_received_data = (\<lambda>b (got, err). (True, got @ [view b], err)), on_protocol_error = (\<lambda>(got, err). (got, True))\<rparr>"

lemma recorder_simps [simp]:
  "on_received_data recorder b (got, err) = (True, got @ [view b], err)"
  "on_protocol_error recorder (got, err) = (got, True)"
  by (simp_all add: recorder_def)

text \<open>The buffers a decoder hands out, and handing a sequence of them to a visitor that takes them all.\<close>

definition plain_buffer :: "growable \<Rightarrow> bool" where
  "plain_buffer b \<longleftrightarrow> growable_inv b \<and> offset b = 0 \<and> length (mem b) = nat SOCKET_BUF_SIZE"

primrec delivers :: "'s visitor \<Rightarrow> growable list \<Rightarrow> 's \<Rightarrow> 's option" where
  "delivers vis [] s = Some s"
| "delivers vis (b # bs) s = (case on_received_data vis b s of (go, s1) \<Rightarrow> if go then delivers vis bs s1 else None)"

lemma delivers_append: "delivers vis (bs @ bs') s = Option.bind (delivers vis bs s) (delivers vis bs')"
  by (induction bs arbitrary: s) (auto split: prod.splits)

lemma delivers_recorder [simp]: "delivers recorder bs (got, err) = Some (got @ map view bs, err)"
  by (induction bs arbitrary: got) simp_all

lemma process_loop_wire:
  assumes pair: "packet_pair (lib env) e d"
  shows "keyed_dec d c \<Longrightarrow> growable_inv ch \<Longrightarrow> \<forall>p\<in>set ps. block_ok p \<Longrightarrow>
    view ch = wire (lib env) e (counter c) ps @ rest \<Longrightarrow>
    partial_frame (lib env) e (counter c + 2 * of_nat (length ps)) rest \<Longrightarrow>
    \<exists>ch' bs. map view bs = ps \<and> (\<forall>b\<in>set bs. plain_buffer b) \<and> growable_inv ch' \<and> view ch' = rest \<and>
      (\<forall>(vis :: 's visitor) s s'. delivers vis bs s = Some s' \<longrightarrow>
         process_loop env vis ch c s = Some (ch', c\<lparr>counter := counter c + 2 * of_nat (length ps)\<rparr>, s'))"
proof (induction ps arbitrary: ch c)
  case Nil
  then have v: "view ch = rest" by simp
  obtain p0 where p0: "SetCapacity (junk env) SOCKET_BUF_SIZE GrowableIOBuffer = Some p0"
    using SetCapacity_grow [of GrowableIOBuffer SOCKET_BUF_SIZE "junk env"] by (auto simp: SOCKET_BUF_SIZE_def INT_MAX_def)
  have "process_loop env vis ch c s = Some (ch, c, s)" for vis :: "'s visitor" and s
  proof (cases "rest = []")
    case True
    with Nil v show ?thesis by (simp add: process_loop.simps [of env vis ch] iobuf_empty_view)
  next
    case False
    then obtain p1 where "chunk_decrypt_frame env c (counter c) p0 ch = Some (FRAME_EAGAIN, counter c, p1, ch, impl c)"
      using decrypt_incomplete [OF pair Nil.prems(1,2) _ _ p0] Nil.prems v by auto
    with False v p0 Nil.prems(2) show ?thesis
      by (simp add: process_loop.simps [of env vis ch] iobuf_empty_view)
  qed
  then show ?case using v Nil.prems(2) by (intro exI [of _ ch] exI [of _ "[]"]) simp
next
  case (Cons p ps)
  obtain p0 where p0: "SetCapacity (junk env) SOCKET_BUF_SIZE GrowableIOBuffer = Some p0"
    using SetCapacity_grow [of GrowableIOBuffer SOCKET_BUF_SIZE "junk env"] by (auto simp: SOCKET_BUF_SIZE_def INT_MAX_def)
  let ?n = "counter c" and ?c = "c\<lparr>counter := counter c + 2\<rparr>"
  have v: "view ch = frame (lib env) e ?n p @ (wire (lib env) e (?n + 2) ps @ rest)" using Cons.prems(4) by simp
  obtain p1 p2 p3 ch1 where
    f: "chunk_decrypt_frame env c ?n p0 ch = Some (FRAME_OK, ?n + 2, p1, ch1, impl c)"
      "SetCapacity (junk env) (offset p1) p1 = Some p2" "set_offset 0 p2 = Some p3"
      "growable_inv ch1" "view ch1 = wire (lib env) e (?n + 2) ps @ rest" "plain_buffer p3" "view p3 = p"
    using decrypt_complete [OF pair Cons.prems(1) _ Cons.prems(2) v p0] Cons.prems(3) by (auto simp: plain_buffer_def)
  have ne: "0 < length (view ch)" by (simp add: v length_frame [OF pair] CHUNK_SIZE_LEN_def)
  have step: "process_loop env vis ch c s = process_loop env vis ch1 ?c s1" if "on_received_data vis p3 s = (True, s1)" for vis :: "'s visitor" and s s1
    using Cons.prems(2) p0 f(1-5) ne that by (subst process_loop.simps) (simp add: iobuf_empty_view)
  have "keyed_dec d ?c" using Cons.prems(1) by (simp add: keyed_dec_def is_stream_def)
  then obtain ch' bs where IH: "map view bs = ps" "\<forall>b\<in>set bs. plain_buffer b" "growable_inv ch'" "view ch' = rest"
      "\<forall>(vis :: 's visitor) s s'. delivers vis bs s = Some s' \<longrightarrow>
         process_loop env vis ch1 ?c s = Some (ch', ?c\<lparr>counter := counter ?c + 2 * of_nat (length ps)\<rparr>, s')"
    using Cons.IH [of ?c ch1] f(4,5) Cons.prems(3,5) by (auto simp: algebra_simps)
  have "process_loop env vis ch c s = Some (ch', c\<lparr>counter := ?n + 2 * of_nat (length (p # ps))\<rparr>, s')"
    if del: "delivers vis (p3 # bs) s = Some s'" for vis :: "'s visitor" and s s'
  proof -
    obtain s1 where s1: "on_received_data vis p3 s = (True, s1)" "delivers vis bs s1 = Some s'" using del by (cases "on_received_data vis p3 s") (auto split: if_splits)
    then show ?thesis using step [OF s1(1)] IH(5) by (simp add: algebra_simps)
  qed
  then show ?case using IH f(6,7) by (intro exI [of _ ch'] exI [of _ "p3 # bs"]) auto
qed

lemma merge_chunk_ok:
  assumes "growable_inv ct" "\<forall>ch. prev = Some ch \<longrightarrow> growable_inv ch"
    "(case prev of None \<Rightarrow> 0 | Some ch \<Rightarrow> length (view ch)) + length (view ct) \<le> nat INT_MAX"
  shows "\<exists>ch. merge_chunk jk prev ct = Some ch \<and> growable_inv ch \<and>
    view ch = (case prev of None \<Rightarrow> [] | Some ch \<Rightarrow> view ch) @ view ct"
proof (cases prev)
  case None
  with assms show ?thesis by (simp add: merge_chunk_def)
next
  case (Some pc)
  with assms have pc: "growable_inv pc" "length (view pc) + length (view ct) \<le> nat INT_MAX" by auto
  then have sz: "int (length (view pc)) + int (length (view ct)) \<le> INT_MAX" by (simp add: INT_MAX_def)
  then show ?thesis
    using Some pc(1) assms(1) append_copy [OF pc(1), of "view ct" jk]
    by (auto simp: merge_chunk_def Let_def RemainingCapacity_view buf_size_view in_int_nonneg data_slice_view)
qed

section \<open>Keys\<close>

text \<open>The session key both ends derive from the master key and the salt.\<close>

definition subkey :: "('c, 'm) cipher_env \<Rightarrow> byte list \<Rightarrow> nat \<Rightarrow> byte list \<Rightarrow> byte list" where
  "subkey env mk kl s = rfc5869 (sha1 env) s (take kl mk) SUBKEY_INFO kl"

text \<open>A crypter once it has been given a key and a zero nonce prefix.\<close>

definition keyed :: "('c, 'm) crypto_lib \<Rightarrow> byte list \<Rightarrow> ('c, 'm) crypter \<Rightarrow> ('c, 'm) crypter" where
  "keyed l k c = snd (the (SetNoncePrefix (replicate (nonce_size c - 8) 0) (snd (the (SetKey l k c)))))"

lemma length_rfc5869: "(\<And>x. length (H x) = 20) \<Longrightarrow> length (rfc5869 H s ikm info L) = L"
  using length_blocks [of "rfc5869_T H (rfc2104 H s ikm) info" 20 "(L + 19) div 20"]
  by (simp add: rfc5869_def length_rfc5869_T)

lemma keyed_ok:
  assumes "aead_lib_ok l" "aead_suite c" "length k = key_size c"
  shows "\<exists>c1. SetKey l k c = Some (True, c1) \<and> nonce_size c1 = nonce_size c \<and>
     SetNoncePrefix (replicate (nonce_size c - 8) 0) c1 = Some (True, keyed l k c) \<and>
     auth_tag_size (keyed l k c) = auth_tag_size c \<and> cipher_id (keyed l k c) = cipher_id c \<and>
     key_size (keyed l k c) = key_size c"
proof -
  obtain x where x: "SetKey l k c = Some (True, c\<lparr>key := k @ drop (length k) (key c), ctx := Some x\<rparr>)"
    using SetKey_aead [OF assms] by auto
  have "crypter_inv (c\<lparr>key := k @ drop (length k) (key c), ctx := Some x\<rparr>)"
    using assms by (auto simp: aead_suite_def crypter_inv_def)
  then show ?thesis
    using x SetNoncePrefix_ok [of "c\<lparr>key := k @ drop (length k) (key c), ctx := Some x\<rparr>" "replicate (nonce_size c - 8) 0"]
    by (simp add: keyed_def)
qed

lemma keyed_packet_pair_suite:
  assumes "aead_lib_ok l" "same_suite e d" "aead_suite e" "aead_suite d" "length k = key_size e"
  shows "packet_pair l (keyed l k e) (keyed l k d)"
proof -
  have "nonce_size d = nonce_size e" using assms(2) by (simp add: same_suite_def)
  then show ?thesis
    using keyed_pair [OF assms, of "replicate (nonce_size e - 8) 0"] keyed_packet_pair
    by (force simp: keyed_def)
qed

lemma set_key_aead_ok:
  assumes env: "aead_lib_ok (lib env)" "\<And>x. length (sha1 env x) = SHA_DIGEST_LENGTH"
    and c: "crypter_of (impl c) = Some x" "aead_suite x" "key_len c = key_size x" "length (master_key c) = MAX_KEY_LENGTH"
    and s: "key_len c \<le> length s"
  shows "set_key_aead env s (key_len c) c = Some (c\<lparr>counter := 0, impl :=
    (let y = keyed (lib env) (subkey env (master_key c) (key_len c) (take (key_len c) s)) x in
     if encrypter (impl c) = None then impl c\<lparr>decrypter := Some y\<rparr> else impl c\<lparr>encrypter := Some y\<rparr>)\<rparr>)"
proof -
  let ?kl = "key_len c" and ?k = "subkey env (master_key c) (key_len c) (take (key_len c) s)"
  have kl: "?kl \<le> MAX_KEY_LENGTH" "8 \<le> nonce_size x" "nonce_size x \<le> MAX_NONCE_LENGTH"
    using c by (auto simp: aead_suite_def crypter_inv_def kMaxKeySize_def kMaxNonceSize_def MAX_KEY_LENGTH_def MAX_NONCE_LENGTH_def)
  have len: "length ?k = ?kl"
    using env(2) by (simp add: subkey_def length_rfc5869 SHA_DIGEST_LENGTH_def)
  have hkdf: "crypto_hkdf (sha1 env) (Some s) (int ?kl) (take ?kl (master_key c)) (Some SUBKEY_INFO)
      (int (length SUBKEY_INFO)) (Some (replicate MAX_KEY_LENGTH 0)) (int ?kl) =
      Some (0, Some (?k @ replicate (MAX_KEY_LENGTH - ?kl) 0))"
    using crypto_hkdf_eq [of "sha1 env" ?kl "replicate MAX_KEY_LENGTH 0" ?kl s "take ?kl (master_key c)" SUBKEY_INFO] env(2) kl(1) s
    by (simp add: subkey_def MAX_KEY_LENGTH_def)
  obtain x1 where x1: "SetKey (lib env) ?k x = Some (True, x1)" "nonce_size x1 = nonce_size x"
    "SetNoncePrefix (replicate (nonce_size x - 8) 0) x1 = Some (True, keyed (lib env) ?k x)"
    using keyed_ok [OF env(1) c(2), of ?k] len c(3) by auto
  have n: "GetNoncePrefixSize x1 = nonce_size x - 8"
    using kl x1(2) by (simp add: GetNoncePrefixSize_def nonce_prefix_len_eq kMaxNonceSize_def MAX_NONCE_LENGTH_def)
  have z: "mem_slice (replicate MAX_NONCE_LENGTH 0) 0 (nonce_size x - 8) = Some (replicate (nonce_size x - 8) 0)"
    using kl by (simp add: mem_simps min_def)
  have sl: "mem_slice (master_key c) 0 ?kl = Some (take ?kl (master_key c))"
    "mem_slice (?k @ replicate (MAX_KEY_LENGTH - ?kl) 0) 0 ?kl = Some ?k"
    using kl(1) c(4) len by (simp_all add: mem_simps)
  show ?thesis
  proof (cases "encrypter (impl c)")
    case None
    then have "decrypter (impl c) = Some x" using c(1) by (simp add: crypter_of_def)
    with None show ?thesis
      by (simp add: set_key_aead_def sl hkdf impl_SetKey_def x1 impl_GetNoncePrefixSize_def crypter_of_def n
          impl_SetNoncePrefix_def z Let_def)
  next
    case (Some e)
    then have "e = x" using c(1) by (simp add: crypter_of_def)
    with Some show ?thesis
      by (simp add: set_key_aead_def sl hkdf impl_SetKey_def x1 impl_GetNoncePrefixSize_def crypter_of_def n
          impl_SetNoncePrefix_def z Let_def)
  qed
qed

section \<open>Salts\<close>

lemma encrypt_salt_ok:
  assumes env: "aead_lib_ok (lib env)" "\<And>x. length (sha1 env x) = SHA_DIGEST_LENGTH" "\<And>n. length (RandBytes env n) = n"
    and c: "encrypter (impl c) = Some x" "aead_suite x" "key_len c = key_size x" "length (master_key c) = MAX_KEY_LENGTH"
      "length (salt c) = MAX_KEY_LENGTH" "\<not> is_stream c"
    and ch: "growable_inv ch" "key_len c \<le> room ch"
  shows "\<exists>ch' s'. encrypt_salt env ch c = Some (ch', c\<lparr>salt := s', counter := 0, impl := impl c\<lparr>encrypter :=
      Some (keyed (lib env) (subkey env (master_key c) (key_len c) (RandBytes env (key_len c))) x)\<rparr>\<rparr>) \<and>
    growable_inv ch' \<and> view ch' = view ch @ RandBytes env (key_len c) \<and> offset ch' = offset ch \<and>
    capacity ch' = capacity ch + int (key_len c)"
proof -
  let ?kl = "key_len c" and ?r = "RandBytes env (key_len c)"
  let ?s = "?r @ drop ?kl (salt c)"
  have kl: "?kl \<le> MAX_KEY_LENGTH" using c by (simp add: aead_suite_def crypter_inv_def kMaxKeySize_def MAX_KEY_LENGTH_def)
  have w: "mem_write (salt c) 0 ?r = Some ?s" "mem_slice ?s 0 ?kl = Some ?r"
    using kl c(5) env(3) by (simp_all add: mem_simps)
  obtain ch' where ch': "appendBytesAtEnd (junk env) ?r ch = Some ch'" "growable_inv ch'" "view ch' = view ch @ ?r"
    "offset ch' = offset ch" "capacity ch' = capacity ch + int ?kl"
    using appendBytesAtEnd_ok [OF ch(1), of ?r "junk env"] ch(2) env(3) by auto
  then obtain ch1 m where app: "SetCapacity (junk env) (capacity ch + int ?kl) ch = Some ch1"
    "mem_write (mem ch1) (nat (capacity ch)) ?r = Some m" "ch' = ch1\<lparr>mem := m\<rparr>"
    using env(3) by (auto simp: appendBytesAtEnd_def Let_def bind_eq_Some_conv split: if_splits)
  have k: "set_key_aead env ?s ?kl (c\<lparr>salt := ?s\<rparr>) = Some (c\<lparr>salt := ?s, counter := 0, impl := impl c\<lparr>encrypter :=
      Some (keyed (lib env) (subkey env (master_key c) ?kl ?r) x)\<rparr>\<rparr>)"
    using set_key_aead_ok [OF env(1,2), of "c\<lparr>salt := ?s\<rparr>" x ?s] c env(3) by (simp add: crypter_of_def)
  have "encrypt_salt env ch c = Some (ch', c\<lparr>salt := ?s, counter := 0, impl := impl c\<lparr>encrypter :=
      Some (keyed (lib env) (subkey env (master_key c) ?kl ?r) x)\<rparr>\<rparr>)"
    using c(6) by (simp add: encrypt_salt_def Let_def w app k)
  with ch' show ?thesis by blast
qed

lemma decrypt_salt_ok:
  assumes env: "aead_lib_ok (lib env)" "\<And>x. length (sha1 env x) = SHA_DIGEST_LENGTH"
    and c: "encrypter (impl c) = None" "decrypter (impl c) = Some x" "aead_suite x" "key_len c = key_size x"
      "length (master_key c) = MAX_KEY_LENGTH" "length (salt c) = MAX_KEY_LENGTH" "\<not> is_stream c"
    and ch: "growable_inv ch" "view ch = s @ rest" "length s = key_len c"
  shows "\<exists>ch' s'. decrypt_salt env ch c = Some (ch', c\<lparr>salt := s', counter := 0, impl := impl c\<lparr>decrypter :=
      Some (keyed (lib env) (subkey env (master_key c) (key_len c) s) x)\<rparr>\<rparr>) \<and>
    growable_inv ch' \<and> view ch' = rest \<and> length s' = MAX_KEY_LENGTH"
proof -
  let ?kl = "key_len c" and ?s = "s @ drop (key_len c) (salt c)"
  have kl: "?kl \<le> MAX_KEY_LENGTH" using c by (simp add: aead_suite_def crypter_inv_def kMaxKeySize_def MAX_KEY_LENGTH_def)
  have w: "mem_write (salt c) 0 s = Some ?s" "data_slice ch 0 ?kl = Some s"
    using kl c(6) ch data_slice_view [OF ch(1), of ?kl] by (simp_all add: mem_simps)
  obtain ch' where ch': "set_offset (offset ch + int ?kl) ch = Some ch'" "growable_inv ch'" "view ch' = rest"
    using set_offset_advance [OF ch(1), of ?kl] ch by auto
  have k: "set_key_aead env ?s ?kl (c\<lparr>salt := ?s\<rparr>) = Some (c\<lparr>salt := ?s, counter := 0, impl := impl c\<lparr>decrypter :=
      Some (keyed (lib env) (subkey env (master_key c) ?kl s) x)\<rparr>\<rparr>)"
    using set_key_aead_ok [OF env(1,2), of "c\<lparr>salt := ?s\<rparr>" x ?s] c ch(3) by (simp add: crypter_of_def)
  have "decrypt_salt env ch c = Some (ch', c\<lparr>salt := ?s, counter := 0, impl := impl c\<lparr>decrypter :=
      Some (keyed (lib env) (subkey env (master_key c) ?kl s) x)\<rparr>\<rparr>)"
    using c(7) by (simp add: decrypt_salt_def Let_def w ch'(1) k)
  moreover have "length ?s = MAX_KEY_LENGTH" using kl c(6) ch(3) by simp
  ultimately show ?thesis using ch' by blast
qed

section \<open>Whole streams\<close>

text \<open>Encrypting blocks one after the other, each into a new buffer, as the connections do.\<close>

primrec encrypt_all :: "('c, 'm) cipher_env \<Rightarrow> 's visitor \<Rightarrow> byte list list \<Rightarrow> ('c, 'm) cipher \<Rightarrow> 's
    \<Rightarrow> (growable list \<times> ('c, 'm) cipher \<times> 's) option" where
  "encrypt_all env vis [] c s = Some ([], c, s)"
| "encrypt_all env vis (p # ps) c s =
     do { (ct, c1, s1) \<leftarrow> encrypt env vis p GrowableIOBuffer c s;
          (cts, c2, s2) \<leftarrow> encrypt_all env vis ps c1 s1;
          Some (ct # cts, c2, s2) }"

text \<open>Handing received segments to the decoder.\<close>

primrec feed_all :: "('c, 'm) cipher_env \<Rightarrow> 's visitor \<Rightarrow> growable list \<Rightarrow> ('c, 'm) cipher \<Rightarrow> 's
    \<Rightarrow> (('c, 'm) cipher \<times> 's) option" where
  "feed_all env vis [] c s = Some (c, s)"
| "feed_all env vis (b # bs) c s = do { (c1, s1) \<leftarrow> process_bytes env vis b c s; feed_all env vis bs c1 s1 }"

text \<open>Ciphers as they leave the constructor, for an AEAD suite.\<close>

definition fresh_cipher :: "('c, 'm) crypter \<Rightarrow> byte list \<Rightarrow> ('c, 'm) cipher_impl \<Rightarrow> ('c, 'm) cipher \<Rightarrow> bool" where
  "fresh_cipher x mk i c \<longleftrightarrow> impl c = i \<and> aead_suite x \<and> key_len c = key_size x \<and> tag_len c = auth_tag_size x \<and>
     master_key c = mk \<and> length mk = MAX_KEY_LENGTH \<and> length (salt c) = MAX_KEY_LENGTH \<and> counter c = 0 \<and>
     \<not> init c \<and> \<not> is_stream c \<and> chunk c = None"

lemma wire_append: "wire l e n (ps @ qs) = wire l e n ps @ wire l e (n + 2 * of_nat (length ps)) qs"
  by (induction ps arbitrary: n) (simp_all add: algebra_simps)

lemma encrypt_keyed:
  assumes pair: "packet_pair (lib env) e d" and c: "keyed_enc e c" and p: "block_ok p"
    and ct: "growable_inv ct" "capacity ct + int (length (frame (lib env) e (counter c) p)) \<le> INT_MAX"
  shows "\<exists>ct'. encrypt env vis p ct c s = Some (ct', c\<lparr>counter := counter c + 2\<rparr>, s) \<and>
    growable_inv ct' \<and> view ct' = view ct @ frame (lib env) e (counter c) p \<and> offset ct' = offset ct \<and>
    capacity ct' = capacity ct + int (length (frame (lib env) e (counter c) p))"
proof -
  obtain ct' where "chunk_encrypt_frame env c (counter c) p ct = Some (FRAME_OK, counter c + 2, ct', impl c)"
    "growable_inv ct'" "view ct' = view ct @ frame (lib env) e (counter c) p" "offset ct' = offset ct"
    "capacity ct' = capacity ct + int (length (frame (lib env) e (counter c) p))"
    using encrypt_frame [OF pair, of c p ct "counter c"] c p ct by (auto simp: keyed_enc_def block_ok_def)
  then show ?thesis using c by (simp add: encrypt_def keyed_enc_def Let_def)
qed

lemma small_frame:
  assumes "packet_pair l e d" "auth_tag_size e \<le> 16" "block_ok p" "0 \<le> k" "k \<le> 64"
  shows "k + int (length (frame l e n p)) \<le> INT_MAX"
  using assms by (simp add: length_frame CHUNK_SIZE_LEN_def block_ok_def CHUNK_SIZE_MASK_def INT_MAX_def)

lemma frame_fits:
  assumes "packet_pair l e d" "auth_tag_size e \<le> 16" "block_ok p" "k \<le> 64"
  shows "int (k + length (frame l e n p)) \<le> SOCKET_BUF_SIZE"
  using assms by (simp add: length_frame CHUNK_SIZE_LEN_def block_ok_def CHUNK_SIZE_MASK_def SOCKET_BUF_SIZE_def)

lemma encrypt_all_keyed:
  assumes pair: "packet_pair (lib env) e d" and tag: "auth_tag_size e \<le> 16"
  shows "keyed_enc e c \<Longrightarrow> \<forall>p\<in>set ps. block_ok p \<Longrightarrow>
    \<exists>cts c'. encrypt_all env vis ps c s = Some (cts, c', s) \<and> (\<forall>ct\<in>set cts. growable_inv ct \<and> int (length (view ct)) \<le> SOCKET_BUF_SIZE) \<and>
      concat (map view cts) = wire (lib env) e (counter c) ps"
proof (induction ps arbitrary: c)
  case (Cons p ps)
  have p: "block_ok p" using Cons.prems(2) by simp
  obtain ct where ct: "encrypt env vis p GrowableIOBuffer c s = Some (ct, c\<lparr>counter := counter c + 2\<rparr>, s)"
    "growable_inv ct" "view ct = frame (lib env) e (counter c) p"
    using encrypt_keyed [OF pair Cons.prems(1) p new_buffer(1), of vis s] small_frame [OF pair tag p, of 0 "counter c"] by auto
  have "keyed_enc e (c\<lparr>counter := counter c + 2\<rparr>)" using Cons.prems(1) by (simp add: keyed_enc_def is_stream_def)
  with Cons.IH [of "c\<lparr>counter := counter c + 2\<rparr>"] Cons.prems(2) ct frame_fits [OF pair tag p, of 0 "counter c"] show ?case by fastforce
qed simp

text \<open>The key of the session that a fresh encoder starts.\<close>

definition session_key :: "('c, 'm) cipher_env \<Rightarrow> ('c, 'm) crypter \<Rightarrow> byte list \<Rightarrow> ('c, 'm) crypter" where
  "session_key env x mk = keyed (lib env) (subkey env mk (key_size x) (RandBytes env (key_size x))) x"

lemma session_key_tag:
  assumes "aead_lib_ok (lib env)" "\<And>x. length (sha1 env x) = SHA_DIGEST_LENGTH" "aead_suite x"
  shows "auth_tag_size (session_key env x mk) = auth_tag_size x" "auth_tag_size (session_key env x mk) \<le> 16"
    "cipher_id (session_key env x mk) = cipher_id x"
proof -
  have "length (subkey env mk (key_size x) (RandBytes env (key_size x))) = key_size x"
    using assms(2) by (simp add: subkey_def length_rfc5869 SHA_DIGEST_LENGTH_def)
  from keyed_ok [OF assms(1,3) this] show "auth_tag_size (session_key env x mk) = auth_tag_size x"
    "auth_tag_size (session_key env x mk) \<le> 16" "cipher_id (session_key env x mk) = cipher_id x"
    using assms(3) by (auto simp: session_key_def aead_suite_def)
qed

lemma encrypt_fresh:
  assumes env: "aead_lib_ok (lib env)" "\<And>x. length (sha1 env x) = SHA_DIGEST_LENGTH" "\<And>n. length (RandBytes env n) = n"
    and c: "fresh_cipher x mk \<lparr>encrypter = Some x, decrypter = None\<rparr> c"
    and ct: "growable_inv ct" "capacity ct + int (key_size x) \<le> INT_MAX"
  shows "\<exists>ct0 c1. encrypt env vis p ct c s = encrypt env vis p ct0 c1 s \<and> keyed_enc (session_key env x mk) c1 \<and> counter c1 = 0 \<and>
    growable_inv ct0 \<and> view ct0 = view ct @ RandBytes env (key_size x) \<and> offset ct0 = offset ct \<and> capacity ct0 = capacity ct + int (key_size x)"
proof -
  have x: "aead_suite x" "key_len c = key_size x" "master_key c = mk" "encrypter (impl c) = Some x"
    using c by (auto simp: fresh_cipher_def)
  note tag = session_key_tag [of env, OF env(1,2) x(1), of mk]
  have room: "key_size x \<le> room ct" using ct(2) by (simp add: room_def)
  obtain ct0 s' where salt: "encrypt_salt env ct c = Some (ct0, c\<lparr>salt := s', counter := 0, impl := impl c\<lparr>encrypter := Some (session_key env x mk)\<rparr>\<rparr>)"
    "growable_inv ct0" "view ct0 = view ct @ RandBytes env (key_size x)" "offset ct0 = offset ct" "capacity ct0 = capacity ct + int (key_size x)"
    using encrypt_salt_ok [OF env, of c x ct] c ct room by (auto simp: fresh_cipher_def session_key_def)
  define c1 where "c1 = c\<lparr>salt := s', counter := 0, impl := impl c\<lparr>encrypter := Some (session_key env x mk)\<rparr>, init := True\<rparr>"
  have "keyed_enc (session_key env x mk) c1" "counter c1 = 0"
    using c tag by (auto simp: c1_def keyed_enc_def fresh_cipher_def is_stream_def impl_cipher_id_def crypter_of_def)
  moreover have "encrypt env vis p ct c s = encrypt env vis p ct0 c1 s"
    using salt(1) c by (simp add: encrypt_def c1_def fresh_cipher_def)
  ultimately show ?thesis using salt by (intro exI [of _ ct0] exI [of _ c1]) simp
qed

lemma encrypt_all_fresh:
  assumes env: "aead_lib_ok (lib env)" "\<And>x. length (sha1 env x) = SHA_DIGEST_LENGTH" "\<And>n. length (RandBytes env n) = n"
    and c: "fresh_cipher x mk \<lparr>encrypter = Some x, decrypter = None\<rparr> c"
    and e: "e = session_key env x mk"
    and pair: "packet_pair (lib env) e d" and ps: "\<forall>p\<in>set ps. block_ok p" "ps \<noteq> []"
  shows "\<exists>cts c'. encrypt_all env vis ps c s = Some (cts, c', s) \<and> (\<forall>ct\<in>set cts. growable_inv ct \<and> int (length (view ct)) \<le> SOCKET_BUF_SIZE) \<and>
      concat (map view cts) = RandBytes env (key_size x) @ wire (lib env) e 0 ps"
proof -
  obtain p qs where pq: "ps = p # qs" using ps(2) by (cases ps) auto
  have x: "aead_suite x" using c by (simp add: fresh_cipher_def)
  have kl: "key_size x \<le> 64" using x by (simp add: aead_suite_def crypter_inv_def kMaxKeySize_def)
  have tag: "auth_tag_size e \<le> 16" using session_key_tag(2) [of env, OF env(1,2) x] e by simp
  have p: "block_ok p" using ps pq by simp
  have room: "capacity GrowableIOBuffer + int (key_size x) \<le> INT_MAX" using kl by (simp add: INT_MAX_def)
  obtain ct0 c1 where c1: "encrypt env vis p GrowableIOBuffer c s = encrypt env vis p ct0 c1 s" "keyed_enc e c1" "counter c1 = 0"
      "growable_inv ct0" "view ct0 = RandBytes env (key_size x)" "capacity ct0 = int (key_size x)"
    using encrypt_fresh [OF env c new_buffer(1) room, of vis p s] e by auto
  obtain ct where ct: "encrypt env vis p ct0 c1 s = Some (ct, c1\<lparr>counter := 2\<rparr>, s)" "growable_inv ct"
    "view ct = RandBytes env (key_size x) @ frame (lib env) e 0 p"
    using encrypt_keyed [OF pair c1(2) p c1(4), of vis s] small_frame [OF pair tag p, of "capacity ct0" 0] c1 kl by auto
  have "keyed_enc e (c1\<lparr>counter := 2\<rparr>)" using c1 by (simp add: keyed_enc_def is_stream_def)
  then obtain cts c' where "encrypt_all env vis qs (c1\<lparr>counter := 2\<rparr>) s = Some (cts, c', s)"
    "\<forall>ct\<in>set cts. growable_inv ct \<and> int (length (view ct)) \<le> SOCKET_BUF_SIZE" "concat (map view cts) = wire (lib env) e 2 qs"
    using encrypt_all_keyed [OF pair tag, of "c1\<lparr>counter := 2\<rparr>" qs vis s] ps pq by auto
  then show ?thesis using c1(1) ct pq frame_fits [OF pair tag p kl, of 0] env(3) by auto
qed

text \<open>A prefix of the stream splits into whole frames and a strict prefix of the next one.\<close>

lemma wire_prefix:
  "xs @ ys = wire l e n pts \<Longrightarrow> \<exists>k rest. k \<le> length pts \<and> xs = wire l e n (take k pts) @ rest \<and>
     (k = length pts \<longrightarrow> rest = []) \<and>
     (k < length pts \<longrightarrow> (\<exists>more. more \<noteq> [] \<and> rest @ more = frame l e (n + 2 * of_nat k) (pts ! k)))"
proof (induction pts arbitrary: n xs)
  case (Cons p ps)
  let ?f = "frame l e n p"
  show ?case
  proof (cases "length xs < length ?f")
    case True
    then have "xs @ take (length ?f - length xs) ys = ?f"
      using arg_cong [OF Cons.prems, of "take (length ?f)"] by simp
    moreover from this have "take (length ?f - length xs) ys \<noteq> []" using True by auto
    ultimately have "\<exists>more. more \<noteq> [] \<and> xs @ more = ?f" by blast
    then show ?thesis by (intro exI [of _ 0] exI [of _ xs]) simp
  next
    case False
    then have xs: "xs = ?f @ drop (length ?f) xs"
      using arg_cong [OF Cons.prems, of "take (length ?f)"] by (metis append_take_drop_id append_eq_conv_conj
          not_less take_append wire.simps(2) diff_is_0_eq take0 append_Nil2)
    then have "drop (length ?f) xs @ ys = wire l e (n + 2) ps" using Cons.prems by (metis append.assoc same_append_eq wire.simps(2))
    from Cons.IH [OF this] obtain k rest where k: "k \<le> length ps" "drop (length ?f) xs = wire l e (n + 2) (take k ps) @ rest"
      "k = length ps \<longrightarrow> rest = []"
      "k < length ps \<longrightarrow> (\<exists>more. more \<noteq> [] \<and> rest @ more = frame l e (n + 2 + 2 * of_nat k) (ps ! k))" by auto
    then show ?thesis using xs by (intro exI [of _ "Suc k"] exI [of _ rest]) (auto simp: algebra_simps)
  qed
qed simp

text \<open>
  The state of a decoder that started as \<open>c0\<close> and has been given the bytes \<open>S\<close> of the stream
  \<open>s @ wire \<dots> 0 pts\<close>: before the salt is complete everything is buffered; afterwards the first \<open>k\<close>
  blocks have been delivered and a strict prefix of the next frame is buffered.
\<close>

definition decoding :: "('c, 'm) cipher_env \<Rightarrow> ('c, 'm) crypter \<Rightarrow> ('c, 'm) crypter \<Rightarrow> byte list \<Rightarrow> byte list list \<Rightarrow>
    ('c, 'm) cipher \<Rightarrow> byte list \<Rightarrow> ('c, 'm) cipher \<Rightarrow> byte list list \<Rightarrow> bool" where
  "decoding env e d s pts c0 S c got \<longleftrightarrow>
     (if length S < length s
      then got = [] \<and> (\<forall>ch. chunk c = Some ch \<longrightarrow> growable_inv ch) \<and>
           c = c0\<lparr>chunk := chunk c\<rparr> \<and> S = (case chunk c of None \<Rightarrow> [] | Some ch \<Rightarrow> view ch)
      else \<exists>k ch. k \<le> length pts \<and> got = take k pts \<and> keyed_dec d c \<and> counter c = 2 * of_nat k \<and>
           chunk c = Some ch \<and> growable_inv ch \<and> S = s @ wire (lib env) e 0 (take k pts) @ view ch \<and>
           (k = length pts \<longrightarrow> view ch = []) \<and>
           (k < length pts \<longrightarrow> (\<exists>more. more \<noteq> [] \<and> view ch @ more = frame (lib env) e (2 * of_nat k) (pts ! k))))"

text \<open>Running the loop on a prefix of the remaining stream.\<close>

lemma process_loop_prefix:
  assumes pair: "packet_pair (lib env) e d" and pts: "\<forall>p\<in>set pts. block_ok p" and k: "k \<le> length pts"
    and c: "keyed_dec d c" "counter c = 2 * of_nat k" and ch: "growable_inv ch"
    and v: "view ch @ ys = wire (lib env) e (2 * of_nat k) (drop k pts)"
  shows "\<exists>j ch' bs. k \<le> j \<and> j \<le> length pts \<and> take k pts @ map view bs = take j pts \<and> (\<forall>b\<in>set bs. plain_buffer b) \<and>
    (\<forall>(vis :: 's visitor) s s'. delivers vis bs s = Some s' \<longrightarrow> process_loop env vis ch c s = Some (ch', c\<lparr>counter := 2 * of_nat j\<rparr>, s')) \<and>
    growable_inv ch' \<and> wire (lib env) e 0 (take k pts) @ view ch = wire (lib env) e 0 (take j pts) @ view ch' \<and>
    (j = length pts \<longrightarrow> view ch' = []) \<and>
    (j < length pts \<longrightarrow> (\<exists>more. more \<noteq> [] \<and> view ch' @ more = frame (lib env) e (2 * of_nat j) (pts ! j)))"
proof -
  let ?n = "2 * of_nat k :: u64" and ?qs = "drop k pts"
  obtain i rest where i: "i \<le> length ?qs" "view ch = wire (lib env) e ?n (take i ?qs) @ rest"
    "i = length ?qs \<longrightarrow> rest = []"
    "i < length ?qs \<longrightarrow> (\<exists>more. more \<noteq> [] \<and> rest @ more = frame (lib env) e (?n + 2 * of_nat i) (?qs ! i))"
    using wire_prefix [OF v] by blast
  have len: "length (take i ?qs) = i" using i(1) by simp
  have "partial_frame (lib env) e (counter c + 2 * of_nat (length (take i ?qs))) rest"
  proof (cases "i < length ?qs")
    case True
    then have "block_ok (?qs ! i)" using pts by (metis in_set_dropD nth_mem)
    with i(4) True c(2) len show ?thesis unfolding partial_frame_def by metis
  qed (use i in \<open>simp add: partial_frame_def\<close>)
  moreover have "\<forall>p\<in>set (take i ?qs). block_ok p" using pts by (meson in_set_dropD in_set_takeD)
  ultimately obtain ch' bs where ch': "growable_inv ch'" "view ch' = rest" "map view bs = take i ?qs" "\<forall>b\<in>set bs. plain_buffer b"
      "\<forall>(vis :: 's visitor) s s'. delivers vis bs s = Some s' \<longrightarrow> process_loop env vis ch c s = Some (ch', c\<lparr>counter := counter c + 2 * of_nat i\<rparr>, s')"
    using process_loop_wire [OF pair c(1) ch, of "take i ?qs" rest] i(2) c(2) len by auto
  have tk: "take k pts @ take i ?qs = take (k + i) pts" by (simp add: take_add)
  have "wire (lib env) e 0 (take k pts) @ view ch = wire (lib env) e 0 (take (k + i) pts) @ rest"
    using k by (simp add: i(2) wire_append min_def flip: tk)
  with ch' i k c(2) tk show ?thesis
    by (intro exI [of _ "k + i"] exI [of _ ch'] exI [of _ bs]) (auto simp: algebra_simps)
qed

lemma decoding_step_visitor:
  assumes env: "aead_lib_ok (lib env)" "\<And>x. length (sha1 env x) = SHA_DIGEST_LENGTH"
    and c0: "fresh_cipher x mk \<lparr>encrypter = None, decrypter = Some x\<rparr> c0"
    and d: "d = keyed (lib env) (subkey env mk (key_len c0) s) x" and pair: "packet_pair (lib env) e d"
    and s: "length s = key_len c0" and pts: "\<forall>p\<in>set pts. block_ok p"
    and dec: "decoding env e d s pts c0 S c got" and ct: "growable_inv ct"
    and pre: "S @ view ct @ zs = s @ wire (lib env) e 0 pts" and sz: "(case chunk c of None \<Rightarrow> 0 | Some ch \<Rightarrow> length (view ch)) + length (view ct) \<le> nat INT_MAX"
  shows "\<exists>c' bs. (\<forall>b\<in>set bs. plain_buffer b) \<and> decoding env e d s pts c0 (S @ view ct) c' (got @ map view bs) \<and>
     (\<forall>(vis :: 's visitor) v v'. delivers vis bs v = Some v' \<longrightarrow> process_bytes env vis ct c v = Some (c', v'))"
proof (cases "length S < length s")
  case True
  with dec have g: "got = []" "\<forall>ch. chunk c = Some ch \<longrightarrow> growable_inv ch" "c = c0\<lparr>chunk := chunk c\<rparr>"
    "S = (case chunk c of None \<Rightarrow> [] | Some ch \<Rightarrow> view ch)"
    by (simp_all add: decoding_def)
  have ni: "\<not> init c" "key_len c = key_len c0"
    using c0 by (subst g(3), simp add: fresh_cipher_def)+
  obtain ch where ch: "merge_chunk (junk env) (chunk c) ct = Some ch" "growable_inv ch" "view ch = S @ view ct"
    using merge_chunk_ok [OF ct g(2) sz, of "junk env"] g(4) by auto
  show ?thesis
  proof (cases "length (S @ view ct) < length s")
    case short: True
    then have "process_bytes env vis ct c v = Some (c\<lparr>chunk := Some ch\<rparr>, v)" for vis :: "'s visitor" and v
      using ni s by (simp add: process_bytes_def ch(1) buf_size_view [OF ch(2)] ch(3))
    moreover have "c\<lparr>chunk := Some ch\<rparr> = c0\<lparr>chunk := Some ch\<rparr>" by (subst g(3)) simp
    then have "decoding env e d s pts c0 (S @ view ct) (c\<lparr>chunk := Some ch\<rparr>) got"
      using short g(1) ch by (simp add: decoding_def)
    ultimately show ?thesis by (intro exI [of _ "c\<lparr>chunk := Some ch\<rparr>"] exI [of _ "[]"]) simp
  next
    case long: False
    define r where "r = drop (length s) (view ch)"
    have "take (length s) (view ch) = s"
      using arg_cong [OF pre, of "take (length s)"] long by (simp add: ch(3))
    then have v: "view ch = s @ r" unfolding r_def by (metis append_take_drop_id)
    have "view ch @ zs = s @ wire (lib env) e 0 pts" using pre by (simp only: ch(3) append.assoc)
    then have pre': "r @ zs = wire (lib env) e 0 pts" by (simp add: v)
    have "fresh_cipher x mk \<lparr>encrypter = None, decrypter = Some x\<rparr> (c\<lparr>chunk := None\<rparr>)"
      using c0 by (subst g(3)) (auto simp: fresh_cipher_def is_stream_def)
    then have f: "impl c = \<lparr>encrypter = None, decrypter = Some x\<rparr>" "aead_suite x" "key_len c = key_size x"
      "tag_len c = auth_tag_size x" "master_key c = mk" "length mk = MAX_KEY_LENGTH" "length (salt c) = MAX_KEY_LENGTH"
      "\<not> is_stream c"
      by (auto simp: fresh_cipher_def is_stream_def)
    obtain ch1 s' where ch1: "decrypt_salt env ch c = Some (ch1, c\<lparr>salt := s', counter := 0, impl := impl c\<lparr>decrypter := Some d\<rparr>\<rparr>)"
      "growable_inv ch1" "view ch1 = r"
      using decrypt_salt_ok [OF env, of c x ch s r] f ch(2) v s ni(2) d by auto
    define c1 where "c1 = c\<lparr>salt := s', counter := 0, impl := impl c\<lparr>decrypter := Some d\<rparr>, init := True\<rparr>"
    have "length (subkey env mk (key_len c0) s) = key_size x"
      using env(2) f(3) ni(2) by (simp add: subkey_def length_rfc5869 SHA_DIGEST_LENGTH_def)
    then have "auth_tag_size d = auth_tag_size x" "cipher_id d = cipher_id x"
      using keyed_ok [OF env(1) f(2)] d by auto
    then have c1: "keyed_dec d c1" "counter c1 = 2 * of_nat 0"
      using f by (simp_all add: c1_def keyed_dec_def is_stream_def impl_cipher_id_def crypter_of_def)
    obtain j ch' bs where bs: "map view bs = take j pts" "\<forall>b\<in>set bs. plain_buffer b" and j: "j \<le> length pts"
      "\<forall>(vis :: 's visitor) v v'. delivers vis bs v = Some v' \<longrightarrow> process_loop env vis ch1 c1 v = Some (ch', c1\<lparr>counter := 2 * of_nat j\<rparr>, v')"
      "growable_inv ch'" "view ch1 = wire (lib env) e 0 (take j pts) @ view ch'" "j = length pts \<longrightarrow> view ch' = []"
      "j < length pts \<longrightarrow> (\<exists>more. more \<noteq> [] \<and> view ch' @ more = frame (lib env) e (2 * of_nat j) (pts ! j))"
      using process_loop_prefix [OF pair pts le0 c1 ch1(2), of zs] pre' ch1(3) by auto
    have run: "process_bytes env vis ct c v = Some (c1\<lparr>counter := 2 * of_nat j, chunk := Some ch'\<rparr>, v')"
      if "delivers vis bs v = Some v'" for vis :: "'s visitor" and v v'
      using that ni long s ch1(1) j(2) by (simp add: process_bytes_def ch(1) buf_size_view [OF ch(2)] ch(3) flip: c1_def)
    moreover have "keyed_dec d (c1\<lparr>counter := 2 * of_nat j, chunk := Some ch'\<rparr>)"
      using c1 by (simp add: keyed_dec_def is_stream_def)
    ultimately have "decoding env e d s pts c0 (S @ view ct) (c1\<lparr>counter := 2 * of_nat j, chunk := Some ch'\<rparr>) (got @ map view bs)"
      using j long v ch(3) ch1(3) bs(1) g(1) by (fastforce simp: decoding_def)
    then show ?thesis using bs(2) run by blast
  qed
next
  case False
  with dec obtain k ch where g: "k \<le> length pts" "got = take k pts" "keyed_dec d c" "counter c = 2 * of_nat k"
    "chunk c = Some ch" "growable_inv ch" "S = s @ wire (lib env) e 0 (take k pts) @ view ch"
    by (auto simp: decoding_def)
  obtain ch1 where ch1: "merge_chunk (junk env) (chunk c) ct = Some ch1" "growable_inv ch1" "view ch1 = view ch @ view ct"
    using merge_chunk_ok [OF ct, of "chunk c" "junk env"] sz g(5,6) by auto
  have "wire (lib env) e 0 pts = wire (lib env) e 0 (take k pts) @ wire (lib env) e (2 * of_nat k) (drop k pts)"
    using wire_append [of "lib env" e 0 "take k pts" "drop k pts"] g(1) by (simp add: min_def)
  then have "view ch1 @ zs = wire (lib env) e (2 * of_nat k) (drop k pts)"
    using pre by (simp add: g(7) ch1(3))
  from process_loop_prefix [OF pair pts g(1,3,4) ch1(2) this] obtain j ch' bs where
    bs: "take k pts @ map view bs = take j pts" "\<forall>b\<in>set bs. plain_buffer b" and j: "j \<le> length pts"
    "\<forall>(vis :: 's visitor) v v'. delivers vis bs v = Some v' \<longrightarrow> process_loop env vis ch1 c v = Some (ch', c\<lparr>counter := 2 * of_nat j\<rparr>, v')"
    "growable_inv ch'" "wire (lib env) e 0 (take k pts) @ view ch1 = wire (lib env) e 0 (take j pts) @ view ch'"
    "j = length pts \<longrightarrow> view ch' = []"
    "j < length pts \<longrightarrow> (\<exists>more. more \<noteq> [] \<and> view ch' @ more = frame (lib env) e (2 * of_nat j) (pts ! j))"
    by auto
  have run: "process_bytes env vis ct c v = Some (c\<lparr>counter := 2 * of_nat j, chunk := Some ch'\<rparr>, v')"
    if "delivers vis bs v = Some v'" for vis :: "'s visitor" and v v'
    using that g(3) j(2) by (simp add: process_bytes_def ch1(1) keyed_dec_def)
  moreover have "keyed_dec d (c\<lparr>counter := 2 * of_nat j, chunk := Some ch'\<rparr>)"
    using g(3) by (simp add: keyed_dec_def is_stream_def)
  moreover have "S @ view ct = s @ wire (lib env) e 0 (take j pts) @ view ch'"
    using j(4) by (simp add: g(7) ch1(3))
  ultimately have "decoding env e d s pts c0 (S @ view ct) (c\<lparr>counter := 2 * of_nat j, chunk := Some ch'\<rparr>) (got @ map view bs)"
    using j False bs(1) g(2) by (fastforce simp: decoding_def)
  then show ?thesis using bs(2) run by blast
qed

text \<open>With a visitor that records the blocks.\<close>

lemma decoding_step:
  assumes "aead_lib_ok (lib env)" "\<And>x. length (sha1 env x) = SHA_DIGEST_LENGTH"
    and "fresh_cipher x mk \<lparr>encrypter = None, decrypter = Some x\<rparr> c0"
    and "d = keyed (lib env) (subkey env mk (key_len c0) s) x" "packet_pair (lib env) e d"
    and "length s = key_len c0" "\<forall>p\<in>set pts. block_ok p"
    and "decoding env e d s pts c0 S c got" "growable_inv ct"
    and "S @ view ct @ zs = s @ wire (lib env) e 0 pts"
    and "(case chunk c of None \<Rightarrow> 0 | Some ch \<Rightarrow> length (view ch)) + length (view ct) \<le> nat INT_MAX"
  shows "\<exists>c' got'. process_bytes env recorder ct c (got, err) = Some (c', (got', err)) \<and> decoding env e d s pts c0 (S @ view ct) c' got'"
proof -
  obtain c' bs where "decoding env e d s pts c0 (S @ view ct) c' (got @ map view bs)"
      "\<forall>(vis :: log visitor) v v'. delivers vis bs v = Some v' \<longrightarrow> process_bytes env vis ct c v = Some (c', v')"
    using decoding_step_visitor [OF assms] by blast
  then show ?thesis by (intro exI [of _ c'] exI [of _ "got @ map view bs"]) simp
qed

text \<open>Never more than one frame is buffered.\<close>

lemma decoding_buffered:
  assumes "decoding env e d s pts c0 S c got" "packet_pair (lib env) e d" "auth_tag_size e \<le> 16"
    "\<forall>p\<in>set pts. block_ok p" "length s \<le> MAX_KEY_LENGTH"
  shows "int (case chunk c of None \<Rightarrow> 0 | Some ch \<Rightarrow> length (view ch)) \<le> SOCKET_BUF_SIZE"
proof (cases "length S < length s")
  case True
  with assms(1,5) show ?thesis by (auto simp: decoding_def MAX_KEY_LENGTH_def SOCKET_BUF_SIZE_def split: option.splits)
next
  case False
  with assms(1) obtain k ch where k: "k \<le> length pts" "chunk c = Some ch" "k = length pts \<longrightarrow> view ch = []"
    "k < length pts \<longrightarrow> (\<exists>more. more \<noteq> [] \<and> view ch @ more = frame (lib env) e (2 * of_nat k) (pts ! k))"
    by (auto simp: decoding_def)
  show ?thesis
  proof (cases "k < length pts")
    case True
    then have "length (view ch) \<le> length (frame (lib env) e (2 * of_nat k) (pts ! k))"
      using k(4) by (metis length_append le_add1)
    moreover have "block_ok (pts ! k)" using True assms(4) by simp
    ultimately show ?thesis
      using assms(3) k(2) length_frame [OF assms(2)]
      by (simp add: block_ok_def CHUNK_SIZE_MASK_def CHUNK_SIZE_LEN_def SOCKET_BUF_SIZE_def)
  qed (use k in \<open>auto simp: SOCKET_BUF_SIZE_def\<close>)
qed

lemma feed_all_decoding:
  assumes env: "aead_lib_ok (lib env)" "\<And>x. length (sha1 env x) = SHA_DIGEST_LENGTH"
    and c0: "fresh_cipher x mk \<lparr>encrypter = None, decrypter = Some x\<rparr> c0"
    and d: "d = keyed (lib env) (subkey env mk (key_len c0) s) x" and pair: "packet_pair (lib env) e d"
    and s: "length s = key_len c0" and pts: "\<forall>p\<in>set pts. block_ok p" and tag: "auth_tag_size e \<le> 16"
  shows "decoding env e d s pts c0 S c got \<Longrightarrow> S @ concat (map view bs) @ zs = s @ wire (lib env) e 0 pts \<Longrightarrow>
     \<forall>b\<in>set bs. growable_inv b \<and> int (length (view b)) + SOCKET_BUF_SIZE \<le> INT_MAX \<Longrightarrow>
     \<exists>c' got'. feed_all env recorder bs c (got, err) = Some (c', (got', err)) \<and>
       decoding env e d s pts c0 (S @ concat (map view bs)) c' got'"
proof (induction bs arbitrary: S c got)
  case (Cons b bs)
  have kl: "length s \<le> MAX_KEY_LENGTH"
    using c0 s by (simp add: fresh_cipher_def aead_suite_def crypter_inv_def kMaxKeySize_def MAX_KEY_LENGTH_def)
  have b: "growable_inv b" "int (length (view b)) + SOCKET_BUF_SIZE \<le> INT_MAX" using Cons.prems(3) by simp_all
  have "S @ view b @ concat (map view bs) @ zs = s @ wire (lib env) e 0 pts" using Cons.prems(2) by simp
  moreover have "(case chunk c of None \<Rightarrow> 0 | Some ch \<Rightarrow> length (view ch)) + length (view b) \<le> nat INT_MAX"
    using decoding_buffered [OF Cons.prems(1) pair tag pts kl] b(2) by linarith
  ultimately obtain c1 got1 where 1: "process_bytes env recorder b c (got, err) = Some (c1, (got1, err))"
    "decoding env e d s pts c0 (S @ view b) c1 got1"
    using decoding_step [OF env c0 d pair s pts Cons.prems(1) b(1)] by blast
  with Cons.IH [OF 1(2)] Cons.prems(2,3) show ?case by auto
qed simp

text \<open>What has been delivered is a prefix, and all of it at the end of the stream.\<close>

lemma decoding_delivers:
  assumes "decoding env e d s pts c0 S c got" "packet_pair (lib env) e d"
  shows "\<exists>k. got = take k pts \<and> (S = s @ wire (lib env) e 0 pts \<longrightarrow> take k pts = pts)"
proof (cases "length S < length s")
  case True
  with assms(1) show ?thesis by (auto simp: decoding_def intro: exI [of _ 0])
next
  case False
  with assms(1) obtain k ch where k: "k \<le> length pts" "got = take k pts" "S = s @ wire (lib env) e 0 (take k pts) @ view ch"
    "k < length pts \<longrightarrow> (\<exists>more. more \<noteq> [] \<and> view ch @ more = frame (lib env) e (2 * of_nat k) (pts ! k))"
    by (auto simp: decoding_def)
  have "k = length pts" if S: "S = s @ wire (lib env) e 0 pts"
  proof (rule ccontr)
    assume "k \<noteq> length pts"
    then have lt: "k < length pts" using k(1) by simp
    then obtain more where more: "more \<noteq> []" "view ch @ more = frame (lib env) e (2 * of_nat k) (pts ! k)" using k(4) by blast
    have "wire (lib env) e 0 pts = wire (lib env) e 0 (take k pts) @ wire (lib env) e (2 * of_nat k) (drop k pts)"
      using wire_append [of "lib env" e 0 "take k pts" "drop k pts"] k(1) by (simp add: min_def)
    moreover have "drop k pts = pts ! k # drop (Suc k) pts" using lt by (simp add: Cons_nth_drop_Suc)
    ultimately have "view ch = view ch @ more @ wire (lib env) e (2 * of_nat k + 2) (drop (Suc k) pts)"
      using S k(3) more(2) by (metis append.assoc same_append_eq wire.simps(2))
    with more(1) show False by simp
  qed
  with k(2) show ?thesis by auto
qed

lemma evp_key_length_pos: "0 < evp_key_length alg"
  by (cases alg) simp_all

text \<open>The two ends of a connection, made from the same password.\<close>

lemma length_EVP_BytesToKey: "\<forall>x. length (H x) = 16 \<Longrightarrow> length (EVP_BytesToKey H pass L) = L"
proof -
  assume H: "\<forall>x. length (H x) = 16"
  have "0 < i \<Longrightarrow> length (bytes_to_key_D H pass i) = 16" for i using H by (cases i) simp_all
  then have "length (blocks (bytes_to_key_D H pass) ((L + 15) div 16)) = 16 * ((L + 15) div 16)" by (rule length_blocks)
  then show ?thesis by (simp add: EVP_BytesToKey_def)
qed

lemma new_cipher_pair:
  assumes md5: "\<forall>x. length (md5 env x) = 16"
    and m: "m \<in> set (map row_num YASS_CIPHER_METHOD_OLD_MAP)" "\<not> (CRYPTO_AES_128_CFB \<le> m \<and> m \<le> CRYPTO_CAMELLIA_256_CFB)"
  shows "\<exists>x y mk ce cd. same_suite x y \<and>
    new_cipher env [] password m True = Some ce \<and> fresh_cipher x mk \<lparr>encrypter = Some x, decrypter = None\<rparr> ce \<and>
    new_cipher env [] password m False = Some cd \<and> fresh_cipher y mk \<lparr>encrypter = None, decrypter = Some y\<rparr> cd"
proof -
  obtain x y where xy: "Encrypter_CreateFromCipherSuite (lib env) m = Some x" "Decrypter_CreateFromCipherSuite (lib env) m = Some y"
    using m(1) Create_iff [of "lib env" m] by auto
  have x: "aead_suite x" "cipher_id x = m" using Encrypter_Create_ok [OF xy(1)] m(2) by auto
  have y: "aead_suite y" "same_suite x y"
    using Create_same_suite [OF xy] Encrypter_Create_ok [OF xy(1)] m(2) by (auto simp: same_suite_def)
  have eq: "key_size y = key_size x" "auth_tag_size y = auth_tag_size x" "cipher_id y = m"
    using y(2) x(2) by (auto simp: same_suite_def)
  have kl: "key_size x \<le> MAX_KEY_LENGTH"
    using x(1) by (simp add: aead_suite_def crypter_inv_def kMaxKeySize_def MAX_KEY_LENGTH_def)
  define mk :: "byte list" where "mk = (if password = [] then replicate MAX_KEY_LENGTH 0
      else EVP_BytesToKey (md5 env) password (key_size x) @ replicate (MAX_KEY_LENGTH - key_size x) 0)"
  have dk: "derive_key (md5 env) password (replicate MAX_KEY_LENGTH 0) (key_size x) = Some (key_size x, mk)"
    using derive_key_eq [OF md5, of "key_size x" "replicate MAX_KEY_LENGTH 0" password] kl by (simp add: mk_def)
  have mk: "length mk = MAX_KEY_LENGTH"
    using kl length_EVP_BytesToKey [OF md5, of password "key_size x"] by (simp add: mk_def)
  show ?thesis
    by (intro exI [of _ x] exI [of _ y] exI [of _ mk])
      (use x y eq mk dk xy m(2) in \<open>simp add: new_cipher_def new_cipher_impl_def impl_GetKeySize_def impl_GetTagSize_def
        crypter_of_def Let_def fresh_cipher_def is_stream_def impl_cipher_id_def\<close>)
qed

section \<open>The stream protocol\<close>

text \<open>A concrete instance of everything the framing layer takes from outside.\<close>

definition plain_env :: "(nat, unit) cipher_env" where
  "plain_env =
     \<lparr>lib = plain_lib, sha1 = (\<lambda>x. replicate 20 3), md5 = (\<lambda>x. replicate 16 5), decoded_length = (\<lambda>n. Some n),
      decode_base64 = (\<lambda>n k. Some k), RandBytes = (\<lambda>n. replicate n 7), junk = (\<lambda>i. 0)\<rparr>"

text \<open>C1: The encrypted stream is a reliable sequence of blocks. Take an encoder and a decoder that the
  constructor makes from the same password for the same AEAD method, encrypt any non-empty sequence of
  blocks of 1 to 0x3FFF bytes, each into a new buffer, and cut the resulting byte stream (salt first)
  into segments in any way (the buffers of the encoder, of at most \<^verbatim>\<open>SOCKET_BUF_SIZE\<close> bytes, are one), empty and one-byte segments included. Whatever prefix of the stream has been
  received so far, \<^verbatim>\<open>process_bytes\<close> terminates on each segment without an abort or an access outside a
  buffer, reports no protocol error, and has delivered to the visitor exactly a prefix of the sequence
  of blocks, in order and with the boundaries they were sent with; once all of the stream has arrived,
  every block has been delivered. A segment may have any size that leaves room for one more frame below
  the limit of an \<^verbatim>\<open>int\<close>. The crypto library is assumed to open what it has sealed, the hashes to
  have the digest sizes of SHA-1 and MD5, and the random generator to return the bytes asked for.\<close>

theorem cipher_stream_roundtrip:
  assumes "aead_lib_ok (lib env)" "\<forall>x. length (sha1 env x) = 20" "\<forall>x. length (md5 env x) = 16"
    and "\<forall>n. length (RandBytes env n) = n"
    and "m \<in> set (map row_num YASS_CIPHER_METHOD_OLD_MAP)" "\<not> (CRYPTO_AES_128_CFB \<le> m \<and> m \<le> CRYPTO_CAMELLIA_256_CFB)"
    and "\<forall>p\<in>set pts. 0 < length p \<and> length p \<le> CHUNK_SIZE_MASK" "pts \<noteq> []"
  shows "\<exists>ce cd cts ce'. new_cipher env [] password m True = Some ce \<and> new_cipher env [] password m False = Some cd \<and>
     encrypt_all env vis pts ce v = Some (cts, ce', v) \<and>
     (\<forall>ct\<in>set cts. growable_inv ct \<and> int (length (view ct)) \<le> SOCKET_BUF_SIZE) \<and>
     (\<forall>bs zs. (\<forall>b\<in>set bs. growable_inv b \<and> int (length (view b)) + SOCKET_BUF_SIZE \<le> INT_MAX) \<and>
        concat (map view bs) @ zs = concat (map view cts) \<longrightarrow>
        (\<exists>cd' k. feed_all env recorder bs cd ([], False) = Some (cd', (take k pts, False)) \<and>
           (zs = [] \<longrightarrow> take k pts = pts)))"
proof -
  have sha: "\<And>x. length (sha1 env x) = SHA_DIGEST_LENGTH" using assms(2) by (simp add: SHA_DIGEST_LENGTH_def)
  have rnd: "\<And>n. length (RandBytes env n) = n" using assms(4) by blast
  have ok: "\<forall>p\<in>set pts. block_ok p" using assms(7) by (simp add: block_ok_def)
  obtain x y mk ce cd where n: "same_suite x y" "new_cipher env [] password m True = Some ce"
    "fresh_cipher x mk \<lparr>encrypter = Some x, decrypter = None\<rparr> ce"
    "new_cipher env [] password m False = Some cd" "fresh_cipher y mk \<lparr>encrypter = None, decrypter = Some y\<rparr> cd"
    using new_cipher_pair [of env m password, OF assms(3,5,6)] by blast
  let ?kl = "key_len ce"
  have kl: "key_len cd = ?kl" "?kl = key_size x" "0 < ?kl" "aead_suite x" "aead_suite y" and tag: "auth_tag_size x \<le> 16"
    using n(1,3,5) by (auto simp: fresh_cipher_def same_suite_def aead_suite_def evp_key_length_pos)
  define s where "s = RandBytes env ?kl"
  define e where "e = keyed (lib env) (subkey env mk ?kl s) x"
  define d where "d = keyed (lib env) (subkey env mk (key_len cd) s) y"
  have len: "length (subkey env mk ?kl s) = key_size x"
    using sha kl by (simp add: subkey_def length_rfc5869 SHA_DIGEST_LENGTH_def)
  have pair: "packet_pair (lib env) e d"
    using keyed_packet_pair_suite [OF assms(1) n(1) kl(4,5) len] by (simp add: e_def d_def kl(1))
  have tag_e: "auth_tag_size e \<le> 16" using keyed_ok [OF assms(1) kl(4) len] tag by (auto simp: e_def)
  have e: "e = session_key env x mk" using kl(2) by (simp add: e_def s_def session_key_def)
  obtain cts ce' where cts: "encrypt_all env vis pts ce v = Some (cts, ce', v)"
    "\<forall>ct\<in>set cts. growable_inv ct \<and> int (length (view ct)) \<le> SOCKET_BUF_SIZE"
    "concat (map view cts) = s @ wire (lib env) e 0 pts"
    using encrypt_all_fresh [of env, OF assms(1) sha rnd n(3) e pair ok assms(8), of vis v] kl(2) by (auto simp: s_def)
  have slen: "length s = key_len cd" "0 < length s" using rnd kl by (simp_all add: s_def)
  have start: "decoding env e d s pts cd [] cd []"
    using slen(2) n(5) by (simp add: decoding_def fresh_cipher_def)
  have "\<exists>cd' k. feed_all env recorder bs cd ([], False) = Some (cd', (take k pts, False)) \<and> (zs = [] \<longrightarrow> take k pts = pts)"
    if bs: "\<forall>b\<in>set bs. growable_inv b \<and> int (length (view b)) + SOCKET_BUF_SIZE \<le> INT_MAX"
      and zs: "concat (map view bs) @ zs = concat (map view cts)" for bs zs
  proof -
    obtain c' got where r: "feed_all env recorder bs cd ([], False) = Some (c', (got, False))"
      "decoding env e d s pts cd (concat (map view bs)) c' got"
      using feed_all_decoding [of env, OF assms(1) sha n(5) d_def pair slen(1) ok tag_e start _ bs, of zs False] zs cts(3) by auto
    with decoding_delivers [OF r(2) pair] zs cts(3) show ?thesis by fastforce
  qed
  then show ?thesis using n(2,4) cts(1,2) by blast
qed

theorem cipher_stream_roundtrip_witness:
  "\<exists>ce cd cts ce' cd'. new_cipher plain_env [] [1] CRYPTO_AES256GCMSHA256_EVP True = Some ce \<and>
     new_cipher plain_env [] [1] CRYPTO_AES256GCMSHA256_EVP False = Some cd \<and>
     encrypt_all plain_env recorder [[1], [2, 3]] ce ([], False) = Some (cts, ce', ([], False)) \<and>
     feed_all plain_env recorder cts cd ([], False) = Some (cd', ([[1], [2, 3]], False))"
proof -
  have m: "CRYPTO_AES256GCMSHA256_EVP \<in> set (map row_num YASS_CIPHER_METHOD_OLD_MAP)"
    by (simp add: YASS_CIPHER_METHOD_OLD_MAP_def method_tables)
  obtain ce cd cts ce' where r: "new_cipher plain_env [] [1] CRYPTO_AES256GCMSHA256_EVP True = Some ce"
    "new_cipher plain_env [] [1] CRYPTO_AES256GCMSHA256_EVP False = Some cd"
    "encrypt_all plain_env recorder [[1], [2, 3]] ce ([], False) = Some (cts, ce', ([], False))"
    "\<forall>ct\<in>set cts. growable_inv ct \<and> int (length (view ct)) \<le> SOCKET_BUF_SIZE"
    "\<forall>bs zs. (\<forall>b\<in>set bs. growable_inv b \<and> int (length (view b)) + SOCKET_BUF_SIZE \<le> INT_MAX) \<and>
        concat (map view bs) @ zs = concat (map view cts) \<longrightarrow>
        (\<exists>cd' k. feed_all plain_env recorder bs cd ([], False) = Some (cd', (take k [[1], [2, 3]], False)) \<and>
           (zs = [] \<longrightarrow> take k [[1], [2, 3]] = [[1], [2, 3]]))"
    using cipher_stream_roundtrip [of plain_env CRYPTO_AES256GCMSHA256_EVP "[[1], [2, 3]]" "[1]" recorder "([], False)"]
      plain_lib_ok m by (auto simp: plain_env_def CHUNK_SIZE_MASK_def)
  have "\<forall>b\<in>set cts. growable_inv b \<and> int (length (view b)) + SOCKET_BUF_SIZE \<le> INT_MAX"
    using r(4) by (auto simp: SOCKET_BUF_SIZE_def INT_MAX_def)
  then obtain cd' k where "feed_all plain_env recorder cts cd ([], False) = Some (cd', (take k [[1], [2, 3]], False))"
    "take k [[1], [2, 3]] = [[1], [2, 3 :: byte]]"
    using r(5) [rule_format, of cts "[]"] by auto
  with r(1-3) show ?thesis by auto
qed

end
