(* ===== verification/Cipher_Safety.thy ===== *)
theory Cipher_Safety
  imports Cipher_Stream
begin

text \<open>
  The decoder on arbitrary input. Nothing is assumed about the bytes a peer sends: \<^verbatim>\<open>process_bytes\<close>
  still terminates, stays inside its buffers, and hands only well-formed blocks to its visitor. The one
  thing the crypto library has to do is to open a ciphertext to a plaintext that is shorter by the tag.
\<close>

definition open_lengths :: "('c, 'm) crypto_lib \<Rightarrow> bool" where
  "open_lengths l \<longleftrightarrow>
     (\<forall>alg k tag x mx nonce ct ad pt. EVP_AEAD_CTX_init l alg k tag = Some x \<longrightarrow>
        EVP_AEAD_CTX_open l x mx nonce ct ad = Some pt \<longrightarrow> length ct = length pt + tag \<and> length pt \<le> mx)"

lemma plain_open_lengths: "open_lengths plain_lib"
  by (auto simp: open_lengths_def plain_lib_def split: if_splits)

text \<open>A decrypter that has been given a key.\<close>

definition ready :: "('c, 'm) crypto_lib \<Rightarrow> ('c, 'm) crypter \<Rightarrow> bool" where
  "ready l d \<longleftrightarrow> aead_suite d \<and>
     (\<exists>x. ctx d = Some x \<and>
       (\<forall>mx nonce ct ad pt. EVP_AEAD_CTX_open l x mx nonce ct ad = Some pt \<longrightarrow>
          length ct = length pt + auth_tag_size d \<and> length pt \<le> mx))"

lemma keyed_ready:
  assumes "aead_lib_ok l" "open_lengths l" "aead_suite c" "length k = key_size c"
  shows "ready l (keyed l k c)"
proof -
  obtain x where x: "SetKey l k c = Some (True, c\<lparr>key := k @ drop (length k) (key c), ctx := Some x\<rparr>)"
    "EVP_AEAD_CTX_init l (the (aead_alg c)) k (auth_tag_size c) = Some x"
    using SetKey_aead [OF assms(1,3,4)] by auto
  let ?c = "c\<lparr>key := k @ drop (length k) (key c), ctx := Some x\<rparr>"
  have inv: "crypter_inv ?c" using assms(3,4) by (auto simp: aead_suite_def crypter_inv_def)
  have "keyed l k c = ?c\<lparr>iv := replicate (nonce_size c - 8) 0 @ drop (nonce_size c - 8) (iv c)\<rparr>"
    using x(1) SetNoncePrefix_ok [OF inv, of "replicate (nonce_size c - 8) 0"] by (simp add: keyed_def)
  moreover have "aead_suite (?c\<lparr>iv := replicate (nonce_size c - 8) 0 @ drop (nonce_size c - 8) (iv c)\<rparr>)"
    using assms(3,4) by (auto simp: aead_suite_def crypter_inv_def kMaxNonceSize_def)
  ultimately show ?thesis using x(2) assms(2) unfolding ready_def open_lengths_def by fastforce
qed

lemma Decrypt_ready:
  assumes "ready l d" "decrypter i = Some d"
  shows "\<exists>out. impl_DecryptPacket l n mx ct i = Some (out, i) \<and>
    (\<forall>pt. out = Some pt \<longrightarrow> length ct = length pt + auth_tag_size d \<and> length pt \<le> mx)"
proof -
  obtain x where x: "ctx d = Some x" "aead_suite d"
    "\<forall>mx nonce ct ad pt. EVP_AEAD_CTX_open l x mx nonce ct ad = Some pt \<longrightarrow>
       length ct = length pt + auth_tag_size d \<and> length pt \<le> mx"
    using assms(1) by (auto simp: ready_def)
  show ?thesis
  proof (cases "auth_tag_size d \<le> length ct")
    case True
    then show ?thesis
      using DecryptPacket_aead [OF x(2,1) True, of l n "[]" mx] x(3) assms(2) by (auto simp: impl_DecryptPacket_def)
  next
    case False
    then show ?thesis using DecryptPacket_short [of ct d l n "[]" mx] assms(2) by (simp add: impl_DecryptPacket_def)
  qed
qed

section \<open>One frame\<close>

lemma and_mask_le: "n AND CHUNK_SIZE_MASK \<le> CHUNK_SIZE_MASK"
proof -
  have "CHUNK_SIZE_MASK = mask 14" by (simp add: CHUNK_SIZE_MASK_def mask_eq_exp_minus_1)
  then have "n AND CHUNK_SIZE_MASK = take_bit 14 n" by (simp add: take_bit_eq_mask)
  then have "n AND CHUNK_SIZE_MASK = n mod 16384" by (simp add: take_bit_eq_mod)
  moreover have "n mod 16384 < 16384" by simp
  ultimately show ?thesis by (simp add: CHUNK_SIZE_MASK_def)
qed

text \<open>
  The outcome of decoding one frame: not enough bytes or a rejected packet, with the input untouched,
  or one block, with some input consumed.
\<close>

definition frame_outcome :: "('c, 'm) cipher_env \<Rightarrow> ('c, 'm) cipher \<Rightarrow> growable
    \<Rightarrow> (frame_ret \<times> u64 \<times> growable \<times> growable \<times> ('c, 'm) cipher_impl) option \<Rightarrow> bool" where
  "frame_outcome env c ch r \<longleftrightarrow> (\<exists>ret n' p1 ch'. r = Some (ret, n', p1, ch', impl c) \<and> growable_inv ch' \<and>
    (ret \<noteq> FRAME_OK \<longrightarrow> ch' = ch) \<and>
    (ret = FRAME_OK \<longrightarrow> length (view ch') < length (view ch) \<and>
      (\<exists>p2 p3. SetCapacity (junk env) (offset p1) p1 = Some p2 \<and> set_offset 0 p2 = Some p3 \<and>
         growable_inv p3 \<and> block_ok (view p3))))"

lemma decrypt_payload:
  assumes l: "ready (lib env) d" and dec: "keyed_dec d c" and inv: "growable_inv ch"
    and p0: "SetCapacity (junk env) SOCKET_BUF_SIZE GrowableIOBuffer = Some p0"
    and long: "\<not> buf_size ch < int (auth_tag_size d + CHUNK_SIZE_LEN + auth_tag_size d)"
    and hdr: "impl_DecryptPacket (lib env) n 2 (take (CHUNK_SIZE_LEN + auth_tag_size d) (view ch)) (impl c) = Some (Some len, impl c)"
      "length len = 2"
    and m: "m = unat (be16 (len ! 0) (len ! 1)) AND CHUNK_SIZE_MASK" "m \<noteq> 0"
  shows "frame_outcome env c ch (chunk_decrypt_frame env c n p0 ch)"
proof -
  let ?t = "auth_tag_size d"
  let ?k = "CHUNK_SIZE_LEN + ?t"
  have tag: "tag_len c = ?t" "decrypter (impl c) = Some d" "\<not> is_stream c" using dec by (auto simp: keyed_dec_def)
  have k: "?k \<le> length (view ch)" using long by (simp add: buf_size_view [OF inv])
  have mm: "0 < m" "m \<le> CHUNK_SIZE_MASK" using m and_mask_le by auto
  obtain ch1 where ch1: "set_offset (offset ch + int ?k) ch = Some ch1" "growable_inv ch1"
    "view ch1 = drop ?k (view ch)" "offset ch1 = offset ch + int ?k"
    using set_offset_advance [OF inv k] by auto
  have rewind: "set_offset (offset ch1 - int CHUNK_SIZE_LEN - int ?t) ch1 = Some ch"
    using set_offset_return [OF inv ch1(1)] ch1(4) by simp
  obtain p1 where p1: "offset p0 = 0" "SetCapacity (junk env) (int m) p0 = Some p1" "capacity p1 = int m"
    using plaintext_buffer [of "replicate m 0" "junk env"] mm p0 by (auto simp: block_ok_def)
  note body = chunk_decrypt_frame_def chunk_decrypt_frame_aead_def Let_def tag(1) data_slice_view [OF inv k] hdr(1)
    bind.bind_lunit prod.case option.case m(1) [symmetric] ch1(1) p1 rewind add_0 nat_int
  show ?thesis
  proof (cases "buf_size ch1 < int (?t + m)")
    case True
    then have "chunk_decrypt_frame env c n p0 ch = Some (FRAME_EAGAIN, n, p1, ch, impl c)"
      using long tag(3) hdr(2) m(2) by (simp only: body if_False if_True simp_thms)
    then show ?thesis using inv by (auto simp: frame_outcome_def)
  next
    case enough: False
    then have k2: "?t + m \<le> length (view ch1)" by (simp add: buf_size_view [OF ch1(2)])
    define ys where "ys = take (?t + m) (view ch1)"
    have s2: "data_slice ch1 0 (?t + m) = Some ys" using data_slice_view [OF ch1(2) k2] by (simp add: ys_def)
    obtain out2 where out2: "impl_DecryptPacket (lib env) (n + 1) m ys (impl c) = Some (out2, impl c)"
      "\<forall>pt. out2 = Some pt \<longrightarrow> length ys = length pt + ?t"
      using Decrypt_ready [OF l tag(2), of "n + 1" m ys] by blast
    obtain ch2 where ch2: "set_offset (offset ch1 + int (?t + m)) ch1 = Some ch2" "growable_inv ch2"
      "view ch2 = drop (?t + m) (view ch1)"
      using set_offset_advance [OF ch1(2) k2] by auto
    show ?thesis
    proof (cases out2)
      case None
      have "chunk_decrypt_frame env c n p0 ch = Some (FRAME_EBADMSG, n + 1, p1, ch, impl c)"
        using long tag(3) hdr(2) m(2) enough by (simp only: body s2 out2(1) None option.case if_False if_True simp_thms)
      then show ?thesis using inv by (auto simp: frame_outcome_def)
    next
      case (Some pt)
      have pt: "length pt = m" using out2(2) Some k2 by (simp add: ys_def)
      then have ok: "block_ok pt" using mm by (simp add: block_ok_def)
      obtain p2 p3 p4 p5 where p: "memcpy_data 0 pt p1 = Some p2" "offset p2 = 0"
        "set_offset (int m) p2 = Some p3" "offset p3 = int m"
        "SetCapacity (junk env) (int m) p3 = Some p4" "set_offset 0 p4 = Some p5" "growable_inv p5" "view p5 = pt"
        using plaintext_buffer [OF ok, of "junk env"] p0 p1 pt by auto
      have "chunk_decrypt_frame env c n p0 ch = Some (FRAME_OK, n + 1 + 1, p3, ch2, impl c)"
        using long tag(3) hdr(2) m(2) enough
        by (simp only: body s2 out2(1) Some option.case if_False if_True simp_thms p(1-3) ch2(1) pt)
      moreover have "length (view ch2) < length (view ch)" using ch2(3) ch1(3) k2 mm(1) by simp
      ultimately show ?thesis using ch2(2) p(4-) ok by (auto simp: frame_outcome_def)
    qed
  qed
qed

lemma decrypt_any:
  assumes l: "ready (lib env) d" and dec: "keyed_dec d c" and inv: "growable_inv ch"
    and p0: "SetCapacity (junk env) SOCKET_BUF_SIZE GrowableIOBuffer = Some p0"
  shows "frame_outcome env c ch (chunk_decrypt_frame env c n p0 ch)"
proof -
  let ?t = "auth_tag_size d"
  let ?k = "CHUNK_SIZE_LEN + ?t"
  have tag: "tag_len c = ?t" "decrypter (impl c) = Some d" "\<not> is_stream c" using dec by (auto simp: keyed_dec_def)
  note unfolds = chunk_decrypt_frame_def chunk_decrypt_frame_aead_def Let_def frame_outcome_def
  show ?thesis
  proof (cases "buf_size ch < int (?t + CHUNK_SIZE_LEN + ?t)")
    case True
    then show ?thesis using tag inv by (simp add: unfolds)
  next
    case long: False
    then have k: "?k \<le> length (view ch)" by (simp add: buf_size_view [OF inv])
    obtain out where out: "impl_DecryptPacket (lib env) n 2 (take ?k (view ch)) (impl c) = Some (out, impl c)"
      "\<forall>pt. out = Some pt \<longrightarrow> length (take ?k (view ch)) = length pt + ?t"
      using Decrypt_ready [OF l tag(2), of n 2 "take ?k (view ch)"] by blast
    show ?thesis
    proof (cases out)
      case None
      then show ?thesis using long tag inv data_slice_view [OF inv k] out(1) by (simp add: unfolds)
    next
      case (Some len)
      have two: "length len = 2" using out(2) Some k by (simp add: CHUNK_SIZE_LEN_def)
      show ?thesis
      proof (cases "unat (be16 (len ! 0) (len ! 1)) AND CHUNK_SIZE_MASK = 0")
        case True
        with long tag inv data_slice_view [OF inv k] out(1) Some two show ?thesis by (simp add: unfolds)
      next
        case False
        then show ?thesis using decrypt_payload [OF l dec inv p0 long _ two refl] out(1) Some by blast
      qed
    qed
  qed
qed

section \<open>The decoding loop\<close>

text \<open>
  What holds of a visitor state and is kept by both callbacks, when blocks are well formed, holds after
  the loop, which ends because every block consumes input.
\<close>

lemma process_loop_any:
  assumes l: "ready (lib env) d"
    and vis: "\<And>b s. P s \<Longrightarrow> growable_inv b \<Longrightarrow> block_ok (view b) \<Longrightarrow> P (snd (on_received_data vis b s))"
      "\<And>s. P s \<Longrightarrow> P (on_protocol_error vis s)"
  shows "keyed_dec d c \<Longrightarrow> growable_inv ch \<Longrightarrow> P s \<Longrightarrow>
    \<exists>ch' n s'. process_loop env vis ch c s = Some (ch', c\<lparr>counter := n\<rparr>, s') \<and> growable_inv ch' \<and>
      length (view ch') \<le> length (view ch) \<and> P s'"
proof (induction "length (view ch)" arbitrary: ch c s rule: less_induct)
  case less
  show ?case
  proof (cases "view ch = []")
    case True
    with less.prems have "process_loop env vis ch c s = Some (ch, c, s)"
      by (simp add: process_loop.simps iobuf_empty_view)
    then show ?thesis using less.prems by (intro exI [of _ ch] exI [of _ "counter c"] exI [of _ s]) simp
  next
    case False
    obtain p0 where p0: "SetCapacity (junk env) SOCKET_BUF_SIZE GrowableIOBuffer = Some p0"
      using SetCapacity_grow [of GrowableIOBuffer SOCKET_BUF_SIZE "junk env"] by (auto simp: SOCKET_BUF_SIZE_def INT_MAX_def)
    obtain ret n p1 ch1 where f: "chunk_decrypt_frame env c (counter c) p0 ch = Some (ret, n, p1, ch1, impl c)"
      "growable_inv ch1" "ret \<noteq> FRAME_OK \<longrightarrow> ch1 = ch"
      "ret = FRAME_OK \<longrightarrow> length (view ch1) < length (view ch) \<and>
        (\<exists>p2 p3. SetCapacity (junk env) (offset p1) p1 = Some p2 \<and> set_offset 0 p2 = Some p3 \<and>
           growable_inv p3 \<and> block_ok (view p3))"
      using decrypt_any [OF l less.prems(1,2) p0, of "counter c"] unfolding frame_outcome_def by blast
    note step = process_loop.simps [of env vis ch] iobuf_empty_view [OF less.prems(2)] p0 f(1)
    show ?thesis
    proof (cases ret)
      case FRAME_OK
      then obtain p2 p3 where p: "SetCapacity (junk env) (offset p1) p1 = Some p2" "set_offset 0 p2 = Some p3"
        "growable_inv p3" "block_ok (view p3)" "length (view ch1) < length (view ch)" using f(4) by auto
      obtain more s1 where s1: "on_received_data vis p3 s = (more, s1)" by fastforce
      then have P: "P s1" using vis(1) [OF less.prems(3) p(3,4)] by simp
      have dec: "keyed_dec d (c\<lparr>counter := n\<rparr>)" using less.prems(1) by (simp add: keyed_dec_def is_stream_def)
      obtain ch' n' s' where "process_loop env vis ch1 (c\<lparr>counter := n\<rparr>) s1 = Some (ch', c\<lparr>counter := n'\<rparr>, s')"
        "growable_inv ch'" "length (view ch') \<le> length (view ch1)" "P s'"
        using less.hyps [OF p(5) dec f(2) P] by auto
      then show ?thesis using P f(2) p(1,2,5) s1 FRAME_OK False by (cases more) (auto simp: step)
    next
      case FRAME_EAGAIN
      then have "process_loop env vis ch c s = Some (ch, c\<lparr>counter := counter c\<rparr>, s)"
        using f(3) False by (simp add: step)
      then show ?thesis using less.prems by blast
    next
      case FRAME_EBADMSG
      then have "process_loop env vis ch c s = Some (ch, c\<lparr>counter := counter c\<rparr>, on_protocol_error vis s)"
        using f(3) False by (simp add: step)
      then show ?thesis using less.prems vis(2) by blast
    qed
  qed
qed

section \<open>The decoder\<close>

text \<open>The invariant of a decoder, from the constructor on.\<close>

definition decoder_inv :: "('c, 'm) crypto_lib \<Rightarrow> ('c, 'm) cipher \<Rightarrow> bool" where
  "decoder_inv l c \<longleftrightarrow>
     (\<exists>d. encrypter (impl c) = None \<and> decrypter (impl c) = Some d \<and> aead_suite d \<and> key_len c = key_size d \<and>
        tag_len c = auth_tag_size d \<and> length (master_key c) = MAX_KEY_LENGTH \<and> length (salt c) = MAX_KEY_LENGTH \<and>
        \<not> is_stream c \<and> (\<forall>ch. chunk c = Some ch \<longrightarrow> growable_inv ch) \<and> (init c \<longrightarrow> ready l d))"

definition buffered :: "('c, 'm) cipher \<Rightarrow> nat" where
  "buffered c = (case chunk c of None \<Rightarrow> 0 | Some ch \<Rightarrow> length (view ch))"

lemma fresh_decoder_inv:
  "fresh_cipher y mk \<lparr>encrypter = None, decrypter = Some y\<rparr> c \<Longrightarrow> decoder_inv l c \<and> buffered c = 0"
  by (auto simp: fresh_cipher_def decoder_inv_def buffered_def)

text \<open>Reading the salt keys the decrypter.\<close>

lemma decrypt_salt_any:
  assumes env: "aead_lib_ok (lib env)" "open_lengths (lib env)" "\<And>x. length (sha1 env x) = SHA_DIGEST_LENGTH"
    and inv: "decoder_inv (lib env) c" and ch: "growable_inv ch" "key_len c \<le> length (view ch)"
  shows "\<exists>ch' c' d. decrypt_salt env ch c = Some (ch', c') \<and> growable_inv ch' \<and> length (view ch') \<le> length (view ch) \<and>
    keyed_dec d (c'\<lparr>init := True\<rparr>) \<and> ready (lib env) d \<and> decoder_inv (lib env) (c'\<lparr>init := True\<rparr>)"
proof -
  obtain x where x: "encrypter (impl c) = None" "decrypter (impl c) = Some x" "aead_suite x" "key_len c = key_size x"
    "tag_len c = auth_tag_size x" "length (master_key c) = MAX_KEY_LENGTH" "length (salt c) = MAX_KEY_LENGTH"
    "\<not> is_stream c" "\<forall>ch. chunk c = Some ch \<longrightarrow> growable_inv ch"
    using inv by (auto simp: decoder_inv_def)
  define s where "s = take (key_len c) (view ch)"
  have s: "view ch = s @ drop (key_len c) (view ch)" "length s = key_len c" using ch(2) by (simp_all add: s_def)
  define k where "k = subkey env (master_key c) (key_len c) s"
  let ?d = "keyed (lib env) k x"
  have len: "length k = key_size x"
    using env(3) x(4) by (simp add: k_def subkey_def length_rfc5869 SHA_DIGEST_LENGTH_def)
  obtain ch' s' where r: "decrypt_salt env ch c = Some (ch', c\<lparr>salt := s', counter := 0, impl := impl c\<lparr>decrypter := Some ?d\<rparr>\<rparr>)"
    "growable_inv ch'" "view ch' = drop (key_len c) (view ch)" "length s' = MAX_KEY_LENGTH"
    using decrypt_salt_ok [OF env(1,3) x(1-4,6-8) ch(1) s] by (auto simp: k_def)
  have d: "ready (lib env) ?d" "auth_tag_size ?d = auth_tag_size x" "cipher_id ?d = cipher_id x"
    using keyed_ready [OF env(1,2) x(3) len] keyed_ok [OF env(1) x(3) len] by auto
  have "aead_suite ?d" "key_size ?d = key_size x" using d(1) keyed_ok [OF env(1) x(3) len] by (auto simp: ready_def)
  then show ?thesis
    using r d x by (auto simp: keyed_dec_def decoder_inv_def is_stream_def impl_cipher_id_def crypter_of_def)
qed

lemma process_bytes_any:
  assumes env: "aead_lib_ok (lib env)" "open_lengths (lib env)" "\<And>x. length (sha1 env x) = SHA_DIGEST_LENGTH"
    and vis: "\<And>b s. P s \<Longrightarrow> growable_inv b \<Longrightarrow> block_ok (view b) \<Longrightarrow> P (snd (on_received_data vis b s))"
      "\<And>s. P s \<Longrightarrow> P (on_protocol_error vis s)"
    and inv: "decoder_inv (lib env) c" "growable_inv ct" "buffered c + length (view ct) \<le> nat INT_MAX" "P s"
  shows "\<exists>c' s'. process_bytes env vis ct c s = Some (c', s') \<and> decoder_inv (lib env) c' \<and>
    buffered c' \<le> buffered c + length (view ct) \<and> P s'"
proof -
  have "\<forall>ch. chunk c = Some ch \<longrightarrow> growable_inv ch" using inv(1) by (auto simp: decoder_inv_def)
  then obtain ch where ch: "merge_chunk (junk env) (chunk c) ct = Some ch" "growable_inv ch"
    "length (view ch) = buffered c + length (view ct)"
    using merge_chunk_ok [OF inv(2), of "chunk c" "junk env"] inv(3) by (auto simp: buffered_def split: option.splits)
  have loop: "\<exists>c' s'. do { (ch2, c2, s2) \<leftarrow> process_loop env vis ch0 c0 s; Some (c2\<lparr>chunk := Some ch2\<rparr>, s2) } = Some (c', s') \<and>
      decoder_inv (lib env) c' \<and> buffered c' \<le> buffered c + length (view ct) \<and> P s'"
    if c0: "keyed_dec d c0" "ready (lib env) d" "decoder_inv (lib env) c0" "growable_inv ch0" "length (view ch0) \<le> length (view ch)"
    for c0 d ch0
  proof -
    obtain ch' n s' where "process_loop env vis ch0 c0 s = Some (ch', c0\<lparr>counter := n\<rparr>, s')" "growable_inv ch'"
      "length (view ch') \<le> length (view ch0)" "P s'"
      using process_loop_any [of env d P, OF c0(2) vis c0(1,4) inv(4)] by blast
    then show ?thesis using c0 ch(3) by (auto simp: decoder_inv_def buffered_def is_stream_def)
  qed
  show ?thesis
  proof (cases "init c")
    case True
    then obtain d where "keyed_dec d c" "ready (lib env) d" using inv(1) by (auto simp: decoder_inv_def keyed_dec_def)
    then show ?thesis using loop [of d c ch] inv(1) ch True by (simp add: process_bytes_def)
  next
    case False
    show ?thesis
    proof (cases "length (view ch) < key_len c")
      case True
      then have "process_bytes env vis ct c s = Some (c\<lparr>chunk := Some ch\<rparr>, s)"
        using False ch by (simp add: process_bytes_def buf_size_view)
      then show ?thesis using inv(1,4) ch by (auto simp: decoder_inv_def buffered_def is_stream_def)
    next
      case long: False
      then obtain ch' c' d where r: "decrypt_salt env ch c = Some (ch', c')" "growable_inv ch'"
        "length (view ch') \<le> length (view ch)" "keyed_dec d (c'\<lparr>init := True\<rparr>)" "ready (lib env) d"
        "decoder_inv (lib env) (c'\<lparr>init := True\<rparr>)"
        using decrypt_salt_any [OF env inv(1) ch(2)] by auto
      then show ?thesis using loop [of d "c'\<lparr>init := True\<rparr>" ch'] False long ch by (simp add: process_bytes_def buf_size_view)
    qed
  qed
qed

lemma feed_all_any:
  assumes env: "aead_lib_ok (lib env)" "open_lengths (lib env)" "\<And>x. length (sha1 env x) = SHA_DIGEST_LENGTH"
    and vis: "\<And>b s. P s \<Longrightarrow> growable_inv b \<Longrightarrow> block_ok (view b) \<Longrightarrow> P (snd (on_received_data vis b s))"
      "\<And>s. P s \<Longrightarrow> P (on_protocol_error vis s)"
  shows "decoder_inv (lib env) c \<Longrightarrow> \<forall>b\<in>set bs. growable_inv b \<Longrightarrow>
    buffered c + sum_list (map (length \<circ> view) bs) \<le> nat INT_MAX \<Longrightarrow> P s \<Longrightarrow>
    \<exists>c' s'. feed_all env vis bs c s = Some (c', s') \<and> P s'"
proof (induction bs arbitrary: c s)
  case (Cons b bs)
  have b: "growable_inv b" "buffered c + length (view b) \<le> nat INT_MAX" using Cons.prems by simp_all
  obtain c1 s1 where 1: "process_bytes env vis b c s = Some (c1, s1)" "decoder_inv (lib env) c1"
    "buffered c1 \<le> buffered c + length (view b)" "P s1"
    using process_bytes_any [of env P, OF env vis Cons.prems(1) b Cons.prems(4)] by blast
  then show ?case using Cons.IH [of c1 s1] Cons.prems by auto
qed simp

text \<open>C13: The decoder survives a hostile peer. For every AEAD method and whatever bytes arrive in
  whatever segments (2 GiB in total at most), \<^verbatim>\<open>process_bytes\<close> terminates on each segment, never aborts
  and never touches memory outside its buffers, for any visitor; and the blocks it hands to the visitor
  are never empty and never longer than the mask of the length field allows.\<close>

theorem decoder_never_faults:
  assumes "aead_lib_ok (lib env)" "open_lengths (lib env)" "\<forall>x. length (sha1 env x) = 20" "\<forall>x. length (md5 env x) = 16"
    and "m \<in> set (map row_num YASS_CIPHER_METHOD_OLD_MAP)" "\<not> (CRYPTO_AES_128_CFB \<le> m \<and> m \<le> CRYPTO_CAMELLIA_256_CFB)"
    and "\<forall>b\<in>set bs. growable_inv b" "sum_list (map (length \<circ> view) bs) \<le> nat INT_MAX"
  shows "\<exists>cd. new_cipher env [] password m False = Some cd \<and>
    (\<exists>cd' v'. feed_all env vis bs cd v = Some (cd', v')) \<and>
    (\<exists>cd' got err. feed_all env recorder bs cd ([], False) = Some (cd', (got, err)) \<and>
       (\<forall>p\<in>set got. 0 < length p \<and> length p \<le> CHUNK_SIZE_MASK))"
proof -
  have sha: "\<And>x. length (sha1 env x) = SHA_DIGEST_LENGTH" using assms(3) by (simp add: SHA_DIGEST_LENGTH_def)
  obtain cd where cd: "new_cipher env [] password m False = Some cd" "decoder_inv (lib env) cd" "buffered cd = 0"
    using new_cipher_pair [of env m password, OF assms(4-6)] fresh_decoder_inv by blast
  have fit: "buffered cd + sum_list (map (length \<circ> view) bs) \<le> nat INT_MAX" using cd(3) assms(8) by simp
  have "\<exists>cd' v'. feed_all env vis bs cd v = Some (cd', v')"
    using feed_all_any [of env "\<lambda>_. True" vis, OF assms(1,2) sha _ _ cd(2) assms(7) fit] by blast
  moreover have "\<exists>cd' s'. feed_all env recorder bs cd ([], False) = Some (cd', s') \<and> (\<forall>p\<in>set (fst s'). block_ok p)"
    by (rule feed_all_any [of env "\<lambda>s. \<forall>p\<in>set (fst s). block_ok p" recorder, OF assms(1,2) sha _ _ cd(2) assms(7) fit]) auto
  ultimately show ?thesis using cd(1) by (auto simp: block_ok_def)
qed

theorem decoder_never_faults_witness:
  "\<exists>b cd cd' got err. copyBuffer (\<lambda>i. 0) (replicate 100 9) = Some b \<and>
     new_cipher plain_env [] [1] CRYPTO_CHACHA20POLY1305IETF False = Some cd \<and>
     feed_all plain_env recorder [b] cd ([], False) = Some (cd', (got, err)) \<and>
     (\<forall>p\<in>set got. 0 < length p \<and> length p \<le> CHUNK_SIZE_MASK)"
proof -
  obtain b where b: "copyBuffer (\<lambda>i. 0) (replicate 100 9) = Some b" "growable_inv b" "view b = replicate 100 9"
    using copyBuffer_ok [of "replicate 100 9" "\<lambda>i. 0"] by (auto simp: INT_MAX_def)
  have m: "CRYPTO_CHACHA20POLY1305IETF \<in> set (map row_num YASS_CIPHER_METHOD_OLD_MAP)"
    by (simp add: YASS_CIPHER_METHOD_OLD_MAP_def method_tables)
  show ?thesis
    using decoder_never_faults [of plain_env CRYPTO_CHACHA20POLY1305IETF "[b]" "[1]" recorder "([], False)"]
      plain_lib_ok plain_open_lengths m b by (fastforce simp: plain_env_def INT_MAX_def)
qed

end
