(* ===== verification/Padding.thy ===== *)
theory Padding
  imports IO_Queue
begin

text \<open>
  The padding of HTTP/2 tunnels: \<^verbatim>\<open>net/padding.cpp\<close>, and the code of the connections that pads the
  first \<^verbatim>\<open>kFirstPaddings\<close> chunks they send and removes the padding from the chunks they receive
  (\<^verbatim>\<open>cli/cli_connection.cpp\<close>; \<^verbatim>\<open>server/server_connection.cpp\<close> has the same code with the two queues
  exchanged). The random padding size is an argument.
\<close>

definition kFirstPaddings :: int where
  "kFirstPaddings = 8"

definition kPaddingHeaderSize :: int where
  "kPaddingHeaderSize = 3"

definition kMaxPaddingSize :: int where
  "kMaxPaddingSize = 255"

definition AddPadding :: "(nat \<Rightarrow> byte) \<Rightarrow> nat \<Rightarrow> growable \<Rightarrow> growable option" where
  "AddPadding junk padding_size buf =
     (let payload_size = (of_int (buf_size buf) :: u16); n = unat payload_size in
      do { ret \<leftarrow> SetCapacity junk (kPaddingHeaderSize + int n + int padding_size) GrowableIOBuffer;
           let p = [ucast (drop_bit 8 payload_size), ucast (payload_size AND 0xff), of_nat padding_size];
           ret1 \<leftarrow> memcpy_data 0 p ret;
           xs \<leftarrow> data_slice buf 0 n;
           ret2 \<leftarrow> memcpy_data kPaddingHeaderSize xs ret1;
           memcpy_data (kPaddingHeaderSize + int n) (replicate padding_size 0) ret2 })"

datatype padding_error = PADDING_OK | PADDING_TRY_AGAIN | PADDING_INVALID_ARGUMENT

text \<open>The result is \<^verbatim>\<open>ec\<close>, the returned pointer, and the buffer with its new offset.\<close>

definition RemovePadding :: "(nat \<Rightarrow> byte) \<Rightarrow> growable \<Rightarrow> (padding_error \<times> growable option \<times> growable) option" where
  "RemovePadding junk buf =
     (if buf_size buf < kPaddingHeaderSize then Some (PADDING_TRY_AGAIN, None, buf)
      else do {
        p \<leftarrow> data_slice buf 0 3;
        let payload_size = uint (p ! 0) * 2 ^ 8 + uint (p ! 1);
        if payload_size = 0 then Some (PADDING_INVALID_ARGUMENT, None, buf)
        else let padding_size = uint (p ! 2) in
        if buf_size buf < kPaddingHeaderSize + payload_size + padding_size then Some (PADDING_TRY_AGAIN, None, buf)
        else do {
          buf1 \<leftarrow> set_offset (offset buf + kPaddingHeaderSize) buf;
          ret \<leftarrow> SetCapacity junk payload_size GrowableIOBuffer;
          xs \<leftarrow> data_slice buf1 0 (nat payload_size);
          ret1 \<leftarrow> memcpy_data 0 xs ret;
          buf2 \<leftarrow> set_offset (offset buf1 + payload_size + padding_size) buf1;
          Some (PADDING_OK, Some ret1, buf2) } })"

section \<open>Padded connections\<close>

record padding_state =
  padding_support_in_fact :: bool
  num_padding_send :: int
  num_padding_recv :: int
  padding_in_middle_buf :: "growable option"

text \<open>The chunk a connection hands to its data frame for the buffer it has read.\<close>

definition pad_chunk :: "(nat \<Rightarrow> byte) \<Rightarrow> nat \<Rightarrow> growable \<Rightarrow> padding_state \<Rightarrow> (growable \<times> padding_state) option" where
  "pad_chunk junk padding_size buf st =
     (if padding_support_in_fact st \<and> num_padding_send st < kFirstPaddings
      then do { let st1 = st\<lparr>num_padding_send := num_padding_send st + 1\<rparr>;
                buf1 \<leftarrow> AddPadding junk padding_size buf;
                Some (buf1, st1) }
      else Some (buf, st))"

text \<open>The loop that takes padded chunks off the middle buffer; the first component is whether it ran to
  its end, not out of the function.\<close>

function remove_paddings :: "(nat \<Rightarrow> byte) \<Rightarrow> growable \<Rightarrow> int \<Rightarrow> growable ioqueue
    \<Rightarrow> (bool \<times> growable \<times> int \<times> growable ioqueue) option" where
  "remove_paddings junk mid num q =
     (if num < kFirstPaddings
      then do { (ec, buf, mid1) \<leftarrow> RemovePadding junk mid;
                if ec \<noteq> PADDING_OK then Some (False, mid1, num, q)
                else do { b \<leftarrow> buf;
                          q1 \<leftarrow> push_back b q;
                          remove_paddings junk mid1 (num + 1) q1 } }
      else Some (True, mid, num, q))"
  by pat_completeness auto
termination
  by (relation "measure (\<lambda>(junk, mid, num, q). nat (kFirstPaddings - num))") (auto simp: kFirstPaddings_def)

declare remove_paddings.simps [simp del]

definition OnDataForStream :: "(nat \<Rightarrow> byte) \<Rightarrow> byte list \<Rightarrow> padding_state \<Rightarrow> growable ioqueue
    \<Rightarrow> (padding_state \<times> growable ioqueue) option" where
  "OnDataForStream junk data st downstream =
     (if padding_support_in_fact st \<and> num_padding_recv st < kFirstPaddings
      then do {
        mid \<leftarrow> (case padding_in_middle_buf st of
                  Some previous_chunk \<Rightarrow>
                    do { let size = RemainingCapacity previous_chunk + int (length data);
                         m1 \<leftarrow> SetCapacity junk size GrowableIOBuffer;
                         xs \<leftarrow> data_slice previous_chunk 0 (nat (RemainingCapacity previous_chunk));
                         m2 \<leftarrow> memcpy_data 0 xs m1;
                         memcpy_data (RemainingCapacity previous_chunk) data m2 }
                | None \<Rightarrow> copyBuffer junk data);
        (finished, mid1, num, q) \<leftarrow> remove_paddings junk mid (num_padding_recv st) downstream;
        let st1 = st\<lparr>num_padding_recv := num, padding_in_middle_buf := Some mid1\<rparr>;
        if \<not> finished then Some (st1, q)
        else if num \<ge> kFirstPaddings \<and> \<not> iobuf_empty mid1
        then do { q1 \<leftarrow> push_back mid1 q; Some (st1\<lparr>padding_in_middle_buf := None\<rparr>, q1) }
        else Some (st1, q) }
      else do { q \<leftarrow> push_back_bytes junk data downstream; Some (st, q) })"

section \<open>Padding and removing it\<close>

definition pad_header :: "nat \<Rightarrow> nat \<Rightarrow> byte list" where
  "pad_header n r = [hi8 (of_nat n), lo8 (of_nat n), of_nat r]"

definition padded :: "nat \<Rightarrow> byte list \<Rightarrow> byte list" where
  "padded r xs = pad_header (length xs) r @ xs @ replicate r 0"

definition chunk_ok :: "nat \<times> byte list \<Rightarrow> bool" where
  "chunk_ok c \<longleftrightarrow> fst c \<le> nat kMaxPaddingSize \<and> 0 < length (snd c) \<and> length (snd c) \<le> 0xffff"

lemma uint_hi8_lo8: "uint (hi8 w) * 256 + uint (lo8 w) = uint w"
proof -
  have "uint (hi8 w) = drop_bit 8 (uint w)"
    by (rule bit_eqI) (auto simp: hi8_def bit_simps bit_uint_iff dest: bit_imp_le_length)
  moreover have "uint (lo8 w) = take_bit 8 (uint w)"
    by (rule bit_eqI) (auto simp: lo8_def bit_simps bit_uint_iff)
  ultimately show ?thesis by (simp add: drop_bit_eq_div take_bit_eq_mod)
qed

lemma pad_header_decode:
  assumes "n \<le> 0xffff" "r \<le> 255"
  shows "uint (pad_header n r ! 0) * 2 ^ 8 + uint (pad_header n r ! 1) = int n" "uint (pad_header n r ! 2) = int r"
proof -
  have "uint (of_nat n :: u16) = int n" using assms(1) by (simp add: unsigned_of_nat take_bit_eq_mod)
  then show "uint (pad_header n r ! 0) * 2 ^ 8 + uint (pad_header n r ! 1) = int n"
    using uint_hi8_lo8 [of "of_nat n"] by (simp add: pad_header_def)
  show "uint (pad_header n r ! 2) = int r"
    using assms(2) by (simp add: pad_header_def unsigned_of_nat take_bit_eq_mod)
qed

lemma length_padded: "length (padded r xs) = 3 + length xs + r"
  by (simp add: padded_def pad_header_def)

lemma AddPadding_ok:
  assumes "growable_inv b" "length (view b) \<le> 0xffff" "r \<le> 255"
  shows "\<exists>b'. AddPadding junk r b = Some b' \<and> growable_inv b' \<and> view b' = padded r (view b)"
proof -
  let ?n = "length (view b)"
  have w: "(of_int (buf_size b) :: u16) = of_nat ?n" "unat (of_nat ?n :: u16) = ?n" "uint (of_nat ?n :: u16) = int ?n"
    using assms(2) by (simp_all add: buf_size_view [OF assms(1)] unat_of_nat unsigned_of_nat take_bit_eq_mod)
  have hdr: "[ucast (drop_bit 8 (of_nat ?n :: u16)), ucast ((of_nat ?n :: u16) AND 0xff), of_nat r] = pad_header ?n r"
    by (auto simp: pad_header_def hi8_def lo8_def intro!: bit_eqI simp: bit_simps dest: bit_imp_le_length)
  obtain b1 fresh where b1: "SetCapacity junk (3 + int ?n + int r) GrowableIOBuffer = Some b1" "growable_inv b1"
    "view b1 = fresh" "length fresh = 3 + ?n + r"
    using SetCapacity_grow [of GrowableIOBuffer "3 + int ?n + int r" junk] assms(2,3) by (auto simp: INT_MAX_def nat_add_distrib)
  define f1 f2 f3 where "f1 = take 3 fresh" and "f2 = take ?n (drop 3 fresh)" and "f3 = drop (3 + ?n) fresh"
  have f: "view b1 = f1 @ f2 @ f3" "length f1 = 3" "length f2 = ?n" "length f3 = r"
    using b1(3,4) unfolding f1_def f2_def f3_def
    by (simp_all add: add.commute) (metis append_take_drop_id drop_drop add.commute)
  obtain b2 where b2: "memcpy_data 0 (pad_header ?n r) b1 = Some b2" "growable_inv b2" "view b2 = pad_header ?n r @ f2 @ f3"
    using memcpy_append [OF b1(2), of "[]" f1 "f2 @ f3" "pad_header ?n r"] f by (auto simp: pad_header_def)
  obtain b3 where b3: "memcpy_data 3 (view b) b2 = Some b3" "growable_inv b3" "view b3 = pad_header ?n r @ view b @ f3"
    using memcpy_append [OF b2(2), of "pad_header ?n r" f2 f3 "view b"] b2(3) f by (auto simp: pad_header_def)
  obtain b4 where b4: "memcpy_data (3 + int ?n) (replicate r 0) b3 = Some b4" "growable_inv b4"
    "view b4 = pad_header ?n r @ view b @ replicate r 0"
    using memcpy_append [OF b3(2), of "pad_header ?n r @ view b" f3 "[]" "replicate r 0"] b3(3) f by (auto simp: pad_header_def)
  have "AddPadding junk r b = Some b4"
    using data_slice_view [OF assms(1), of ?n] b1(1) b2(1) b3(1) b4(1)
    by (simp add: AddPadding_def Let_def w kPaddingHeaderSize_def hdr)
  then show ?thesis using b4 by (simp add: padded_def)
qed

lemma RemovePadding_ok:
  assumes "growable_inv b" "view b = padded r xs @ rest" "chunk_ok (r, xs)"
  shows "\<exists>ret b'. RemovePadding junk b = Some (PADDING_OK, Some ret, b') \<and> growable_inv ret \<and> view ret = xs \<and>
    growable_inv b' \<and> view b' = rest"
proof -
  let ?n = "length xs"
  have ok: "0 < ?n" "?n \<le> 0xffff" "r \<le> 255" using assms(3) by (auto simp: chunk_ok_def kMaxPaddingSize_def)
  have h: "take 3 (view b) = pad_header ?n r" using assms(2) by (simp add: padded_def pad_header_def)
  have p: "data_slice b 0 3 = Some (pad_header ?n r)"
    using data_slice_view [OF assms(1), of 3] h assms(2) by (simp add: length_padded)
  note size = buf_size_view [OF assms(1)]
  obtain b1 where b1: "set_offset (offset b + 3) b = Some b1" "growable_inv b1" "view b1 = xs @ replicate r 0 @ rest"
    using set_offset_advance [OF assms(1), of 3] assms(2) by (auto simp: length_padded) (auto simp: padded_def pad_header_def)
  obtain ret where ret: "SetCapacity junk (int ?n) GrowableIOBuffer = Some ret" "growable_inv ret" "length (view ret) = ?n"
    using SetCapacity_grow [of GrowableIOBuffer "int ?n" junk] ok by (auto simp: INT_MAX_def)
  obtain ret1 where ret1: "memcpy_data 0 xs ret = Some ret1" "growable_inv ret1" "view ret1 = xs"
    using memcpy_append [OF ret(2), of "[]" "view ret" "[]" xs] ret(3) by auto
  obtain b2 where b2: "set_offset (offset b1 + int (?n + r)) b1 = Some b2" "growable_inv b2" "view b2 = rest"
    using set_offset_advance [OF b1(2), of "?n + r"] b1(3) by auto
  have b2': "set_offset (offset b1 + int ?n + int r) b1 = Some b2" using b2(1) by (simp add: add.assoc)
  have xs: "data_slice b1 0 ?n = Some xs" using data_slice_view [OF b1(2), of ?n] b1(3) by simp
  have "RemovePadding junk b = Some (PADDING_OK, Some ret1, b2)"
    using ok b1(1) ret(1) ret1(1)
    by (simp add: RemovePadding_def kPaddingHeaderSize_def size p assms(2) length_padded Let_def
        pad_header_decode [OF ok(2,3), simplified] b2' xs)
  then show ?thesis using ret1 b2 by blast
qed

lemma RemovePadding_short:
  assumes "growable_inv b" "view b @ zs = padded r xs" "zs \<noteq> []" "chunk_ok (r, xs)"
  shows "RemovePadding junk b = Some (PADDING_TRY_AGAIN, None, b)"
proof (cases "length (view b) < 3")
  case True
  then show ?thesis by (simp add: RemovePadding_def kPaddingHeaderSize_def buf_size_view [OF assms(1)])
next
  case False
  let ?n = "length xs"
  have ok: "0 < ?n" "?n \<le> 0xffff" "r \<le> 255" using assms(4) by (auto simp: chunk_ok_def kMaxPaddingSize_def)
  have "take 3 (view b) = pad_header ?n r"
    using False arg_cong [OF assms(2), of "take 3"] by (simp add: padded_def pad_header_def)
  then have p: "data_slice b 0 3 = Some (pad_header ?n r)" using data_slice_view [OF assms(1), of 3] False by simp
  have "length (view b) + length zs = 3 + ?n + r" using arg_cong [OF assms(2), of length] by (simp add: length_padded)
  moreover have "0 < length zs" using assms(3) by simp
  ultimately have "length (view b) < 3 + ?n + r" by linarith
  then show ?thesis
    using False ok
    by (simp add: RemovePadding_def kPaddingHeaderSize_def buf_size_view [OF assms(1)] p Let_def
        pad_header_decode [OF ok(2,3), simplified])
qed

section \<open>The padded stream\<close>

text \<open>What a padding sender puts on the wire for chunks with their padding sizes.\<close>

definition pads :: "(nat \<times> byte list) list \<Rightarrow> byte list" where
  "pads cs = concat (map (\<lambda>c. padded (fst c) (snd c)) cs)"

definition padded_stream :: "(nat \<times> byte list) list \<Rightarrow> byte list" where
  "padded_stream cs = pads (take 8 cs) @ concat (map snd (drop 8 cs))"

lemma pads_simps [simp]: "pads [] = []" "pads (c # cs) = padded (fst c) (snd c) @ pads cs" "pads (cs @ ds) = pads cs @ pads ds"
  by (simp_all add: pads_def)

text \<open>A position in the stream: \<open>rest\<close> is what is left after the first \<open>k\<close> chunks, not yet a whole chunk.\<close>

definition mid_chunk :: "(nat \<times> byte list) list \<Rightarrow> nat \<Rightarrow> byte list \<Rightarrow> bool" where
  "mid_chunk cs k rest \<longleftrightarrow>
     (if k = length cs then rest = [] else \<exists>zs. zs \<noteq> [] \<and> rest @ zs = padded (fst (cs ! k)) (snd (cs ! k)))"

lemma split_front:
  assumes "xs @ ys = fs @ zs"
  shows "(\<exists>ws. xs = fs @ ws \<and> ws @ ys = zs) \<or> (\<exists>ws. ws \<noteq> [] \<and> xs @ ws = fs)"
  using assms by (auto simp: append_eq_append_conv2)

lemma remove_paddings_prefix:
  assumes cs: "\<forall>c\<in>set cs. chunk_ok c" and raw: "length cs < 8 \<longrightarrow> raw = []"
  shows "k \<le> length (take 8 cs) \<Longrightarrow> growable_inv mid \<Longrightarrow> ioq_inv dql q \<Longrightarrow>
    view mid @ ys = pads (drop k (take 8 cs)) @ raw \<Longrightarrow>
    \<exists>j mid' q'. k \<le> j \<and> j \<le> length (take 8 cs) \<and>
      remove_paddings junk mid (int k) q = Some (j = 8, mid', int j, q') \<and> growable_inv mid' \<and> ioq_inv dql q' \<and>
      map view (ioq_elems q') = map view (ioq_elems q) @ map snd (drop k (take j cs)) \<and>
      view mid = pads (drop k (take j cs)) @ view mid' \<and> (j < 8 \<longrightarrow> mid_chunk cs j (view mid'))"
proof (induction "8 - k" arbitrary: k mid q)
  case 0
  then have "k = 8" by simp
  then show ?case using 0 by (intro exI [of _ 8]) (simp add: remove_paddings.simps kFirstPaddings_def)
next
  case (Suc n)
  then have k8: "k < 8" by simp
  note step = remove_paddings.simps [of junk mid _ q]
  show ?case
  proof (cases "k = length cs")
    case True
    then have v: "view mid = []" using Suc.prems(4) raw k8 by simp
    then have "RemovePadding junk mid = Some (PADDING_TRY_AGAIN, None, mid)"
      by (simp add: RemovePadding_def kPaddingHeaderSize_def buf_size_view [OF Suc.prems(2)])
    then show ?thesis using True v Suc.prems k8
      by (intro exI [of _ k] exI [of _ mid] exI [of _ q]) (simp add: step kFirstPaddings_def mid_chunk_def)
  next
    case False
    then have kl: "k < length cs" using Suc.prems(1) by simp
    then have d: "drop k (take 8 cs) = cs ! k # drop (Suc k) (take 8 cs)" using k8 by (simp add: Cons_nth_drop_Suc [symmetric])
    obtain r xs where c: "cs ! k = (r, xs)" by fastforce
    then have ok: "chunk_ok (r, xs)" using cs kl nth_mem by force
    have eq: "view mid @ ys = padded r xs @ (pads (drop (Suc k) (take 8 cs)) @ raw)" using Suc.prems(4) d c by simp
    consider ws where "view mid = padded r xs @ ws" "ws @ ys = pads (drop (Suc k) (take 8 cs)) @ raw"
      | zs where "zs \<noteq> []" "view mid @ zs = padded r xs" using split_front [OF eq] by blast
    then show ?thesis
    proof cases
      case 1
      obtain b mid1 where b: "RemovePadding junk mid = Some (PADDING_OK, Some b, mid1)" "view b = xs"
        "growable_inv mid1" "view mid1 = ws"
        using RemovePadding_ok [OF Suc.prems(2) 1(1) ok, of junk] by blast
      obtain q1 where q1: "push_back b q = Some q1" "ioq_inv dql q1" "ioq_elems q1 = ioq_elems q @ [b]"
        using ioq.psh_ok [OF Suc.prems(3)] by blast
      have "n = 8 - Suc k" "Suc k \<le> length (take 8 cs)" using Suc.hyps(2) kl k8 by auto
      then obtain j mid' q' where j: "Suc k \<le> j" "j \<le> length (take 8 cs)"
        "remove_paddings junk mid1 (int (Suc k)) q1 = Some (j = 8, mid', int j, q')" "growable_inv mid'" "ioq_inv dql q'"
        "map view (ioq_elems q') = map view (ioq_elems q1) @ map snd (drop (Suc k) (take j cs))"
        "view mid1 = pads (drop (Suc k) (take j cs)) @ view mid'" "j < 8 \<longrightarrow> mid_chunk cs j (view mid')"
        using Suc.hyps(1) [of "Suc k" mid1 q1] b(3) q1(2) 1(2) b(4) by auto
      have "drop k (take j cs) = (r, xs) # drop (Suc k) (take j cs)"
        using kl j(1) c by (simp add: Cons_nth_drop_Suc [symmetric])
      then show ?thesis using j b q1 1(1) k8
        by (intro exI [of _ j] exI [of _ mid'] exI [of _ q']) (simp add: step kFirstPaddings_def add.commute)
    next
      case 2
      then have "RemovePadding junk mid = Some (PADDING_TRY_AGAIN, None, mid)"
        using RemovePadding_short [OF Suc.prems(2) 2(2,1) ok] by simp
      then show ?thesis using 2 c Suc.prems k8 kl
        by (intro exI [of _ k] exI [of _ mid] exI [of _ q]) (auto simp: step kFirstPaddings_def mid_chunk_def)
    qed
  qed
qed

text \<open>The state of a receiver that has been given the bytes \<open>S\<close>.\<close>

definition mid_view :: "padding_state \<Rightarrow> byte list" where
  "mid_view st = (case padding_in_middle_buf st of None \<Rightarrow> [] | Some b \<Rightarrow> view b)"

definition receiving :: "nat \<Rightarrow> (nat \<times> byte list) list \<Rightarrow> byte list \<Rightarrow> padding_state \<Rightarrow> growable ioqueue \<Rightarrow> bool" where
  "receiving dql cs S st q \<longleftrightarrow> padding_support_in_fact st \<and> ioq_inv dql q \<and>
     (if num_padding_recv st < 8
      then \<exists>k. num_padding_recv st = int k \<and> k \<le> length cs \<and> (\<forall>b. padding_in_middle_buf st = Some b \<longrightarrow> growable_inv b) \<and>
             S = pads (take k cs) @ mid_view st \<and> map view (ioq_elems q) = map snd (take k cs) \<and> mid_chunk cs k (mid_view st)
      else \<exists>raw. S = pads (take 8 cs) @ raw \<and> 8 \<le> length cs \<and>
             concat (map view (ioq_elems q)) = concat (map snd (take 8 cs)) @ raw)"

lemma middle_buffer:
  assumes "\<forall>b. padding_in_middle_buf st = Some b \<longrightarrow> growable_inv b" "int (length (mid_view st)) + int (length data) \<le> INT_MAX"
  shows "\<exists>mid. (case padding_in_middle_buf st of
      Some previous_chunk \<Rightarrow>
        do { let size = RemainingCapacity previous_chunk + int (length data);
             m1 \<leftarrow> SetCapacity junk size GrowableIOBuffer;
             xs \<leftarrow> data_slice previous_chunk 0 (nat (RemainingCapacity previous_chunk));
             m2 \<leftarrow> memcpy_data 0 xs m1;
             memcpy_data (RemainingCapacity previous_chunk) data m2 }
    | None \<Rightarrow> copyBuffer junk data) = Some mid \<and> growable_inv mid \<and> view mid = mid_view st @ data"
proof (cases "padding_in_middle_buf st")
  case None
  then show ?thesis using copyBuffer_ok [of data junk] assms(2) by (auto simp: mid_view_def)
next
  case (Some p)
  with assms append_copy [of p data junk] show ?thesis
    by (auto simp: mid_view_def RemainingCapacity_view data_slice_view Let_def)
qed

text \<open>Less than one padded chunk is kept in the middle buffer.\<close>

lemma mid_chunk_length:
  assumes "mid_chunk cs k rest" "k \<le> length cs" "\<forall>c\<in>set cs. chunk_ok c"
  shows "length rest \<le> 65793"
proof (cases "k = length cs")
  case False
  then have "chunk_ok (cs ! k)" using assms by simp
  moreover obtain zs where "rest @ zs = padded (fst (cs ! k)) (snd (cs ! k))" using assms(1) False by (auto simp: mid_chunk_def)
  then have "length rest \<le> 3 + length (snd (cs ! k)) + fst (cs ! k)" by (metis length_append length_padded le_add1)
  ultimately show ?thesis by (simp add: chunk_ok_def kMaxPaddingSize_def)
qed (use assms in \<open>simp add: mid_chunk_def\<close>)

lemma receiving_step:
  assumes cs: "\<forall>c\<in>set cs. chunk_ok c" and rec: "receiving dql cs S st q"
    and pre: "S @ data @ zs = padded_stream cs" and sz: "int (length data) + 65793 \<le> INT_MAX"
  shows "\<exists>st' q'. OnDataForStream junk data st q = Some (st', q') \<and> receiving dql cs (S @ data) st' q'"
proof (cases "num_padding_recv st < 8")
  case True
  with rec obtain k where k: "num_padding_recv st = int k" "k \<le> length cs" "k < 8"
    "\<forall>b. padding_in_middle_buf st = Some b \<longrightarrow> growable_inv b" "S = pads (take k cs) @ mid_view st"
    "map view (ioq_elems q) = map snd (take k cs)" "mid_chunk cs k (mid_view st)" "padding_support_in_fact st" "ioq_inv dql q"
    by (auto simp: receiving_def)
  have "int (length (mid_view st)) + int (length data) \<le> INT_MAX" using mid_chunk_length [OF k(7,2) cs] sz by simp
  from middle_buffer [OF k(4) this, of junk] obtain mid where mid:
    "(case padding_in_middle_buf st of
        Some previous_chunk \<Rightarrow>
          do { let size = RemainingCapacity previous_chunk + int (length data);
               m1 \<leftarrow> SetCapacity junk size GrowableIOBuffer;
               xs \<leftarrow> data_slice previous_chunk 0 (nat (RemainingCapacity previous_chunk));
               m2 \<leftarrow> memcpy_data 0 xs m1;
               memcpy_data (RemainingCapacity previous_chunk) data m2 }
      | None \<Rightarrow> copyBuffer junk data) = Some mid" "growable_inv mid" "view mid = mid_view st @ data" by blast
  define raw where "raw = concat (map snd (drop 8 cs))"
  have raw: "length cs < 8 \<longrightarrow> raw = []" by (simp add: raw_def)
  have "take 8 cs = take k cs @ drop k (take 8 cs)" using k(3) by (metis append_take_drop_id min.absorb1 less_imp_le take_take)
  then have "padded_stream cs = pads (take k cs) @ pads (drop k (take 8 cs)) @ raw"
    by (metis append.assoc padded_stream_def pads_simps(3) raw_def)
  then have "view mid @ zs = pads (drop k (take 8 cs)) @ raw" using pre k(5) mid(3) by simp
  moreover have "k \<le> length (take 8 cs)" using k by simp
  ultimately obtain j mid' q' where j: "k \<le> j" "j \<le> length (take 8 cs)"
    "remove_paddings junk mid (int k) q = Some (j = 8, mid', int j, q')" "growable_inv mid'" "ioq_inv dql q'"
    "map view (ioq_elems q') = map view (ioq_elems q) @ map snd (drop k (take j cs))"
    "view mid = pads (drop k (take j cs)) @ view mid'" "j < 8 \<longrightarrow> mid_chunk cs j (view mid')"
    using remove_paddings_prefix [OF cs raw _ mid(2) k(9), of k zs junk] by blast
  have tj: "take j cs = take k cs @ drop k (take j cs)" using j(1) by (metis append_take_drop_id min.absorb1 take_take)
  have S: "S @ data = pads (take j cs) @ view mid'" using k(5) mid(3) j(7) by (subst tj) simp
  have elems: "map view (ioq_elems q') = map snd (take j cs)" using k(6) j(6) by (subst tj) simp
  note unf = OnDataForStream_def kFirstPaddings_def k(1,8) mid(1) j(3)
  consider "j < 8" | "j = 8" "view mid' = []" | "j = 8" "view mid' \<noteq> []" using j(2) by fastforce
  then show ?thesis
  proof cases
    case 1
    then show ?thesis using k(3) S elems j by (auto simp: unf receiving_def mid_view_def)
  next
    case 2
    have "concat (map view (ioq_elems q')) = concat (map snd (take 8 cs))" using elems 2 by simp
    then show ?thesis using k(3,8) S 2 j by (auto simp: unf receiving_def iobuf_empty_view)
  next
    case 3
    obtain q2 where q2: "push_back mid' q' = Some q2" "ioq_inv dql q2" "ioq_elems q2 = ioq_elems q' @ [mid']"
      using ioq.psh_ok [OF j(5)] by blast
    have "concat (map view (ioq_elems q2)) = concat (map snd (take 8 cs)) @ view mid'" using elems 3 q2(3) by simp
    then show ?thesis using k(3,8) S 3 j q2 by (auto simp: unf receiving_def iobuf_empty_view)
  qed
next
  case False
  with rec obtain raw where raw: "S = pads (take 8 cs) @ raw" "8 \<le> length cs" "padding_support_in_fact st" "ioq_inv dql q"
    "concat (map view (ioq_elems q)) = concat (map snd (take 8 cs)) @ raw" by (auto simp: receiving_def)
  obtain b where b: "copyBuffer junk data = Some b" "view b = data" using copyBuffer_ok [of data junk] sz by auto
  obtain q' where "push_back b q = Some q'" "ioq_inv dql q'" "ioq_elems q' = ioq_elems q @ [b]"
    using ioq.psh_ok [OF raw(4)] by blast
  with raw b False show ?thesis by (simp add: OnDataForStream_def kFirstPaddings_def push_back_bytes_def receiving_def)
qed

section \<open>Sending and receiving\<close>

primrec send_chunks :: "(nat \<Rightarrow> byte) \<Rightarrow> (nat \<times> growable) list \<Rightarrow> padding_state \<Rightarrow> (growable list \<times> padding_state) option" where
  "send_chunks junk [] st = Some ([], st)"
| "send_chunks junk (c # cs) st =
     do { (b, st1) \<leftarrow> pad_chunk junk (fst c) (snd c) st;
          (bs, st2) \<leftarrow> send_chunks junk cs st1;
          Some (b # bs, st2) }"

primrec receive_all :: "(nat \<Rightarrow> byte) \<Rightarrow> byte list list \<Rightarrow> padding_state \<Rightarrow> growable ioqueue
    \<Rightarrow> (padding_state \<times> growable ioqueue) option" where
  "receive_all junk [] st q = Some (st, q)"
| "receive_all junk (d # ds) st q = do { (st1, q1) \<leftarrow> OnDataForStream junk d st q; receive_all junk ds st1 q1 }"

definition new_padding_state :: padding_state where
  "new_padding_state =
     \<lparr>padding_support_in_fact = True, num_padding_send = 0, num_padding_recv = 0, padding_in_middle_buf = None\<rparr>"

lemma send_chunks_stream:
  "padding_support_in_fact st \<Longrightarrow> num_padding_send st = int n \<Longrightarrow> n \<le> 8 \<Longrightarrow>
   \<forall>c\<in>set cs. growable_inv (snd c) \<and> chunk_ok (fst c, view (snd c)) \<Longrightarrow>
   \<exists>bs st'. send_chunks junk cs st = Some (bs, st') \<and> length bs = length cs \<and>
     concat (map view bs) = (let ds = map (\<lambda>c. (fst c, view (snd c))) cs in pads (take (8 - n) ds) @ concat (map snd (drop (8 - n) ds)))"
proof (induction cs arbitrary: st n)
  case (Cons c cs)
  have c: "growable_inv (snd c)" "length (view (snd c)) \<le> 0xffff" "fst c \<le> 255"
    using Cons.prems(4) by (auto simp: chunk_ok_def kMaxPaddingSize_def)
  show ?case
  proof (cases "n < 8")
    case True
    obtain b where b: "AddPadding junk (fst c) (snd c) = Some b" "view b = padded (fst c) (view (snd c))"
      using AddPadding_ok [OF c] by blast
    have "8 - n = Suc (8 - Suc n)" using True by simp
    then show ?thesis
      using Cons.IH [of "st\<lparr>num_padding_send := num_padding_send st + 1\<rparr>" "Suc n"] Cons.prems True b
      by (fastforce simp: pad_chunk_def kFirstPaddings_def Let_def)
  next
    case False
    then show ?thesis using Cons.IH [of st n] Cons.prems by (fastforce simp: pad_chunk_def kFirstPaddings_def Let_def)
  qed
qed (simp add: Let_def)

lemma receive_all_ok:
  assumes cs: "\<forall>c\<in>set cs. chunk_ok c"
  shows "receiving dql cs S st q \<Longrightarrow> S @ concat ds @ zs = padded_stream cs \<Longrightarrow>
    \<forall>d\<in>set ds. int (length d) + 65793 \<le> INT_MAX \<Longrightarrow>
    \<exists>st' q'. receive_all junk ds st q = Some (st', q') \<and> receiving dql cs (S @ concat ds) st' q'"
proof (induction ds arbitrary: S st q)
  case (Cons d ds)
  obtain st1 q1 where 1: "OnDataForStream junk d st q = Some (st1, q1)" "receiving dql cs (S @ d) st1 q1"
    using receiving_step [OF cs Cons.prems(1), of d "concat ds @ zs" junk] Cons.prems(2,3) by auto
  then show ?case using Cons.IH [OF 1(2)] Cons.prems(2,3) by auto
qed simp

lemma receiving_delivers:
  assumes "receiving dql cs S st q" "S @ zs = padded_stream cs" "\<forall>c\<in>set cs. chunk_ok c"
  shows "\<exists>ys. concat (map view (ioq_elems q)) @ ys = concat (map snd cs) \<and> (zs = [] \<longrightarrow> ys = [])"
proof (cases "num_padding_recv st < 8")
  case True
  with assms(1) obtain k where k: "k \<le> length cs" "k < 8" "S = pads (take k cs) @ mid_view st"
    "map view (ioq_elems q) = map snd (take k cs)" "mid_chunk cs k (mid_view st)" by (auto simp: receiving_def)
  have cut: "concat (map snd (take k cs)) @ concat (map snd (drop k cs)) = concat (map snd cs)"
    by (metis append_take_drop_id concat_append map_append)
  have "k = length cs" if "zs = []"
  proof (rule ccontr)
    assume "k \<noteq> length cs"
    then have kl: "k < length cs" using k(1) by simp
    then obtain ws where ws: "ws \<noteq> []" "mid_view st @ ws = padded (fst (cs ! k)) (snd (cs ! k))"
      using k(5) by (auto simp: mid_chunk_def)
    have d: "drop k (take 8 cs) = cs ! k # drop (Suc k) (take 8 cs)"
      using kl k(2) by (simp add: Cons_nth_drop_Suc [symmetric])
    have "take 8 cs = take k cs @ drop k (take 8 cs)" using k(2) by (metis append_take_drop_id min.absorb1 less_imp_le take_take)
    then have "pads (take 8 cs) = pads (take k cs @ drop k (take 8 cs))" by (rule arg_cong)
    then have t: "pads (take 8 cs) = pads (take k cs) @ (mid_view st @ ws) @ pads (drop (Suc k) (take 8 cs))"
      unfolding d ws(2) by (simp only: pads_simps)
    have "pads (take k cs) @ mid_view st = pads (take 8 cs) @ concat (map snd (drop 8 cs))"
      using assms(2) that k(3) by (simp add: padded_stream_def)
    with ws(1) show False by (simp add: t)
  qed
  then show ?thesis using cut k(4) by (intro exI [of _ "concat (map snd (drop k cs))"]) auto
next
  case False
  with assms(1) obtain raw where raw: "S = pads (take 8 cs) @ raw"
    "concat (map view (ioq_elems q)) = concat (map snd (take 8 cs)) @ raw" by (auto simp: receiving_def)
  then have "raw @ zs = concat (map snd (drop 8 cs))" using assms(2) by (simp add: padded_stream_def)
  moreover have "concat (map snd (take 8 cs)) @ concat (map snd (drop 8 cs)) = concat (map snd cs)"
    by (metis append_take_drop_id concat_append map_append)
  ultimately show ?thesis using raw(2) by (intro exI [of _ zs]) simp
qed

lemma empty_payload_step:
  assumes st: "padding_support_in_fact st" "num_padding_recv st < 8" "\<forall>b. padding_in_middle_buf st = Some b \<longrightarrow> growable_inv b"
    and mid: "mid_view st = 0 # 0 # r # rest" and sz: "int (length (mid_view st)) + int (length data) \<le> INT_MAX"
  shows "\<exists>b. OnDataForStream junk data st q = Some (st\<lparr>padding_in_middle_buf := Some b\<rparr>, q) \<and> growable_inv b \<and>
    view b = mid_view st @ data"
proof -
  from middle_buffer [OF st(3) sz, of junk] obtain b where b:
    "(case padding_in_middle_buf st of
        Some previous_chunk \<Rightarrow>
          do { let size = RemainingCapacity previous_chunk + int (length data);
               m1 \<leftarrow> SetCapacity junk size GrowableIOBuffer;
               xs \<leftarrow> data_slice previous_chunk 0 (nat (RemainingCapacity previous_chunk));
               m2 \<leftarrow> memcpy_data 0 xs m1;
               memcpy_data (RemainingCapacity previous_chunk) data m2 }
      | None \<Rightarrow> copyBuffer junk data) = Some b" "growable_inv b" "view b = mid_view st @ data" by blast
  have "data_slice b 0 3 = Some [0, 0, r]" using data_slice_view [OF b(2), of 3] by (simp add: b(3) mid)
  then have "RemovePadding junk b = Some (PADDING_INVALID_ARGUMENT, None, b)"
    by (simp add: RemovePadding_def kPaddingHeaderSize_def buf_size_view [OF b(2)] b(3) mid)
  then have "remove_paddings junk b (num_padding_recv st) q = Some (False, b, num_padding_recv st, q)"
    using st(2) by (simp add: remove_paddings.simps kFirstPaddings_def)
  then show ?thesis using st(1,2) b by (intro exI [of _ b]) (simp add: OnDataForStream_def kFirstPaddings_def)
qed

lemma empty_payload_stall:
  "padding_support_in_fact st \<Longrightarrow> num_padding_recv st < 8 \<Longrightarrow> \<forall>b. padding_in_middle_buf st = Some b \<longrightarrow> growable_inv b \<Longrightarrow>
   mid_view st = 0 # 0 # r # rest \<Longrightarrow> int (length (mid_view st)) + int (length (concat ds)) \<le> INT_MAX \<Longrightarrow>
   \<exists>st'. receive_all junk ds st q = Some (st', q) \<and> mid_view st' = mid_view st @ concat ds"
proof (induction ds arbitrary: st rest)
  case (Cons d ds)
  obtain b where b: "OnDataForStream junk d st q = Some (st\<lparr>padding_in_middle_buf := Some b\<rparr>, q)" "growable_inv b"
    "view b = mid_view st @ d"
    using empty_payload_step [OF Cons.prems(1-4), of d junk q] Cons.prems(5) by auto
  moreover have "mid_view (st\<lparr>padding_in_middle_buf := Some b\<rparr>) = mid_view st @ d" using b(3) by (simp add: mid_view_def)
  ultimately show ?case
    using Cons.IH [of "st\<lparr>padding_in_middle_buf := Some b\<rparr>" "rest @ d"] Cons.prems by auto
qed simp

section \<open>Properties\<close>

text \<open>C14: A padded tunnel is transparent. Chunks of 1 to 65535 bytes are sent, the first eight of them
  padded with any amounts of padding; the resulting bytes arrive cut into any pieces. After any prefix
  of the pieces the receiver has not faulted, and the bytes in its queue are a prefix of the bytes that
  were sent; after all of them they are exactly the bytes that were sent. Padding is removed even when a
  header, a payload or the boundary between padded and plain chunks is split between two pieces.\<close>

theorem padding_roundtrip:
  assumes "\<forall>c\<in>set cs. growable_inv (snd c) \<and> fst c \<le> nat kMaxPaddingSize \<and> 0 < length (view (snd c)) \<and> length (view (snd c)) \<le> 0xffff"
    and "2 \<le> dql"
  shows "\<exists>bs st. send_chunks junk cs new_padding_state = Some (bs, st) \<and> length bs = length cs \<and>
    (\<forall>ds zs. concat ds @ zs = concat (map view bs) \<and> (\<forall>d\<in>set ds. int (length d) + 65793 \<le> INT_MAX) \<longrightarrow>
       (\<exists>st' q ys. receive_all junk ds new_padding_state (IoQueue dql) = Some (st', q) \<and>
          concat (map view (ioq_elems q)) @ ys = concat (map (\<lambda>c. view (snd c)) cs) \<and> (zs = [] \<longrightarrow> ys = [])))"
proof -
  let ?cs = "map (\<lambda>c. (fst c, view (snd c))) cs"
  have ok: "\<forall>c\<in>set ?cs. chunk_ok c" using assms(1) by (auto simp: chunk_ok_def)
  obtain bs st where send: "send_chunks junk cs new_padding_state = Some (bs, st)" "length bs = length cs"
    "concat (map view bs) = padded_stream ?cs"
    using send_chunks_stream [of new_padding_state 0 cs junk] assms(1)
    by (auto simp: new_padding_state_def chunk_ok_def Let_def padded_stream_def)
  have "\<exists>zs. zs \<noteq> [] \<and> zs = padded (fst (hd ?cs)) (snd (hd ?cs))" by (simp add: padded_def pad_header_def)
  then have start: "receiving dql ?cs [] new_padding_state (IoQueue dql)"
    using ioq_rep_inv [OF IoQueue_rep [OF assms(2)]]
    by (auto simp: receiving_def new_padding_state_def mid_view_def mid_chunk_def hd_conv_nth)
  have "\<exists>st' q ys. receive_all junk ds new_padding_state (IoQueue dql) = Some (st', q) \<and>
      concat (map view (ioq_elems q)) @ ys = concat (map (\<lambda>c. view (snd c)) cs) \<and> (zs = [] \<longrightarrow> ys = [])"
    if "concat ds @ zs = concat (map view bs)" "\<forall>d\<in>set ds. int (length d) + 65793 \<le> INT_MAX" for ds zs
  proof -
    have "[] @ concat ds @ zs = padded_stream ?cs" using that(1) send(3) by simp
    from receive_all_ok [OF ok start this that(2), of junk]
    obtain st' q where r: "receive_all junk ds new_padding_state (IoQueue dql) = Some (st', q)"
      "receiving dql ?cs (concat ds) st' q" by auto
    then show ?thesis using receiving_delivers [OF r(2) _ ok, of zs] that(1) send(3) by (simp add: comp_def)
  qed
  then show ?thesis using send(1,2) by blast
qed

theorem padding_roundtrip_witness:
  "\<exists>b bs st st' q. copyBuffer (\<lambda>i. 0) [1, 2, 3] = Some b \<and>
     send_chunks (\<lambda>i. 0) [(2, b), (0, b)] new_padding_state = Some (bs, st) \<and>
     receive_all (\<lambda>i. 0) (map (\<lambda>x. [x]) (concat (map view bs))) new_padding_state (IoQueue 4) = Some (st', q) \<and>
     concat (map view (ioq_elems q)) = [1, 2, 3, 1, 2, 3]"
proof -
  obtain b where b: "copyBuffer (\<lambda>i. 0) [1, 2, 3] = Some b" "growable_inv b" "view b = [1, 2, 3]"
    using copyBuffer_ok [of "[1, 2, 3]" "\<lambda>i. 0"] by (auto simp: INT_MAX_def)
  obtain bs st where s: "send_chunks (\<lambda>i. 0) [(2, b), (0, b)] new_padding_state = Some (bs, st)"
    "\<forall>ds zs. concat ds @ zs = concat (map view bs) \<and> (\<forall>d\<in>set ds. int (length d) + 65793 \<le> INT_MAX) \<longrightarrow>
       (\<exists>st' q ys. receive_all (\<lambda>i. 0) ds new_padding_state (IoQueue 4) = Some (st', q) \<and>
          concat (map view (ioq_elems q)) @ ys = [1, 2, 3, 1, 2, 3] \<and> (zs = [] \<longrightarrow> ys = []))"
    using padding_roundtrip [of "[(2, b), (0, b)]" 4 "\<lambda>i. 0"] b by (auto simp: kMaxPaddingSize_def)
  have "concat (map (\<lambda>x. [x]) (concat (map view bs))) @ [] = concat (map view bs)" by simp
  moreover have "\<forall>d\<in>set (map (\<lambda>x. [x]) (concat (map view bs))). int (length d) + 65793 \<le> INT_MAX" by (auto simp: INT_MAX_def)
  ultimately show ?thesis using s(1) s(2) [rule_format, of "map (\<lambda>x. [x]) (concat (map view bs))" "[]"] b(1) by auto
qed

text \<open>C18: A padded chunk that announces an empty payload stops the receiver for good. \<^verbatim>\<open>RemovePadding\<close>
  reports an invalid argument, but its callers take every error for a lack of data: whatever arrives
  afterwards is only appended to the middle buffer, nothing is queued any more and no error is raised.\<close>

theorem empty_payload_stalls_receiver:
  assumes "padding_support_in_fact st" "num_padding_recv st < kFirstPaddings" "padding_in_middle_buf st = Some b"
    "growable_inv b" "view b = 0 # 0 # r # rest" "int (length (view b)) + int (length (concat ds)) \<le> INT_MAX"
  shows "\<exists>st' b'. receive_all junk ds st q = Some (st', q) \<and> padding_in_middle_buf st' = Some b' \<and> view b' = view b @ concat ds"
proof -
  have mv: "mid_view st = view b" using assms(3) by (simp add: mid_view_def)
  obtain st' where st': "receive_all junk ds st q = Some (st', q)" "mid_view st' = view b @ concat ds"
    using empty_payload_stall [of st r rest ds junk q] assms by (auto simp: mv kFirstPaddings_def)
  then show ?thesis using assms(5) by (cases "padding_in_middle_buf st'") (auto simp: mid_view_def)
qed

theorem empty_payload_stalls_receiver_witness:
  "\<exists>b st'. copyBuffer (\<lambda>i. 0) [0, 0, 5] = Some b \<and>
     receive_all (\<lambda>i. 0) [[1, 2, 3], [4]] (new_padding_state\<lparr>padding_in_middle_buf := Some b\<rparr>) (IoQueue 4) = Some (st', IoQueue 4)"
proof -
  obtain b where b: "copyBuffer (\<lambda>i. 0) [0, 0, 5] = Some b" "growable_inv b" "view b = [0, 0, 5]"
    using copyBuffer_ok [of "[0, 0, 5]" "\<lambda>i. 0"] by (auto simp: INT_MAX_def)
  then show ?thesis
    using empty_payload_stalls_receiver [of "new_padding_state\<lparr>padding_in_middle_buf := Some b\<rparr>" b 5 "[]" "[[1, 2, 3], [4]]" "\<lambda>i. 0" "IoQueue 4"]
    by (auto simp: new_padding_state_def kFirstPaddings_def INT_MAX_def simp del: receive_all.simps)
qed

end
