(* ===== verification/Request_Parser.thy ===== *)
theory Request_Parser
  imports IO_Buffer
begin

text \<open>
  What the parsers of the handshake messages (\<^verbatim>\<open>net/socks4_request_parser.hpp\<close>,
  \<^verbatim>\<open>net/socks5_request_parser.hpp\<close>, \<^verbatim>\<open>net/ss_request_parser.hpp\<close>) have in common. An input iterator
  is a position in a memory object \<open>m\<close>; the object may reach beyond the \<^verbatim>\<open>end\<close> iterator, as a socket
  buffer does, and reading outside it is \<^const>\<open>None\<close>. The addresses of asio are their bytes.
\<close>

datatype result_type = good | bad | indeterminate

datatype ip_address = AddressV4 "byte list" | AddressV6 "byte list"

type_synonym endpoint = "ip_address \<times> u16"

text \<open>What a request asks to connect to.\<close>

datatype target = Domain "byte list" | Address ip_address

text \<open>Reading from a concatenation.\<close>

lemma slice_mid: "i = length xs \<Longrightarrow> n = length ys \<Longrightarrow> mem_slice (xs @ ys @ zs) i n = Some ys"
  by (simp add: mem_slice_def)

lemma slice_front: "n = length ys \<Longrightarrow> mem_slice (ys @ zs) 0 n = Some ys"
  by (simp add: mem_slice_def)

lemma read_mid: "i = length xs \<Longrightarrow> mem_read (xs @ y # zs) i = Some y"
  by (simp add: mem_read_def)

section \<open>The contract of a message parser\<close>

text \<open>
  \<open>run m n\<close> parses the \<open>n\<close> bytes at the front of the memory \<open>m\<close> from the initial state and returns the
  outcome, the position reached and the message. \<open>slack\<close> is the number of bytes the parser wants to
  see after a message before it accepts it, and \<open>over\<close> the number of bytes it may read past the end.
\<close>

locale message_parser =
  fixes wf :: "'r \<Rightarrow> bool"
    and enc :: "'r \<Rightarrow> byte list"
    and run :: "byte list \<Rightarrow> nat \<Rightarrow> (result_type \<times> nat \<times> 'r) option"
    and slack :: "'r \<Rightarrow> nat"
    and over :: nat
  assumes run_complete: "wf r \<Longrightarrow> slack r \<le> length rest \<Longrightarrow>
      run (enc r @ rest @ extra) (length (enc r @ rest)) = Some (good, length (enc r), r)"
    and run_safe: "n + over \<le> length m \<Longrightarrow> \<exists>res i r. run m n = Some (res, i, r) \<and> i \<le> n + over"
    and run_sound: "n + over \<le> length m \<Longrightarrow> run m n = Some (good, i, r) \<Longrightarrow> wf r \<and> take i m = enc r"
begin

text \<open>The encoding is uniquely decodable, so no message is the beginning of another one.\<close>

lemma decode_unique:
  assumes "wf r" "wf r'" "slack r \<le> length rest" "slack r' \<le> length rest'" "enc r @ rest = enc r' @ rest'"
  shows "r = r' \<and> rest = rest'"
proof -
  have "run (enc r @ rest @ []) (length (enc r @ rest)) = Some (good, length (enc r), r)"
    by (rule run_complete [OF assms(1,3)])
  moreover have "run (enc r' @ rest' @ []) (length (enc r' @ rest')) = Some (good, length (enc r'), r')"
    by (rule run_complete [OF assms(2,4)])
  ultimately show ?thesis using assms(5) by simp
qed

text \<open>What follows a message in the buffer does not change how it is parsed.\<close>

lemma run_stable:
  assumes "wf r" "slack r \<le> length rest" "slack r \<le> length rest'"
  shows "run (enc r @ rest) (length (enc r @ rest)) = run (enc r @ rest') (length (enc r @ rest'))"
  using run_complete [OF assms(1,2), of "[]"] run_complete [OF assms(1,3), of "[]"] by simp

text \<open>What is accepted is exactly what is there: the bytes consumed are the encoding of the message.\<close>

lemma accepted_split:
  assumes "n + over \<le> length m" "run m n = Some (good, i, r)"
  shows "wf r \<and> (\<exists>rest. m = enc r @ rest) \<and> i = length (enc r)"
proof -
  have "i \<le> length m" using run_safe [OF assms(1)] assms by auto
  moreover have w: "wf r" "take i m = enc r" using run_sound [OF assms] by auto
  ultimately have "i = length (enc r)" by (metis length_take min.absorb2)
  with w show ?thesis by (metis append_take_drop_id)
qed

end

end
