(* ===== verification/Socks5.thy ===== *)
theory Socks5
  imports Request_Parser
begin

text \<open>
  SOCKS5 messages: \<^verbatim>\<open>net/socks5.hpp\<close>, \<^verbatim>\<open>net/socks5_request.hpp\<close> and the three parsers of
  \<^verbatim>\<open>net/socks5_request_parser.hpp\<close>. The union of an address header is its 256 bytes. A parser that
  continues in its next state calls itself with the position it has reached; its tests \<^verbatim>\<open>end - i < k\<close>
  are written \<open>e < i + k\<close>.
\<close>

definition socks5_version :: byte where
  "socks5_version = 5"

abbreviation "no_auth_required \<equiv> (0 :: byte)"
abbreviation "gssapi \<equiv> (1 :: byte)"
abbreviation "username_or_password \<equiv> (2 :: byte)"
abbreviation "unacceptable \<equiv> (0xff :: byte)"
abbreviation "atyp_ipv4 \<equiv> (1 :: byte)"
abbreviation "atyp_domain \<equiv> (3 :: byte)"
abbreviation "atyp_ipv6 \<equiv> (4 :: byte)"

section \<open>Method selection\<close>

record method_select_request =
  ms_ver :: byte
  ms_nmethods :: byte
  ms_methods :: "byte list"

text \<open>The array of methods is not initialised.\<close>

definition new_method_select_request :: "(nat \<Rightarrow> byte) \<Rightarrow> method_select_request" where
  "new_method_select_request junk = \<lparr>ms_ver = 0, ms_nmethods = 0, ms_methods = map junk [0..<255]\<rparr>"

definition methods_range :: "method_select_request \<Rightarrow> byte list" where
  "methods_range r = take (unat (ms_nmethods r)) (ms_methods r)"

definition method_select_length :: "method_select_request \<Rightarrow> nat" where
  "method_select_length r = 2 + unat (ms_nmethods r)"

datatype method_select_state = ms_request_start | ms_request

function method_select_parse :: "method_select_state \<Rightarrow> method_select_request \<Rightarrow> byte list \<Rightarrow> nat \<Rightarrow> nat
    \<Rightarrow> (result_type \<times> nat \<times> method_select_state \<times> method_select_request) option" where
  "method_select_parse st req m i e =
     (case st of
        ms_request_start \<Rightarrow>
          if e < i + 2 then Some (indeterminate, i, st, req)
          else do {
            hdr \<leftarrow> mem_slice m i 2;
            let req1 = req\<lparr>ms_ver := hdr ! 0, ms_nmethods := hdr ! 1\<rparr>;
            if ms_ver req1 \<noteq> socks5_version then Some (bad, i, st, req1)
            else method_select_parse ms_request req1 m (i + 2) e }
      | ms_request \<Rightarrow>
          if e < i + unat (ms_nmethods req) then Some (indeterminate, i, st, req)
          else do {
            xs \<leftarrow> mem_slice m i (unat (ms_nmethods req));
            ms \<leftarrow> mem_write (ms_methods req) 0 xs;
            Some (good, i + unat (ms_nmethods req), st, req\<lparr>ms_methods := ms\<rparr>) })"
  by pat_completeness auto
termination
  by (relation "measure (\<lambda>(st, _). case st of ms_request_start \<Rightarrow> 1 | ms_request \<Rightarrow> 0)") auto

declare method_select_parse.simps [simp del]

definition method_select_response_stock_reply :: "byte \<Rightarrow> byte list" where
  "method_select_response_stock_reply method = [socks5_version, method]"

section \<open>User name and password\<close>

record auth_request =
  ar_ver :: byte
  username :: "byte list"
  password :: "byte list"

definition new_auth_request :: auth_request where
  "new_auth_request = \<lparr>ar_ver = 0, username = [], password = []\<rparr>"

definition auth_request_length :: "auth_request \<Rightarrow> nat" where
  "auth_request_length r = 1 + 1 + length (username r) + 1 + length (password r)"

datatype auth_state = auth_request_start | auth_request_username | auth_request_password

function auth_parse :: "auth_state \<Rightarrow> auth_request \<Rightarrow> byte list \<Rightarrow> nat \<Rightarrow> nat
    \<Rightarrow> (result_type \<times> nat \<times> auth_state \<times> auth_request) option" where
  "auth_parse st req m i e =
     (case st of
        auth_request_start \<Rightarrow>
          if e < i + 1 then Some (indeterminate, i, st, req)
          else do {
            v \<leftarrow> mem_read m i;
            let req1 = req\<lparr>ar_ver := v\<rparr>;
            if ar_ver req1 \<noteq> socks5_version then Some (bad, i, st, req1)
            else auth_parse auth_request_username req1 m (i + 1) e }
      | auth_request_username \<Rightarrow>
          if e < i + 1 then Some (indeterminate, i, st, req)
          else do {
            ulen \<leftarrow> mem_read m i;
            if ulen = 0 then Some (bad, i, st, req)
            else let i1 = i + 1 in
            if e < i1 + unat ulen then Some (indeterminate, i1, st, req)
            else do {
              xs \<leftarrow> mem_slice m i1 (unat ulen);
              auth_parse auth_request_password (req\<lparr>username := xs\<rparr>) m (i1 + unat ulen) e } }
      | auth_request_password \<Rightarrow>
          if e < i + 1 then Some (indeterminate, i, st, req)
          else do {
            plen \<leftarrow> mem_read m i;
            if plen = 0 then Some (bad, i, st, req)
            else let i1 = i + 1 in
            if e < i1 + unat plen then Some (indeterminate, i1, st, req)
            else do {
              xs \<leftarrow> mem_slice m i1 (unat plen);
              Some (good, i1 + unat plen, st, req\<lparr>password := xs\<rparr>) } })"
  by pat_completeness auto
termination
  by (relation "measure (\<lambda>(st, _). case st of auth_request_start \<Rightarrow> 2 | auth_request_username \<Rightarrow> 1 | auth_request_password \<Rightarrow> 0)") auto

declare auth_parse.simps [simp del]

definition auth_response_stock_reply :: "byte \<Rightarrow> byte list" where
  "auth_response_stock_reply status = [socks5_version, status]"

section \<open>Requests\<close>

record address_type_header =
  address_type :: byte
  addr_union :: "byte list"
  port_high_byte :: byte
  port_low_byte :: byte

record socks5_request =
  rq_version :: byte
  rq_command :: byte
  rq_null_byte :: byte
  atyp_req :: address_type_header

definition new_socks5_request :: socks5_request where
  "new_socks5_request = \<lparr>rq_version = 0, rq_command = 0, rq_null_byte = 0,
     atyp_req = \<lparr>address_type = 0, addr_union = replicate 256 0, port_high_byte = 0, port_low_byte = 0\<rparr>\<rparr>"

definition domain_name_len :: "address_type_header \<Rightarrow> nat" where
  "domain_name_len h = unat (addr_union h ! 0)"

definition socks5_address_type_size :: "socks5_request \<Rightarrow> nat" where
  "socks5_address_type_size r =
     (let t = address_type (atyp_req r) in
      if t = atyp_ipv4 then 4 + 2
      else if t = atyp_domain then 1 + domain_name_len (atyp_req r) + 2
      else if t = atyp_ipv6 then 16 + 2
      else 0)"

definition socks5_request_length :: "socks5_request \<Rightarrow> nat" where
  "socks5_request_length r = 3 + 1 + socks5_address_type_size r"

definition socks5_port :: "socks5_request \<Rightarrow> u16" where
  "socks5_port r = be16 (port_high_byte (atyp_req r)) (port_low_byte (atyp_req r))"

definition socks5_endpoint :: "socks5_request \<Rightarrow> endpoint" where
  "socks5_endpoint r =
     (let t = address_type (atyp_req r) in
      if t = atyp_ipv4 then (AddressV4 (take 4 (addr_union (atyp_req r))), socks5_port r)
      else if t = atyp_ipv6 then (AddressV6 (take 16 (addr_union (atyp_req r))), socks5_port r)
      else (AddressV4 [0, 0, 0, 0], 0))"

definition socks5_domain_name :: "socks5_request \<Rightarrow> byte list" where
  "socks5_domain_name r = take (domain_name_len (atyp_req r)) (drop 1 (addr_union (atyp_req r)))"

text \<open>The two port bytes that end every address form.\<close>

definition read_port :: "byte list \<Rightarrow> nat \<Rightarrow> address_type_header \<Rightarrow> (nat \<times> address_type_header) option" where
  "read_port m i h =
     do { hi \<leftarrow> mem_read m i;
          let h1 = h\<lparr>port_high_byte := hi\<rparr>;
          lo \<leftarrow> mem_read m (i + 1);
          Some (i + 1 + 1, h1\<lparr>port_low_byte := lo\<rparr>) }"

datatype request_state = request_start | request_address_start

function socks5_request_parse :: "request_state \<Rightarrow> socks5_request \<Rightarrow> byte list \<Rightarrow> nat \<Rightarrow> nat
    \<Rightarrow> (result_type \<times> nat \<times> request_state \<times> socks5_request) option" where
  "socks5_request_parse st req m i e =
     (case st of
        request_start \<Rightarrow>
          if e < i + 3 then Some (indeterminate, i, st, req)
          else do {
            hdr \<leftarrow> mem_slice m i 3;
            let req1 = req\<lparr>rq_version := hdr ! 0, rq_command := hdr ! 1, rq_null_byte := hdr ! 2\<rparr>;
            if rq_version req1 \<noteq> socks5_version then Some (bad, i, st, req1)
            else socks5_request_parse request_address_start req1 m (i + 3) e }
      | request_address_start \<Rightarrow>
          if e < i + 1 then Some (indeterminate, i, st, req)
          else do {
            t \<leftarrow> mem_read m i;
            let req1 = req\<lparr>atyp_req := (atyp_req req)\<lparr>address_type := t\<rparr>\<rparr>;
            let i1 = i + 1;
            if t \<noteq> atyp_ipv4 \<and> t \<noteq> atyp_domain \<and> t \<noteq> atyp_ipv6 then Some (bad, i1, st, req1)
            else if e < i1 + socks5_address_type_size req1 then Some (indeterminate, i1, st, req1)
            else if t = atyp_ipv4 then do {
              xs \<leftarrow> mem_slice m i1 4;
              u \<leftarrow> mem_write (addr_union (atyp_req req1)) 0 xs;
              (i2, h) \<leftarrow> read_port m (i1 + 4) ((atyp_req req1)\<lparr>addr_union := u\<rparr>);
              Some (good, i2, st, req1\<lparr>atyp_req := h\<rparr>) }
            else if t = atyp_domain then do {
              l \<leftarrow> mem_read m i1;
              u \<leftarrow> mem_write (addr_union (atyp_req req1)) 0 [l];
              let h = (atyp_req req1)\<lparr>addr_union := u\<rparr>;
              if e < i1 + (domain_name_len h + 2) then Some (indeterminate, i1, st, req1\<lparr>atyp_req := h\<rparr>)
              else do {
                let i2 = i1 + 1;
                xs \<leftarrow> mem_slice m i2 (domain_name_len h);
                u1 \<leftarrow> mem_write u 1 xs;
                (i3, h1) \<leftarrow> read_port m (i2 + domain_name_len h) (h\<lparr>addr_union := u1\<rparr>);
                Some (good, i3, st, req1\<lparr>atyp_req := h1\<rparr>) } }
            else do {
              xs \<leftarrow> mem_slice m i1 16;
              u \<leftarrow> mem_write (addr_union (atyp_req req1)) 0 xs;
              (i2, h) \<leftarrow> read_port m (i1 + 16) ((atyp_req req1)\<lparr>addr_union := u\<rparr>);
              Some (good, i2, st, req1\<lparr>atyp_req := h\<rparr>) } })"
  by pat_completeness auto
termination
  by (relation "measure (\<lambda>(st, _). case st of request_start \<Rightarrow> 1 | request_address_start \<Rightarrow> 0)") auto

declare socks5_request_parse.simps [simp del]

section \<open>Replies\<close>

record socks5_reply =
  rp_version :: byte
  rp_status :: byte
  rp_null_byte :: byte
  rp_address_type :: byte
  rp_address4 :: "byte list"
  rp_address6 :: "byte list"
  rp_port_high_byte :: byte
  rp_port_low_byte :: byte

definition socks5_request_granted :: byte where
  "socks5_request_granted = 0"

text \<open>The addresses and the port of a new reply are not initialised.\<close>

definition new_socks5_reply :: "byte list \<Rightarrow> byte list \<Rightarrow> byte \<Rightarrow> byte \<Rightarrow> socks5_reply" where
  "new_socks5_reply a4 a6 ph pl = \<lparr>rp_version = socks5_version, rp_status = 0, rp_null_byte = 0, rp_address_type = 0,
     rp_address4 = a4, rp_address6 = a6, rp_port_high_byte = ph, rp_port_low_byte = pl\<rparr>"

text \<open>The bytes of the seven buffers, in the order they are sent.\<close>

definition socks5_reply_buffers :: "socks5_reply \<Rightarrow> byte list" where
  "socks5_reply_buffers r =
     (if rp_address_type r = atyp_ipv6
      then [rp_version r, rp_status r, rp_null_byte r, rp_address_type r] @ rp_address6 r @ [rp_port_high_byte r, rp_port_low_byte r]
      else [rp_version r, rp_status r, rp_null_byte r, rp_address_type r] @ rp_address4 r @ [rp_port_high_byte r, rp_port_low_byte r])"

definition socks5_reply_success :: "socks5_reply \<Rightarrow> bool" where
  "socks5_reply_success r \<longleftrightarrow> rp_null_byte r = 0 \<and> rp_status r = socks5_request_granted \<and>
     (rp_address_type r = atyp_ipv4 \<or> rp_address_type r = atyp_ipv6)"

definition socks5_reply_endpoint :: "socks5_reply \<Rightarrow> endpoint" where
  "socks5_reply_endpoint r =
     (let port = be16 (rp_port_high_byte r) (rp_port_low_byte r) in
      if rp_address_type r = atyp_ipv4 then (AddressV4 (rp_address4 r), port) else (AddressV6 (rp_address6 r), port))"

definition socks5_reply_set_endpoint :: "endpoint \<Rightarrow> socks5_reply \<Rightarrow> socks5_reply" where
  "socks5_reply_set_endpoint ep r =
     (let r1 = (case fst ep of
                  AddressV6 a \<Rightarrow> r\<lparr>rp_address_type := atyp_ipv6, rp_address6 := a\<rparr>
                | AddressV4 a \<Rightarrow> r\<lparr>rp_address_type := atyp_ipv4, rp_address4 := a\<rparr>)
      in r1\<lparr>rp_port_high_byte := hi8 (snd ep), rp_port_low_byte := lo8 (snd ep)\<rparr>)"

section \<open>The parsers meet the contract\<close>

text \<open>What is read from each message, and how a peer encodes it.\<close>

definition run_method_select :: "(nat \<Rightarrow> byte) \<Rightarrow> byte list \<Rightarrow> nat \<Rightarrow> (result_type \<times> nat \<times> byte list) option" where
  "run_method_select junk m n =
     map_option (\<lambda>(res, i, st, req). (res, i, methods_range req))
       (method_select_parse ms_request_start (new_method_select_request junk) m 0 n)"

definition method_select_enc :: "byte list \<Rightarrow> byte list" where
  "method_select_enc ms = [socks5_version, of_nat (length ms)] @ ms"

definition run_auth :: "byte list \<Rightarrow> nat \<Rightarrow> (result_type \<times> nat \<times> byte list \<times> byte list) option" where
  "run_auth m n =
     map_option (\<lambda>(res, i, st, req). (res, i, (username req, password req)))
       (auth_parse auth_request_start new_auth_request m 0 n)"

definition auth_enc :: "byte list \<times> byte list \<Rightarrow> byte list" where
  "auth_enc r = [socks5_version, of_nat (length (fst r))] @ fst r @ [of_nat (length (snd r))] @ snd r"

lemma unat_of_length: "length xs \<le> 255 \<Longrightarrow> unat (of_nat (length xs) :: byte) = length xs"
  by (simp add: unat_of_nat)

lemma uint_of_length: "length xs \<le> 255 \<Longrightarrow> uint (of_nat (length xs) :: byte) = int (length xs)"
  by (simp add: unsigned_of_nat take_bit_eq_mod)

lemma unat_byte_le: "unat (b :: byte) \<le> 255"
  using unsigned_less [of b] by (simp add: less_Suc_eq_le [symmetric])

lemma of_length_nonzero: "0 < length xs \<Longrightarrow> length xs \<le> 255 \<Longrightarrow> (of_nat (length xs) :: byte) \<noteq> 0"
  using unat_of_length [of xs] by (metis less_numeral_extra(3) unat_0)

lemmas length_byte = unat_of_length uint_of_length of_length_nonzero

lemma take_Suc_nth: "i < length m \<Longrightarrow> take (Suc i) m = take i m @ [m ! i]"
  by (simp add: take_Suc_conv_app_nth)

lemma take_two: "2 \<le> length m \<Longrightarrow> take 2 m = [m ! 0, m ! 1]"
  by (auto simp: numeral_2_eq_2 Suc_le_length_iff)

lemma take_three: "3 \<le> length m \<Longrightarrow> take 3 m = [m ! 0, m ! 1, m ! 2]"
  by (auto simp: numeral_3_eq_3 numeral_2_eq_2 Suc_le_length_iff)

lemma method_select_sound:
  assumes "n \<le> length m" "run_method_select junk m n = Some (good, i, ms)"
  shows "length ms \<le> 255 \<and> take i m = method_select_enc ms"
proof -
  have m: "2 \<le> n" "m ! 0 = socks5_version" "i = 2 + unat (m ! 1)" "ms = take (unat (m ! 1)) (drop 2 m)" "2 + unat (m ! 1) \<le> n"
    using assms
    by (auto simp: run_method_select_def method_select_parse.simps new_method_select_request_def Let_def methods_range_def
        mem_slice_def mem_write_def bind_eq_Some_conv numeral_2_eq_2 split: if_splits)
  then have "length ms = unat (m ! 1)" using assms(1) by simp
  moreover have "take 2 m = [m ! 0, m ! 1]" using m(1) assms(1) by (simp add: take_two)
  moreover have "take i m = take 2 m @ take (unat (m ! 1)) (drop 2 m)" unfolding m(3) by (simp only: take_add)
  ultimately show ?thesis using m(2,4) unat_byte_le [of "m ! 1"] by (simp add: method_select_enc_def)
qed

interpretation method_select: message_parser "\<lambda>ms. length ms \<le> 255" method_select_enc "run_method_select junk" "\<lambda>_. 0" 0
proof (standard, goal_cases)
  case (1 ms rest extra)
  have "mem_write (map junk [0..<255]) 0 ms = Some (ms @ drop (length ms) (map junk [0..<255]))"
    using 1 by (simp add: mem_simps)
  then show ?case using 1
    by (simp add: run_method_select_def new_method_select_request_def method_select_parse.simps length_byte
        methods_range_def method_select_enc_def mem_slice_def Let_def numeral_2_eq_2)
next
  case (2 n m)
  show ?case
  proof (cases "n < 2")
    case True
    then show ?thesis by (auto simp: run_method_select_def method_select_parse.simps)
  next
    case False
    then obtain h where h: "mem_slice m 0 2 = Some h" using 2 by (simp add: mem_simps)
    let ?k = "unat (h ! 1)"
    have tail: "\<exists>res i st req. method_select_parse ms_request \<lparr>ms_ver = h ! 0, ms_nmethods = h ! 1, ms_methods = map junk [0..<255]\<rparr> m 2 n =
        Some (res, i, st, req) \<and> i \<le> n"
    proof (cases "n < 2 + ?k")
      case True
      then show ?thesis using False by (simp add: method_select_parse.simps)
    next
      case enough: False
      then have "mem_slice m 2 ?k = Some (take ?k (drop 2 m))" "length (take ?k (drop 2 m)) = ?k" using 2 by (simp_all add: mem_simps)
      moreover from this have "mem_write (map junk [0..<255]) 0 (take ?k (drop 2 m)) \<noteq> None"
        using unat_byte_le [of "h ! 1"] by (simp add: mem_write_def)
      ultimately show ?thesis using enough by (auto simp: method_select_parse.simps)
    qed
    show ?thesis
    proof (cases "h ! 0 = socks5_version")
      case True
      then show ?thesis using False h tail
        by (auto simp: run_method_select_def method_select_parse.simps [of ms_request_start] new_method_select_request_def
            Let_def numeral_2_eq_2)
    qed (use False h in \<open>auto simp: run_method_select_def method_select_parse.simps [of ms_request_start] new_method_select_request_def Let_def\<close>)
  qed
next
  case (3 n m i ms)
  then show ?case using method_select_sound [of n m junk i ms] by simp
qed

lemma auth_parse_safe:
  "i \<le> e \<Longrightarrow> e \<le> length m \<Longrightarrow> \<exists>res j st' req'. auth_parse st req m i e = Some (res, j, st', req') \<and> j \<le> e"
proof (induction st req m i e rule: auth_parse.induct)
  case (1 st req m i e)
  note step = auth_parse.simps [of _ req m i e]
  show ?case
  proof (cases "e < i + 1")
    case True
    then show ?thesis using 1(3) by (cases st) (simp_all add: step)
  next
    case False
    then have rd: "mem_read m i = Some (m ! i)" using 1(4) by (simp add: mem_simps)
    have sl: "e < i + 1 + unat (m ! i) \<or> mem_slice m (i + 1) (unat (m ! i)) = Some (take (unat (m ! i)) (drop (i + 1) m))"
      using 1(4) by (auto simp: mem_slice_def)
    show ?thesis
    proof (cases st)
      case auth_request_start
      then show ?thesis using False 1(1) [OF auth_request_start False rd refl] 1(4) rd by (auto simp: step Let_def)
    next
      case auth_request_username
      then show ?thesis
        using False 1(2) [OF auth_request_username False rd] 1(4) rd sl by (auto simp: step Let_def)
    next
      case auth_request_password
      then show ?thesis using False 1(4) rd sl by (auto simp: step Let_def)
    qed
  qed
qed

lemma auth_sound:
  assumes "n \<le> length m" "run_auth m n = Some (good, i, r)"
  shows "0 < length (fst r) \<and> length (fst r) \<le> 255 \<and> 0 < length (snd r) \<and> length (snd r) \<le> 255 \<and> take i m = auth_enc r"
proof -
  let ?u = "unat (m ! 1)"
  let ?p = "unat (m ! (2 + ?u))"
  have m: "2 + ?u + 1 + ?p \<le> n" "m ! 0 = socks5_version" "m ! 1 \<noteq> 0" "m ! (2 + ?u) \<noteq> 0" "i = 2 + ?u + 1 + ?p"
    "fst r = take ?u (drop 2 m)" "snd r = take ?p (drop (2 + ?u + 1) m)"
    using assms
    by (auto simp: run_auth_def auth_parse.simps new_auth_request_def Let_def mem_slice_def mem_read_def bind_eq_Some_conv
        numeral_2_eq_2 split: if_splits)
  have len: "length (fst r) = ?u" "length (snd r) = ?p" using m(1,6,7) assms(1) by simp_all
  have "take i m = take 2 m @ take ?u (drop 2 m) @ take 1 (drop (2 + ?u) m) @ take ?p (drop (2 + ?u + 1) m)"
    unfolding m(5) by (simp only: take_add append.assoc)
  moreover have "take 1 (drop (2 + ?u) m) = [m ! (2 + ?u)]" using m(1) assms(1) by (simp add: take_Suc_nth hd_drop_conv_nth take_Suc)
  ultimately have "take i m = auth_enc r"
    using m(1,2) len assms(1) by (simp add: auth_enc_def m(6,7) take_two)
  moreover have "0 < ?u" "0 < ?p" using m(3,4) by (simp_all add: unat_gt_0)
  ultimately show ?thesis using len unat_byte_le by simp
qed

interpretation auth: message_parser
  "\<lambda>r. 0 < length (fst r) \<and> length (fst r) \<le> 255 \<and> 0 < length (snd r) \<and> length (snd r) \<le> 255" auth_enc run_auth "\<lambda>_. 0" 0
proof (standard, goal_cases)
  case (1 r rest extra)
  then show ?case
    by (simp add: run_auth_def new_auth_request_def auth_parse.simps length_byte auth_enc_def mem_slice_def mem_read_def
        Let_def nth_append)
next
  case (2 n m)
  then show ?case
    using auth_parse_safe [of 0 n m auth_request_start new_auth_request] by (auto simp: run_auth_def)
next
  case (3 n m i r)
  then show ?case using auth_sound [of n m i r] by simp
qed

text \<open>Requests: the command, the reserved byte, the target and the port.\<close>

type_synonym socks5_message = "byte \<times> byte \<times> target \<times> u16"

definition socks5_message :: "socks5_request \<Rightarrow> socks5_message" where
  "socks5_message r = (rq_command r, rq_null_byte r,
     if address_type (atyp_req r) = atyp_domain then Domain (socks5_domain_name r) else Address (fst (socks5_endpoint r)),
     socks5_port r)"

definition run_socks5_request :: "byte list \<Rightarrow> nat \<Rightarrow> (result_type \<times> nat \<times> socks5_message) option" where
  "run_socks5_request m n =
     map_option (\<lambda>(res, i, st, req). (res, i, socks5_message req))
       (socks5_request_parse request_start new_socks5_request m 0 n)"

fun target_wf :: "target \<Rightarrow> bool" where
  "target_wf (Domain d) = (length d \<le> 255)"
| "target_wf (Address (AddressV4 a)) = (length a = 4)"
| "target_wf (Address (AddressV6 a)) = (length a = 16)"

fun target_enc :: "target \<Rightarrow> byte list" where
  "target_enc (Domain d) = atyp_domain # of_nat (length d) # d"
| "target_enc (Address (AddressV4 a)) = atyp_ipv4 # a"
| "target_enc (Address (AddressV6 a)) = atyp_ipv6 # a"

definition socks5_request_enc :: "socks5_message \<Rightarrow> byte list" where
  "socks5_request_enc r = (case r of (cmd, rsv, t, port) \<Rightarrow> [socks5_version, cmd, rsv] @ target_enc t @ [hi8 port, lo8 port])"

lemma read_port_Some:
  "i + 2 \<le> length m \<Longrightarrow> read_port m i h = Some (i + 2, h\<lparr>port_high_byte := m ! i, port_low_byte := m ! (i + 1)\<rparr>)"
  by (simp add: read_port_def mem_simps)

lemma parse_request_start:
  assumes "3 \<le> n" "n \<le> length m" "m ! 0 = socks5_version"
  shows "socks5_request_parse request_start req m 0 n =
    socks5_request_parse request_address_start (req\<lparr>rq_version := socks5_version, rq_command := m ! 1, rq_null_byte := m ! 2\<rparr>) m 3 n"
  using assms by (subst socks5_request_parse.simps) (simp add: mem_slice_def Let_def)

lemma socks5_parse_complete:
  assumes "target_wf t"
  shows "\<exists>req. socks5_request_parse request_start new_socks5_request
      (socks5_request_enc (cmd, rsv, t, port) @ rest @ extra) 0 (length (socks5_request_enc (cmd, rsv, t, port) @ rest)) =
      Some (good, length (socks5_request_enc (cmd, rsv, t, port)), request_address_start, req) \<and>
    socks5_message req = (cmd, rsv, t, port) \<and> socks5_request_length req = length (socks5_request_enc (cmd, rsv, t, port))"
proof -
  let ?m = "socks5_request_enc (cmd, rsv, t, port) @ rest @ extra" and ?n = "length (socks5_request_enc (cmd, rsv, t, port) @ rest)"
  have start: "socks5_request_parse request_start new_socks5_request ?m 0 ?n =
      socks5_request_parse request_address_start (new_socks5_request\<lparr>rq_version := socks5_version, rq_command := cmd, rq_null_byte := rsv\<rparr>) ?m 3 ?n"
    by (subst parse_request_start) (simp_all add: socks5_request_enc_def numeral_2_eq_2)
  note unfolds = socks5_request_parse.simps [of request_address_start] socks5_request_enc_def new_socks5_request_def mem_read_def
    mem_slice_def mem_write_def read_port_Some socks5_address_type_size_def domain_name_len_def nth_append
    socks5_message_def socks5_endpoint_def socks5_port_def socks5_domain_name_def socks5_request_length_def
  show ?thesis
  proof (cases t)
    case (Domain d)
    then show ?thesis using assms unfolding start by (simp add: unfolds length_byte)
  next
    case (Address a)
    then show ?thesis using assms unfolding start by (cases a) (simp_all add: unfolds)
  qed
qed

text \<open>On any input the parser stays within one byte of the end it was given.\<close>

lemma address_start_safe:
  assumes "i \<le> e" "e + 1 \<le> length m" "length (addr_union (atyp_req req)) = 256"
  shows "\<exists>res j st' req'. socks5_request_parse request_address_start req m i e = Some (res, j, st', req') \<and> j \<le> e + 1"
proof (cases "e < i + 1")
  case True
  then show ?thesis using assms(1) by (simp add: socks5_request_parse.simps)
next
  case False
  let ?t = "m ! i"
  let ?h = "(atyp_req req)\<lparr>address_type := ?t\<rparr>"
  let ?r = "req\<lparr>atyp_req := ?h\<rparr>"
  have rd: "mem_read m i = Some ?t" using False assms(2) by (simp add: mem_simps)
  note step = socks5_request_parse.simps [of request_address_start req] rd False Let_def
  show ?thesis
  proof (cases "e < i + 1 + socks5_address_type_size ?r \<or> ?t \<notin> {atyp_ipv4, atyp_domain, atyp_ipv6}")
    case True
    then show ?thesis using False by (auto simp: step)
  next
    case enough: False
    then consider (v4) "?t = atyp_ipv4" | (dom) "?t = atyp_domain" | (v6) "?t = atyp_ipv6" by blast
    then show ?thesis
    proof cases
      case v4
      then have len: "i + 7 \<le> e" using enough by (simp add: socks5_address_type_size_def)
      then have "mem_slice m (i + 1) 4 = Some (take 4 (drop (i + 1) m))"
        using assms(2) by (simp add: mem_simps)
      then show ?thesis using v4 enough len assms by (simp add: step mem_simps read_port_Some)
    next
      case v6
      then have len: "i + 19 \<le> e" using enough by (simp add: socks5_address_type_size_def)
      then have "mem_slice m (i + 1) 16 = Some (take 16 (drop (i + 1) m))"
        using assms(2) by (simp add: mem_simps)
      then show ?thesis using v6 enough len assms by (simp add: step mem_simps read_port_Some)
    next
      case dom
      let ?l = "m ! (i + 1)"
      have len: "i + 4 \<le> e" using dom enough by (simp add: socks5_address_type_size_def)
      obtain us where us: "addr_union (atyp_req req) = us" "length us = 256" using assms(3) by simp
      have w: "mem_write us 0 [?l] = Some (?l # drop 1 us)" using us by (simp add: mem_simps)
      have rl: "mem_read m (i + 1) = Some ?l" using len assms(2) by (simp add: mem_simps)
      show ?thesis
      proof (cases "e < i + 1 + (unat ?l + 2)")
        case True
        then show ?thesis using dom enough len us w rl by (simp add: step domain_name_len_def)
      next
        case False2: False
        then have "mem_slice m (i + 2) (unat ?l) = Some (take (unat ?l) (drop (i + 2) m))"
          using assms(2) by (simp add: mem_simps)
        moreover have "mem_write (?l # drop 1 us) 1 (take (unat ?l) (drop (i + 2) m)) \<noteq> None"
          using us(2) unat_byte_le [of ?l] by (simp add: mem_write_def)
        ultimately show ?thesis using dom enough len us w rl False2 assms(2) by (auto simp: step domain_name_len_def read_port_Some)
      qed
    qed
  qed
qed

lemma socks5_request_safe:
  assumes "n + 1 \<le> length m"
  shows "\<exists>res j st req. socks5_request_parse request_start new_socks5_request m 0 n = Some (res, j, st, req) \<and> j \<le> n + 1"
proof (cases "3 \<le> n \<and> m ! 0 = socks5_version")
  case True
  then show ?thesis
    using assms parse_request_start [of n m new_socks5_request]
      address_start_safe [of 3 n m "new_socks5_request\<lparr>rq_version := socks5_version, rq_command := m ! 1, rq_null_byte := m ! 2\<rparr>"]
    by (simp add: new_socks5_request_def)
next
  case False
  then show ?thesis
    using assms by (cases "n < 3") (simp_all add: socks5_request_parse.simps [of request_start] mem_slice_def Let_def)
qed

text \<open>An accepted request is the encoding of what was read from it.\<close>

lemma take_port: "i + 2 \<le> length m \<Longrightarrow> take 2 (drop i m) = [hi8 (be16 (m ! i) (m ! (i + 1))), lo8 (be16 (m ! i) (m ! (i + 1)))]"
  by (simp add: take_two)

lemma take_one: "i < length m \<Longrightarrow> take 1 (drop i m) = [m ! i]"
  by (simp add: take_Suc hd_drop_conv_nth)

lemma address_start_sound:
  assumes "e + 1 \<le> length m" "length (addr_union (atyp_req req)) = 256"
    and ok: "socks5_request_parse request_address_start req m i e = Some (good, j, st, req')"
  shows "\<exists>t port. target_wf t \<and> take j m = take i m @ target_enc t @ [hi8 port, lo8 port] \<and>
    socks5_message req' = (rq_command req, rq_null_byte req, t, port)"
proof -
  let ?t = "m ! i"
  have i: "i + 1 \<le> e" using ok by (auto simp: socks5_request_parse.simps split: if_splits)
  then have rd: "mem_read m i = Some ?t" "take 1 (drop i m) = [?t]" using assms(1) take_one [of i m] by (simp_all add: mem_simps)
  note unfolds = socks5_request_parse.simps [of request_address_start req] rd(1) Let_def read_port_def mem_read_def
    mem_slice_def mem_write_def bind_eq_Some_conv socks5_address_type_size_def domain_name_len_def
  note message = socks5_message_def socks5_endpoint_def socks5_port_def socks5_domain_name_def domain_name_len_def
  consider (v4) "?t = atyp_ipv4" | (dom) "?t = atyp_domain" | (v6) "?t = atyp_ipv6"
    using ok i by (auto simp: unfolds split: if_splits)
  then show ?thesis
  proof cases
    case v4
    let ?a = "take 4 (drop (i + 1) m)" and ?p = "be16 (m ! (i + 1 + 4)) (m ! (i + 1 + 4 + 1))"
    have j: "i + 7 \<le> e" "j = i + 1 + 4 + 2" "socks5_message req' = (rq_command req, rq_null_byte req, Address (AddressV4 ?a), ?p)"
      using ok v4 assms by (auto simp: unfolds message split: if_splits)
    have "take j m = take i m @ take 1 (drop i m) @ ?a @ take 2 (drop (i + 1 + 4) m)"
      unfolding j(2) by (simp only: take_add append.assoc)
    also have "\<dots> = take i m @ target_enc (Address (AddressV4 ?a)) @ [hi8 ?p, lo8 ?p]"
      using j(1) assms(1) by (subst take_port) (simp_all add: rd(2) [simplified] v4)
    finally show ?thesis using j assms(1) by (intro exI [of _ "Address (AddressV4 ?a)"] exI [of _ ?p]) simp
  next
    case v6
    let ?a = "take 16 (drop (i + 1) m)" and ?p = "be16 (m ! (i + 1 + 16)) (m ! (i + 1 + 16 + 1))"
    have j: "i + 19 \<le> e" "j = i + 1 + 16 + 2" "socks5_message req' = (rq_command req, rq_null_byte req, Address (AddressV6 ?a), ?p)"
      using ok v6 assms by (auto simp: unfolds message split: if_splits)
    have "take j m = take i m @ take 1 (drop i m) @ ?a @ take 2 (drop (i + 1 + 16) m)"
      unfolding j(2) by (simp only: take_add append.assoc)
    also have "\<dots> = take i m @ target_enc (Address (AddressV6 ?a)) @ [hi8 ?p, lo8 ?p]"
      using j(1) assms(1) by (subst take_port) (simp_all add: rd(2) [simplified] v6)
    finally show ?thesis using j assms(1) by (intro exI [of _ "Address (AddressV6 ?a)"] exI [of _ ?p]) simp
  next
    case dom
    let ?l = "unat (m ! (i + 1))"
    let ?d = "take ?l (drop (i + 1 + 1) m)" and ?p = "be16 (m ! (i + 1 + 1 + ?l)) (m ! (i + 1 + 1 + ?l + 1))"
    have j: "i + 3 + ?l \<le> e" "j = i + 1 + 1 + ?l + 2" "socks5_message req' = (rq_command req, rq_null_byte req, Domain ?d, ?p)"
      using ok dom assms by (auto simp: unfolds message split: if_splits)
    have len: "length ?d = ?l" using j(1) assms(1) by simp
    have "take j m = take i m @ take 1 (drop i m) @ take 1 (drop (i + 1) m) @ ?d @ take 2 (drop (i + 1 + 1 + ?l) m)"
      unfolding j(2) by (simp only: take_add append.assoc)
    also have "\<dots> = take i m @ target_enc (Domain ?d) @ [hi8 ?p, lo8 ?p]"
      using j(1) assms(1) len take_one [of "i + 1" m] by (subst take_port) (simp_all add: rd(2) [simplified] dom)
    finally show ?thesis using j len unat_byte_le [of "m ! (i + 1)"] by (intro exI [of _ "Domain ?d"] exI [of _ ?p]) simp
  qed
qed

lemma socks5_sound:
  assumes "n + 1 \<le> length m" "run_socks5_request m n = Some (good, i, r)"
  shows "target_wf (fst (snd (snd r))) \<and> take i m = socks5_request_enc r"
proof -
  obtain st req where p: "socks5_request_parse request_start new_socks5_request m 0 n = Some (good, i, st, req)" "r = socks5_message req"
    using assms(2) by (auto simp: run_socks5_request_def)
  then have m: "3 \<le> n" "m ! 0 = socks5_version"
    using assms(1) by (auto simp: socks5_request_parse.simps [of request_start] mem_slice_def Let_def split: if_splits)
  let ?r = "new_socks5_request\<lparr>rq_version := socks5_version, rq_command := m ! 1, rq_null_byte := m ! 2\<rparr>"
  have "socks5_request_parse request_address_start ?r m 3 n = Some (good, i, st, req)"
    using parse_request_start [of n m] m assms(1) p(1) by simp
  from address_start_sound [OF assms(1) _ this] obtain t port where
    "target_wf t" "take i m = take 3 m @ target_enc t @ [hi8 port, lo8 port]" "socks5_message req = (m ! 1, m ! 2, t, port)"
    by (auto simp: new_socks5_request_def)
  then show ?thesis using m assms(1) p(2) by (simp add: socks5_request_enc_def take_three)
qed

interpretation socks5: message_parser "\<lambda>r. target_wf (fst (snd (snd r)))" socks5_request_enc run_socks5_request "\<lambda>_. 0" 1
proof (standard, goal_cases)
  case (1 r rest extra)
  obtain cmd rsv t port where "r = (cmd, rsv, t, port)" by (cases r)
  with 1 show ?case using socks5_parse_complete [of t cmd rsv port rest extra] by (auto simp: run_socks5_request_def)
next
  case (2 n m)
  then obtain res j st req where "socks5_request_parse request_start new_socks5_request m 0 n = Some (res, j, st, req)" "j \<le> n + 1"
    using socks5_request_safe by blast
  then show ?case by (intro exI [of _ res] exI [of _ j] exI [of _ "socks5_message req"]) (simp add: run_socks5_request_def)
next
  case (3 n m i r)
  then show ?case by (rule socks5_sound)
qed

text \<open>A request for a domain name whose last byte is missing: the byte behind the end is read.\<close>

lemma socks5_truncated_domain:
  assumes "0 < length d" "length d \<le> 255"
  shows "\<exists>req. socks5_request_parse request_start new_socks5_request
      ([socks5_version, cmd, rsv, atyp_domain, of_nat (length d)] @ d @ [p] @ x # extra) 0 (length d + 6) =
      Some (good, length d + 7, request_address_start, req) \<and>
    socks5_message req = (cmd, rsv, Domain d, be16 p x) \<and> socks5_request_length req = length d + 7"
proof -
  let ?m = "[socks5_version, cmd, rsv, atyp_domain, of_nat (length d)] @ d @ [p] @ x # extra" and ?n = "length d + 6"
  have start: "socks5_request_parse request_start new_socks5_request ?m 0 ?n =
      socks5_request_parse request_address_start (new_socks5_request\<lparr>rq_version := socks5_version, rq_command := cmd, rq_null_byte := rsv\<rparr>) ?m 3 ?n"
    by (subst parse_request_start) simp_all
  note unfolds = socks5_request_parse.simps [of request_address_start] new_socks5_request_def mem_read_def
    mem_slice_def mem_write_def read_port_def socks5_address_type_size_def domain_name_len_def nth_append Let_def
    socks5_message_def socks5_endpoint_def socks5_port_def socks5_domain_name_def socks5_request_length_def
  show ?thesis using assms unfolding start by (simp add: unfolds length_byte)
qed

section \<open>Properties\<close>

text \<open>C15: SOCKS5 requests round trip. Whatever command, reserved byte, address form (IPv4, IPv6, or a
  domain name of at most 255 bytes) and port a client encodes, and whatever follows the request in the
  buffer, the parser accepts it, stops right behind it, and the accessors of the request return what was
  encoded; \<^verbatim>\<open>length()\<close> is the number of bytes consumed.\<close>

theorem socks5_request_roundtrip:
  assumes "target_wf t"
  shows "\<exists>req. socks5_request_parse request_start new_socks5_request
      (socks5_request_enc (cmd, rsv, t, port) @ rest) 0 (length (socks5_request_enc (cmd, rsv, t, port) @ rest)) =
      Some (good, length (socks5_request_enc (cmd, rsv, t, port)), request_address_start, req) \<and>
    socks5_message req = (cmd, rsv, t, port) \<and> socks5_request_length req = length (socks5_request_enc (cmd, rsv, t, port))"
  using socks5_parse_complete [OF assms, of cmd rsv port rest "[]"] by simp

theorem socks5_request_roundtrip_witness:
  "\<exists>req. socks5_request_parse request_start new_socks5_request
      (socks5_request_enc (1, 0, Domain [97, 98], 443) @ [42]) 0 (length (socks5_request_enc (1, 0, Domain [97, 98], 443) @ [42])) =
      Some (good, length (socks5_request_enc (1, 0, Domain [97, 98], 443)), request_address_start, req) \<and>
    socks5_message req = (1, 0, Domain [97, 98], 443)"
  using socks5_request_roundtrip [of "Domain [97, 98]" 1 0 443 "[42]"] by auto

text \<open>C16: The SOCKS5 parsers on arbitrary bytes. The parsers of the method selection and of the user name
  and password never read outside the bytes they are given; the parser of requests never reads more than
  one byte beyond them. What any of them accepts is, byte for byte, the encoding of what it returns, with
  lengths that fit their length bytes.\<close>

theorem socks5_parsers_safe_and_sound:
  "(n \<le> length m \<longrightarrow> (\<exists>res i ms. run_method_select junk m n = Some (res, i, ms) \<and> i \<le> n \<and>
      (res = good \<longrightarrow> length ms \<le> 255 \<and> take i m = method_select_enc ms))) \<and>
   (n \<le> length m \<longrightarrow> (\<exists>res i u p. run_auth m n = Some (res, i, (u, p)) \<and> i \<le> n \<and>
      (res = good \<longrightarrow> 0 < length u \<and> length u \<le> 255 \<and> 0 < length p \<and> length p \<le> 255 \<and> take i m = auth_enc (u, p)))) \<and>
   (n + 1 \<le> length m \<longrightarrow> (\<exists>res i r. run_socks5_request m n = Some (res, i, r) \<and> i \<le> n + 1 \<and>
      (res = good \<longrightarrow> target_wf (fst (snd (snd r))) \<and> take i m = socks5_request_enc r)))"
proof (intro conjI impI)
  assume n: "n \<le> length m"
  then show "\<exists>res i ms. run_method_select junk m n = Some (res, i, ms) \<and> i \<le> n \<and>
      (res = good \<longrightarrow> length ms \<le> 255 \<and> take i m = method_select_enc ms)"
    using method_select.run_safe [of n m junk] method_select_sound [of n m junk] by fastforce
  obtain res i r where "run_auth m n = Some (res, i, r)" "i \<le> n" using auth.run_safe [of n m] n by auto
  then show "\<exists>res i u p. run_auth m n = Some (res, i, (u, p)) \<and> i \<le> n \<and>
      (res = good \<longrightarrow> 0 < length u \<and> length u \<le> 255 \<and> 0 < length p \<and> length p \<le> 255 \<and> take i m = auth_enc (u, p))"
    using auth_sound [of n m i r] n by (cases r) fastforce
next
  assume n: "n + 1 \<le> length m"
  then obtain res i r where "run_socks5_request m n = Some (res, i, r)" "i \<le> n + 1" using socks5.run_safe [of n m] by auto
  then show "\<exists>res i r. run_socks5_request m n = Some (res, i, r) \<and> i \<le> n + 1 \<and>
      (res = good \<longrightarrow> target_wf (fst (snd (snd r))) \<and> take i m = socks5_request_enc r)"
    using socks5_sound [OF n, of i r] by fastforce
qed

theorem socks5_parsers_safe_and_sound_witness:
  "\<exists>res i u p. run_auth [5, 1, 65, 1, 66] 5 = Some (res, i, (u, p)) \<and> i \<le> 5 \<and>
     (res = good \<longrightarrow> take i [5, 1, 65, 1, 66] = auth_enc (u, p))"
  using socks5_parsers_safe_and_sound [of 5 "[5, 1, 65, 1, 66]" "\<lambda>i. 0"] by auto

end
