(* ===== verification/SS_Request.thy ===== *)
theory SS_Request
  imports Socks5
begin

text \<open>
  The header of the Shadowsocks relay protocol: \<^verbatim>\<open>net/ss.hpp\<close>, \<^verbatim>\<open>net/ss_request.hpp\<close> and
  \<^verbatim>\<open>net/ss_request_parser.hpp\<close>. The code treats the structure \<^verbatim>\<open>address_type_header\<close> as raw memory (it
  writes the port right behind the address instead of into the two port fields), so a request is the 259
  bytes of that structure: the address type, the union of 256 bytes and two bytes.
\<close>

section \<open>Requests\<close>

type_synonym ss_request = "byte list"

definition sizeof_address_type_header :: nat where
  "sizeof_address_type_header = 1 + (1 + 255) + 2"

definition new_ss_request :: ss_request where
  "new_ss_request = replicate sizeof_address_type_header 0"

text \<open>The two other constructors. The check of the length of the name is a debug check, which a release
  build leaves out; \<^const>\<open>None\<close> is a write past the end of the structure.\<close>

definition ss_request_domain :: "byte list \<Rightarrow> u16 \<Rightarrow> ss_request option" where
  "ss_request_domain name port =
     do { r1 \<leftarrow> mem_write new_ss_request 0 [atyp_domain];
          r2 \<leftarrow> mem_write r1 1 [of_nat (length name)];
          r3 \<leftarrow> mem_write r2 2 name;
          mem_write r3 (2 + length name) [hi8 port, lo8 port] }"

definition ss_request_endpoint :: "endpoint \<Rightarrow> ss_request option" where
  "ss_request_endpoint ep =
     (case fst ep of
        AddressV4 a \<Rightarrow> do { r1 \<leftarrow> mem_write new_ss_request 0 [atyp_ipv4];
                           r2 \<leftarrow> mem_write r1 1 a;
                           mem_write r2 (1 + length a) [hi8 (snd ep), lo8 (snd ep)] }
      | AddressV6 a \<Rightarrow> do { r1 \<leftarrow> mem_write new_ss_request 0 [atyp_ipv6];
                           r2 \<leftarrow> mem_write r1 1 a;
                           mem_write r2 (1 + length a) [hi8 (snd ep), lo8 (snd ep)] })"

definition ss_address_type :: "ss_request \<Rightarrow> byte" where
  "ss_address_type r = r ! 0"

definition ss_domain_name_len :: "ss_request \<Rightarrow> nat" where
  "ss_domain_name_len r = unat (r ! 1)"

definition ss_address_type_size :: "ss_request \<Rightarrow> nat" where
  "ss_address_type_size r =
     (if ss_address_type r = atyp_ipv4 then 1 + 4 + 2
      else if ss_address_type r = atyp_domain then 1 + 1 + ss_domain_name_len r + 2
      else if ss_address_type r = atyp_ipv6 then 1 + 16 + 2
      else 0)"

definition ss_length :: "ss_request \<Rightarrow> nat" where
  "ss_length r = ss_address_type_size r"

text \<open>The position of the port: before the structure when the address type is unknown.\<close>

definition ss_port_high_byte :: "ss_request \<Rightarrow> nat option" where
  "ss_port_high_byte r = (if ss_address_type_size r < 2 then None else Some (ss_address_type_size r - 2))"

definition ss_port_low_byte :: "ss_request \<Rightarrow> nat option" where
  "ss_port_low_byte r = (if ss_address_type_size r < 2 then None else Some (ss_address_type_size r - 2 + 1))"

definition ss_port :: "ss_request \<Rightarrow> u16 option" where
  "ss_port r = do { i \<leftarrow> ss_port_high_byte r; h \<leftarrow> mem_read r i; j \<leftarrow> ss_port_low_byte r; l \<leftarrow> mem_read r j; Some (be16 h l) }"

text \<open>The default endpoint of asio is the IPv4 address 0.0.0.0 and port 0.\<close>

definition ss_endpoint :: "ss_request \<Rightarrow> endpoint option" where
  "ss_endpoint r =
     (if ss_address_type r = atyp_ipv4 then do { p \<leftarrow> ss_port r; Some (AddressV4 (take 4 (drop 1 r)), p) }
      else if ss_address_type r = atyp_ipv6 then do { p \<leftarrow> ss_port r; Some (AddressV6 (take 16 (drop 1 r)), p) }
      else Some (AddressV4 [0, 0, 0, 0], 0))"

text \<open>The textual form of an address is asio's.\<close>

definition ss_domain_name :: "(ip_address \<Rightarrow> byte list) \<Rightarrow> ss_request \<Rightarrow> byte list" where
  "ss_domain_name to_string r =
     (if ss_address_type r = atyp_ipv4 then to_string (AddressV4 (take 4 (drop 1 r)))
      else if ss_address_type r = atyp_ipv6 then to_string (AddressV6 (take 16 (drop 1 r)))
      else if ss_address_type r = atyp_domain then take (ss_domain_name_len r) (drop 2 r)
      else [])"

section \<open>The parser\<close>

definition ss_read_port :: "byte list \<Rightarrow> nat \<Rightarrow> ss_request \<Rightarrow> (nat \<times> ss_request) option" where
  "ss_read_port m i r =
     do { h \<leftarrow> ss_port_high_byte r; b \<leftarrow> mem_read m i; r1 \<leftarrow> mem_write r h [b];
          l \<leftarrow> ss_port_low_byte r1; c \<leftarrow> mem_read m (i + 1); r2 \<leftarrow> mem_write r1 l [c];
          Some (i + 2, r2) }"

definition ss_parse :: "ss_request \<Rightarrow> byte list \<Rightarrow> nat \<Rightarrow> nat \<Rightarrow> (result_type \<times> nat \<times> ss_request) option" where
  "ss_parse req m i e =
     (if e < i + 1 then Some (indeterminate, i, req)
      else do {
        t \<leftarrow> mem_read m i;
        req \<leftarrow> mem_write req 0 [t];
        let i = i + 1;
        if ss_address_type req \<noteq> atyp_ipv4 \<and> ss_address_type req \<noteq> atyp_domain \<and> ss_address_type req \<noteq> atyp_ipv6
        then Some (bad, i, req)
        else if e < i + ss_address_type_size req then Some (indeterminate, i, req)
        else if ss_address_type req = atyp_ipv4 then do {
          a \<leftarrow> mem_slice m i 4;
          req \<leftarrow> mem_write req 1 a;
          (i, req) \<leftarrow> ss_read_port m (i + 4) req;
          Some (good, i, req) }
        else if ss_address_type req = atyp_domain then do {
          l \<leftarrow> mem_read m i;
          req \<leftarrow> mem_write req 1 [l];
          if e < i + (ss_domain_name_len req + 2) then Some (indeterminate, i, req)
          else do {
            name \<leftarrow> mem_slice m (i + 1) (ss_domain_name_len req);
            req1 \<leftarrow> mem_write req 2 name;
            (i, req2) \<leftarrow> ss_read_port m (i + 1 + ss_domain_name_len req) req1;
            Some (good, i, req2) } }
        else do {
          a \<leftarrow> mem_slice m i 16;
          req \<leftarrow> mem_write req 1 a;
          (i, req) \<leftarrow> ss_read_port m (i + 16) req;
          Some (good, i, req) } })"

section \<open>The structure as a growing prefix\<close>

text \<open>Constructors and parser fill the structure from the front, each write right behind the last one.\<close>

lemma write_next:
  "i = length xs \<Longrightarrow> length ys \<le> length zs \<Longrightarrow> mem_write (xs @ zs) i ys = Some (xs @ ys @ drop (length ys) zs)"
  by (simp add: mem_write_def)

lemma write_first: "length ys \<le> length zs \<Longrightarrow> mem_write zs 0 ys = Some (ys @ drop (length ys) zs)"
  using write_next [of 0 "[]"] by simp

lemma size_prefix: "2 \<le> length xs \<Longrightarrow> ss_address_type_size (xs @ zs) = ss_address_type_size xs"
  by (cases xs; cases "tl xs") (auto simp: ss_address_type_size_def ss_address_type_def ss_domain_name_len_def)

lemma ss_read_port_prefix:
  assumes "2 \<le> length xs" "ss_address_type_size xs = length xs + 2" "2 \<le> length zs" "i + 2 \<le> length m"
  shows "ss_read_port m i (xs @ zs) = Some (i + 2, xs @ [m ! i, m ! (i + 1)] @ drop 2 zs)"
proof -
  have "mem_write (xs @ zs) (length xs) [m ! i] = Some (xs @ [m ! i] @ drop 1 zs)"
    using write_next [of "length xs" xs "[m ! i]" zs] assms(3) by simp
  moreover have "mem_write (xs @ m ! i # drop 1 zs) (Suc (length xs)) [m ! Suc i] = Some (xs @ [m ! i, m ! Suc i] @ drop 2 zs)"
    using write_next [of "Suc (length xs)" "xs @ [m ! i]" "[m ! Suc i]" "drop 1 zs"] assms(3) by (simp add: numeral_2_eq_2)
  ultimately show ?thesis using assms
    by (simp add: ss_read_port_def ss_port_high_byte_def ss_port_low_byte_def size_prefix mem_read_def)
qed

type_synonym ss_message = "target \<times> u16"

definition ss_enc :: "ss_message \<Rightarrow> byte list" where
  "ss_enc r = target_enc (fst r) @ [hi8 (snd r), lo8 (snd r)]"

text \<open>What the accessors say of a request.\<close>

definition ss_message :: "ss_request \<Rightarrow> ss_message" where
  "ss_message r =
     (if ss_address_type r = atyp_domain then Domain (take (ss_domain_name_len r) (drop 2 r))
      else case ss_endpoint r of Some (a, p) \<Rightarrow> Address a | None \<Rightarrow> Address (AddressV4 []),
      case ss_port r of Some p \<Rightarrow> p | None \<Rightarrow> 0)"

lemma ss_message_enc:
  assumes "target_wf t"
  shows "ss_message (ss_enc (t, p) @ zs) = (t, p)" and "ss_length (ss_enc (t, p) @ zs) = length (ss_enc (t, p))"
    and "ss_port (ss_enc (t, p) @ zs) = Some p" and "ss_address_type (ss_enc (t, p) @ zs) = hd (target_enc t)"
  using assms
  by (cases t rule: target_enc.cases;
      simp add: ss_message_def ss_enc_def ss_address_type_def ss_domain_name_len_def ss_length_def ss_address_type_size_def
        ss_endpoint_def ss_port_def ss_port_high_byte_def ss_port_low_byte_def mem_read_def length_byte nth_append)+

lemma ss_request_domain_enc:
  "length name \<le> 255 \<Longrightarrow>
   ss_request_domain name port = Some (ss_enc (Domain name, port) @ drop (length (ss_enc (Domain name, port))) new_ss_request)"
  by (simp add: ss_request_domain_def ss_enc_def mem_write_def new_ss_request_def sizeof_address_type_header_def)

lemma ss_request_domain_overflow: "255 < length name \<Longrightarrow> ss_request_domain name port = None"
  by (auto simp: ss_request_domain_def mem_write_def new_ss_request_def sizeof_address_type_header_def)

lemma ss_request_endpoint_enc:
  "target_wf (Address a) \<Longrightarrow>
   ss_request_endpoint (a, port) = Some (ss_enc (Address a, port) @ drop (length (ss_enc (Address a, port))) new_ss_request)"
  by (cases a) (simp_all add: ss_request_endpoint_def ss_enc_def mem_write_def new_ss_request_def sizeof_address_type_header_def)

section \<open>The parser implements the encoding\<close>

text \<open>The number of bytes the tests of the parser ask for, on a request that is all zero: the address type
  is counted twice, the length byte of a name not at all.\<close>

fun ss_asked :: "target \<Rightarrow> nat" where
  "ss_asked (Domain d) = max 5 (length d + 3)"
| "ss_asked (Address (AddressV4 a)) = 8"
| "ss_asked (Address (AddressV6 a)) = 20"

text \<open>What a sender has to provide: the whole header, and as many bytes as the tests ask for.\<close>

fun ss_demand :: "target \<Rightarrow> nat" where
  "ss_demand (Domain d) = (if d = [] then 5 else length d + 4)"
| "ss_demand (Address (AddressV4 a)) = 8"
| "ss_demand (Address (AddressV6 a)) = 20"

lemma ss_asked_le_demand: "ss_asked t \<le> ss_demand t"
  by (cases t rule: ss_demand.cases) (auto simp: Suc_le_eq)

lemma take_field: "take (i + n + k) m = take i m @ take n (drop i m) @ take k (drop (i + n) m)"
  by (simp only: take_add append.assoc)

lemma ss_parse_ip:
  assumes "m ! 0 = t" "t = atyp_ipv4 \<and> n = 4 \<or> t = atyp_ipv6 \<and> n = 16" "n + 4 \<le> e" "n + 3 \<le> length m" "length req = 259"
  shows "ss_parse req m 0 e = Some (good, 1 + n + 2, take (1 + n + 2) m @ drop (1 + n + 2) req)"
proof -
  let ?a = "take n (drop 1 m)"
  have a: "length ?a = n" "n \<le> 16" using assms by auto
  have w: "mem_write req 0 [t] = Some (t # drop 1 req)" "mem_write (t # drop 1 req) 1 ?a = Some ((t # ?a) @ drop (n + 1) req)"
    using a assms write_next [of 1 "[t]" ?a "drop 1 req"] write_first [of "[t]" req] by simp_all
  have p: "ss_read_port m (1 + n) ((t # ?a) @ drop (n + 1) req) = Some (1 + n + 2, (t # ?a) @ [m ! (1 + n), m ! (1 + n + 1)] @ drop (1 + n + 2) req)"
    using ss_read_port_prefix [of "t # ?a" "drop (n + 1) req" "1 + n" m] a assms
    by (auto simp: ss_address_type_size_def ss_address_type_def)
  have "take (1 + n + 2) m = take 1 m @ ?a @ take 2 (drop (1 + n) m)" by (rule take_field)
  then have "take (1 + n + 2) m = (t # ?a) @ [m ! (1 + n), m ! (1 + n + 1)]"
    using assms take_two [of "drop (1 + n) m"] take_one [of 0 m] by (cases m) simp_all
  then show ?thesis using assms w p a
    by (auto simp: ss_parse_def mem_read_def mem_slice_def ss_address_type_def ss_address_type_size_def)
qed

lemma ss_parse_domain:
  assumes "m ! 0 = atyp_domain" "5 + ss_domain_name_len req \<le> e" "unat (m ! 1) + 3 \<le> e" "unat (m ! 1) + 4 \<le> length m" "length req = 259"
  shows "ss_parse req m 0 e = Some (good, 2 + unat (m ! 1) + 2, take (2 + unat (m ! 1) + 2) m @ drop (2 + unat (m ! 1) + 2) req)"
proof -
  define l where "l = m ! 1"
  define n where "n = unat l"
  let ?d = "take n (drop 2 m)"
  have d: "length ?d = n" "n \<le> 255" using assms unat_byte_le [of "m ! 1"] by (simp_all add: n_def l_def)
  have w: "mem_write req 0 [atyp_domain] = Some (atyp_domain # drop 1 req)"
    "mem_write (atyp_domain # drop 1 req) 1 [l] = Some ([atyp_domain, l] @ drop 2 req)"
    "mem_write ([atyp_domain, l] @ drop 2 req) 2 ?d = Some (([atyp_domain, l] @ ?d) @ drop (n + 2) req)"
    using d assms write_next [of 1 "[atyp_domain]" "[l]" "drop 1 req"] write_next [of 2 "[atyp_domain, l]" ?d "drop 2 req"]
      write_first [of "[atyp_domain]" req] by (simp_all add: numeral_2_eq_2)
  have p: "ss_read_port m (2 + n) (([atyp_domain, l] @ ?d) @ drop (n + 2) req) =
      Some (2 + n + 2, ([atyp_domain, l] @ ?d) @ [m ! (2 + n), m ! (2 + n + 1)] @ drop (2 + n + 2) req)"
    using ss_read_port_prefix [of "[atyp_domain, l] @ ?d" "drop (n + 2) req" "2 + n" m] d assms
    by (auto simp: ss_address_type_size_def ss_address_type_def ss_domain_name_len_def n_def l_def)
  have "take (2 + n + 2) m = take 2 m @ ?d @ take 2 (drop (2 + n) m)" by (rule take_field)
  then have t: "take (2 + n + 2) m = ([atyp_domain, l] @ ?d) @ [m ! (2 + n), m ! (2 + n + 1)]"
    using assms take_two [of "drop (2 + n) m"] take_two [of m] by (simp add: n_def l_def)
  have e: "e \<ge> n + 3" "e \<ge> 5" "ss_domain_name_len (atyp_domain # drop 1 req) + 5 \<le> e"
    using assms by (simp_all add: n_def l_def ss_domain_name_len_def)
  have l: "m ! Suc 0 = l" "ss_domain_name_len (atyp_domain # l # xs) = n" for xs
    by (simp_all add: l_def n_def ss_domain_name_len_def)
  show ?thesis using assms(1,4,5) w p d t e unfolding l_def [symmetric] n_def [symmetric]
    by (auto simp: numeral_2_eq_2 l ss_parse_def mem_read_def mem_slice_def ss_address_type_def ss_address_type_size_def)
qed

lemma ss_parse_short:
  assumes "e \<le> length m" "length req = 259" "m ! 0 = atyp_ipv4 \<Longrightarrow> e < 8" "m ! 0 = atyp_ipv6 \<Longrightarrow> e < 20"
    "m ! 0 = atyp_domain \<Longrightarrow> e < 5 + ss_domain_name_len req \<or> e < unat (m ! 1) + 3"
  shows "\<exists>res i r. ss_parse req m 0 e = Some (res, i, r) \<and> i \<le> e \<and> res \<noteq> good \<and>
    (m ! 0 \<in> {atyp_ipv4, atyp_domain, atyp_ipv6} \<longrightarrow> res = indeterminate)"
proof (cases "e = 0")
  case False
  have w: "mem_write req 0 [m ! 0] = Some (m ! 0 # drop 1 req)" for b using assms(2) write_first [of "[m ! 0]" req] by simp
  have w2: "mem_write (m ! 0 # drop 1 req) 1 [m ! 1] = Some ([m ! 0, m ! 1] @ drop 2 req)"
    using assms(2) write_next [of 1 "[m ! 0]" "[m ! 1]" "drop 1 req"] by (simp add: numeral_2_eq_2)
  have l: "ss_domain_name_len (m ! 0 # drop 1 req) = ss_domain_name_len req" using assms(2) by (simp add: ss_domain_name_len_def)
  show ?thesis using False assms w w2 l
    by (auto simp: ss_parse_def mem_read_def ss_address_type_def ss_address_type_size_def ss_domain_name_len_def)
qed (simp add: ss_parse_def)

text \<open>What the parser does, on any input: the request it returns is what it consumed, in front of what was there.\<close>

lemma ss_parse_spec:
  assumes "e + 1 \<le> length m" "length req = 259"
  shows "\<exists>res i r. ss_parse req m 0 e = Some (res, i, r) \<and> i \<le> e + 1 \<and>
    (res = good \<longrightarrow> r = take i m @ drop i req \<and> (\<exists>t p. target_wf t \<and> take i m = ss_enc (t, p)))"
proof -
  consider (v4) "m ! 0 = atyp_ipv4" "8 \<le> e" | (v6) "m ! 0 = atyp_ipv6" "20 \<le> e"
    | (dom) "m ! 0 = atyp_domain" "5 + ss_domain_name_len req \<le> e" "unat (m ! 1) + 3 \<le> e"
    | (short) "m ! 0 = atyp_ipv4 \<Longrightarrow> e < 8" "m ! 0 = atyp_ipv6 \<Longrightarrow> e < 20"
      "m ! 0 = atyp_domain \<Longrightarrow> e < 5 + ss_domain_name_len req \<or> e < unat (m ! 1) + 3" by force
  then show ?thesis
  proof cases
    case v4
    let ?a = "take 4 (drop 1 m)" and ?p = "be16 (m ! 5) (m ! 6)"
    have "take 7 m = ss_enc (Address (AddressV4 ?a), ?p)"
      using take_field [of 1 4 2 m] take_port [of 5 m] take_one [of 0 m] v4 assms by (cases m) (simp_all add: ss_enc_def)
    then show ?thesis using ss_parse_ip [of m atyp_ipv4 4 e req] v4 assms
      by (auto intro!: exI [of _ "Address (AddressV4 ?a)"] exI [of _ ?p])
  next
    case v6
    let ?a = "take 16 (drop 1 m)" and ?p = "be16 (m ! 17) (m ! 18)"
    have "take 19 m = ss_enc (Address (AddressV6 ?a), ?p)"
      using take_field [of 1 16 2 m] take_port [of 17 m] take_one [of 0 m] v6 assms by (cases m) (simp_all add: ss_enc_def)
    then show ?thesis using ss_parse_ip [of m atyp_ipv6 16 e req] v6 assms
      by (auto intro!: exI [of _ "Address (AddressV6 ?a)"] exI [of _ ?p])
  next
    case dom
    let ?n = "unat (m ! 1)"
    let ?d = "take ?n (drop 2 m)" and ?p = "be16 (m ! (2 + ?n)) (m ! (2 + ?n + 1))"
    have d: "length ?d = ?n" using dom(3) assms(1) by simp
    have "take (2 + ?n + 2) m = [m ! 0, m ! 1] @ ?d @ take 2 (drop (2 + ?n) m)"
      using take_field [of 2 ?n 2 m] take_two [of m] dom(3) assms(1) by simp
    also have "\<dots> = ss_enc (Domain ?d, ?p)"
      unfolding ss_enc_def target_enc.simps d using dom assms(1) by (subst take_port) simp_all
    finally show ?thesis using ss_parse_domain [of m req e] dom assms d unat_byte_le [of "m ! 1"]
      by (intro exI [of _ good] exI conjI impI) (auto intro!: exI [of _ "Domain ?d"] exI [of _ ?p])
  next
    case short
    have "\<exists>res i r. ss_parse req m 0 e = Some (res, i, r) \<and> i \<le> e \<and> res \<noteq> good \<and> (m ! 0 \<in> {atyp_ipv4, atyp_domain, atyp_ipv6} \<longrightarrow> res = indeterminate)"
      using assms by (intro ss_parse_short short) simp_all
    then show ?thesis by force
  qed
qed

definition run_ss :: "byte list \<Rightarrow> nat \<Rightarrow> (result_type \<times> nat \<times> ss_message) option" where
  "run_ss m n = map_option (\<lambda>(res, i, r). (res, i, ss_message r)) (ss_parse new_ss_request m 0 n)"

definition ss_slack :: "ss_message \<Rightarrow> nat" where
  "ss_slack r = ss_demand (fst r) - length (ss_enc r)"

lemma new_ss_request_zero: "length new_ss_request = 259" "ss_domain_name_len new_ss_request = 0"
  by (simp_all add: new_ss_request_def sizeof_address_type_header_def ss_domain_name_len_def)

lemma ss_parse_complete:
  assumes "target_wf t" "ss_asked t \<le> n"
  shows "ss_parse new_ss_request (ss_enc (t, p) @ rest) 0 n =
    Some (good, length (ss_enc (t, p)), ss_enc (t, p) @ drop (length (ss_enc (t, p))) new_ss_request)"
proof (cases t rule: target_enc.cases)
  case (1 d)
  let ?m = "ss_enc (t, p) @ rest"
  have "?m ! 0 = atyp_domain" "?m ! 1 = of_nat (length d)" "unat (?m ! 1) = length d" "length (ss_enc (t, p)) = 2 + length d + 2"
    using 1 assms(1) by (simp_all add: ss_enc_def length_byte)
  moreover have "5 \<le> n" "length d + 3 \<le> n" using 1 assms(2) by simp_all
  ultimately show ?thesis using ss_parse_domain [of ?m new_ss_request n] new_ss_request_zero by simp
next
  case (2 a)
  then show ?thesis using ss_parse_ip [of "ss_enc (t, p) @ rest" atyp_ipv4 4 n new_ss_request] assms new_ss_request_zero
    by (simp add: ss_enc_def)
next
  case (3 a)
  then show ?thesis using ss_parse_ip [of "ss_enc (t, p) @ rest" atyp_ipv6 16 n new_ss_request] assms new_ss_request_zero
    by (simp add: ss_enc_def)
qed

lemma ss_parse_incomplete:
  assumes "target_wf t" "n < ss_asked t" "n \<le> length (ss_enc (t, p) @ rest)" "length req = 259" "ss_domain_name_len req = 0"
  shows "\<exists>i r. ss_parse req (ss_enc (t, p) @ rest) 0 n = Some (indeterminate, i, r) \<and> i \<le> n"
proof -
  let ?m = "ss_enc (t, p) @ rest"
  have "?m ! 0 \<in> {atyp_ipv4, atyp_domain, atyp_ipv6}" by (cases t rule: target_enc.cases) (simp_all add: ss_enc_def)
  moreover have "\<exists>res i r. ss_parse req ?m 0 n = Some (res, i, r) \<and> i \<le> n \<and> res \<noteq> good \<and> (?m ! 0 \<in> {atyp_ipv4, atyp_domain, atyp_ipv6} \<longrightarrow> res = indeterminate)"
    using assms by (intro ss_parse_short; cases t rule: target_enc.cases) (auto simp: ss_enc_def length_byte)
  ultimately show ?thesis by blast
qed

interpretation ss: message_parser "\<lambda>r. target_wf (fst r)" ss_enc run_ss ss_slack 1
proof (standard, goal_cases)
  case (1 r rest extra)
  obtain t p where r: "r = (t, p)" by (cases r)
  with 1 show ?case using ss_parse_complete [of t "length (ss_enc r @ rest)" p "rest @ extra"] ss_message_enc [of t p] ss_asked_le_demand [of t]
    by (simp add: run_ss_def ss_slack_def)
next
  case (2 n m)
  then obtain res i r where "ss_parse new_ss_request m 0 n = Some (res, i, r)" "i \<le> n + 1"
    using ss_parse_spec [of n m new_ss_request] new_ss_request_zero by auto
  then show ?case by (cases "ss_message r") (simp add: run_ss_def)
next
  case (3 n m i r)
  then obtain q where q: "ss_parse new_ss_request m 0 n = Some (good, i, q)" "r = ss_message q" by (auto simp: run_ss_def)
  then obtain t p where "target_wf t" "take i m = ss_enc (t, p)" "q = take i m @ drop i new_ss_request"
    using ss_parse_spec [of n m new_ss_request] 3(1) new_ss_request_zero by auto
  then show ?case using q(2) ss_message_enc(1) [of t p "drop i new_ss_request"] by simp
qed

section \<open>Properties\<close>

text \<open>C22: Shadowsocks headers. The constructors of a request write the encoding of the target and the port
  into the structure, and \<^verbatim>\<open>length()\<close> is its size. The parser, given that header and enough bytes
  behind it, returns good, stops right behind the header, and the request it fills is byte for byte the
  one that was sent.\<close>

theorem ss_header_roundtrip:
  assumes "ss_request_domain name port = Some r \<and> t = Domain name \<or> ss_request_endpoint (a, port) = Some r \<and> t = Address a"
    and "target_wf t" "ss_slack (t, port) \<le> length rest"
  shows "take (ss_length r) r = ss_enc (t, port) \<and>
    ss_parse new_ss_request (take (ss_length r) r @ rest) 0 (ss_length r + length rest) = Some (good, ss_length r, r)"
proof -
  have r: "r = ss_enc (t, port) @ drop (length (ss_enc (t, port))) new_ss_request"
    using assms(1,2) ss_request_domain_enc [of name port] ss_request_endpoint_enc [of a port]
    by auto
  then have l: "ss_length r = length (ss_enc (t, port))" using ss_message_enc(2) [OF assms(2)] by simp
  have "ss_parse new_ss_request (ss_enc (t, port) @ rest) 0 (ss_length r + length rest) = Some (good, ss_length r, r)"
    using ss_parse_complete [OF assms(2), of "ss_length r + length rest" port rest] ss_asked_le_demand [of t] assms(3) l r by (simp add: ss_slack_def)
  moreover have "take (ss_length r) r = ss_enc (t, port)" using l by (subst r) simp
  ultimately show ?thesis by simp
qed

theorem ss_header_roundtrip_witness:
  "\<exists>r. ss_request_endpoint (AddressV4 [127, 0, 0, 1], 80) = Some r \<and>
     ss_parse new_ss_request (take (ss_length r) r @ [71]) 0 (ss_length r + 1) = Some (good, ss_length r, r)"
proof -
  obtain r where r: "ss_request_endpoint (AddressV4 [127, 0, 0, 1], 80) = Some r"
    by (simp add: ss_request_endpoint_def mem_write_def new_ss_request_def sizeof_address_type_header_def)
  moreover have "ss_slack (Address (AddressV4 [127, 0, 0, 1]), 80) \<le> length [71 :: byte]" by (simp add: ss_slack_def ss_enc_def)
  ultimately show ?thesis
    using ss_header_roundtrip [of "[]" 80 r "Address (AddressV4 [127, 0, 0, 1])" "AddressV4 [127, 0, 0, 1]" "[71]"]
    by auto
qed

text \<open>C23: What the Shadowsocks parser does with any bytes. It terminates, reads at most one byte beyond the
  end it is given, and accepts only a header that is in memory byte for byte. Given the beginning of a header (and
  of what follows it) up to any end, it accepts exactly when there are as many bytes as its tests ask for, and reports
  an incomplete header otherwise. These tests are off by one in both directions: a header with an IP address, or with an
  empty name, is reported as incomplete when nothing follows it, and a header with a name of two bytes or more is accepted
  without its last byte, which is then read from behind the end.\<close>

theorem ss_parser_safe_and_incomplete:
  "(n + 1 \<le> length m \<longrightarrow> (\<exists>res i r. ss_parse new_ss_request m 0 n = Some (res, i, r) \<and> i \<le> n + 1 \<and>
      (res = good \<longrightarrow> take i m = ss_enc (ss_message r)))) \<and>
   (target_wf t \<and> k \<le> length (ss_enc (t, p) @ rest) \<longrightarrow>
      (\<exists>i r. ss_parse new_ss_request (ss_enc (t, p) @ rest) 0 k = Some (if ss_asked t \<le> k then good else indeterminate, i, r) \<and>
         (ss_asked t \<le> k \<longrightarrow> i = length (ss_enc (t, p)) \<and> ss_message r = (t, p)))) \<and>
   (\<forall>d. 2 \<le> length d \<longrightarrow> ss_asked (Domain d) + 1 = length (ss_enc (Domain d, p))) \<and>
   (\<forall>a. target_wf (Address a) \<longrightarrow> ss_asked (Address a) = length (ss_enc (Address a, p)) + 1)"
proof (intro conjI impI allI)
  assume "n + 1 \<le> length m"
  then show "\<exists>res i r. ss_parse new_ss_request m 0 n = Some (res, i, r) \<and> i \<le> n + 1 \<and> (res = good \<longrightarrow> take i m = ss_enc (ss_message r))"
    using ss_parse_spec [of n m new_ss_request] new_ss_request_zero ss_message_enc(1) by fastforce
next
  assume a: "target_wf t \<and> k \<le> length (ss_enc (t, p) @ rest)"
  show "\<exists>i r. ss_parse new_ss_request (ss_enc (t, p) @ rest) 0 k = Some (if ss_asked t \<le> k then good else indeterminate, i, r) \<and>
      (ss_asked t \<le> k \<longrightarrow> i = length (ss_enc (t, p)) \<and> ss_message r = (t, p))"
  proof (cases "ss_asked t \<le> k")
    case True
    then show ?thesis using ss_parse_complete [of t k p rest] ss_message_enc(1) [of t p] a by simp
  next
    case False
    then obtain i r where "ss_parse new_ss_request (ss_enc (t, p) @ rest) 0 k = Some (indeterminate, i, r)"
      using ss_parse_incomplete [of t k p rest new_ss_request] a new_ss_request_zero by auto
    with False show ?thesis by simp
  qed
next
  fix d :: "byte list" assume "2 \<le> length d"
  then show "ss_asked (Domain d) + 1 = length (ss_enc (Domain d, p))" by (simp add: ss_enc_def)
next
  fix a assume "target_wf (Address a)"
  then show "ss_asked (Address a) = length (ss_enc (Address a, p)) + 1" by (cases a) (simp_all add: ss_enc_def)
qed

theorem ss_parser_safe_and_incomplete_witness:
  "(\<exists>i r. ss_parse new_ss_request (ss_enc (Address (AddressV4 [1, 2, 3, 4]), 80)) 0 7 = Some (indeterminate, i, r)) \<and>
   (\<exists>r. ss_parse new_ss_request (ss_enc (Domain [97, 98], 80)) 0 5 = Some (good, 6, r) \<and> ss_message r = (Domain [97, 98], 80))"
  using ss_parser_safe_and_incomplete [of 0 "[]" "Address (AddressV4 [1, 2, 3, 4])" 7 80 "[]"]
    ss_parser_safe_and_incomplete [of 0 "[]" "Domain [97, 98]" 5 80 "[]"] by (simp add: ss_enc_def numeral_eq_Suc)

text \<open>C24: A domain name longer than 255 bytes does not fit the structure: the constructor of a request writes
  past its end. Names up to that length are written completely.\<close>

theorem ss_request_domain_fits_iff: "(\<exists>r. ss_request_domain name port = Some r) \<longleftrightarrow> length name \<le> 255"
  using ss_request_domain_enc [of name port] ss_request_domain_overflow [of name port] by (cases "length name \<le> 255") auto

end
