(* ===== verification/Socks4.thy ===== *)
theory Socks4
  imports Request_Parser
begin

text \<open>
  SOCKS4 and SOCKS4A messages: \<^verbatim>\<open>net/socks4.hpp\<close>, \<^verbatim>\<open>net/socks4_request.hpp\<close> and the parser of
  \<^verbatim>\<open>net/socks4_request_parser.hpp\<close>. The user id and the domain name are terminated by a zero byte.
\<close>

definition socks4_version :: byte where
  "socks4_version = 4"

record socks4_request =
  s4_version :: byte
  s4_command :: byte
  s4_port_high_byte :: byte
  s4_port_low_byte :: byte
  s4_address :: "byte list"
  s4_user_id :: "byte list"
  s4_domain_name :: "byte list"

definition new_socks4_request :: socks4_request where
  "new_socks4_request = \<lparr>s4_version = 0, s4_command = 0, s4_port_high_byte = 0, s4_port_low_byte = 0,
     s4_address = [0, 0, 0, 0], s4_user_id = [], s4_domain_name = []\<rparr>"

text \<open>The address is read as a little-endian \<^verbatim>\<open>uint32_t\<close>.\<close>

definition le_u32 :: "byte list \<Rightarrow> u32" where
  "le_u32 a = ucast (a ! 0) OR push_bit 8 (ucast (a ! 1)) OR push_bit 16 (ucast (a ! 2)) OR push_bit 24 (ucast (a ! 3))"

definition is_socks4a :: "socks4_request \<Rightarrow> bool" where
  "is_socks4a r =
     (let ipnum = le_u32 (s4_address r) in drop_bit 24 ipnum \<noteq> 0 \<and> ipnum AND NOT (push_bit 24 255) = 0)"

definition socks4_endpoint :: "socks4_request \<Rightarrow> endpoint" where
  "socks4_endpoint r = (AddressV4 (s4_address r), be16 (s4_port_high_byte r) (s4_port_low_byte r))"

definition socks4_port :: "socks4_request \<Rightarrow> u16" where
  "socks4_port r = be16 (s4_port_high_byte r) (s4_port_low_byte r)"

definition socks4_request_length :: "socks4_request \<Rightarrow> nat" where
  "socks4_request_length r = 8 + length (s4_user_id r) + 1 + (if is_socks4a r then length (s4_domain_name r) + 1 else 0)"

text \<open>\<^verbatim>\<open>while (i != end && *i != '\0') ++i;\<close>\<close>

function scan_nul :: "byte list \<Rightarrow> nat \<Rightarrow> nat \<Rightarrow> nat option" where
  "scan_nul m i e =
     (if i = e then Some i
      else if \<not> i < length m then None
      else if m ! i \<noteq> 0 then scan_nul m (i + 1) e
      else Some i)"
  by pat_completeness auto
termination
  by (relation "measure (\<lambda>(m, i, e). length m - i)") auto

declare scan_nul.simps [simp del]

datatype socks4_state = s4_request_start | s4_request_userid_start | s4_request_domain_start

function socks4_request_parse :: "socks4_state \<Rightarrow> socks4_request \<Rightarrow> byte list \<Rightarrow> nat \<Rightarrow> nat
    \<Rightarrow> (result_type \<times> nat \<times> socks4_state \<times> socks4_request) option" where
  "socks4_request_parse st req m i e =
     (case st of
        s4_request_start \<Rightarrow>
          if e < i + 8 then Some (indeterminate, i, st, req)
          else do {
            h \<leftarrow> mem_slice m i 8;
            let req1 = req\<lparr>s4_version := h ! 0, s4_command := h ! 1, s4_port_high_byte := h ! 2, s4_port_low_byte := h ! 3,
                           s4_address := drop 4 h\<rparr>;
            if s4_version req1 \<noteq> socks4_version then Some (bad, i, st, req1)
            else socks4_request_parse s4_request_userid_start req1 m (i + 8) e }
      | s4_request_userid_start \<Rightarrow>
          do { j \<leftarrow> scan_nul m i e;
               if j = e then Some (indeterminate, j, st, req)
               else do {
                 xs \<leftarrow> mem_slice m i (j - i);
                 let req1 = req\<lparr>s4_user_id := xs\<rparr>;
                 if is_socks4a req1 then socks4_request_parse s4_request_domain_start req1 m (j + 1) e
                 else Some (good, j + 1, st, req1) } }
      | s4_request_domain_start \<Rightarrow>
          do { j \<leftarrow> scan_nul m i e;
               if j = e then Some (indeterminate, j, st, req)
               else do {
                 xs \<leftarrow> mem_slice m i (j - i);
                 Some (good, j + 1, st, req\<lparr>s4_domain_name := xs\<rparr>) } })"
  by pat_completeness auto
termination
  by (relation "measure (\<lambda>(st, _). case st of s4_request_start \<Rightarrow> 2 | s4_request_userid_start \<Rightarrow> 1 | s4_request_domain_start \<Rightarrow> 0)") auto

declare socks4_request_parse.simps [simp del]

section \<open>Replies\<close>

record socks4_reply =
  r4_null_byte :: byte
  r4_status :: byte
  r4_port_high_byte :: byte
  r4_port_low_byte :: byte
  r4_address :: "byte list"

definition socks4_request_granted :: byte where
  "socks4_request_granted = 0x5a"

text \<open>Port and address of a new reply are not initialised.\<close>

definition new_socks4_reply :: "byte \<Rightarrow> byte \<Rightarrow> byte list \<Rightarrow> socks4_reply" where
  "new_socks4_reply ph pl a = \<lparr>r4_null_byte = 0, r4_status = 0, r4_port_high_byte = ph, r4_port_low_byte = pl, r4_address = a\<rparr>"

definition socks4_reply_buffers :: "socks4_reply \<Rightarrow> byte list" where
  "socks4_reply_buffers r = [r4_null_byte r, r4_status r, r4_port_high_byte r, r4_port_low_byte r] @ r4_address r"

definition socks4_reply_success :: "socks4_reply \<Rightarrow> bool" where
  "socks4_reply_success r \<longleftrightarrow> r4_null_byte r = 0 \<and> r4_status r = socks4_request_granted"

definition socks4_reply_endpoint :: "socks4_reply \<Rightarrow> endpoint" where
  "socks4_reply_endpoint r = (AddressV4 (r4_address r), be16 (r4_port_high_byte r) (r4_port_low_byte r))"

text \<open>\<^verbatim>\<open>to_v4()\<close> of an IPv6 address throws.\<close>

definition socks4_reply_set_endpoint :: "endpoint \<Rightarrow> socks4_reply \<Rightarrow> socks4_reply option" where
  "socks4_reply_set_endpoint ep r =
     (case fst ep of
        AddressV4 a \<Rightarrow> Some (r\<lparr>r4_address := a, r4_port_high_byte := hi8 (snd ep), r4_port_low_byte := lo8 (snd ep)\<rparr>)
      | AddressV6 a \<Rightarrow> None)"

definition socks4_reply_length :: "socks4_reply \<Rightarrow> nat" where
  "socks4_reply_length r = 4 + 4"

definition socks4_reply_port :: "socks4_reply \<Rightarrow> u16" where
  "socks4_reply_port r = be16 (r4_port_high_byte r) (r4_port_low_byte r)"

section \<open>The parser meets the contract\<close>

lemma is_socks4a_iff: "is_socks4a r \<longleftrightarrow> s4_address r ! 0 = 0 \<and> s4_address r ! 1 = 0 \<and> s4_address r ! 2 = 0 \<and> s4_address r ! 3 \<noteq> 0"
proof -
  define a b c d where "a = s4_address r ! 0" and "b = s4_address r ! 1" and "c = s4_address r ! 2" and "d = s4_address r ! 3"
  let ?w = "le_u32 (s4_address r)"
  have w: "bit ?w n \<longleftrightarrow> (if n < 8 then bit a n else if n < 16 then bit b (n - 8) else if n < 24 then bit c (n - 16) else bit d (n - 24))" for n
    by (auto simp: le_u32_def bit_simps a_def b_def c_def d_def dest: bit_imp_le_length)
  define M :: u32 where "M = NOT (push_bit 24 255)"
  have e: "(255 :: u32) = mask 8" by (simp add: mask_eq_exp_minus_1)
  have m: "bit M n \<longleftrightarrow> n < 24" for n unfolding M_def e by (auto simp: bit_simps)
  have hi: "drop_bit 24 ?w = 0 \<longleftrightarrow> d = 0"
  proof
    assume h: "drop_bit 24 ?w = 0"
    have "bit d n = bit (drop_bit 24 ?w) n" for n by (simp add: bit_drop_bit_eq w)
    then show "d = 0" using h by (intro bit_eqI) simp
  next
    assume "d = 0"
    then show "drop_bit 24 ?w = 0" by (intro bit_eqI) (simp add: bit_drop_bit_eq w)
  qed
  have lo: "?w AND M = 0 \<longleftrightarrow> a = 0 \<and> b = 0 \<and> c = 0"
  proof
    assume h: "?w AND M = 0"
    have z: "n < 24 \<Longrightarrow> \<not> bit ?w n" for n using h m [of n] by (metis bit_and_iff bit_0_eq bot_apply bot_bool_def)
    have "\<not> bit a n" for n using z [of n] by (cases "n < 8") (auto simp: w)
    moreover have "\<not> bit b n" for n using z [of "n + 8"] by (cases "n < 8") (auto simp: w)
    moreover have "\<not> bit c n" for n using z [of "n + 16"] by (cases "n < 8") (auto simp: w)
    ultimately show "a = 0 \<and> b = 0 \<and> c = 0" by (intro conjI bit_eqI) simp_all
  next
    assume "a = 0 \<and> b = 0 \<and> c = 0"
    then show "?w AND M = 0" by (intro bit_eqI) (simp add: bit_and_iff m w)
  qed
  show ?thesis unfolding is_socks4a_def Let_def M_def [symmetric] hi lo by (auto simp: a_def b_def c_def d_def)
qed

lemma scan_nul_spec:
  "i \<le> e \<Longrightarrow> e \<le> length m \<Longrightarrow>
   \<exists>j. scan_nul m i e = Some j \<and> i \<le> j \<and> j \<le> e \<and> 0 \<notin> set (take (j - i) (drop i m)) \<and> (j < e \<longrightarrow> m ! j = 0)"
proof (induction m i e rule: scan_nul.induct)
  case (1 m i e)
  show ?case
  proof (cases "i < e \<and> m ! i \<noteq> 0")
    case True
    then obtain j where j: "scan_nul m (i + 1) e = Some j" "i + 1 \<le> j" "j \<le> e"
      "0 \<notin> set (take (j - (i + 1)) (drop (i + 1) m))" "j < e \<longrightarrow> m ! j = 0"
      using 1 by auto
    have "take (j - i) (drop i m) = m ! i # take (j - (i + 1)) (drop (i + 1) m)"
      using j(2,3) True 1(3) by (simp add: take_Cons' Cons_nth_drop_Suc [symmetric])
    then show ?thesis using True j 1(3) by (auto simp: scan_nul.simps [of m i e])
  next
    case False
    then show ?thesis using 1(2,3) by (auto simp: scan_nul.simps [of m i e])
  qed
qed

text \<open>A zero-terminated string in front of the rest of the input.\<close>

lemma scan_nul_string:
  assumes "0 \<notin> set xs" "i = length pre" "i + length xs < e" "e \<le> length (pre @ xs @ 0 # post)"
  shows "scan_nul (pre @ xs @ 0 # post) i e = Some (i + length xs)"
proof -
  let ?m = "pre @ xs @ 0 # post"
  obtain j where j: "scan_nul ?m i e = Some j" "i \<le> j" "j \<le> e" "0 \<notin> set (take (j - i) (drop i ?m))" "j < e \<longrightarrow> ?m ! j = 0"
    using scan_nul_spec [of i e ?m] assms by auto
  have "\<not> i + length xs < j"
  proof
    assume lt: "i + length xs < j"
    let ?t = "take (j - i) (drop i ?m)"
    have "length xs < length ?t" using lt j(3) assms(2,4) by simp
    moreover have "?t ! length xs = 0" using lt assms(2) by (simp add: nth_append)
    ultimately show False using j(4) by (metis nth_mem)
  qed
  moreover have "\<not> j < i + length xs"
  proof
    assume lt: "j < i + length xs"
    then have k: "j - i < length xs" using j(2) by linarith
    then have "?m ! j = xs ! (j - i)" using j(2) assms(2) by (simp add: nth_append)
    moreover have "?m ! j = 0" using lt j(5) assms(3) by simp
    ultimately show False using assms(1) nth_mem [OF k] by simp
  qed
  ultimately show ?thesis using j(1) by simp
qed

type_synonym socks4_message = "byte \<times> u16 \<times> byte list \<times> byte list \<times> byte list"

definition socks4_message :: "socks4_request \<Rightarrow> socks4_message" where
  "socks4_message r = (s4_command r, socks4_port r, s4_address r, s4_user_id r, s4_domain_name r)"

definition run_socks4_request :: "byte list \<Rightarrow> nat \<Rightarrow> (result_type \<times> nat \<times> socks4_message) option" where
  "run_socks4_request m n =
     map_option (\<lambda>(res, i, st, req). (res, i, socks4_message req))
       (socks4_request_parse s4_request_start new_socks4_request m 0 n)"

text \<open>The addresses 0.0.0.x with x not zero announce a domain name.\<close>

definition names_domain :: "byte list \<Rightarrow> bool" where
  "names_domain a \<longleftrightarrow> a ! 0 = 0 \<and> a ! 1 = 0 \<and> a ! 2 = 0 \<and> a ! 3 \<noteq> 0"

definition socks4_wf :: "socks4_message \<Rightarrow> bool" where
  "socks4_wf r = (case r of (cmd, port, a, uid, name) \<Rightarrow>
     length a = 4 \<and> 0 \<notin> set uid \<and> (if names_domain a then 0 \<notin> set name else name = []))"

definition socks4_request_enc :: "socks4_message \<Rightarrow> byte list" where
  "socks4_request_enc r = (case r of (cmd, port, a, uid, name) \<Rightarrow>
     [socks4_version, cmd, hi8 port, lo8 port] @ a @ uid @ [0] @ (if names_domain a then name @ [0] else []))"

lemma is_socks4a_names: "is_socks4a r \<longleftrightarrow> names_domain (s4_address r)"
  by (simp add: is_socks4a_iff names_domain_def)

definition socks4_header :: "byte list \<Rightarrow> socks4_request" where
  "socks4_header m = new_socks4_request\<lparr>s4_version := m ! 0, s4_command := m ! 1, s4_port_high_byte := m ! 2,
     s4_port_low_byte := m ! 3, s4_address := drop 4 (take 8 m)\<rparr>"

lemma socks4_parse_start:
  assumes "8 \<le> n" "n \<le> length m"
  shows "socks4_request_parse s4_request_start new_socks4_request m 0 n =
    (if m ! 0 = socks4_version then socks4_request_parse s4_request_userid_start (socks4_header m) m 8 n
     else Some (bad, 0, s4_request_start, socks4_header m))"
  using assms by (subst socks4_request_parse.simps) (simp add: mem_slice_def Let_def socks4_header_def)

definition accepted_prefix :: "byte list \<Rightarrow> nat \<Rightarrow> (result_type \<times> nat \<times> socks4_state \<times> socks4_request) option \<Rightarrow> bool" where
  "accepted_prefix m n out = (case out of None \<Rightarrow> False | Some (res, i, st, req) \<Rightarrow>
     i \<le> n \<and> (res = good \<longrightarrow> socks4_wf (socks4_message req) \<and> take i m = socks4_request_enc (socks4_message req)))"

lemma header_bytes:
  assumes "8 \<le> length m"
  shows "[m ! 0, m ! 1, hi8 (be16 (m ! 2) (m ! 3)), lo8 (be16 (m ! 2) (m ! 3))] @ drop 4 (take 8 m) = take 8 m"
proof -
  have "[m ! 0, m ! 1, m ! 2, m ! 3] = take 4 m" using assms by (auto intro!: nth_equalityI simp: less_Suc_eq numeral_eq_Suc)
  then show ?thesis using append_take_drop_id [of 4 "take 8 m"] by simp
qed

lemma take_string: "i \<le> j \<Longrightarrow> j < length m \<Longrightarrow> take (Suc j) m = take i m @ take (j - i) (drop i m) @ [m ! j]"
  by (simp add: take_Suc_conv_app_nth flip: take_add)

lemma socks4_accepted:
  assumes "n \<le> length m"
  shows "accepted_prefix m n (socks4_request_parse s4_request_start new_socks4_request m 0 n)"
proof (cases "8 \<le> n \<and> m ! 0 = socks4_version")
  case False
  then show ?thesis using assms
    by (cases "8 \<le> n")
      (auto simp: accepted_prefix_def mem_slice_def Let_def socks4_request_parse.simps [of s4_request_start new_socks4_request])
next
  case True
  let ?r = "socks4_header m"
  let ?a = "drop 4 (take 8 m)"
  have hdr: "[socks4_version, m ! 1, hi8 (be16 (m ! 2) (m ! 3)), lo8 (be16 (m ! 2) (m ! 3))] @ ?a = take 8 m"
    using header_bytes [of m] True assms by simp
  have step: "socks4_request_parse s4_request_start new_socks4_request m 0 n = socks4_request_parse s4_request_userid_start ?r m 8 n"
    using True assms by (simp add: socks4_parse_start)
  obtain j where j: "scan_nul m 8 n = Some j" "8 \<le> j" "j \<le> n" "0 \<notin> set (take (j - 8) (drop 8 m))" "j < n \<longrightarrow> m ! j = 0"
    using scan_nul_spec [of 8 n m] True assms by auto
  let ?u = "take (j - 8) (drop 8 m)"
  have uid: "j < n \<Longrightarrow> take (Suc j) m = take 8 m @ ?u @ [0]" using take_string [of 8 j m] j assms by simp
  show ?thesis
  proof (cases "j < n \<and> names_domain ?a")
    case False
    then show ?thesis using j assms uid hdr True unfolding step
      by (auto simp: accepted_prefix_def socks4_request_parse.simps [of s4_request_userid_start] mem_slice_def Let_def is_socks4a_names
          socks4_header_def socks4_message_def socks4_port_def socks4_wf_def socks4_request_enc_def new_socks4_request_def)
  next
    case named: True
    obtain k where k: "scan_nul m (j + 1) n = Some k" "j + 1 \<le> k" "k \<le> n" "0 \<notin> set (take (k - (j + 1)) (drop (j + 1) m))" "k < n \<longrightarrow> m ! k = 0"
      using scan_nul_spec [of "j + 1" n m] named assms by auto
    have name: "k < n \<Longrightarrow> take (Suc k) m = take (Suc j) m @ take (k - Suc j) (drop (Suc j) m) @ [0]"
      using take_string [of "Suc j" k m] k assms by simp
    show ?thesis using named j k assms uid hdr True name unfolding step
      by (auto simp: accepted_prefix_def socks4_request_parse.simps [of s4_request_userid_start]
          socks4_request_parse.simps [of s4_request_domain_start] mem_slice_def Let_def is_socks4a_names
          socks4_header_def socks4_message_def socks4_port_def socks4_wf_def socks4_request_enc_def new_socks4_request_def)
  qed
qed

lemma socks4_safe: "n \<le> length m \<Longrightarrow> \<exists>res i r. run_socks4_request m n = Some (res, i, r) \<and> i \<le> n"
  using socks4_accepted [of n m] by (auto simp: run_socks4_request_def accepted_prefix_def socks4_message_def split: option.splits)

lemma socks4_sound:
  "n \<le> length m \<Longrightarrow> run_socks4_request m n = Some (good, i, r) \<Longrightarrow> socks4_wf r \<and> take i m = socks4_request_enc r"
  using socks4_accepted [of n m] by (auto simp: run_socks4_request_def accepted_prefix_def)

lemma socks4_complete:
  assumes wf: "socks4_wf r"
  shows "run_socks4_request (socks4_request_enc r @ rest @ extra) (length (socks4_request_enc r @ rest)) =
    Some (good, length (socks4_request_enc r), r)"
proof -
  obtain cmd port a uid name where r: "r = (cmd, port, a, uid, name)" by (cases r) auto
  have len: "length a = 4" and u0: "0 \<notin> set uid" and n0: "names_domain a \<Longrightarrow> 0 \<notin> set name" and n1: "\<not> names_domain a \<Longrightarrow> name = []"
    using wf by (auto simp: r socks4_wf_def split: if_splits)
  let ?h = "[socks4_version, cmd, hi8 port, lo8 port] @ a"
  let ?t = "(if names_domain a then name @ [0] else []) @ rest @ extra"
  let ?m = "socks4_request_enc r @ rest @ extra" and ?n = "length (socks4_request_enc r @ rest)"
  have m: "?m = ?h @ uid @ 0 # ?t" by (simp add: r socks4_request_enc_def)
  have m2: "names_domain a \<Longrightarrow> ?m = (?h @ uid @ [0]) @ name @ 0 # rest @ extra" by (simp add: r socks4_request_enc_def)
  have n: "?n = 9 + length uid + (if names_domain a then Suc (length name) else 0) + length rest"
    using len by (simp add: r socks4_request_enc_def)
  have hdr: "socks4_header ?m = new_socks4_request\<lparr>s4_version := socks4_version, s4_command := cmd,
      s4_port_high_byte := hi8 port, s4_port_low_byte := lo8 port, s4_address := a\<rparr>"
    unfolding m using len by (simp add: socks4_header_def numeral_eq_Suc)
  have "8 \<le> ?n" "?n \<le> length ?m" "?m ! 0 = socks4_version" unfolding m n by (simp_all add: r socks4_request_enc_def len)
  then have start: "socks4_request_parse s4_request_start new_socks4_request ?m 0 ?n =
      socks4_request_parse s4_request_userid_start (socks4_header ?m) ?m 8 ?n"
    by (simp only: socks4_parse_start if_True simp_thms)
  have su: "scan_nul ?m 8 ?n = Some (8 + length uid)"
    unfolding m by (rule scan_nul_string [OF u0]) (unfold n, simp_all add: len)
  have sn: "scan_nul ?m (Suc (8 + length uid)) ?n = Some (Suc (8 + length uid) + length name)" if "names_domain a"
    unfolding m2 [OF that] by (rule scan_nul_string [OF n0 [OF that]]) (unfold n, simp_all add: len that)
  have mu: "mem_slice ?m 8 (length uid) = Some uid" using len by (simp add: m mem_slice_def numeral_eq_Suc)
  have mn: "names_domain a \<Longrightarrow> mem_slice ?m (Suc (8 + length uid)) (length name) = Some name"
    using len by (simp add: m2 mem_slice_def numeral_eq_Suc)
  show ?thesis using su sn mu mn n0 n1 n
    unfolding run_socks4_request_def start hdr
    by (auto simp: socks4_request_parse.simps [of s4_request_userid_start] socks4_request_parse.simps [of s4_request_domain_start]
        Let_def is_socks4a_names socks4_message_def socks4_port_def r new_socks4_request_def)
qed

interpretation socks4: message_parser socks4_wf socks4_request_enc run_socks4_request "\<lambda>_. 0" 0
  by (unfold_locales, rule socks4_complete, assumption) (use socks4_safe socks4_sound in simp_all)

section \<open>Properties\<close>

text \<open>C17: SOCKS4 and SOCKS4A requests. Every request a client can encode (a user identifier without zero
  bytes, an address, and, exactly when the address is 0.0.0.x with x not zero, a domain name without
  zero bytes) is accepted whatever follows it, the parser stops right behind it and the accessors return
  what was encoded. On arbitrary bytes the parser terminates without reading outside its input, and what
  it accepts is byte for byte the encoding of what it returns, so that two different requests never
  share an encoding.\<close>

theorem socks4_parser_correct:
  "(socks4_wf r \<longrightarrow> run_socks4_request (socks4_request_enc r @ rest) (length (socks4_request_enc r @ rest)) =
      Some (good, length (socks4_request_enc r), r)) \<and>
   (n \<le> length m \<longrightarrow> (\<exists>res i q. run_socks4_request m n = Some (res, i, q) \<and> i \<le> n \<and>
      (res = good \<longrightarrow> socks4_wf q \<and> take i m = socks4_request_enc q))) \<and>
   (socks4_wf r \<and> socks4_wf r' \<and> socks4_request_enc r @ rest = socks4_request_enc r' @ rest' \<longrightarrow> r = r' \<and> rest = rest')"
proof (intro conjI impI; (elim conjE)?)
  assume "socks4_wf r"
  then show "run_socks4_request (socks4_request_enc r @ rest) (length (socks4_request_enc r @ rest)) =
      Some (good, length (socks4_request_enc r), r)"
    using socks4.run_complete [of r rest "[]"] by simp
next
  assume "n \<le> length m"
  then show "\<exists>res i q. run_socks4_request m n = Some (res, i, q) \<and> i \<le> n \<and>
      (res = good \<longrightarrow> socks4_wf q \<and> take i m = socks4_request_enc q)"
    using socks4_safe socks4_sound by blast
next
  assume "socks4_wf r" "socks4_wf r'" "socks4_request_enc r @ rest = socks4_request_enc r' @ rest'"
  then show "r = r'" "rest = rest'" using socks4.decode_unique [of r r' rest rest'] by simp_all
qed

theorem socks4_parser_correct_witness:
  "run_socks4_request (socks4_request_enc (1, 443, [0, 0, 0, 1], [117], [97, 98]) @ [7])
     (length (socks4_request_enc (1, 443, [0, 0, 0, 1], [117], [97, 98]) @ [7])) =
   Some (good, length (socks4_request_enc (1, 443, [0, 0, 0, 1], [117], [97, 98])), (1, 443, [0, 0, 0, 1], [117], [97, 98]))"
  using socks4_parser_correct [of "(1, 443, [0, 0, 0, 1], [117], [97, 98])" "[7]" 0 "[]"]
  by (simp add: socks4_wf_def names_domain_def)

end
