(* ===== verification/Net_Io.thy ===== *)
theory Net_Io
  imports Request_Parser Cipher_Methods
begin

text \<open>
  What the connections see of the network: asio error codes, the outcomes of a non-blocking read, and the
  buffer a segment is read into before it is parsed. The sockets themselves are outside the program; what
  they deliver is an argument of the handlers.
\<close>

datatype error_code = no_error | try_again | would_block | interrupted | bad_descriptor | operation_aborted
  | invalid_argument | connection_refused | connection_reset | connection_aborted | access_denied
  | operation_not_supported | end_of_file | network_unreachable | host_not_found | timed_out | system_error int

datatype read_result = Data "byte list" | WouldBlock | ReadError error_code

definition SOCKET_DEBUF_SIZE :: int where
  "SOCKET_DEBUF_SIZE = 17 * 1024"

definition TLSEXT_MAXLEN_host_name :: nat where
  "TLSEXT_MAXLEN_host_name = 255"

text \<open>A segment is read into a buffer of the given size, which then shrinks to what was read; the memory
  behind it keeps its size.\<close>

definition read_segment :: "(nat \<Rightarrow> byte) \<Rightarrow> int \<Rightarrow> byte list \<Rightarrow> growable option" where
  "read_segment junk cap bytes =
     do { b \<leftarrow> SetCapacity junk cap GrowableIOBuffer;
          b1 \<leftarrow> memcpy_data 0 bytes b;
          SetCapacity junk (int (length bytes)) b1 }"

text \<open>The memory a parser sees from \<^verbatim>\<open>buf->data()\<close> on, and \<^verbatim>\<open>buf->data() + buf->size()\<close> in it.\<close>

definition parse_mem :: "growable \<Rightarrow> byte list" where
  "parse_mem b = drop (nat (buf_data b)) (mem b)"

definition parse_end :: "growable \<Rightarrow> nat" where
  "parse_end b = nat (buf_size b)"

definition is_unspecified :: "ip_address \<Rightarrow> bool" where
  "is_unspecified a = (case a of AddressV4 xs \<Rightarrow> xs = replicate 4 0 | AddressV6 xs \<Rightarrow> xs = replicate 16 0)"

text \<open>Whether a read would return data at once: \<^verbatim>\<open>Downlink::do_peek\<close>.\<close>

definition do_peek :: "read_result list \<Rightarrow> bool" where
  "do_peek rx = (case rx of Data xs # _ \<Rightarrow> xs \<noteq> [] | _ \<Rightarrow> False)"

section \<open>Segments and what a parser sees of them\<close>

lemma read_segment_ok:
  assumes "int (length xs) \<le> cap" "cap \<le> INT_MAX"
  shows "\<exists>b. read_segment junk cap xs = Some b \<and> growable_inv b \<and> view b = xs \<and> offset b = 0 \<and>
    capacity b = int (length xs) \<and> length (mem b) = nat cap"
proof (cases "cap = 0")
  case True
  then show ?thesis using assms
    by (simp add: read_segment_def GrowableIOBuffer_def SetCapacity_def set_offset_def in_int_def INT_MAX_def memcpy_data_def
        mem_write_def growable_inv_def view_def)
next
  case False
  let ?m = "mem_realloc junk [] (nat cap)"
  have m: "length ?m = nat cap" by (simp add: mem_realloc_def)
  let ?b = "\<lparr>mem = xs @ drop (length xs) ?m, buf_data = 0, buf_size = int (length xs), capacity = int (length xs), offset = 0\<rparr>"
  have "read_segment junk cap xs = Some ?b"
    using assms False m
    by (simp add: read_segment_def GrowableIOBuffer_def SetCapacity_def set_offset_def in_int_nonneg memcpy_data_def
        mem_write_def Let_def)
  moreover have "growable_inv ?b" "view ?b = xs" "length (mem ?b) = nat cap" using assms m by (auto simp: growable_inv_def view_def)
  ultimately show ?thesis by (intro exI [of _ ?b]) simp
qed

lemma parse_mem_view:
  assumes "growable_inv b"
  shows "\<exists>extra. parse_mem b = view b @ extra \<and> length extra = length (mem b) - nat (capacity b)" "parse_end b = length (view b)"
proof -
  let ?e = "drop (nat (capacity b)) (mem b)"
  have "nat (offset b) \<le> nat (capacity b)" using assms by (auto simp: growable_inv_def)
  then have "drop (nat (offset b)) (mem b) = view b @ ?e"
    using assms append_take_drop_id [of "nat (capacity b)" "mem b"]
    by (metis view_def drop_append length_take min.absorb2 diff_is_0_eq drop_0 growable_inv_def nat_le_iff)
  then show "\<exists>extra. parse_mem b = view b @ extra \<and> length extra = length (mem b) - nat (capacity b)"
    using assms by (intro exI [of _ ?e]) (simp add: parse_mem_def growable_inv_def)
  show "parse_end b = length (view b)" using assms by (simp add: parse_end_def length_view)
qed

lemma advance_view:
  assumes "growable_inv b" "n \<le> length (view b)"
  shows "\<exists>b'. set_offset (offset b + int n) b = Some b' \<and> growable_inv b' \<and> view b' = drop n (view b)"
  using set_offset_advance [OF assms] by blast

lemma advance_None:
  assumes "growable_inv b" "length (view b) < n"
  shows "set_offset (offset b + int n) b = None"
  using assms length_view [OF assms(1)] by (intro set_offset_None) (auto simp: growable_inv_def)

end
