(* ===== verification/Handshake_Parsing.thy ===== *)
theory Handshake_Parsing
  imports SS_Request Socks4 Net_Io
begin

text \<open>
  The parsers of the handshake messages applied to a received buffer. Every handler of the two
  connections does the same: parse from \<^verbatim>\<open>buf->data()\<close> to \<^verbatim>\<open>buf->data() + buf->size()\<close> and, when the
  message is good, advance the buffer by \<^verbatim>\<open>request.length()\<close>.
\<close>

section \<open>The length of an accepted message\<close>

lemma method_select_length_pos:
  "method_select_parse ms_request_start req m 0 e = Some (good, i, st, req') \<Longrightarrow> i = method_select_length req'"
  by (auto simp: method_select_parse.simps [of ms_request_start] method_select_parse.simps [of ms_request] method_select_length_def
      bind_eq_Some_conv Let_def split: if_splits)

lemma auth_length_pos:
  "auth_parse auth_request_start req m 0 e = Some (good, i, st, req') \<Longrightarrow> i = auth_request_length req'"
  by (auto simp: auth_parse.simps [of auth_request_start] auth_parse.simps [of auth_request_username]
      auth_parse.simps [of auth_request_password] auth_request_length_def
      bind_eq_Some_conv Let_def dest!: length_mem_slice split: if_splits)

lemma first_byte_kept: "mem_write m (Suc 0) xs = Some m' \<Longrightarrow> m' ! 0 = m ! 0"
  by (cases m) (auto simp: mem_write_def split: if_splits)

lemma read_port_pos: "read_port m i h = Some (j, h') \<Longrightarrow> j = i + 2 \<and> address_type h' = address_type h \<and> addr_union h' = addr_union h"
  by (auto simp: read_port_def bind_eq_Some_conv Let_def)

lemma socks5_length_pos:
  "socks5_request_parse request_start req m 0 e = Some (good, i, st, req') \<Longrightarrow> i = socks5_request_length req'"
  by (auto simp: socks5_request_parse.simps [of request_start] socks5_request_parse.simps [of request_address_start]
      socks5_request_length_def socks5_address_type_size_def domain_name_len_def
      bind_eq_Some_conv Let_def dest!: read_port_pos first_byte_kept split: if_splits)

lemma socks4_enc_length: "socks4_wf (socks4_message r) \<Longrightarrow> length (socks4_request_enc (socks4_message r)) = socks4_request_length r"
  by (simp add: socks4_wf_def socks4_message_def socks4_request_enc_def socks4_request_length_def is_socks4a_names)

lemma socks4_length_pos:
  assumes "n \<le> length m" "socks4_request_parse s4_request_start new_socks4_request m 0 n = Some (good, i, st, req)"
  shows "i = socks4_request_length req"
proof -
  have "run_socks4_request m n = Some (good, i, socks4_message req)" using assms(2) by (simp add: run_socks4_request_def)
  then show ?thesis using socks4.accepted_split [of n m i "socks4_message req"] socks4_enc_length [of req] assms(1) by auto
qed

text \<open>More memory behind the input does not change what a parser that returned has done.\<close>

lemma bind_SomeE: "Option.bind f g = Some r \<Longrightarrow> (\<And>x. f = Some x \<Longrightarrow> g x = Some r \<Longrightarrow> P) \<Longrightarrow> P"
  by (cases f) auto

lemma mem_read_more: "mem_read m i \<noteq> None \<Longrightarrow> mem_read (m @ ys) i = mem_read m i"
  by (auto simp: mem_read_def nth_append split: if_splits)

lemma mem_slice_more: "mem_slice m i n \<noteq> None \<Longrightarrow> mem_slice (m @ ys) i n = mem_slice m i n"
  by (auto simp: mem_slice_def split: if_splits)

lemma read_port_more: "read_port m i h \<noteq> None \<Longrightarrow> read_port (m @ ys) i h = read_port m i h"
  by (auto simp: read_port_def mem_read_more elim!: bind_SomeE)

lemma address_start_more:
  "socks5_request_parse request_address_start req m i e = Some r \<Longrightarrow>
   socks5_request_parse request_address_start req (m @ ys) i e = Some r"
  by (auto simp: socks5_request_parse.simps [of request_address_start] Let_def mem_read_more mem_slice_more read_port_more
      split: if_splits elim!: bind_SomeE)

lemma socks5_parse_more:
  "socks5_request_parse request_start req m 0 e = Some r \<Longrightarrow> socks5_request_parse request_start req (m @ ys) 0 e = Some r"
  by (auto simp: socks5_request_parse.simps [of request_start] Let_def mem_slice_more address_start_more
      split: if_splits elim!: bind_SomeE)

lemma ss_read_port_more: "ss_read_port m i r \<noteq> None \<Longrightarrow> ss_read_port (m @ ys) i r = ss_read_port m i r"
  by (auto simp: ss_read_port_def mem_read_more elim!: bind_SomeE)

lemma ss_parse_more: "ss_parse req m 0 e = Some r \<Longrightarrow> ss_parse req (m @ ys) 0 e = Some r"
  by (auto simp: ss_parse_def Let_def mem_read_more mem_slice_more ss_read_port_more split: if_splits elim!: bind_SomeE)

lemma ss_length_pos:
  assumes "n \<le> length m" "ss_parse new_ss_request m 0 n = Some (good, i, r)"
  shows "i = ss_length r"
proof -
  obtain t p where i: "i \<le> n + 1" and r: "r = take i (m @ [0]) @ drop i new_ss_request" and t: "target_wf t" "take i (m @ [0]) = ss_enc (t, p)"
    using ss_parse_spec [of n "m @ [0]" new_ss_request] ss_parse_more [OF assms(2), of "[0]"] assms(1) new_ss_request_zero by auto
  have "length (ss_enc (t, p)) = i" using i assms(1) unfolding t(2) [symmetric] by simp
  moreover have "r = ss_enc (t, p) @ drop i new_ss_request" unfolding r t(2) by (rule refl)
  ultimately show ?thesis using ss_message_enc(2) [OF t(1), of p "drop i new_ss_request"] by simp
qed

section \<open>A parser applied to a buffer\<close>

lemma parse_mem_split:
  assumes "growable_inv b"
  obtains extra where "parse_mem b = view b @ extra" "parse_end b = length (view b)"
  using parse_mem_view [OF assms] by blast

text \<open>
  A message parser as the handlers call it: \<open>parse\<close> also returns the state of the parser and the request
  object, \<open>msg\<close> is what the accessors of the object say, and \<open>len\<close> its \<^verbatim>\<open>length()\<close>.
\<close>

locale buffered_parser = message_parser wf enc run slack over
  for wf :: "'r \<Rightarrow> bool" and enc run slack over +
  fixes parse :: "byte list \<Rightarrow> nat \<Rightarrow> (result_type \<times> nat \<times> 's \<times> 'q) option"
    and msg :: "'q \<Rightarrow> 'r"
    and len :: "'q \<Rightarrow> nat"
  assumes run_parse: "run m n = map_option (\<lambda>(res, i, st, q). (res, i, msg q)) (parse m n)"
    and parse_more: "parse m n = Some out \<Longrightarrow> parse (m @ replicate over 0) n = Some out"
    and parse_length: "n \<le> length m \<Longrightarrow> parse m n = Some (good, i, st, q) \<Longrightarrow> i = len q"
begin

text \<open>When the message is good and the buffer can be advanced over it, the buffer began with the encoding of
  the message, and what is left is what followed it.\<close>

lemma accept:
  assumes "growable_inv b" "parse (parse_mem b) (parse_end b) = Some (good, i, st, q)" "set_offset (offset b + int (len q)) b = Some b'"
  shows "growable_inv b' \<and> wf (msg q) \<and> view b = enc (msg q) @ view b'"
proof -
  obtain extra where m: "parse_mem b = view b @ extra" "parse_end b = length (view b)" using parse_mem_split [OF assms(1)] by blast
  have "parse_end b + over \<le> length (parse_mem b @ replicate over 0)" using m by simp
  moreover have "run (parse_mem b @ replicate over 0) (parse_end b) = Some (good, i, msg q)"
    using parse_more [OF assms(2)] by (simp add: run_parse)
  ultimately have r: "wf (msg q)" "take i (parse_mem b @ replicate over 0) = enc (msg q)" using run_sound by blast+
  have i: "i = len q" using parse_length [OF _ assms(2)] m by simp
  have n: "len q \<le> length (view b)" using advance_None [OF assms(1), of "len q"] assms(3) by force
  then have "growable_inv b' \<and> view b' = drop (len q) (view b)" using advance_view [OF assms(1), of "len q"] assms(3) by auto
  moreover have "take (len q) (view b) = enc (msg q)" using r(2) i n m by simp
  ultimately show ?thesis using append_take_drop_id [of "len q" "view b"] r(1) by simp
qed

text \<open>A buffer that begins with a message, and has the slack the parser asks for behind it, is accepted.\<close>

lemma offer:
  assumes "growable_inv b" "view b = enc r @ rest" "wf r" "slack r \<le> length rest"
  shows "\<exists>i st q b'. parse (parse_mem b) (parse_end b) = Some (good, i, st, q) \<and> msg q = r \<and>
    set_offset (offset b + int (len q)) b = Some b' \<and> growable_inv b' \<and> view b' = rest"
proof -
  obtain extra where m: "parse_mem b = view b @ extra" "parse_end b = length (view b)" using parse_mem_split [OF assms(1)] by blast
  have "run (parse_mem b) (parse_end b) = Some (good, length (enc r), r)"
    using run_complete [OF assms(3,4), of extra] m assms(2) by simp
  then obtain st q where p: "parse (parse_mem b) (parse_end b) = Some (good, length (enc r), st, q)" "msg q = r"
    by (auto simp: run_parse)
  then have "len q = length (enc r)" using parse_length [OF _ p(1)] m by simp
  with p show ?thesis using advance_view [OF assms(1), of "length (enc r)"] assms(2) by auto
qed

end

interpretation method_select_buf: buffered_parser "\<lambda>ms. length ms \<le> 255" method_select_enc "run_method_select junk" "\<lambda>_. 0" 0
  "\<lambda>m n. method_select_parse ms_request_start (new_method_select_request junk) m 0 n" methods_range method_select_length
  by unfold_locales (auto simp: run_method_select_def method_select_length_pos)

interpretation auth_buf: buffered_parser
  "\<lambda>r. 0 < length (fst r) \<and> length (fst r) \<le> 255 \<and> 0 < length (snd r) \<and> length (snd r) \<le> 255" auth_enc run_auth "\<lambda>_. 0" 0
  "\<lambda>m n. auth_parse auth_request_start new_auth_request m 0 n" "\<lambda>q. (username q, password q)" auth_request_length
  by unfold_locales (auto simp: run_auth_def auth_length_pos)

interpretation socks4_buf: buffered_parser socks4_wf socks4_request_enc run_socks4_request "\<lambda>_. 0" 0
  "\<lambda>m n. socks4_request_parse s4_request_start new_socks4_request m 0 n" socks4_message socks4_request_length
  by unfold_locales (auto simp: run_socks4_request_def dest: socks4_length_pos)

interpretation socks5_buf: buffered_parser "\<lambda>r. target_wf (fst (snd (snd r)))" socks5_request_enc run_socks5_request "\<lambda>_. 0" 1
  "\<lambda>m n. socks5_request_parse request_start new_socks5_request m 0 n" socks5_message socks5_request_length
  by unfold_locales (auto simp: run_socks5_request_def socks5_parse_more socks5_length_pos)

interpretation ss_buf: buffered_parser "\<lambda>r. target_wf (fst r)" ss_enc run_ss ss_slack 1
  "\<lambda>m n. map_option (\<lambda>(res, i, r). (res, i, (), r)) (ss_parse new_ss_request m 0 n)" ss_message ss_length
  by unfold_locales (auto simp: run_ss_def option.map_comp comp_def split_def ss_parse_more intro!: ss_length_pos)

section \<open>A request without its last byte\<close>

text \<open>A SOCKS5 request for a domain name that lacks its last byte is accepted, with the byte behind the end of
  the segment in its place; the buffer cannot be advanced over it.\<close>

lemma truncated_domain_overruns:
  assumes "growable_inv b" "view b = [socks5_version, cmd, rsv, atyp_domain, of_nat (length d)] @ d @ [h]" "0 < length d" "length d \<le> 255"
    and "socks5_request_parse request_start new_socks5_request (parse_mem b) 0 (parse_end b) = Some (res, i, st, req)"
  shows "res = good \<and> set_offset (offset b + int (socks5_request_length req)) b = None"
proof -
  obtain extra where m: "parse_mem b = view b @ extra" "parse_end b = length (view b)" using parse_mem_split [OF assms(1)] by blast
  obtain x extra' where x: "extra @ [0] = x # extra'" by (cases extra) auto
  have "length (view b) = length d + 6" using assms(2) by simp
  then have "socks5_request_parse request_start new_socks5_request (view b @ x # extra') 0 (length d + 6) = Some (res, i, st, req)"
    using socks5_parse_more [OF assms(5), of "[0]"] m x by simp
  moreover obtain req' where "socks5_request_parse request_start new_socks5_request (view b @ x # extra') 0 (length d + 6) =
      Some (good, length d + 7, request_address_start, req')" "socks5_request_length req' = length d + 7"
    using socks5_truncated_domain [OF assms(3,4), of cmd rsv h x extra'] assms(2) by auto
  ultimately show ?thesis using advance_None [OF assms(1), of "length d + 7"] assms(2) by simp
qed

text \<open>No other request overruns. The tests of the parser never ask for more than 262 bytes, so it also returns on a buffer
  that fills its memory.\<close>

lemma socks5_large_end:
  assumes "262 \<le> e"
  shows "socks5_request_parse request_start req m 0 e = socks5_request_parse request_start req m 0 262"
proof -
  have d: "domain_name_len h \<le> 255" for h using unat_byte_le by (simp add: domain_name_len_def)
  have s: "socks5_address_type_size r \<le> 258" for r using d by (simp add: socks5_address_type_size_def Let_def)
  have "\<not> e < 4 + socks5_address_type_size r" "\<not> 262 < 4 + socks5_address_type_size r" "\<not> e < 6 + domain_name_len h" "\<not> 262 < 6 + domain_name_len h"
    for r h using s [of r] d [of h] assms by simp_all
  then have "socks5_request_parse request_address_start r m 3 e = socks5_request_parse request_address_start r m 3 262" for r
    using assms by (simp add: socks5_request_parse.simps [of request_address_start] Let_def add.assoc cong: if_cong)
  then show ?thesis using assms by (simp add: socks5_request_parse.simps [of request_start] Let_def cong: if_cong)
qed

lemma socks5_parse_returns:
  assumes "n < length m \<or> 263 \<le> n \<and> n \<le> length m"
  shows "\<exists>res j st q. socks5_request_parse request_start new_socks5_request m 0 n = Some (res, j, st, q)"
proof (cases "n < length m")
  case True
  then show ?thesis using socks5_request_safe [of n m] by auto
next
  case False
  then show ?thesis using assms socks5_request_safe [of 262 m] socks5_large_end [of n new_socks5_request m] by auto
qed

lemma socks5_good_end:
  assumes "socks5_request_parse request_start new_socks5_request m 0 n = Some (good, j, st, q)"
  shows "(m ! 3 = atyp_ipv4 \<longrightarrow> 10 \<le> n) \<and> (m ! 3 = atyp_ipv6 \<longrightarrow> 22 \<le> n) \<and> (m ! 3 = atyp_domain \<longrightarrow> 7 \<le> n)"
  using assms by (auto simp: socks5_request_parse.simps [of request_start] socks5_request_parse.simps [of request_address_start]
      socks5_address_type_size_def mem_read_def bind_eq_Some_conv Let_def split: if_splits)

lemma socks5_overrun_domain:
  assumes "growable_inv b" "socks5_request_parse request_start new_socks5_request (parse_mem b) 0 (parse_end b) = Some (good, i, st, q)"
    and "set_offset (offset b + int (socks5_request_length q)) b = None"
  shows "\<exists>cmd rsv d p. d \<noteq> [] \<and> length d \<le> 255 \<and> view b = butlast (socks5_request_enc (cmd, rsv, Domain d, p))"
proof -
  obtain extra where m: "parse_mem b = view b @ extra" "parse_end b = length (view b)" using parse_mem_split [OF assms(1)] by blast
  let ?m = "parse_mem b @ [0]" and ?n = "length (view b)"
  have p: "socks5_request_parse request_start new_socks5_request ?m 0 ?n = Some (good, i, st, q)" using socks5_parse_more [OF assms(2)] m(2) by simp
  then have "run_socks5_request ?m ?n = Some (good, i, socks5_message q)" by (simp add: run_socks5_request_def)
  then have r: "i \<le> ?n + 1" "target_wf (fst (snd (snd (socks5_message q))))" "take i ?m = socks5_request_enc (socks5_message q)"
    using socks5.run_sound [of ?n ?m i "socks5_message q"] socks5.run_safe [of ?n ?m] m by auto
  have "\<not> i \<le> ?n" using advance_view [OF assms(1), of i] socks5_length_pos [OF assms(2)] assms(3) by auto
  then have i: "i = ?n + 1" using r(1) by simp
  then have v: "view b = butlast (take i ?m)" using m by (cases extra) (simp_all add: butlast_append)
  obtain cmd rsv t pt where q: "socks5_message q = (cmd, rsv, t, pt)" by (cases "socks5_message q") auto
  have "length (take i ?m) = ?n + 1" using i m by simp
  then have l: "length (socks5_request_enc (cmd, rsv, t, pt)) = ?n + 1" unfolding r(3) q .
  moreover have "4 \<le> length (socks5_request_enc (cmd, rsv, t, pt))" by (simp add: socks5_request_enc_def)
  ultimately have "4 \<le> i" using i by simp
  then have "?m ! 3 = take i ?m ! 3" by (simp del: take_append)
  also have "\<dots> = hd (target_enc t)" using r(3) q by (cases t rule: target_enc.cases) (simp_all add: socks5_request_enc_def)
  finally have "?m ! 3 = hd (target_enc t)" .
  then have "\<exists>d. t = Domain d \<and> 0 < length d"
    using socks5_good_end [OF p] l r(2) q by (cases t rule: target_enc.cases) (auto simp: socks5_request_enc_def simp del: length_greater_0_conv)
  then obtain d where "t = Domain d" "d \<noteq> []" by auto
  then show ?thesis using v r(2,3) q by auto
qed

end
