(* ===== verification/Socks_Server.thy ===== *)
theory Socks_Server
  imports Handshake_Parsing
begin

text \<open>
  The SOCKS handshake of a server connection (\<^verbatim>\<open>server/server_connection.cpp\<close>) as a state machine. A
  handler ends by arming a wait on the socket, by handing the connection to the relay or by closing it;
  the \<open>srv_outcome\<close> says which, and \<open>srv_step\<close> runs the callback of the armed wait. The reads a handler
  makes take their results from \<open>sv_rx\<close>, the results of the next calls of \<^verbatim>\<open>read_some\<close>; when it is empty
  a read would block.
\<close>

section \<open>State\<close>

datatype srv_state = sv_state_error | sv_state_handshake | sv_state_stream

record srv =
  sv_method :: cipher_method
  sv_username :: "byte list"
  sv_password :: "byte list"
  sv_request :: ss_request
  sv_pending :: "growable option"
  sv_state :: srv_state
  sv_rx :: "read_result list"
  sv_out :: "byte list"

datatype srv_read = Via_socks | Username_password | Via_socks5

datatype srv_write = Handshake_response | Method_select_response | Auth_response

datatype srv_outcome = Await_read srv_read srv | Await_write srv_write srv | Stream growable srv
  | Disconnect error_code srv | Idle srv

datatype write_result = Written nat | WriteError error_code

definition sv_auth_required :: "srv \<Rightarrow> bool" where
  "sv_auth_required s \<longleftrightarrow> sv_username s \<noteq> [] \<and> sv_password s \<noteq> []"

text \<open>One \<^verbatim>\<open>read_some\<close> into a fresh buffer, as the handlers do it.\<close>

definition sv_read :: "srv \<Rightarrow> read_result \<times> srv" where
  "sv_read s = (case sv_rx s of [] \<Rightarrow> (WouldBlock, s) | r # rx \<Rightarrow> (r, s\<lparr>sv_rx := rx\<rparr>))"

section \<open>The first segment\<close>

definition socks4_segment :: "growable \<Rightarrow> srv \<Rightarrow> srv_outcome option" where
  "socks4_segment buf s =
     do { (res, i, st, req) \<leftarrow> socks4_request_parse s4_request_start new_socks4_request (parse_mem buf) 0 (parse_end buf);
          if res \<noteq> good then Some (Disconnect invalid_argument s)
          else do {
            buf \<leftarrow> set_offset (offset buf + int (socks4_request_length req)) buf;
            if socks4_port req = 0 \<or> is_socks4a req \<and> s4_domain_name req = [] \<or>
               \<not> is_socks4a req \<and> is_unspecified (fst (socks4_endpoint req))
            then Some (Disconnect invalid_argument s)
            else do {
              r \<leftarrow> if is_socks4a req then ss_request_domain (s4_domain_name req) (socks4_port req)
                   else ss_request_endpoint (socks4_endpoint req);
              Some (Await_write Handshake_response (s\<lparr>sv_request := r, sv_pending := Some buf\<rparr>)) } } }"

definition method_select_segment :: "(nat \<Rightarrow> byte) \<Rightarrow> growable \<Rightarrow> srv \<Rightarrow> srv_outcome option" where
  "method_select_segment junk buf s =
     do { (res, i, st, req) \<leftarrow> method_select_parse ms_request_start (new_method_select_request junk) (parse_mem buf) 0 (parse_end buf);
          if res \<noteq> good then Some (Disconnect invalid_argument s)
          else do {
            buf \<leftarrow> set_offset (offset buf + int (method_select_length req)) buf;
            if (if sv_auth_required s then username_or_password else no_auth_required) \<notin> set (methods_range req)
            then Some (Disconnect invalid_argument s)
            else Some (Await_write Method_select_response (s\<lparr>sv_pending := Some buf\<rparr>)) } }"

definition socks_segment :: "(nat \<Rightarrow> byte) \<Rightarrow> growable \<Rightarrow> srv \<Rightarrow> srv_outcome option" where
  "socks_segment junk buf s =
     (if sv_method s = CRYPTO_SOCKS4 \<or> sv_method s = CRYPTO_SOCKS4A then socks4_segment buf s
      else if sv_method s = CRYPTO_SOCKS5 \<or> sv_method s = CRYPTO_SOCKS5H then method_select_segment junk buf s
      else None)"

function ReadHandshakeViaSocks :: "(nat \<Rightarrow> byte) \<Rightarrow> srv \<Rightarrow> srv_outcome option"
  and OnReadHandshakeViaSocks :: "(nat \<Rightarrow> byte) \<Rightarrow> srv \<Rightarrow> srv_outcome option" where
  "ReadHandshakeViaSocks junk s =
     (if do_peek (sv_rx s) then OnReadHandshakeViaSocks junk s else Some (Await_read Via_socks s))"
| "OnReadHandshakeViaSocks junk s =
     (case sv_read s of
        (WouldBlock, s1) \<Rightarrow> ReadHandshakeViaSocks junk s1
      | (ReadError ec, s1) \<Rightarrow> Some (Disconnect ec s1)
      | (Data xs, s1) \<Rightarrow> do { buf \<leftarrow> read_segment junk SOCKET_DEBUF_SIZE xs; socks_segment junk buf s1 })"
  by pat_completeness auto
termination
  by (relation "measure (\<lambda>x. case x of
        Inl (_, s) \<Rightarrow> 2 * length (sv_rx s) + (if sv_rx s = [] then 0 else 1)
      | Inr (_, s) \<Rightarrow> 2 * length (sv_rx s) + (if sv_rx s = [] then 1 else 0))")
    (auto simp: do_peek_def sv_read_def split: list.splits)

declare ReadHandshakeViaSocks.simps [simp del] OnReadHandshakeViaSocks.simps [simp del]

section \<open>User name and password\<close>

text \<open>The buffered bytes are taken out of \<open>sv_pending\<close>; following the null pointer that is left there is a fault.\<close>

definition auth_segment :: "growable \<Rightarrow> srv \<Rightarrow> srv_outcome option" where
  "auth_segment buf s =
     do { (res, i, st, req) \<leftarrow> auth_parse auth_request_start new_auth_request (parse_mem buf) 0 (parse_end buf);
          if res \<noteq> good then Some (Disconnect invalid_argument s)
          else do {
            buf \<leftarrow> set_offset (offset buf + int (auth_request_length req)) buf;
            if username req \<noteq> sv_username s \<or> password req \<noteq> sv_password s then Some (Disconnect invalid_argument s)
            else Some (Await_write Auth_response (s\<lparr>sv_pending := Some buf\<rparr>)) } }"

function ReadSocks5UsernamePasswordAuth :: "(nat \<Rightarrow> byte) \<Rightarrow> srv \<Rightarrow> srv_outcome option"
  and OnReadSocks5UsernamePasswordAuth :: "(nat \<Rightarrow> byte) \<Rightarrow> srv \<Rightarrow> srv_outcome option" where
  "ReadSocks5UsernamePasswordAuth junk s =
     (case sv_pending s of
        None \<Rightarrow> None
      | Some b \<Rightarrow> if \<not> iobuf_empty b \<or> do_peek (sv_rx s) then OnReadSocks5UsernamePasswordAuth junk s
                  else Some (Await_read Username_password s))"
| "OnReadSocks5UsernamePasswordAuth junk s =
     (case sv_pending s of
        None \<Rightarrow> None
      | Some b \<Rightarrow>
          let s = s\<lparr>sv_pending := None\<rparr> in
          if iobuf_empty b then
            (case sv_read s of
               (WouldBlock, s1) \<Rightarrow> ReadSocks5UsernamePasswordAuth junk s1
             | (ReadError ec, s1) \<Rightarrow> Some (Disconnect ec s1)
             | (Data xs, s1) \<Rightarrow> do { buf \<leftarrow> read_segment junk SOCKET_DEBUF_SIZE xs; auth_segment buf s1 })
          else auth_segment b s)"
  by pat_completeness auto
termination
  by (relation "measure (\<lambda>x. case x of Inl (_, s) \<Rightarrow> (if sv_pending s = None then 1 else 3 :: nat) | Inr (_, s) \<Rightarrow> 2)")
    (auto simp: sv_read_def split: list.splits)

declare ReadSocks5UsernamePasswordAuth.simps [simp del] OnReadSocks5UsernamePasswordAuth.simps [simp del]

section \<open>The request\<close>

definition request_segment :: "growable \<Rightarrow> srv \<Rightarrow> srv_outcome option" where
  "request_segment buf s =
     do { (res, i, st, req) \<leftarrow> socks5_request_parse request_start new_socks5_request (parse_mem buf) 0 (parse_end buf);
          if res \<noteq> good then Some (Disconnect invalid_argument s)
          else do {
            buf \<leftarrow> set_offset (offset buf + int (socks5_request_length req)) buf;
            let dom = (address_type (atyp_req req) = atyp_domain);
            if socks5_port req = 0 \<or> dom \<and> socks5_domain_name req = [] \<or> \<not> dom \<and> is_unspecified (fst (socks5_endpoint req))
            then Some (Disconnect invalid_argument s)
            else do {
              r \<leftarrow> if dom then ss_request_domain (socks5_domain_name req) (socks5_port req)
                   else ss_request_endpoint (socks5_endpoint req);
              Some (Await_write Handshake_response (s\<lparr>sv_request := r, sv_pending := Some buf\<rparr>)) } } }"

text \<open>When the read would block, the handler goes back to the method selection.\<close>

definition OnReadHandshakeViaSocks5 :: "(nat \<Rightarrow> byte) \<Rightarrow> srv \<Rightarrow> srv_outcome option" where
  "OnReadHandshakeViaSocks5 junk s =
     (case sv_pending s of
        None \<Rightarrow> None
      | Some b \<Rightarrow>
          let s = s\<lparr>sv_pending := None\<rparr> in
          if iobuf_empty b then
            (case sv_read s of
               (WouldBlock, s1) \<Rightarrow> ReadHandshakeViaSocks junk s1
             | (ReadError ec, s1) \<Rightarrow> Some (Disconnect ec s1)
             | (Data xs, s1) \<Rightarrow> do { buf \<leftarrow> read_segment junk SOCKET_DEBUF_SIZE xs; request_segment buf s1 })
          else request_segment b s)"

definition ReadHandshakeViaSocks5 :: "(nat \<Rightarrow> byte) \<Rightarrow> srv \<Rightarrow> srv_outcome option" where
  "ReadHandshakeViaSocks5 junk s =
     (case sv_pending s of
        None \<Rightarrow> None
      | Some b \<Rightarrow> if \<not> iobuf_empty b \<or> do_peek (sv_rx s) then OnReadHandshakeViaSocks5 junk s
                  else Some (Await_read Via_socks5 s))"

section \<open>Replies\<close>

text \<open>A reply that is not written at once and completely closes the connection.\<close>

definition write_reply :: "byte list \<Rightarrow> write_result \<Rightarrow> srv \<Rightarrow> (srv \<Rightarrow> srv_outcome option) \<Rightarrow> srv_outcome option" where
  "write_reply bs w s k =
     (case w of
        WriteError ec \<Rightarrow> Some (Disconnect connection_refused s)
      | Written n \<Rightarrow>
          let s1 = s\<lparr>sv_out := sv_out s @ take n bs\<rparr> in
          if n \<noteq> length bs then Some (Disconnect connection_refused s1) else k s1)"

definition handshake_reply :: "srv \<Rightarrow> byte list option" where
  "handshake_reply s =
     (if sv_method s = CRYPTO_SOCKS4 \<or> sv_method s = CRYPTO_SOCKS4A then do {
        r \<leftarrow> socks4_reply_set_endpoint (AddressV4 [0, 0, 0, 0], 0) (new_socks4_reply 0 0 [0, 0, 0, 0]);
        Some (socks4_reply_buffers (r\<lparr>r4_status := socks4_request_granted\<rparr>)) }
      else do {
        ep \<leftarrow> if ss_address_type (sv_request s) = atyp_domain then Some (AddressV4 [0, 0, 0, 0], 0) else ss_endpoint (sv_request s);
        let r = socks5_reply_set_endpoint ep (new_socks5_reply (replicate 4 0) (replicate 16 0) 0 0);
        Some (socks5_reply_buffers (r\<lparr>rp_status := socks5_request_granted\<rparr>)) })"

definition WriteHandshakeResponse :: "write_result \<Rightarrow> srv \<Rightarrow> srv_outcome option" where
  "WriteHandshakeResponse w s =
     do { bs \<leftarrow> handshake_reply s;
          write_reply bs w s (\<lambda>s. case sv_pending s of
            None \<Rightarrow> None
          | Some buf \<Rightarrow> Some (Stream buf (s\<lparr>sv_pending := None, sv_state := sv_state_stream\<rparr>))) }"

definition WriteMethodSelectResponse :: "(nat \<Rightarrow> byte) \<Rightarrow> write_result \<Rightarrow> srv \<Rightarrow> srv_outcome option" where
  "WriteMethodSelectResponse junk w s =
     write_reply (method_select_response_stock_reply (if sv_auth_required s then username_or_password else no_auth_required)) w s
       (\<lambda>s. if sv_auth_required s then ReadSocks5UsernamePasswordAuth junk s else ReadHandshakeViaSocks5 junk s)"

definition WriteUsernamePasswordAuthResponse :: "(nat \<Rightarrow> byte) \<Rightarrow> write_result \<Rightarrow> srv \<Rightarrow> srv_outcome option" where
  "WriteUsernamePasswordAuthResponse junk w s =
     write_reply (auth_response_stock_reply 0) w s (ReadHandshakeViaSocks5 junk)"

section \<open>Callbacks\<close>


text \<open>What every callback tests first.\<close>

definition callback_guard :: "error_code \<Rightarrow> srv \<Rightarrow> srv_outcome option \<Rightarrow> srv_outcome option" where
  "callback_guard ec s k =
     (if ec = bad_descriptor \<or> ec = operation_aborted then Some (Idle s)
      else if ec \<noteq> no_error then Some (Disconnect ec (s\<lparr>sv_state := sv_state_error\<rparr>))
      else k)"

definition on_readable :: "(nat \<Rightarrow> byte) \<Rightarrow> srv_read \<Rightarrow> srv \<Rightarrow> srv_outcome option" where
  "on_readable junk op s =
     (case op of
        Via_socks \<Rightarrow> OnReadHandshakeViaSocks junk s
      | Username_password \<Rightarrow> OnReadSocks5UsernamePasswordAuth junk s
      | Via_socks5 \<Rightarrow> OnReadHandshakeViaSocks5 junk s)"

definition on_writable :: "(nat \<Rightarrow> byte) \<Rightarrow> srv_write \<Rightarrow> write_result \<Rightarrow> srv \<Rightarrow> srv_outcome option" where
  "on_writable junk op w s =
     (case op of
        Handshake_response \<Rightarrow> WriteHandshakeResponse w s
      | Method_select_response \<Rightarrow> WriteMethodSelectResponse junk w s
      | Auth_response \<Rightarrow> WriteUsernamePasswordAuthResponse junk w s)"

definition srv_start :: "(nat \<Rightarrow> byte) \<Rightarrow> srv \<Rightarrow> srv_outcome option" where
  "srv_start junk s = ReadHandshakeViaSocks junk (s\<lparr>sv_state := sv_state_handshake\<rparr>)"

text \<open>The callbacks of a connection, in the order they run. A new segment may arrive at any time, before the
  callback that reads it runs.\<close>

inductive srv_step :: "(nat \<Rightarrow> byte) \<Rightarrow> srv_outcome \<Rightarrow> read_result list \<Rightarrow> srv_outcome \<Rightarrow> bool" for junk where
  readable: "callback_guard ec (s\<lparr>sv_rx := sv_rx s @ rx\<rparr>) (on_readable junk op (s\<lparr>sv_rx := sv_rx s @ rx\<rparr>)) = Some out \<Longrightarrow>
    srv_step junk (Await_read op s) rx out"
| writable: "callback_guard ec (s\<lparr>sv_rx := sv_rx s @ rx\<rparr>) (on_writable junk op w (s\<lparr>sv_rx := sv_rx s @ rx\<rparr>)) = Some out \<Longrightarrow>
    srv_step junk (Await_write op s) rx out"

section \<open>What a connection has accepted\<close>

definition rx_bytes :: "read_result list \<Rightarrow> byte list" where
  "rx_bytes rx = concat (map (\<lambda>r. case r of Data xs \<Rightarrow> xs | _ \<Rightarrow> []) rx)"

lemma rx_bytes_simps [simp]: "rx_bytes [] = []" "rx_bytes (Data xs # rx) = xs @ rx_bytes rx" "rx_bytes (WouldBlock # rx) = rx_bytes rx"
  "rx_bytes (ReadError ec # rx) = rx_bytes rx" "rx_bytes (rx @ ry) = rx_bytes rx @ rx_bytes ry"
  by (simp_all add: rx_bytes_def)

text \<open>
  The byte strings a SOCKS5 connection with the credentials \<open>c\<close> has accepted when it waits for a greeting,
  after the greeting, and when it is entitled to make a request. A connection that waits for its request
  and finds nothing to read goes back to the greeting.
\<close>

definition demands_auth :: "byte list \<times> byte list \<Rightarrow> bool" where
  "demands_auth c \<longleftrightarrow> fst c \<noteq> [] \<and> snd c \<noteq> []"

inductive via and greeted and authed for c :: "byte list \<times> byte list" where
  via_start: "via c []"
| via_again: "authed c acc \<Longrightarrow> via c acc"
| greeted: "via c acc \<Longrightarrow> (if demands_auth c then username_or_password else no_auth_required) \<in> set ms \<Longrightarrow> greeted c (acc @ method_select_enc ms)"
| authed_password: "greeted c acc \<Longrightarrow> demands_auth c \<Longrightarrow> authed c (acc @ auth_enc c)"
| authed_open: "greeted c acc \<Longrightarrow> \<not> demands_auth c \<Longrightarrow> authed c acc"

fun socks4_target :: "socks4_message \<Rightarrow> ss_message" where
  "socks4_target (cmd, port, a, uid, name) = (if names_domain a then Domain name else Address (AddressV4 a), port)"

definition is_socks5 :: "cipher_method \<Rightarrow> bool" where
  "is_socks5 m \<longleftrightarrow> m = CRYPTO_SOCKS5 \<or> m = CRYPTO_SOCKS5H"

text \<open>The bytes accepted when a request is answered, and the request they ask for.\<close>

definition asked :: "cipher_method \<Rightarrow> byte list \<times> byte list \<Rightarrow> ss_request \<Rightarrow> byte list \<Rightarrow> bool" where
  "asked m c r acc \<longleftrightarrow>
     (if is_socks5 m
      then \<exists>pre cmd rsv. authed c pre \<and> acc = pre @ socks5_request_enc (cmd, rsv, ss_message r)
      else \<exists>q. socks4_wf q \<and> acc = socks4_request_enc q \<and> ss_message r = socks4_target q) \<and>
     snd (ss_message r) \<noteq> 0 \<and> target_wf (fst (ss_message r))"

definition same_config :: "srv \<Rightarrow> srv \<Rightarrow> bool" where
  "same_config s0 s \<longleftrightarrow> sv_method s = sv_method s0 \<and> sv_username s = sv_username s0 \<and> sv_password s = sv_password s0"

abbreviation creds :: "srv \<Rightarrow> byte list \<times> byte list" where
  "creds s \<equiv> (sv_username s, sv_password s)"

text \<open>\<open>stage s0 xs P s b\<close>: of the bytes \<open>xs\<close> that have arrived, a part that satisfies \<open>P\<close> has been accepted,
  the next part is in \<open>b\<close> and the rest has not been read.\<close>

definition stage :: "srv \<Rightarrow> byte list \<Rightarrow> (byte list \<Rightarrow> bool) \<Rightarrow> srv \<Rightarrow> byte list \<Rightarrow> bool" where
  "stage s0 xs P s bs \<longleftrightarrow> same_config s0 s \<and> (\<exists>acc. P acc \<and> xs = acc @ bs @ rx_bytes (sv_rx s))"

definition waiting_greeting :: "srv \<Rightarrow> byte list \<Rightarrow> bool" where
  "waiting_greeting s0 acc \<longleftrightarrow> (if is_socks5 (sv_method s0) then via (creds s0) acc else acc = [])"

definition pending_stage :: "srv \<Rightarrow> byte list \<Rightarrow> (byte list \<Rightarrow> bool) \<Rightarrow> srv \<Rightarrow> bool" where
  "pending_stage s0 xs P s \<longleftrightarrow> (\<exists>b. sv_pending s = Some b \<and> growable_inv b \<and> stage s0 xs P s (view b))"

fun srv_inv :: "srv \<Rightarrow> byte list \<Rightarrow> srv_outcome \<Rightarrow> bool" where
  "srv_inv s0 xs (Await_read Via_socks s) = stage s0 xs (waiting_greeting s0) s []"
| "srv_inv s0 xs (Await_read Username_password s) =
     (is_socks5 (sv_method s0) \<and> demands_auth (creds s0) \<and> pending_stage s0 xs (greeted (creds s0)) s)"
| "srv_inv s0 xs (Await_read Via_socks5 s) = (is_socks5 (sv_method s0) \<and> pending_stage s0 xs (authed (creds s0)) s)"
| "srv_inv s0 xs (Await_write Method_select_response s) = (is_socks5 (sv_method s0) \<and> pending_stage s0 xs (greeted (creds s0)) s)"
| "srv_inv s0 xs (Await_write Auth_response s) = (is_socks5 (sv_method s0) \<and> pending_stage s0 xs (authed (creds s0)) s)"
| "srv_inv s0 xs (Await_write Handshake_response s) = pending_stage s0 xs (asked (sv_method s0) (creds s0) (sv_request s)) s"
| "srv_inv s0 xs (Stream b s) = (growable_inv b \<and> stage s0 xs (asked (sv_method s0) (creds s0) (sv_request s)) s (view b))"
| "srv_inv s0 xs (Disconnect ec s) = True"
| "srv_inv s0 xs (Idle s) = True"

abbreviation keeps_inv :: "srv \<Rightarrow> byte list \<Rightarrow> srv_outcome option \<Rightarrow> bool" where
  "keeps_inv s0 xs r \<equiv> (\<forall>out. r = Some out \<longrightarrow> srv_inv s0 xs out)"

section \<open>The handlers keep track of what was accepted\<close>

lemma domain_message: "ss_request_domain name port = Some r \<Longrightarrow> ss_message r = (Domain name, port) \<and> length name \<le> 255"
  using ss_request_domain_overflow [of name port] ss_request_domain_enc [of name port] ss_message_enc(1) [of "Domain name" port]
  by (cases "length name \<le> 255") auto

lemma endpoint_message: "target_wf (Address (fst ep)) \<Longrightarrow> ss_request_endpoint ep = Some r \<Longrightarrow> ss_message r = (Address (fst ep), snd ep)"
  using ss_request_endpoint_enc [of "fst ep" "snd ep"] ss_message_enc(1) [of "Address (fst ep)" "snd ep"] by auto

lemma stage_advance:
  "stage s0 xs P s (enc @ bs) \<Longrightarrow> same_config s0 s' \<Longrightarrow> sv_rx s' = sv_rx s \<Longrightarrow> (\<And>acc. P acc \<Longrightarrow> Q (acc @ enc)) \<Longrightarrow> stage s0 xs Q s' bs"
  unfolding stage_def by fastforce

lemma socks4_segment_inv:
  assumes b: "growable_inv b" and st: "stage s0 xs (waiting_greeting s0) s (view b)" and m: "\<not> is_socks5 (sv_method s0)"
  shows "keeps_inv s0 xs (socks4_segment b s)"
proof (intro allI impI)
  fix out assume out: "socks4_segment b s = Some out"
  then obtain res i q req where p: "socks4_request_parse s4_request_start new_socks4_request (parse_mem b) 0 (parse_end b) = Some (res, i, q, req)"
    by (auto simp: socks4_segment_def elim!: bind_SomeE)
  show "srv_inv s0 xs out"
  proof (cases "res = good")
    case True
    then obtain b' where b': "set_offset (offset b + int (socks4_request_length req)) b = Some b'"
      using out p by (auto simp: socks4_segment_def elim!: bind_SomeE)
    have a: "growable_inv b'" "socks4_wf (socks4_message req)" "view b = socks4_request_enc (socks4_message req) @ view b'"
      using socks4_buf.accept [OF b, of i q req b'] p True b' by auto
    let ?t = "if is_socks4a req then ss_request_domain (s4_domain_name req) (socks4_port req) else ss_request_endpoint (socks4_endpoint req)"
    have t: "ss_message r = socks4_target (socks4_message req) \<and> snd (ss_message r) = socks4_port req \<and> target_wf (fst (ss_message r))"
      if "?t = Some r" for r
      using that a(2) domain_message [of "s4_domain_name req" "socks4_port req" r] endpoint_message [of "socks4_endpoint req" r]
      by (auto simp: socks4_message_def is_socks4a_names socks4_wf_def socks4_endpoint_def socks4_port_def split: if_splits)
    consider ec s' where "out = Disconnect ec s'"
      | r where "socks4_port req \<noteq> 0" "?t = Some r" "out = Await_write Handshake_response (s\<lparr>sv_request := r, sv_pending := Some b'\<rparr>)"
      using out p True b' unfolding socks4_segment_def by (auto split: if_splits elim!: bind_SomeE)
    then show ?thesis
    proof cases
      case (2 r)
      have "\<exists>q. socks4_wf q \<and> socks4_request_enc (socks4_message req) = socks4_request_enc q \<and> ss_message r = socks4_target q"
        using t [OF 2(2)] a(2) by (intro exI [of _ "socks4_message req"]) simp
      then have "asked (sv_method s0) (creds s0) r (socks4_request_enc (socks4_message req))"
        unfolding asked_def if_not_P [OF m] using conjunct2 [OF t [OF 2(2)]] 2(1) by simp
      then have "stage s0 xs (asked (sv_method s0) (creds s0) r) (s\<lparr>sv_request := r, sv_pending := Some b'\<rparr>) (view b')"
        using st m unfolding a(3) by (intro stage_advance [OF st [unfolded a(3)]]) (auto simp: stage_def same_config_def waiting_greeting_def)
      then show ?thesis using 2 a(1) by (simp add: pending_stage_def)
    qed simp
  qed (use out p in \<open>auto simp: socks4_segment_def\<close>)
qed

lemma method_select_segment_inv:
  assumes b: "growable_inv b" and st: "stage s0 xs (waiting_greeting s0) s (view b)" and m: "is_socks5 (sv_method s0)"
  shows "keeps_inv s0 xs (method_select_segment junk b s)"
proof (intro allI impI)
  fix out assume out: "method_select_segment junk b s = Some out"
  show "srv_inv s0 xs out"
  proof (cases "\<exists>ec s'. out = Disconnect ec s'")
    case False
    then obtain i q req b' where p: "method_select_parse ms_request_start (new_method_select_request junk) (parse_mem b) 0 (parse_end b) = Some (good, i, q, req)"
      "set_offset (offset b + int (method_select_length req)) b = Some b'"
      "(if sv_auth_required s then username_or_password else no_auth_required) \<in> set (methods_range req)"
      "out = Await_write Method_select_response (s\<lparr>sv_pending := Some b'\<rparr>)"
      using out by (auto simp: method_select_segment_def split: if_splits elim!: bind_SomeE)
    have a: "growable_inv b'" "view b = method_select_enc (methods_range req) @ view b'"
      using method_select_buf.accept [OF b, of junk i q req b'] p by auto
    have "sv_auth_required s = demands_auth (creds s0)"
      using st by (auto simp: stage_def same_config_def sv_auth_required_def demands_auth_def)
    then have "stage s0 xs (greeted (creds s0)) (s\<lparr>sv_pending := Some b'\<rparr>) (view b')"
      using st m p(3) by (intro stage_advance [OF st [unfolded a(2)]])
        (auto simp: stage_def same_config_def waiting_greeting_def intro!: via_greeted_authed.greeted)
    then show ?thesis using p a m by (simp add: pending_stage_def)
  qed auto
qed

lemma socks_segment_inv:
  assumes "growable_inv b" "stage s0 xs (waiting_greeting s0) s (view b)"
  shows "keeps_inv s0 xs (socks_segment junk b s)"
proof -
  have m: "sv_method s = sv_method s0" using assms(2) by (simp add: stage_def same_config_def)
  have "sv_method s0 = CRYPTO_SOCKS4 \<or> sv_method s0 = CRYPTO_SOCKS4A \<Longrightarrow> \<not> is_socks5 (sv_method s0)" by (auto simp: is_socks5_def)
  then show ?thesis
    using method_select_segment_inv [OF assms, of junk] socks4_segment_inv [OF assms]
    unfolding socks_segment_def m by (auto simp: is_socks5_def split: if_splits)
qed

text \<open>Reading a segment moves its bytes from the socket to the buffer.\<close>

lemma read_segment_view: "read_segment junk cap xs = Some b \<Longrightarrow> growable_inv b \<and> view b = xs"
proof -
  assume r: "read_segment junk cap xs = Some b"
  then obtain b0 b1 where b: "SetCapacity junk cap GrowableIOBuffer = Some b0" "memcpy_data 0 xs b0 = Some b1"
    "SetCapacity junk (int (length xs)) b1 = Some b" by (auto simp: read_segment_def elim!: bind_SomeE)
  then have "0 \<le> cap" "cap \<le> INT_MAX" by (auto simp: SetCapacity_def in_int_def split: if_splits)
  show ?thesis
  proof (cases "int (length xs) \<le> cap")
    case True
    then show ?thesis using read_segment_ok [OF True \<open>cap \<le> INT_MAX\<close>, of junk] r by auto
  next
    case False
    have "mem b0 = mem_realloc junk [] (nat cap) \<or> mem b0 = []" "buf_data b0 = 0" 
      using b(1) \<open>0 \<le> cap\<close> by (auto simp: SetCapacity_def set_offset_def GrowableIOBuffer_def Let_def split: if_splits)
    then have "memcpy_data 0 xs b0 = None" using False \<open>0 \<le> cap\<close> by (auto simp: memcpy_data_def mem_write_def mem_realloc_def)
    then show ?thesis using b(2) by simp
  qed
qed

lemma sv_read_stage:
  assumes "stage s0 xs P s []" "sv_read s = (r, s1)"
  shows "case r of Data ys \<Rightarrow> stage s0 xs P s1 ys | _ \<Rightarrow> stage s0 xs P s1 []"
  using assms by (auto simp: sv_read_def stage_def same_config_def split: list.splits read_result.splits)

lemma via_socks_inv:
  "stage s0 xs (waiting_greeting s0) s [] \<Longrightarrow> keeps_inv s0 xs (ReadHandshakeViaSocks junk s)"
  "stage s0 xs (waiting_greeting s0) s [] \<Longrightarrow> keeps_inv s0 xs (OnReadHandshakeViaSocks junk s)"
proof (induction junk s and junk s rule: ReadHandshakeViaSocks_OnReadHandshakeViaSocks.induct)
  case (1 junk s)
  then show ?case by (auto simp: ReadHandshakeViaSocks.simps [of junk s])
next
  case (2 junk s)
  obtain r s1 where r: "sv_read s = (r, s1)" by (cases "sv_read s")
  note st = sv_read_stage [OF 2(2) r]
  show ?case
  proof (cases r)
    case (Data ys)
    then show ?thesis using st r socks_segment_inv [of _ s0 xs s1 junk]
      by (auto simp: OnReadHandshakeViaSocks.simps [of junk s] elim!: bind_SomeE dest!: read_segment_view)
  next
    case WouldBlock
    then show ?thesis using 2(1) [OF r [symmetric] WouldBlock] st r by (auto simp: OnReadHandshakeViaSocks.simps [of junk s])
  next
    case (ReadError ec)
    then show ?thesis using r by (auto simp: OnReadHandshakeViaSocks.simps [of junk s])
  qed
qed

lemma auth_segment_inv:
  assumes b: "growable_inv b" and st: "stage s0 xs (greeted (creds s0)) s (view b)"
    and m: "is_socks5 (sv_method s0)" "demands_auth (creds s0)"
  shows "keeps_inv s0 xs (auth_segment b s)"
proof (intro allI impI)
  fix out assume out: "auth_segment b s = Some out"
  show "srv_inv s0 xs out"
  proof (cases "\<exists>ec s'. out = Disconnect ec s'")
    case False
    then obtain i q req b' where p: "auth_parse auth_request_start new_auth_request (parse_mem b) 0 (parse_end b) = Some (good, i, q, req)"
      "set_offset (offset b + int (auth_request_length req)) b = Some b'" "username req = sv_username s" "password req = sv_password s"
      "out = Await_write Auth_response (s\<lparr>sv_pending := Some b'\<rparr>)"
      using out by (auto simp: auth_segment_def split: if_splits elim!: bind_SomeE)
    have a: "growable_inv b'" "view b = auth_enc (creds s0) @ view b'"
      using auth_buf.accept [OF b, of i q req b'] p st by (auto simp: stage_def same_config_def)
    then have "stage s0 xs (authed (creds s0)) (s\<lparr>sv_pending := Some b'\<rparr>) (view b')"
      using st m by (intro stage_advance [OF st [unfolded a(2)]])
        (auto simp: stage_def same_config_def intro!: via_greeted_authed.authed_password)
    then show ?thesis using p a m by (simp add: pending_stage_def)
  qed auto
qed

text \<open>The two later reads start from the bytes left over from the message before.\<close>

lemma pending_read:
  assumes "pending_stage s0 xs P s" "sv_pending s = Some b"
    and seg: "\<And>b s. growable_inv b \<Longrightarrow> stage s0 xs P s (view b) \<Longrightarrow> keeps_inv s0 xs (k b s)"
    and again: "\<And>s. sv_pending s = None \<Longrightarrow> stage s0 xs P s [] \<Longrightarrow> keeps_inv s0 xs (block s)"
  shows "keeps_inv s0 xs (let s = s\<lparr>sv_pending := None\<rparr> in
      if iobuf_empty b then
        (case sv_read s of (WouldBlock, s1) \<Rightarrow> block s1 | (ReadError ec, s1) \<Rightarrow> Some (Disconnect ec s1)
         | (Data xs, s1) \<Rightarrow> do { buf \<leftarrow> read_segment junk SOCKET_DEBUF_SIZE xs; k buf s1 })
      else k b s)"
proof -
  let ?s = "s\<lparr>sv_pending := None\<rparr>"
  have b: "growable_inv b" "stage s0 xs P ?s (view b)"
    using assms(1,2) by (auto simp: pending_stage_def stage_def same_config_def)
  obtain r s1 where r: "sv_read ?s = (r, s1)" by (cases "sv_read ?s")
  then have n: "sv_pending s1 = None" by (auto simp: sv_read_def split: list.splits)
  show ?thesis
  proof (cases "iobuf_empty b")
    case True
    then have st: "stage s0 xs P ?s []" using b by (simp add: iobuf_empty_view)
    show ?thesis using sv_read_stage [OF st r] True r n again [of s1] seg [of _ s1]
      by (cases r) (auto elim!: bind_SomeE dest!: read_segment_view)
  qed (use b seg [of b ?s] in simp)
qed

lemma username_password_inv:
  assumes "pending_stage s0 xs (greeted (creds s0)) s" "is_socks5 (sv_method s0)" "demands_auth (creds s0)"
  shows "keeps_inv s0 xs (OnReadSocks5UsernamePasswordAuth junk s)" and "keeps_inv s0 xs (ReadSocks5UsernamePasswordAuth junk s)"
proof -
  obtain b where b: "sv_pending s = Some b" using assms(1) by (auto simp: pending_stage_def)
  have "keeps_inv s0 xs (ReadSocks5UsernamePasswordAuth junk s1)" if "sv_pending s1 = None" for s1
    using that by (simp add: ReadSocks5UsernamePasswordAuth.simps [of junk s1])
  then show on: "keeps_inv s0 xs (OnReadSocks5UsernamePasswordAuth junk s)"
    using pending_read [OF assms(1) b, of auth_segment "ReadSocks5UsernamePasswordAuth junk" junk] auth_segment_inv [OF _ _ assms(2,3)]
    unfolding OnReadSocks5UsernamePasswordAuth.simps [of junk s] b option.case by blast
  show "keeps_inv s0 xs (ReadSocks5UsernamePasswordAuth junk s)"
    using on assms b by (simp add: ReadSocks5UsernamePasswordAuth.simps [of junk s])
qed

lemma request_segment_inv:
  assumes b: "growable_inv b" and st: "stage s0 xs (authed (creds s0)) s (view b)" and m: "is_socks5 (sv_method s0)"
  shows "keeps_inv s0 xs (request_segment b s)"
proof (intro allI impI)
  fix out assume out: "request_segment b s = Some out"
  show "srv_inv s0 xs out"
  proof (cases "\<exists>ec s'. out = Disconnect ec s'")
    case False
    let ?t = "\<lambda>req. if address_type (atyp_req req) = atyp_domain then ss_request_domain (socks5_domain_name req) (socks5_port req)
        else ss_request_endpoint (socks5_endpoint req)"
    from False obtain i q req b' r where p: "socks5_request_parse request_start new_socks5_request (parse_mem b) 0 (parse_end b) = Some (good, i, q, req)"
      "set_offset (offset b + int (socks5_request_length req)) b = Some b'" "socks5_port req \<noteq> 0" "?t req = Some r"
      "out = Await_write Handshake_response (s\<lparr>sv_request := r, sv_pending := Some b'\<rparr>)"
      "address_type (atyp_req req) \<noteq> atyp_domain \<longrightarrow> \<not> is_unspecified (fst (socks5_endpoint req))"
      using out by (auto simp: request_segment_def Let_def split: if_splits elim!: bind_SomeE)
    obtain cmd rsv t where q: "socks5_message req = (cmd, rsv, t, socks5_port req)" by (simp add: socks5_message_def)
    have a: "growable_inv b'" "target_wf t" "view b = socks5_request_enc (cmd, rsv, t, socks5_port req) @ view b'"
      using socks5_buf.accept [OF b, of i "q" req b'] p(1,2) q by auto
    have "ss_message r = (t, socks5_port req)"
    proof (cases "address_type (atyp_req req) = atyp_domain")
      case True
      then show ?thesis using p(4) q domain_message [of "socks5_domain_name req" "socks5_port req" r] by (simp add: socks5_message_def)
    next
      case dom: False
      then have "t = Address (fst (socks5_endpoint req))" using q by (auto simp: socks5_message_def)
      moreover have "snd (socks5_endpoint req) = socks5_port req"
        using dom p(6) by (auto simp: socks5_endpoint_def Let_def is_unspecified_def numeral_eq_Suc split: if_splits)
      ultimately show ?thesis using p(4) dom a(2) endpoint_message [of "socks5_endpoint req" r] by simp
    qed
    then have "stage s0 xs (asked (sv_method s0) (creds s0) r) (s\<lparr>sv_request := r, sv_pending := Some b'\<rparr>) (view b')"
      using st m p(3) a(2) by (intro stage_advance [OF st [unfolded a(3)]]) (auto simp: stage_def same_config_def asked_def)
    then show ?thesis using p(5) a(1) by (simp add: pending_stage_def)
  qed auto
qed

lemma via_socks5_inv:
  assumes "pending_stage s0 xs (authed (creds s0)) s" "is_socks5 (sv_method s0)"
  shows "keeps_inv s0 xs (OnReadHandshakeViaSocks5 junk s)" and "keeps_inv s0 xs (ReadHandshakeViaSocks5 junk s)"
proof -
  obtain b where b: "sv_pending s = Some b" using assms(1) by (auto simp: pending_stage_def)
  have "keeps_inv s0 xs (ReadHandshakeViaSocks junk s1)" if "stage s0 xs (authed (creds s0)) s1 []" for s1
    using that assms(2) by (intro via_socks_inv) (auto simp: stage_def waiting_greeting_def intro: via_greeted_authed.via_again)
  then show on: "keeps_inv s0 xs (OnReadHandshakeViaSocks5 junk s)"
    using pending_read [OF assms(1) b, of request_segment "ReadHandshakeViaSocks junk" junk] request_segment_inv [OF _ _ assms(2)]
    unfolding OnReadHandshakeViaSocks5_def b option.case by blast
  show "keeps_inv s0 xs (ReadHandshakeViaSocks5 junk s)"
    using on assms b by (simp add: ReadHandshakeViaSocks5_def)
qed

lemma write_reply_inv:
  assumes "\<And>s1. sv_pending s1 = sv_pending s \<Longrightarrow> sv_request s1 = sv_request s \<Longrightarrow> same_config s s1 \<Longrightarrow> sv_rx s1 = sv_rx s \<Longrightarrow> keeps_inv s0 xs (k s1)"
  shows "keeps_inv s0 xs (write_reply bs w s k)"
  using assms [of "s\<lparr>sv_out := sv_out s @ bs\<rparr>"] by (auto simp: write_reply_def Let_def same_config_def split: write_result.splits)

lemma pending_stage_cong:
  "pending_stage s0 xs P s \<Longrightarrow> sv_pending s1 = sv_pending s \<Longrightarrow> same_config s s1 \<Longrightarrow> sv_rx s1 = sv_rx s \<Longrightarrow> pending_stage s0 xs P s1"
  by (auto simp: pending_stage_def stage_def same_config_def)

lemma replies_inv:
  "pending_stage s0 xs (asked (sv_method s0) (creds s0) (sv_request s)) s \<Longrightarrow> keeps_inv s0 xs (WriteHandshakeResponse w s)"
  "is_socks5 (sv_method s0) \<Longrightarrow> pending_stage s0 xs (greeted (creds s0)) s \<Longrightarrow> keeps_inv s0 xs (WriteMethodSelectResponse junk w s)"
  "is_socks5 (sv_method s0) \<Longrightarrow> pending_stage s0 xs (authed (creds s0)) s \<Longrightarrow> keeps_inv s0 xs (WriteUsernamePasswordAuthResponse junk w s)"
proof -
  assume p: "pending_stage s0 xs (asked (sv_method s0) (creds s0) (sv_request s)) s"
  have "keeps_inv s0 xs (write_reply bs w s (\<lambda>s. case sv_pending s of None \<Rightarrow> None
      | Some buf \<Rightarrow> Some (Stream buf (s\<lparr>sv_pending := None, sv_state := sv_state_stream\<rparr>))))" for bs
    using p by (intro write_reply_inv) (auto simp: pending_stage_def stage_def same_config_def split: option.splits)
  then show "keeps_inv s0 xs (WriteHandshakeResponse w s)" by (auto simp: WriteHandshakeResponse_def elim!: bind_SomeE)
next
  assume m: "is_socks5 (sv_method s0)" and p: "pending_stage s0 xs (greeted (creds s0)) s"
  have a: "sv_auth_required s1 = demands_auth (creds s0)" if "same_config s s1" for s1
    using that p by (auto simp: pending_stage_def stage_def same_config_def sv_auth_required_def demands_auth_def)
  have open1: "pending_stage s0 xs (authed (creds s0)) s1" if "pending_stage s0 xs (greeted (creds s0)) s1" "\<not> demands_auth (creds s0)" for s1
    using that by (auto simp: pending_stage_def stage_def intro: via_greeted_authed.authed_open)
  have k: "keeps_inv s0 xs (if sv_auth_required s1 then ReadSocks5UsernamePasswordAuth junk s1 else ReadHandshakeViaSocks5 junk s1)"
    if "pending_stage s0 xs (greeted (creds s0)) s1" "same_config s s1" for s1
    using username_password_inv(2) [OF that(1) m, of junk] via_socks5_inv(2) [OF open1 [OF that(1)] m, of junk] a [OF that(2)] by simp
  show "keeps_inv s0 xs (WriteMethodSelectResponse junk w s)" unfolding WriteMethodSelectResponse_def
    using pending_stage_cong [OF p] k by (intro write_reply_inv) blast
next
  assume m: "is_socks5 (sv_method s0)" and p: "pending_stage s0 xs (authed (creds s0)) s"
  then show "keeps_inv s0 xs (WriteUsernamePasswordAuthResponse junk w s)" unfolding WriteUsernamePasswordAuthResponse_def
    using pending_stage_cong [OF p] via_socks5_inv(2) [OF _ m, of xs _ junk] by (intro write_reply_inv) blast
qed

section \<open>Runs\<close>

text \<open>\<open>srv_run junk s0 xs out\<close>: the connection, started in \<open>s0\<close>, is at \<open>out\<close> when \<open>xs\<close> are the bytes its peer
  has sent.\<close>

inductive srv_run :: "(nat \<Rightarrow> byte) \<Rightarrow> srv \<Rightarrow> byte list \<Rightarrow> srv_outcome \<Rightarrow> bool" for junk s0 where
  start: "srv_start junk s0 = Some out \<Longrightarrow> srv_run junk s0 (rx_bytes (sv_rx s0)) out"
| step: "srv_run junk s0 xs out \<Longrightarrow> srv_step junk out rx out' \<Longrightarrow> srv_run junk s0 (xs @ rx_bytes rx) out'"

lemma callback_guard_inv: "keeps_inv s0 xs k \<Longrightarrow> keeps_inv s0 xs (callback_guard ec s k)"
  by (auto simp: callback_guard_def)

lemma stage_arrival:
  "stage s0 xs P s bs \<Longrightarrow> stage s0 (xs @ rx_bytes rx) P (s\<lparr>sv_rx := sv_rx s @ rx\<rparr>) bs"
  by (auto simp: stage_def same_config_def)

lemma pending_arrival:
  "pending_stage s0 xs P s \<Longrightarrow> pending_stage s0 (xs @ rx_bytes rx) P (s\<lparr>sv_rx := sv_rx s @ rx\<rparr>)"
  by (auto simp: pending_stage_def stage_arrival)

lemma srv_step_inv:
  assumes "srv_step junk out rx out'" "srv_inv s0 xs out"
  shows "srv_inv s0 (xs @ rx_bytes rx) out'"
  using assms(1)
proof cases
  case (readable ec s op)
  have "keeps_inv s0 (xs @ rx_bytes rx) (on_readable junk op (s\<lparr>sv_rx := sv_rx s @ rx\<rparr>))"
    using assms(2) unfolding readable(1)
  proof (cases op)
    case Via_socks
    then show ?thesis using assms(2) via_socks_inv(2) [OF stage_arrival, of s0 xs s junk rx] unfolding readable(1) on_readable_def by simp
  next
    case Username_password
    then show ?thesis using assms(2) username_password_inv(1) [OF pending_arrival, of s0 xs s junk rx] unfolding readable(1) on_readable_def by simp
  next
    case Via_socks5
    then show ?thesis using assms(2) via_socks5_inv(1) [OF pending_arrival, of s0 xs s junk rx] unfolding readable(1) on_readable_def by simp
  qed
  then show ?thesis using callback_guard_inv readable(2) by blast
next
  case (writable ec s op w)
  have "keeps_inv s0 (xs @ rx_bytes rx) (on_writable junk op w (s\<lparr>sv_rx := sv_rx s @ rx\<rparr>))"
  proof (cases op)
    case Handshake_response
    then show ?thesis using assms(2) replies_inv(1) [of s0 "xs @ rx_bytes rx" "s\<lparr>sv_rx := sv_rx s @ rx\<rparr>" w] pending_arrival
      unfolding writable(1) on_writable_def by simp
  next
    case Method_select_response
    then show ?thesis using assms(2) replies_inv(2) [OF _ pending_arrival, of s0 xs s junk w rx] unfolding writable(1) on_writable_def by simp
  next
    case Auth_response
    then show ?thesis using assms(2) replies_inv(3) [OF _ pending_arrival, of s0 xs s junk w rx] unfolding writable(1) on_writable_def by simp
  qed
  then show ?thesis using callback_guard_inv writable(2) by blast
qed

lemma srv_run_inv: "srv_run junk s0 xs out \<Longrightarrow> srv_inv s0 xs out"
proof (induction rule: srv_run.induct)
  case (start out)
  have "stage s0 (rx_bytes (sv_rx s0)) (waiting_greeting s0) (s0\<lparr>sv_state := sv_state_handshake\<rparr>) []"
    by (auto simp: stage_def same_config_def waiting_greeting_def via_greeted_authed.via_start)
  then show ?case using via_socks_inv(1) start by (auto simp: srv_start_def)
next
  case (step xs out rx out')
  then show ?case using srv_step_inv by blast
qed

end
