(* ===== verification/Socks_Upstream.thy ===== *)
theory Socks_Upstream
  imports Handshake_Parsing
begin

text \<open>
  The SOCKS handshake a client connection performs with its upstream proxy
  (\<^verbatim>\<open>cli/cli_connection.cpp\<close>): the requests it queues when the upstream is connected, and what it does
  with each reply. The upstream queue is the list of its buffers, which is what the ring buffer of
  \<^verbatim>\<open>net/io_queue.hpp\<close> implements. Calls into the rest of the connection are returned as effects, in order.
\<close>

section \<open>State\<close>

record cli_up =
  cu_method :: cipher_method
  cu_username :: "byte list"
  cu_password :: "byte list"
  cu_request :: ss_request
  cu_upstream :: "growable list"
  socks5_method_select_handshake :: bool
  socks5_auth_handshake :: bool
  socks_handshake :: bool

datatype up_effect = WriteUpstreamInPipe | Disconnected error_code | Close error_code

definition cu_auth_required :: "cli_up \<Rightarrow> bool" where
  "cu_auth_required c \<longleftrightarrow> cu_username c \<noteq> [] \<and> cu_password c \<noteq> []"

primrec append_all :: "(nat \<Rightarrow> byte) \<Rightarrow> byte list list \<Rightarrow> growable \<Rightarrow> growable option" where
  "append_all junk [] b = Some b"
| "append_all junk (xs # xss) b = do { b1 \<leftarrow> appendBytesAtEnd junk xs b; append_all junk xss b1 }"

section \<open>Requests\<close>

definition WriteUpstreamMethodSelectRequest :: "(nat \<Rightarrow> byte) \<Rightarrow> cli_up \<Rightarrow> cli_up option" where
  "WriteUpstreamMethodSelectRequest junk c =
     do { let auth = cu_auth_required c;
          buf \<leftarrow> append_all junk [[socks5_version, 1], [if auth then username_or_password else no_auth_required]] GrowableIOBuffer;
          let q = cu_upstream c @ [buf];
          let q = (if auth then q @ [GrowableIOBuffer] else q);
          Some (c\<lparr>cu_upstream := q @ [GrowableIOBuffer], socks5_method_select_handshake := True, socks5_auth_handshake := auth\<rparr>) }"

text \<open>The later requests are written into the placeholder at the front of the queue.\<close>

definition write_front :: "(nat \<Rightarrow> byte) \<Rightarrow> byte list list \<Rightarrow> cli_up \<Rightarrow> cli_up option" where
  "write_front junk xss c =
     (case cu_upstream c of
        [] \<Rightarrow> None
      | b # q \<Rightarrow> do { b1 \<leftarrow> append_all junk xss b; Some (c\<lparr>cu_upstream := b1 # q\<rparr>) })"

definition WriteUpstreamAuthRequest :: "(nat \<Rightarrow> byte) \<Rightarrow> cli_up \<Rightarrow> (cli_up \<times> up_effect list) option" where
  "WriteUpstreamAuthRequest junk c =
     do { c1 \<leftarrow> write_front junk [[socks5_version], [of_nat (length (cu_username c))], cu_username c,
                                  [of_nat (length (cu_password c))], cu_password c] c;
          Some (c1, [WriteUpstreamInPipe]) }"

definition port_bytes :: "ss_request \<Rightarrow> (byte \<times> byte) option" where
  "port_bytes r = do { i \<leftarrow> ss_port_high_byte r; h \<leftarrow> mem_read r i; j \<leftarrow> ss_port_low_byte r; l \<leftarrow> mem_read r j; Some (h, l) }"

definition WriteUpstreamSocks4Request :: "(nat \<Rightarrow> byte) \<Rightarrow> cli_up \<Rightarrow> (cli_up \<times> up_effect list) option" where
  "WriteUpstreamSocks4Request junk c =
     do { (h, l) \<leftarrow> port_bytes (cu_request c);
          if ss_address_type (cu_request c) = atyp_domain then None
          else if ss_address_type (cu_request c) = atyp_ipv6 then Some (c, [Close access_denied])
          else do {
            buf \<leftarrow> append_all junk [[socks4_version, 1, h, l] @ take 4 (drop 1 (cu_request c)), [0]] GrowableIOBuffer;
            Some (c\<lparr>socks_handshake := True, cu_upstream := cu_upstream c @ [buf]\<rparr>, []) } }"

definition WriteUpstreamSocks4ARequest :: "(nat \<Rightarrow> byte) \<Rightarrow> (ip_address \<Rightarrow> byte list) \<Rightarrow> cli_up \<Rightarrow> cli_up option" where
  "WriteUpstreamSocks4ARequest junk to_string c =
     do { (h, l) \<leftarrow> port_bytes (cu_request c);
          let name = (if ss_address_type (cu_request c) = atyp_domain then ss_domain_name to_string (cu_request c)
                      else if ss_address_type (cu_request c) = atyp_ipv6 then to_string (AddressV6 (take 16 (drop 1 (cu_request c))))
                      else to_string (AddressV4 (take 4 (drop 1 (cu_request c)))));
          buf \<leftarrow> append_all junk [[socks4_version, 1, h, l] @ [0, 0, 0, 0x0f], [0], name, [0]] GrowableIOBuffer;
          Some (c\<lparr>socks_handshake := True, cu_upstream := cu_upstream c @ [buf]\<rparr>) }"

definition WriteUpstreamSocks5Request :: "(nat \<Rightarrow> byte) \<Rightarrow> (ip_address \<Rightarrow> byte list) \<Rightarrow> cli_up \<Rightarrow> (cli_up \<times> up_effect list) option" where
  "WriteUpstreamSocks5Request junk to_string c =
     do { let r = cu_request c;
          let dom = (ss_address_type r = atyp_domain);
          let address_type = (if dom then atyp_domain else if ss_address_type r = atyp_ipv6 then atyp_ipv6 else atyp_ipv4);
          let address = (if dom then ss_domain_name to_string r
                         else if ss_address_type r = atyp_ipv6 then take 16 (drop 1 r) else take 4 (drop 1 r));
          (h, l) \<leftarrow> port_bytes r;
          c1 \<leftarrow> write_front junk ([[socks5_version, 1, 0], [address_type]] @ (if dom then [[of_nat (length address)]] else []) @
                                  [address, [h], [l]]) c;
          Some (c1\<lparr>socks_handshake := True\<rparr>, [WriteUpstreamInPipe]) }"

text \<open>What \<^verbatim>\<open>connected()\<close> queues for a SOCKS upstream.\<close>

definition connected_socks :: "(nat \<Rightarrow> byte) \<Rightarrow> (ip_address \<Rightarrow> byte list) \<Rightarrow> cli_up \<Rightarrow> (cli_up \<times> up_effect list) option" where
  "connected_socks junk to_string c =
     (if cu_method c = CRYPTO_SOCKS4 then WriteUpstreamSocks4Request junk c
      else if cu_method c = CRYPTO_SOCKS4A then map_option (\<lambda>c. (c, [])) (WriteUpstreamSocks4ARequest junk to_string c)
      else if cu_method c = CRYPTO_SOCKS5 \<or> cu_method c = CRYPTO_SOCKS5H then map_option (\<lambda>c. (c, [])) (WriteUpstreamMethodSelectRequest junk c)
      else None)"

section \<open>Replies\<close>

text \<open>A handler of a reply returns the error code, what is left of the buffer, and the effects.\<close>

type_synonym up_result = "error_code \<times> growable \<times> cli_up \<times> up_effect list"

abbreviation refuse :: "growable \<Rightarrow> cli_up \<Rightarrow> up_result option" where
  "refuse buf c \<equiv> Some (connection_refused, buf, c, [Disconnected connection_refused])"

definition after_reply :: "error_code \<Rightarrow> growable \<Rightarrow> error_code" where
  "after_reply ec buf = (if iobuf_empty buf then try_again else ec)"

definition ReadUpstreamMethodSelectResponse ::
    "(nat \<Rightarrow> byte) \<Rightarrow> (ip_address \<Rightarrow> byte list) \<Rightarrow> error_code \<Rightarrow> growable \<Rightarrow> cli_up \<Rightarrow> up_result option" where
  "ReadUpstreamMethodSelectResponse junk to_string ec buf c0 =
     (let c = c0\<lparr>socks5_method_select_handshake := False\<rparr> in
      if buf_size buf < 2 then refuse buf c
      else do {
        r \<leftarrow> data_slice buf 0 2;
        if r ! 0 \<noteq> socks5_version then refuse buf c
        else if \<not> socks5_auth_handshake c \<and> r ! 1 \<noteq> no_auth_required then refuse buf c
        else if socks5_auth_handshake c \<and> r ! 1 \<noteq> username_or_password then refuse buf c
        else do {
          buf1 \<leftarrow> set_offset (offset buf + 2) buf;
          (c1, es) \<leftarrow> if socks5_auth_handshake c then WriteUpstreamAuthRequest junk c else WriteUpstreamSocks5Request junk to_string c;
          Some (after_reply ec buf1, buf1, c1, es) } })"

definition ReadUpstreamAuthResponse ::
    "(nat \<Rightarrow> byte) \<Rightarrow> (ip_address \<Rightarrow> byte list) \<Rightarrow> error_code \<Rightarrow> growable \<Rightarrow> cli_up \<Rightarrow> up_result option" where
  "ReadUpstreamAuthResponse junk to_string ec buf c0 =
     (let c = c0\<lparr>socks5_auth_handshake := False\<rparr> in
      if buf_size buf < 2 then refuse buf c
      else do {
        r \<leftarrow> data_slice buf 0 2;
        if r ! 0 \<noteq> socks5_version then refuse buf c
        else if r ! 1 \<noteq> 0 then refuse buf c
        else do {
          buf1 \<leftarrow> set_offset (offset buf + 2) buf;
          (c1, es) \<leftarrow> WriteUpstreamSocks5Request junk to_string c;
          Some (after_reply ec buf1, buf1, c1, es) } })"

definition skip_reply :: "error_code \<Rightarrow> int \<Rightarrow> growable \<Rightarrow> cli_up \<Rightarrow> up_result option" where
  "skip_reply ec n buf c =
     (if buf_size buf < n then refuse buf c
      else do { buf1 \<leftarrow> set_offset (offset buf + n) buf; Some (after_reply ec buf1, buf1, c, []) })"

definition ReadUpstreamSocksResponse :: "error_code \<Rightarrow> growable \<Rightarrow> cli_up \<Rightarrow> up_result option" where
  "ReadUpstreamSocksResponse ec buf c0 =
     (let c = c0\<lparr>socks_handshake := False\<rparr> in
      if cu_method c = CRYPTO_SOCKS4 \<or> cu_method c = CRYPTO_SOCKS4A then
        (if buf_size buf < 8 then refuse buf c
         else do {
           r \<leftarrow> data_slice buf 0 8;
           if r ! 0 \<noteq> 0 \<or> r ! 1 \<noteq> socks4_request_granted then refuse buf c
           else skip_reply ec 8 buf c })
      else if cu_method c = CRYPTO_SOCKS5 \<or> cu_method c = CRYPTO_SOCKS5H then
        (if buf_size buf < 4 then refuse buf c
         else do {
           r \<leftarrow> data_slice buf 0 4;
           if r ! 0 \<noteq> socks5_version \<or> r ! 1 \<noteq> socks5_request_granted \<or> r ! 2 \<noteq> 0 then refuse buf c
           else if r ! 3 = atyp_ipv4 then skip_reply ec (4 + 4 + 2) buf c
           else if r ! 3 = atyp_ipv6 then skip_reply ec (4 + 16 + 2) buf c
           else if r ! 3 = atyp_domain then
             (if buf_size buf < 4 + 1 + 2 then refuse buf c
              else do { l \<leftarrow> data_slice buf 4 1; skip_reply ec (4 + 1 + 2 + int (unat (l ! 0))) buf c })
           else refuse buf c })
      else None)"

text \<open>The handshake part of \<^verbatim>\<open>GetNextDownstreamBuf()\<close>: each pending reply in turn, as long as the segment has bytes.\<close>

definition read_replies ::
    "(nat \<Rightarrow> byte) \<Rightarrow> (ip_address \<Rightarrow> byte list) \<Rightarrow> growable \<Rightarrow> cli_up \<Rightarrow> up_result option" where
  "read_replies junk to_string buf c =
     do { (ec, buf, c, es1) \<leftarrow> if socks5_method_select_handshake c then ReadUpstreamMethodSelectResponse junk to_string no_error buf c
                               else Some (no_error, buf, c, []);
          if ec \<noteq> no_error then Some (ec, buf, c, es1)
          else do {
            (ec, buf, c, es2) \<leftarrow> if socks5_auth_handshake c then ReadUpstreamAuthResponse junk to_string ec buf c else Some (ec, buf, c, []);
            if ec \<noteq> no_error then Some (ec, buf, c, es1 @ es2)
            else do {
              (ec, buf, c, es3) \<leftarrow> if socks_handshake c then ReadUpstreamSocksResponse ec buf c else Some (ec, buf, c, []);
              Some (ec, buf, c, es1 @ es2 @ es3) } } }"

text \<open>Which buffer of the queue may be sent next: a placeholder whose request has not been written yet blocks
  the queue.\<close>

definition next_upstream :: "cli_up \<Rightarrow> growable option" where
  "next_upstream c =
     (case cu_upstream c of
        [] \<Rightarrow> None
      | b # _ \<Rightarrow> if (socks5_method_select_handshake c \<or> socks5_auth_handshake c) \<and> iobuf_empty b then None else Some b)"

section \<open>What is sent\<close>

lemma append_all_ok:
  "growable_inv b \<Longrightarrow> length (concat xss) \<le> room b \<Longrightarrow> \<exists>b'. append_all junk xss b = Some b' \<and> growable_inv b' \<and> view b' = view b @ concat xss"
proof (induction xss arbitrary: b)
  case (Cons xs xss)
  then obtain b1 where b1: "appendBytesAtEnd junk xs b = Some b1" "growable_inv b1" "view b1 = view b @ xs" "room b1 = room b - length xs"
    using gb.app_ok [of b xs junk] by auto
  moreover have "length (concat xss) \<le> room b1" using Cons.prems(2) b1(4) by simp
  ultimately obtain b' where "append_all junk xss b1 = Some b'" "growable_inv b'" "view b' = view b1 @ concat xss"
    using Cons.IH [of b1] by blast
  with b1 show ?case by simp
qed simp

declare append_all.simps [simp del]

lemma room_new: "room GrowableIOBuffer = 2147483647"
  by (simp add: room_def GrowableIOBuffer_def INT_MAX_def)

text \<open>A request that encodes a target and a port, in front of whatever else is in the structure.\<close>

lemma request_bytes:
  assumes "target_wf t"
  shows "port_bytes (ss_enc (t, p) @ zs) = Some (hi8 p, lo8 p)"
    and "t = Domain d \<Longrightarrow> ss_domain_name to_string (ss_enc (t, p) @ zs) = d \<and> ss_address_type (ss_enc (t, p) @ zs) = atyp_domain"
    and "t = Address (AddressV4 a) \<Longrightarrow> take 4 (drop 1 (ss_enc (t, p) @ zs)) = a \<and> ss_address_type (ss_enc (t, p) @ zs) = atyp_ipv4"
    and "t = Address (AddressV6 a) \<Longrightarrow> take 16 (drop 1 (ss_enc (t, p) @ zs)) = a \<and> ss_address_type (ss_enc (t, p) @ zs) = atyp_ipv6"
  using assms
  by (cases t rule: target_enc.cases;
      simp add: port_bytes_def ss_enc_def ss_address_type_def ss_domain_name_len_def ss_address_type_size_def ss_domain_name_def
        ss_port_high_byte_def ss_port_low_byte_def mem_read_def length_byte nth_append)+

lemma method_select_sent:
  assumes "cu_upstream c = []"
  shows "\<exists>b. WriteUpstreamMethodSelectRequest junk c =
      Some (c\<lparr>cu_upstream := b # (if cu_auth_required c then [GrowableIOBuffer] else []) @ [GrowableIOBuffer],
              socks5_method_select_handshake := True, socks5_auth_handshake := cu_auth_required c\<rparr>) \<and>
    growable_inv b \<and> view b = method_select_enc [if cu_auth_required c then username_or_password else no_auth_required]"
  using assms append_all_ok [of GrowableIOBuffer "[[socks5_version, 1], [if cu_auth_required c then username_or_password else no_auth_required]]" junk]
  by (auto simp: WriteUpstreamMethodSelectRequest_def room_new method_select_enc_def Let_def)

lemma write_front_sent:
  assumes "cu_upstream c = GrowableIOBuffer # q" "length (concat xss) \<le> 1000"
  shows "\<exists>b. write_front junk xss c = Some (c\<lparr>cu_upstream := b # q\<rparr>) \<and> growable_inv b \<and> view b = concat xss"
  using append_all_ok [of GrowableIOBuffer xss junk] assms by (auto simp: write_front_def room_new)

lemma auth_sent:
  assumes "cu_upstream c = GrowableIOBuffer # q" "length (cu_username c) \<le> 255" "length (cu_password c) \<le> 255"
  shows "\<exists>b. WriteUpstreamAuthRequest junk c = Some (c\<lparr>cu_upstream := b # q\<rparr>, [WriteUpstreamInPipe]) \<and>
    growable_inv b \<and> view b = auth_enc (cu_username c, cu_password c)"
  using write_front_sent [OF assms(1), of "[[socks5_version], [of_nat (length (cu_username c))], cu_username c,
      [of_nat (length (cu_password c))], cu_password c]" junk] assms(2,3)
  by (auto simp: WriteUpstreamAuthRequest_def auth_enc_def)

lemma socks5_request_sent:
  assumes "cu_upstream c = GrowableIOBuffer # q" "cu_request c = ss_enc (t, p) @ zs" "target_wf t"
  shows "\<exists>b. WriteUpstreamSocks5Request junk to_string c = Some (c\<lparr>cu_upstream := b # q, socks_handshake := True\<rparr>, [WriteUpstreamInPipe]) \<and>
    growable_inv b \<and> view b = socks5_request_enc (1, 0, t, p)"
proof (cases t rule: target_enc.cases)
  case (1 d)
  then show ?thesis using write_front_sent [OF assms(1), of "[[socks5_version, 1, 0], [atyp_domain], [of_nat (length d)], d, [hi8 p], [lo8 p]]" junk]
      assms request_bytes [OF assms(3)]
    by (auto simp: WriteUpstreamSocks5Request_def socks5_request_enc_def Let_def)
next
  case (2 a)
  then show ?thesis using write_front_sent [OF assms(1), of "[[socks5_version, 1, 0], [atyp_ipv4], a, [hi8 p], [lo8 p]]" junk]
      assms request_bytes [OF assms(3)]
    by (auto simp: WriteUpstreamSocks5Request_def socks5_request_enc_def Let_def)
next
  case (3 a)
  then show ?thesis using write_front_sent [OF assms(1), of "[[socks5_version, 1, 0], [atyp_ipv6], a, [hi8 p], [lo8 p]]" junk]
      assms request_bytes [OF assms(3)]
    by (auto simp: WriteUpstreamSocks5Request_def socks5_request_enc_def Let_def)
qed

lemma socks4_request_sent:
  assumes "cu_upstream c = []" "cu_request c = ss_enc (Address (AddressV4 a), p) @ zs" "length a = 4" "\<not> names_domain a"
  shows "\<exists>b. WriteUpstreamSocks4Request junk c = Some (c\<lparr>socks_handshake := True, cu_upstream := [b]\<rparr>, []) \<and>
    growable_inv b \<and> view b = socks4_request_enc (1, p, a, [], [])"
  using append_all_ok [of GrowableIOBuffer "[[socks4_version, 1, hi8 p, lo8 p] @ a, [0]]" junk] assms
    request_bytes(1,3) [where t = "Address (AddressV4 a)"]
  by (auto simp: WriteUpstreamSocks4Request_def socks4_request_enc_def room_new)

definition socks4a_name :: "(ip_address \<Rightarrow> byte list) \<Rightarrow> target \<Rightarrow> byte list" where
  "socks4a_name to_string t = (case t of Domain d \<Rightarrow> d | Address a \<Rightarrow> to_string a)"

lemma names_marker: "names_domain [0, 0, 0, 15]"
  by (simp add: names_domain_def nth_Cons_numeral)

lemma socks4a_request_sent:
  assumes "cu_upstream c = []" "cu_request c = ss_enc (t, p) @ zs" "target_wf t" "length (socks4a_name to_string t) \<le> 255"
  shows "\<exists>b. WriteUpstreamSocks4ARequest junk to_string c = Some (c\<lparr>socks_handshake := True, cu_upstream := [b]\<rparr>) \<and>
    growable_inv b \<and> view b = socks4_request_enc (1, p, [0, 0, 0, 15], [], socks4a_name to_string t)"
  using append_all_ok [of GrowableIOBuffer "[[socks4_version, 1, hi8 p, lo8 p] @ [0, 0, 0, 0x0f], [0], socks4a_name to_string t, [0]]" junk]
    assms request_bytes [OF assms(3)]
  by (cases t rule: target_enc.cases)
    (auto simp: WriteUpstreamSocks4ARequest_def socks4_request_enc_def room_new socks4a_name_def Let_def names_marker)

section \<open>What is accepted\<close>

text \<open>A reply that is exactly the bytes expected leaves the segment empty, which the handlers report as
  \<^const>\<open>try_again\<close>.\<close>

lemma reply_consumed:
  assumes "growable_inv b" "view b = xs"
  shows "buf_size b = int (length xs)" "n \<le> length xs \<Longrightarrow> data_slice b 0 n = Some (take n xs)"
    "\<exists>b'. set_offset (offset b + int (length xs)) b = Some b' \<and> growable_inv b' \<and> view b' = [] \<and> iobuf_empty b'"
  using assms buf_size_view [OF assms(1)] data_slice_view [OF assms(1), of n] advance_view [OF assms(1), of "length xs"]
  by (auto simp: iobuf_empty_view)

lemma method_select_reply:
  assumes "growable_inv b" "view b = method_select_response_stock_reply (if cu_auth_required c then username_or_password else no_auth_required)"
    and "socks5_auth_handshake c = cu_auth_required c"
    and next1: "(if cu_auth_required c then WriteUpstreamAuthRequest junk (c\<lparr>socks5_method_select_handshake := False\<rparr>)
      else WriteUpstreamSocks5Request junk to_string (c\<lparr>socks5_method_select_handshake := False\<rparr>)) = Some (c1, es)"
  shows "\<exists>b'. ReadUpstreamMethodSelectResponse junk to_string no_error b c = Some (try_again, b', c1, es) \<and> view b' = []"
proof -
  note r = reply_consumed [OF assms(1,2)]
  obtain b' where "set_offset (offset b + 2) b = Some b'" "view b' = []" "iobuf_empty b'"
    using r(3) by (auto simp: method_select_response_stock_reply_def)
  then show ?thesis using r(1,2) assms(3) next1
    by (auto simp: ReadUpstreamMethodSelectResponse_def method_select_response_stock_reply_def after_reply_def Let_def)
qed

lemma auth_reply:
  assumes "growable_inv b" "view b = auth_response_stock_reply 0"
    and next1: "WriteUpstreamSocks5Request junk to_string (c\<lparr>socks5_auth_handshake := False\<rparr>) = Some (c1, es)"
  shows "\<exists>b'. ReadUpstreamAuthResponse junk to_string no_error b c = Some (try_again, b', c1, es) \<and> view b' = []"
proof -
  note r = reply_consumed [OF assms(1,2)]
  obtain b' where "set_offset (offset b + 2) b = Some b'" "view b' = []" "iobuf_empty b'"
    using r(3) by (auto simp: auth_response_stock_reply_def)
  then show ?thesis using r(1,2) next1
    by (auto simp: ReadUpstreamAuthResponse_def auth_response_stock_reply_def after_reply_def Let_def)
qed

lemma skip_whole:
  assumes "growable_inv b" "n = int (length (view b))"
  shows "\<exists>b'. skip_reply no_error n b c = Some (try_again, b', c, []) \<and> view b' = []"
  using reply_consumed [OF assms(1) refl] assms(2) by (auto simp: skip_reply_def after_reply_def)

lemma socks4_reply:
  assumes "growable_inv b" "view b = [0, socks4_request_granted] @ ys" "length ys = 6" "cu_method c = CRYPTO_SOCKS4 \<or> cu_method c = CRYPTO_SOCKS4A"
  shows "\<exists>b'. ReadUpstreamSocksResponse no_error b c = Some (try_again, b', c\<lparr>socks_handshake := False\<rparr>, []) \<and> view b' = []"
  using reply_consumed [OF assms(1,2)] skip_whole [OF assms(1), of 8 "c\<lparr>socks_handshake := False\<rparr>"] assms(2-)
  by (auto simp: ReadUpstreamSocksResponse_def Let_def)

lemma socks5_reply:
  assumes "growable_inv b" "view b = [socks5_version, socks5_request_granted, 0, ty] @ ys"
    "ty = atyp_ipv4 \<and> length ys = 6 \<or> ty = atyp_ipv6 \<and> length ys = 18" "cu_method c = CRYPTO_SOCKS5 \<or> cu_method c = CRYPTO_SOCKS5H"
  shows "\<exists>b'. ReadUpstreamSocksResponse no_error b c = Some (try_again, b', c\<lparr>socks_handshake := False\<rparr>, []) \<and> view b' = []"
proof -
  have s: "\<exists>b'. skip_reply no_error (if ty = atyp_ipv4 then 10 else 22) b (c\<lparr>socks_handshake := False\<rparr>) =
      Some (try_again, b', c\<lparr>socks_handshake := False\<rparr>, []) \<and> view b' = []"
    using assms(2,3) by (intro skip_whole [OF assms(1)]) auto
  have d: "data_slice b 0 4 = Some [socks5_version, socks5_request_granted, 0, ty]" "4 \<le> buf_size b"
    using reply_consumed(1,2) [OF assms(1,2)] by simp_all
  show ?thesis using assms(3)
  proof
    assume "ty = atyp_ipv4 \<and> length ys = 6"
    then show ?thesis using s d assms(4) by (auto simp: ReadUpstreamSocksResponse_def)
  next
    assume "ty = atyp_ipv6 \<and> length ys = 18"
    then show ?thesis using s d assms(4) by (auto simp: ReadUpstreamSocksResponse_def)
  qed
qed

end
