(* ===== verification/Socks_Session.thy ===== *)
theory Socks_Session
  imports Socks_Server Socks_Upstream
begin

text \<open>
  A client connection whose upstream proxy is a server connection of this program: the handlers of
  \<^verbatim>\<open>cli/cli_connection.cpp\<close> and of \<^verbatim>\<open>server/server_connection.cpp\<close> take turns. The network between them
  delivers what one side writes as one segment to the other.
\<close>

section \<open>Turns\<close>

text \<open>\<^verbatim>\<open>WriteUpstreamInPipe()\<close> on a channel that takes every write at once, as long as nothing is to be relayed.\<close>

function pump :: "cli_up \<Rightarrow> (byte list \<times> cli_up) option" where
  "pump c =
     (case next_upstream c of
        None \<Rightarrow> Some ([], c)
      | Some b \<Rightarrow>
          if iobuf_empty b then Some ([], c)
          else do { xs \<leftarrow> span b; (ys, c1) \<leftarrow> pump (c\<lparr>cu_upstream := tl (cu_upstream c)\<rparr>); Some (xs @ ys, c1) })"
  by pat_completeness auto
termination
  by (relation "measure (\<lambda>c. length (cu_upstream c))") (auto simp: next_upstream_def split: list.splits)

declare pump.simps [simp del]

definition reply_of :: "srv_write \<Rightarrow> srv \<Rightarrow> byte list option" where
  "reply_of op s =
     (case op of
        Handshake_response \<Rightarrow> handshake_reply s
      | Method_select_response \<Rightarrow>
          Some (method_select_response_stock_reply (if sv_auth_required s then username_or_password else no_auth_required))
      | Auth_response \<Rightarrow> Some (auth_response_stock_reply 0))"

text \<open>A segment arrives at the server, and its reply is written completely.\<close>

definition server_turn :: "(nat \<Rightarrow> byte) \<Rightarrow> srv_outcome \<Rightarrow> byte list \<Rightarrow> (srv_outcome \<times> byte list) option" where
  "server_turn junk out xs =
     (case out of
        Await_read op s \<Rightarrow> do {
          out1 \<leftarrow> on_readable junk op (s\<lparr>sv_rx := sv_rx s @ [Data xs]\<rparr>);
          (case out1 of
             Await_write wop s1 \<Rightarrow> do {
               reply \<leftarrow> reply_of wop s1;
               out2 \<leftarrow> on_writable junk wop (Written (length reply)) s1;
               Some (out2, reply) }
           | _ \<Rightarrow> Some (out1, [])) }
      | _ \<Rightarrow> None)"

text \<open>A segment arrives at the client, and what it may send then is sent.\<close>

definition client_turn :: "(nat \<Rightarrow> byte) \<Rightarrow> (ip_address \<Rightarrow> byte list) \<Rightarrow> cli_up \<Rightarrow> byte list \<Rightarrow> (error_code \<times> cli_up \<times> byte list) option" where
  "client_turn junk to_string c xs =
     do { buf \<leftarrow> read_segment junk SOCKET_DEBUF_SIZE xs;
          (ec, buf, c, es) \<leftarrow> read_replies junk to_string buf c;
          (ys, c) \<leftarrow> if WriteUpstreamInPipe \<in> set es then pump c else Some ([], c);
          Some (ec, c, ys) }"

primrec dialogue :: "nat \<Rightarrow> (nat \<Rightarrow> byte) \<Rightarrow> (ip_address \<Rightarrow> byte list) \<Rightarrow> cli_up \<Rightarrow> srv_outcome \<Rightarrow> byte list
    \<Rightarrow> (error_code \<times> cli_up \<times> srv_outcome) option" where
  "dialogue 0 junk to_string c out xs = None"
| "dialogue (Suc n) junk to_string c out xs =
     do { (out1, reply) \<leftarrow> server_turn junk out xs;
          (ec, c1, ys) \<leftarrow> client_turn junk to_string c reply;
          if ys = [] then Some (ec, c1, out1) else dialogue n junk to_string c1 out1 ys }"

text \<open>The whole handshake, from the moment the upstream is connected.\<close>

definition socks_session :: "(nat \<Rightarrow> byte) \<Rightarrow> (ip_address \<Rightarrow> byte list) \<Rightarrow> cli_up \<Rightarrow> srv \<Rightarrow> (error_code \<times> cli_up \<times> srv_outcome) option" where
  "socks_session junk to_string c s =
     do { out \<leftarrow> srv_start junk s;
          (c1, es) \<leftarrow> connected_socks junk to_string c;
          (xs, c2) \<leftarrow> pump c1;
          dialogue 3 junk to_string c2 out xs }"

section \<open>The turns of the server\<close>

definition valid_target :: "target \<Rightarrow> u16 \<Rightarrow> bool" where
  "valid_target t p \<longleftrightarrow> target_wf t \<and> p \<noteq> 0 \<and> (case t of Domain d \<Rightarrow> d \<noteq> [] | Address a \<Rightarrow> \<not> is_unspecified a)"

definition built :: "target \<Rightarrow> u16 \<Rightarrow> ss_request" where
  "built t p = ss_enc (t, p) @ drop (length (ss_enc (t, p))) new_ss_request"

lemma built_request:
  "target_wf (Domain d) \<Longrightarrow> ss_request_domain d p = Some (built (Domain d) p)"
  "target_wf (Address a) \<Longrightarrow> ss_request_endpoint (a, p) = Some (built (Address a) p)"
  by (simp_all add: ss_request_domain_enc ss_request_endpoint_enc built_def)

lemma segment_ok:
  "length xs \<le> 1000 \<Longrightarrow> \<exists>b. read_segment junk SOCKET_DEBUF_SIZE xs = Some b \<and> growable_inv b \<and> view b = xs"
  using read_segment_ok [of xs SOCKET_DEBUF_SIZE junk] by (auto simp: SOCKET_DEBUF_SIZE_def INT_MAX_def)

text \<open>A server that has nothing buffered and nothing to read.\<close>

definition quiet :: "srv \<Rightarrow> srv \<Rightarrow> bool" where
  "quiet s0 s \<longleftrightarrow> same_config s0 s \<and> sv_rx s = [] \<and> (\<exists>b. sv_pending s = Some b \<and> growable_inv b \<and> view b = [])"

lemma server_greeting:
  assumes "same_config s0 s" "sv_rx s = []" "is_socks5 (sv_method s0)"
  defines "m \<equiv> if sv_auth_required s0 then username_or_password else no_auth_required"
  shows "\<exists>s1. server_turn junk (Await_read Via_socks s) (method_select_enc [m]) =
      Some (Await_read (if sv_auth_required s0 then Username_password else Via_socks5) s1, method_select_response_stock_reply m) \<and> quiet s0 s1"
proof -
  obtain b where b: "read_segment junk SOCKET_DEBUF_SIZE (method_select_enc [m]) = Some b" "growable_inv b" "view b = method_select_enc [m] @ []"
    using segment_ok [of "method_select_enc [m]" junk] by (auto simp: method_select_enc_def)
  obtain i q req b' where p: "method_select_parse ms_request_start (new_method_select_request junk) (parse_mem b) 0 (parse_end b) = Some (good, i, q, req)"
    "methods_range req = [m]" "set_offset (offset b + int (method_select_length req)) b = Some b'" "growable_inv b'" "view b' = []"
    using method_select_buf.offer [OF b(2,3), of junk] by auto
  have a: "sv_auth_required s = sv_auth_required s0" "sv_method s = sv_method s0"
    using assms(1) by (auto simp: same_config_def sv_auth_required_def)
  define s' where "s' = s\<lparr>sv_rx := []\<rparr>"
  have seg: "socks_segment junk b s' = Some (Await_write Method_select_response (s'\<lparr>sv_pending := Some b'\<rparr>))"
    using assms(3) a p by (auto simp: s'_def socks_segment_def method_select_segment_def is_socks5_def m_def sv_auth_required_def)
  then have r: "on_readable junk Via_socks (s\<lparr>sv_rx := sv_rx s @ [Data (method_select_enc [m])]\<rparr>) =
      Some (Await_write Method_select_response (s'\<lparr>sv_pending := Some b'\<rparr>))"
    using b assms(2) by (simp add: on_readable_def OnReadHandshakeViaSocks.simps [of junk] sv_read_def s'_def)
  let ?s1 = "s'\<lparr>sv_pending := Some b', sv_out := sv_out s @ method_select_response_stock_reply m\<rparr>"
  have "iobuf_empty b'" using p by (simp add: iobuf_empty_view)
  then have "on_writable junk Method_select_response (Written (length (method_select_response_stock_reply m))) (s'\<lparr>sv_pending := Some b'\<rparr>) =
      Some (Await_read (if sv_auth_required s0 then Username_password else Via_socks5) ?s1)"
    using a by (simp add: on_writable_def WriteMethodSelectResponse_def write_reply_def s'_def m_def sv_auth_required_def
        ReadSocks5UsernamePasswordAuth.simps [of junk] ReadHandshakeViaSocks5_def do_peek_def)
  moreover have "quiet s0 ?s1" using assms(1) p by (simp add: quiet_def same_config_def s'_def)
  ultimately show ?thesis using r a by (auto simp: server_turn_def reply_of_def m_def sv_auth_required_def s'_def)
qed

lemma server_auth:
  assumes "quiet s0 s" "sv_username s0 \<noteq> []" "length (sv_username s0) \<le> 255" "sv_password s0 \<noteq> []" "length (sv_password s0) \<le> 255"
  shows "\<exists>s1. server_turn junk (Await_read Username_password s) (auth_enc (creds s0)) = Some (Await_read Via_socks5 s1, auth_response_stock_reply 0) \<and> quiet s0 s1"
proof -
  obtain b where b: "read_segment junk SOCKET_DEBUF_SIZE (auth_enc (creds s0)) = Some b" "growable_inv b" "view b = auth_enc (creds s0) @ []"
    using segment_ok [of "auth_enc (creds s0)" junk] assms by (auto simp: auth_enc_def)
  obtain i q req b' where p: "auth_parse auth_request_start new_auth_request (parse_mem b) 0 (parse_end b) = Some (good, i, q, req)"
    "(username req, password req) = creds s0" "set_offset (offset b + int (auth_request_length req)) b = Some b'" "growable_inv b'" "view b' = []"
    using auth_buf.offer [OF b(2,3)] assms by auto
  obtain e where e: "sv_pending s = Some e" "iobuf_empty e" "sv_rx s = []" "same_config s0 s"
    using assms(1) by (auto simp: quiet_def iobuf_empty_view)
  define s' where "s' = s\<lparr>sv_pending := None, sv_rx := []\<rparr>"
  have "auth_segment b s' = Some (Await_write Auth_response (s'\<lparr>sv_pending := Some b'\<rparr>))"
    using p e(4) by (simp add: auth_segment_def s'_def same_config_def)
  then have r: "on_readable junk Username_password (s\<lparr>sv_rx := sv_rx s @ [Data (auth_enc (creds s0))]\<rparr>) =
      Some (Await_write Auth_response (s'\<lparr>sv_pending := Some b'\<rparr>))"
    using b e by (simp add: on_readable_def OnReadSocks5UsernamePasswordAuth.simps [of junk] sv_read_def s'_def)
  let ?s1 = "s'\<lparr>sv_pending := Some b', sv_out := sv_out s @ auth_response_stock_reply 0\<rparr>"
  have "iobuf_empty b'" using p by (simp add: iobuf_empty_view)
  then have "on_writable junk Auth_response (Written (length (auth_response_stock_reply 0))) (s'\<lparr>sv_pending := Some b'\<rparr>) = Some (Await_read Via_socks5 ?s1)"
    by (simp add: on_writable_def WriteUsernamePasswordAuthResponse_def write_reply_def s'_def ReadHandshakeViaSocks5_def do_peek_def)
  moreover have "quiet s0 ?s1" using e p by (simp add: quiet_def same_config_def s'_def)
  ultimately show ?thesis using r by (auto simp: server_turn_def reply_of_def s'_def)
qed

text \<open>The reply of the server to a request it accepts.\<close>

lemma socks5_handshake_reply:
  assumes "is_socks5 (sv_method s)" "sv_request s = built t p" "target_wf t"
  shows "\<exists>ty ys. handshake_reply s = Some ([socks5_version, socks5_request_granted, 0, ty] @ ys) \<and>
    (ty = atyp_ipv4 \<and> length ys = 6 \<or> ty = atyp_ipv6 \<and> length ys = 18)"
proof -
  note e = ss_message_enc [OF assms(3), of p "drop (length (ss_enc (t, p))) new_ss_request", folded built_def]
  have m: "sv_method s \<noteq> CRYPTO_SOCKS4" "sv_method s \<noteq> CRYPTO_SOCKS4A" using assms(1) by (auto simp: is_socks5_def)
  show ?thesis
  proof (cases t rule: target_enc.cases)
    case (1 d)
    then show ?thesis using e(4) assms m
      by (simp add: handshake_reply_def socks5_reply_set_endpoint_def new_socks5_reply_def socks5_reply_buffers_def)
  next
    case (2 a)
    then have "ss_endpoint (built t p) = Some (AddressV4 a, p)"
      using e(3,4) request_bytes(3) [OF assms(3) 2, where p = p and zs = "drop (length (ss_enc (t, p))) new_ss_request", folded built_def]
      by (simp add: ss_endpoint_def)
    then show ?thesis using e(4) assms m 2
      by (simp add: handshake_reply_def socks5_reply_set_endpoint_def new_socks5_reply_def socks5_reply_buffers_def)
  next
    case (3 a)
    then have "ss_endpoint (built t p) = Some (AddressV6 a, p)"
      using e(3,4) request_bytes(4) [OF assms(3) 3, where p = p and zs = "drop (length (ss_enc (t, p))) new_ss_request", folded built_def]
      by (simp add: ss_endpoint_def)
    then show ?thesis using e(4) assms m 3
      by (simp add: handshake_reply_def socks5_reply_set_endpoint_def new_socks5_reply_def socks5_reply_buffers_def)
  qed
qed

lemma server_request:
  assumes "quiet s0 s" "is_socks5 (sv_method s0)" "valid_target t p"
  shows "\<exists>b s1 ty ys. server_turn junk (Await_read Via_socks5 s) (socks5_request_enc (cmd, rsv, t, p)) =
      Some (Stream b s1, [socks5_version, socks5_request_granted, 0, ty] @ ys) \<and>
    (ty = atyp_ipv4 \<and> length ys = 6 \<or> ty = atyp_ipv6 \<and> length ys = 18) \<and> view b = [] \<and> sv_request s1 = built t p"
proof -
  have wf: "target_wf t" using assms(3) by (simp add: valid_target_def)
  then have "length (socks5_request_enc (cmd, rsv, t, p)) \<le> 1000"
    by (cases t rule: target_enc.cases) (simp_all add: socks5_request_enc_def)
  then obtain b where b: "read_segment junk SOCKET_DEBUF_SIZE (socks5_request_enc (cmd, rsv, t, p)) = Some b" "growable_inv b"
    "view b = socks5_request_enc (cmd, rsv, t, p) @ []" using segment_ok by auto
  obtain i q req b' where r: "socks5_request_parse request_start new_socks5_request (parse_mem b) 0 (parse_end b) = Some (good, i, q, req)"
    "socks5_message req = (cmd, rsv, t, p)" "set_offset (offset b + int (socks5_request_length req)) b = Some b'" "growable_inv b'" "view b' = []"
    using socks5_buf.offer [OF b(2,3)] wf by auto
  obtain e where e: "sv_pending s = Some e" "iobuf_empty e" "sv_rx s = []" "same_config s0 s"
    using assms(1) by (auto simp: quiet_def iobuf_empty_view)
  define s' where "s' = s\<lparr>sv_pending := None, sv_rx := []\<rparr>"
  have port: "socks5_port req = p" "p \<noteq> 0" using r(2) assms(3) by (simp_all add: socks5_message_def valid_target_def)
  have "request_segment b s' = Some (Await_write Handshake_response (s'\<lparr>sv_request := built t p, sv_pending := Some b'\<rparr>))"
  proof (cases "address_type (atyp_req req) = atyp_domain")
    case True
    then have "t = Domain (socks5_domain_name req)" using r(2) by (simp add: socks5_message_def)
    then show ?thesis using True r port assms(3) built_request(1) [of "socks5_domain_name req" p]
      by (auto simp: request_segment_def valid_target_def)
  next
    case False
    then have t: "t = Address (fst (socks5_endpoint req))" using r(2) by (simp add: socks5_message_def)
    then have "\<not> is_unspecified (fst (socks5_endpoint req))" using assms(3) by (simp add: valid_target_def)
    moreover from this have "socks5_endpoint req = (fst (socks5_endpoint req), p)"
      using False port by (auto simp: socks5_endpoint_def Let_def is_unspecified_def numeral_eq_Suc split: if_splits)
    ultimately show ?thesis using False r port t wf built_request(2) [of "fst (socks5_endpoint req)" p]
      by (auto simp: request_segment_def)
  qed
  then have rd: "on_readable junk Via_socks5 (s\<lparr>sv_rx := sv_rx s @ [Data (socks5_request_enc (cmd, rsv, t, p))]\<rparr>) =
      Some (Await_write Handshake_response (s'\<lparr>sv_request := built t p, sv_pending := Some b'\<rparr>))"
    using b e by (simp add: on_readable_def OnReadHandshakeViaSocks5_def sv_read_def s'_def)
  obtain ty ys where reply: "handshake_reply (s'\<lparr>sv_request := built t p, sv_pending := Some b'\<rparr>) = Some ([socks5_version, socks5_request_granted, 0, ty] @ ys)"
    "ty = atyp_ipv4 \<and> length ys = 6 \<or> ty = atyp_ipv6 \<and> length ys = 18"
    using socks5_handshake_reply [OF _ _ wf, of "s'\<lparr>sv_request := built t p, sv_pending := Some b'\<rparr>" p] assms(2) e(4)
    by (auto simp: s'_def same_config_def)
  show ?thesis using rd reply r(5)
    by (auto simp: server_turn_def reply_of_def on_writable_def WriteHandshakeResponse_def write_reply_def Let_def)
qed

lemma server_socks4:
  assumes "same_config s0 s" "sv_rx s = []" "sv_method s0 = CRYPTO_SOCKS4 \<or> sv_method s0 = CRYPTO_SOCKS4A"
    and wf: "socks4_wf (cmd, p, a, [], name)" and t: "socks4_target (cmd, p, a, [], name) = (t, p)" "valid_target t p"
  shows "\<exists>b s1. server_turn junk (Await_read Via_socks s) (socks4_request_enc (cmd, p, a, [], name)) =
      Some (Stream b s1, [0, socks4_request_granted] @ replicate 6 0) \<and> view b = [] \<and> sv_request s1 = built t p"
proof -
  let ?q = "(cmd, p, a, [], name)"
  have "length name \<le> 255" using wf t by (auto simp: socks4_wf_def valid_target_def split: if_splits)
  then have "length (socks4_request_enc ?q) \<le> 1000" using wf by (simp add: socks4_request_enc_def socks4_wf_def)
  then obtain b where b: "read_segment junk SOCKET_DEBUF_SIZE (socks4_request_enc ?q) = Some b" "growable_inv b"
    "view b = socks4_request_enc ?q @ []" using segment_ok by auto
  obtain i q req b' where r: "socks4_request_parse s4_request_start new_socks4_request (parse_mem b) 0 (parse_end b) = Some (good, i, q, req)"
    "socks4_message req = ?q" "set_offset (offset b + int (socks4_request_length req)) b = Some b'" "growable_inv b'" "view b' = []"
    using socks4_buf.offer [OF b(2,3) wf] by auto
  have f: "socks4_port req = p" "s4_address req = a" "s4_domain_name req = name" "is_socks4a req = names_domain a" "socks4_endpoint req = (AddressV4 a, p)"
    using r(2) by (simp_all add: socks4_message_def is_socks4a_names socks4_endpoint_def socks4_port_def)
  define s' where "s' = s\<lparr>sv_rx := []\<rparr>"
  have "socks4_segment b s' = Some (Await_write Handshake_response (s'\<lparr>sv_request := built t p, sv_pending := Some b'\<rparr>))"
    using r(1,3) f t built_request by (auto simp: socks4_segment_def valid_target_def split: if_splits)
  then have rd: "on_readable junk Via_socks (s\<lparr>sv_rx := sv_rx s @ [Data (socks4_request_enc ?q)]\<rparr>) =
      Some (Await_write Handshake_response (s'\<lparr>sv_request := built t p, sv_pending := Some b'\<rparr>))"
    using b assms(1-3) by (auto simp: on_readable_def OnReadHandshakeViaSocks.simps [of junk] sv_read_def s'_def socks_segment_def same_config_def)
  have reply: "handshake_reply (s'\<lparr>sv_request := built t p, sv_pending := Some b'\<rparr>) = Some ([0, socks4_request_granted] @ replicate 6 0)"
    using assms(1,3) by (auto simp: handshake_reply_def s'_def same_config_def socks4_reply_set_endpoint_def new_socks4_reply_def
        socks4_reply_buffers_def numeral_eq_Suc hi8_def lo8_def)
  show ?thesis using rd reply r(5)
    by (auto simp: server_turn_def reply_of_def on_writable_def WriteHandshakeResponse_def write_reply_def Let_def)
qed

section \<open>The turns of the client\<close>

lemma pump_one:
  assumes "cu_upstream c = b # q" "growable_inv b" "view b \<noteq> []" "q = [] \<or> hd q = GrowableIOBuffer"
  shows "pump c = Some (view b, c\<lparr>cu_upstream := q\<rparr>)"
proof -
  have e: "\<not> iobuf_empty b" "iobuf_empty GrowableIOBuffer" using assms by (simp_all add: iobuf_empty_view)
  have "pump (c\<lparr>cu_upstream := q\<rparr>) = Some ([], c\<lparr>cu_upstream := q\<rparr>)"
    using assms(4) e(2) by (subst pump.simps, cases q) (auto simp: next_upstream_def)
  then show ?thesis using assms(1-3) e(1) by (simp add: pump.simps [of c] next_upstream_def span_view)
qed

lemma client_last_turn:
  assumes "\<not> socks5_method_select_handshake c" "\<not> socks5_auth_handshake c" "socks_handshake c" "length xs \<le> 1000"
    and "\<And>b. growable_inv b \<Longrightarrow> view b = xs \<Longrightarrow> \<exists>b'. ReadUpstreamSocksResponse no_error b c = Some (try_again, b', c\<lparr>socks_handshake := False\<rparr>, []) \<and> view b' = []"
  shows "client_turn junk to_string c xs = Some (try_again, c\<lparr>socks_handshake := False\<rparr>, [])"
proof -
  obtain b where b: "read_segment junk SOCKET_DEBUF_SIZE xs = Some b" "growable_inv b" "view b = xs" using segment_ok [OF assms(4)] by blast
  obtain b' where "ReadUpstreamSocksResponse no_error b c = Some (try_again, b', c\<lparr>socks_handshake := False\<rparr>, [])" using assms(5) [OF b(2,3)] by blast
  then show ?thesis using b(1) assms(1-3) by (simp add: client_turn_def read_replies_def)
qed

text \<open>A client that has sent its greeting, and one that has sent its credentials.\<close>

lemma client_greeting_turn:
  fixes c :: cli_up
  defines "auth \<equiv> cu_auth_required c"
  assumes c: "socks5_method_select_handshake c" "socks5_auth_handshake c = auth" "cu_request c = built t p" "target_wf t"
    "cu_upstream c = GrowableIOBuffer # (if auth then [GrowableIOBuffer] else [])"
    "length (cu_username c) \<le> 255" "length (cu_password c) \<le> 255"
  shows "client_turn junk to_string c (method_select_response_stock_reply (if auth then username_or_password else no_auth_required)) =
    Some (try_again, c\<lparr>socks5_method_select_handshake := False, cu_upstream := (if auth then [GrowableIOBuffer] else []), socks_handshake := (if auth then socks_handshake c else True)\<rparr>,
          if auth then auth_enc (cu_username c, cu_password c) else socks5_request_enc (1, 0, t, p))"
proof -
  let ?c = "c\<lparr>socks5_method_select_handshake := False\<rparr>"
  let ?xs = "method_select_response_stock_reply (if auth then username_or_password else no_auth_required)"
  obtain b where b: "read_segment junk SOCKET_DEBUF_SIZE ?xs = Some b" "growable_inv b" "view b = ?xs"
    using segment_ok [of ?xs junk] by (auto simp: method_select_response_stock_reply_def)
  show ?thesis
  proof (cases auth)
    case True
    then obtain e where e: "WriteUpstreamAuthRequest junk ?c = Some (?c\<lparr>cu_upstream := [e, GrowableIOBuffer]\<rparr>, [WriteUpstreamInPipe])"
      "growable_inv e" "view e = auth_enc (cu_username c, cu_password c)"
      using auth_sent [of ?c "[GrowableIOBuffer]" junk] c by auto
    then obtain b' where "ReadUpstreamMethodSelectResponse junk to_string no_error b c =
        Some (try_again, b', ?c\<lparr>cu_upstream := [e, GrowableIOBuffer]\<rparr>, [WriteUpstreamInPipe])"
      using method_select_reply [OF b(2), of c junk to_string] b(3) c(2) True by (auto simp: auth_def)
    moreover have "pump (?c\<lparr>cu_upstream := [e, GrowableIOBuffer]\<rparr>) = Some (view e, ?c\<lparr>cu_upstream := [GrowableIOBuffer]\<rparr>)"
      using pump_one [of "?c\<lparr>cu_upstream := [e, GrowableIOBuffer]\<rparr>" e "[GrowableIOBuffer]"] e by (simp add: auth_enc_def)
    ultimately show ?thesis using b(1) c(1) e(3) True by (simp add: client_turn_def read_replies_def)
  next
    case False
    then obtain e where e: "WriteUpstreamSocks5Request junk to_string ?c = Some (?c\<lparr>cu_upstream := [e], socks_handshake := True\<rparr>, [WriteUpstreamInPipe])"
      "growable_inv e" "view e = socks5_request_enc (1, 0, t, p)"
      using socks5_request_sent [of ?c "[]" t p _ junk to_string] c by (auto simp: built_def)
    then obtain b' where "ReadUpstreamMethodSelectResponse junk to_string no_error b c =
        Some (try_again, b', ?c\<lparr>cu_upstream := [e], socks_handshake := True\<rparr>, [WriteUpstreamInPipe])"
      using method_select_reply [OF b(2), of c junk to_string] b(3) c(2) False by (auto simp: auth_def)
    moreover have "pump (?c\<lparr>cu_upstream := [e], socks_handshake := True\<rparr>) = Some (view e, ?c\<lparr>cu_upstream := [], socks_handshake := True\<rparr>)"
      using pump_one [of "?c\<lparr>cu_upstream := [e], socks_handshake := True\<rparr>" e "[]"] e by (simp add: socks5_request_enc_def)
    ultimately show ?thesis using b(1) c(1) e(3) False by (simp add: client_turn_def read_replies_def)
  qed
qed

lemma client_auth_turn:
  assumes c: "\<not> socks5_method_select_handshake c" "socks5_auth_handshake c" "cu_request c = built t p" "target_wf t" "cu_upstream c = [GrowableIOBuffer]"
  shows "client_turn junk to_string c (auth_response_stock_reply 0) =
    Some (try_again, c\<lparr>socks5_auth_handshake := False, cu_upstream := [], socks_handshake := True\<rparr>, socks5_request_enc (1, 0, t, p))"
proof -
  let ?c = "c\<lparr>socks5_auth_handshake := False\<rparr>"
  obtain b where b: "read_segment junk SOCKET_DEBUF_SIZE (auth_response_stock_reply 0) = Some b" "growable_inv b" "view b = auth_response_stock_reply 0"
    using segment_ok [of "auth_response_stock_reply 0" junk] by (auto simp: auth_response_stock_reply_def)
  obtain e where e: "WriteUpstreamSocks5Request junk to_string ?c = Some (?c\<lparr>cu_upstream := [e], socks_handshake := True\<rparr>, [WriteUpstreamInPipe])"
    "growable_inv e" "view e = socks5_request_enc (1, 0, t, p)"
    using socks5_request_sent [of ?c "[]" t p _ junk to_string] c by (auto simp: built_def)
  then obtain b' where "ReadUpstreamAuthResponse junk to_string no_error b c = Some (try_again, b', ?c\<lparr>cu_upstream := [e], socks_handshake := True\<rparr>, [WriteUpstreamInPipe])"
    using auth_reply [OF b(2,3), of junk to_string c] by auto
  moreover have "pump (?c\<lparr>cu_upstream := [e], socks_handshake := True\<rparr>) = Some (view e, ?c\<lparr>cu_upstream := [], socks_handshake := True\<rparr>)"
    using pump_one [of "?c\<lparr>cu_upstream := [e], socks_handshake := True\<rparr>" e "[]"] e by (simp add: socks5_request_enc_def)
  ultimately show ?thesis using b(1) c(1,2) e(3) by (simp add: client_turn_def read_replies_def)
qed

section \<open>Sessions\<close>

definition fresh_client :: "cli_up \<Rightarrow> bool" where
  "fresh_client c \<longleftrightarrow> cu_upstream c = [] \<and> \<not> socks5_method_select_handshake c \<and> \<not> socks5_auth_handshake c \<and> \<not> socks_handshake c"

definition matching :: "cli_up \<Rightarrow> srv \<Rightarrow> bool" where
  "matching c s \<longleftrightarrow> sv_method s = cu_method c \<and> sv_username s = cu_username c \<and> sv_password s = cu_password c \<and> sv_rx s = []"

text \<open>What a client can ask of its proxy: SOCKS4 has no names and no IPv6 addresses, and reads 0.0.0.x as the
  mark of a name; SOCKS4A sends every target as a name, which a zero byte ends.\<close>

definition conveyable :: "(ip_address \<Rightarrow> byte list) \<Rightarrow> cipher_method \<Rightarrow> target \<Rightarrow> bool" where
  "conveyable to_string m t \<longleftrightarrow>
     (if m = CRYPTO_SOCKS4 then (case t of Address (AddressV4 a) \<Rightarrow> \<not> names_domain a | _ \<Rightarrow> False)
      else if m = CRYPTO_SOCKS4A then (let n = socks4a_name to_string t in n \<noteq> [] \<and> length n \<le> 255 \<and> 0 \<notin> set n)
      else is_socks5 m)"

definition arriving :: "(ip_address \<Rightarrow> byte list) \<Rightarrow> cipher_method \<Rightarrow> target \<Rightarrow> target" where
  "arriving to_string m t = (if m = CRYPTO_SOCKS4A then Domain (socks4a_name to_string t) else t)"

lemma srv_start_quiet: "sv_rx s = [] \<Longrightarrow> srv_start junk s = Some (Await_read Via_socks (s\<lparr>sv_state := sv_state_handshake\<rparr>))"
  by (simp add: srv_start_def ReadHandshakeViaSocks.simps [of junk] do_peek_def)

lemma one_turn:
  assumes "server_turn junk out xs = Some (out1, reply)" "client_turn junk to_string c reply = Some (ec, c1, [])"
  shows "dialogue (Suc n) junk to_string c out xs = Some (ec, c1, out1)"
  using assms by simp

lemma more_turns:
  assumes "server_turn junk out xs = Some (out1, reply)" "client_turn junk to_string c reply = Some (ec, c1, ys)" "ys \<noteq> []"
  shows "dialogue (Suc n) junk to_string c out xs = dialogue n junk to_string c1 out1 ys"
  using assms by simp

lemma socks4_session:
  assumes "fresh_client c" "matching c s" "cu_method c = CRYPTO_SOCKS4 \<or> cu_method c = CRYPTO_SOCKS4A"
    and wf: "socks4_wf (1, p, a, [], name)" and t: "socks4_target (1, p, a, [], name) = (t, p)" "valid_target t p"
    and sent: "connected_socks junk to_string c = Some (c\<lparr>socks_handshake := True, cu_upstream := [e]\<rparr>, [])"
      "growable_inv e" "view e = socks4_request_enc (1, p, a, [], name)"
  shows "\<exists>b s'. socks_session junk to_string c s = Some (try_again, c, Stream b s') \<and> view b = [] \<and> sv_request s' = built t p"
proof -
  let ?s = "s\<lparr>sv_state := sv_state_handshake\<rparr>" and ?c = "c\<lparr>socks_handshake := True, cu_upstream := []\<rparr>"
  let ?reply = "[0, socks4_request_granted] @ replicate 6 0"
  obtain b s1 where sv: "server_turn junk (Await_read Via_socks ?s) (socks4_request_enc (1, p, a, [], name)) = Some (Stream b s1, ?reply)"
    "view b = []" "sv_request s1 = built t p"
    using server_socks4 [of s ?s 1 p a name t junk] assms(2,3) wf t by (auto simp: matching_def same_config_def)
  have "client_turn junk to_string ?c ?reply = Some (try_again, ?c\<lparr>socks_handshake := False\<rparr>, [])"
    using socks4_reply [of _ "replicate 6 0" ?c] assms(1,3) by (intro client_last_turn) (auto simp: fresh_client_def)
  moreover have "?c\<lparr>socks_handshake := False\<rparr> = c" using assms(1) by (cases c) (simp add: fresh_client_def)
  moreover have "pump (c\<lparr>socks_handshake := True, cu_upstream := [e]\<rparr>) = Some (view e, ?c)"
    using pump_one [of "c\<lparr>socks_handshake := True, cu_upstream := [e]\<rparr>" e "[]"] sent(2,3) by (simp add: socks4_request_enc_def)
  ultimately have "socks_session junk to_string c s = Some (try_again, c, Stream b s1)"
    using srv_start_quiet [of s junk] assms(2) sent one_turn [OF sv(1), of to_string ?c try_again c 2]
    by (simp add: socks_session_def matching_def numeral_3_eq_3)
  then show ?thesis using sv by blast
qed

text \<open>From the request on, with or without the credentials before it.\<close>

lemma request_turn:
  assumes "quiet s0 s" "is_socks5 (sv_method s0)" "valid_target t p" "is_socks5 (cu_method c)"
    "\<not> socks5_method_select_handshake c" "\<not> socks5_auth_handshake c" "socks_handshake c"
  shows "\<exists>b s'. dialogue (Suc n) junk to_string c (Await_read Via_socks5 s) (socks5_request_enc (1, 0, t, p)) =
    Some (try_again, c\<lparr>socks_handshake := False\<rparr>, Stream b s') \<and> view b = [] \<and> sv_request s' = built t p"
proof -
  obtain b s1 ty ys where sv: "server_turn junk (Await_read Via_socks5 s) (socks5_request_enc (1, 0, t, p)) =
      Some (Stream b s1, [socks5_version, socks5_request_granted, 0, ty] @ ys)"
    "ty = atyp_ipv4 \<and> length ys = 6 \<or> ty = atyp_ipv6 \<and> length ys = 18" "view b = []" "sv_request s1 = built t p"
    using server_request [OF assms(1-3), of junk 1 0] by blast
  have "client_turn junk to_string c ([socks5_version, socks5_request_granted, 0, ty] @ ys) = Some (try_again, c\<lparr>socks_handshake := False\<rparr>, [])"
  proof (rule client_last_turn [OF assms(5-7)])
    show "length ([socks5_version, socks5_request_granted, 0, ty] @ ys) \<le> 1000" using sv(2) by auto
  next
    fix b assume "growable_inv b" "view b = [socks5_version, socks5_request_granted, 0, ty] @ ys"
    then show "\<exists>b'. ReadUpstreamSocksResponse no_error b c = Some (try_again, b', c\<lparr>socks_handshake := False\<rparr>, []) \<and> view b' = []"
      using socks5_reply sv(2) assms(4) unfolding is_socks5_def by blast
  qed
  then show ?thesis using one_turn [OF sv(1)] sv(3,4) by blast
qed

lemma socks5_session:
  assumes "fresh_client c" "matching c s" "is_socks5 (cu_method c)" "cu_request c = built t p" "valid_target t p"
    "length (cu_username c) \<le> 255" "length (cu_password c) \<le> 255"
  shows "\<exists>b s'. socks_session junk to_string c s = Some (try_again, c, Stream b s') \<and> view b = [] \<and> sv_request s' = built t p"
proof -
  define auth where "auth = cu_auth_required c"
  let ?m = "if auth then username_or_password else no_auth_required"
  let ?s = "s\<lparr>sv_state := sv_state_handshake\<rparr>"
  let ?c1 = "c\<lparr>socks5_method_select_handshake := True, socks5_auth_handshake := auth,
      cu_upstream := GrowableIOBuffer # (if auth then [GrowableIOBuffer] else [])\<rparr>"
  have wf: "target_wf t" using assms(5) by (simp add: valid_target_def)
  have m5: "is_socks5 (sv_method s)" "sv_auth_required s = auth" "creds s = (cu_username c, cu_password c)"
    using assms(2,3) by (auto simp: matching_def auth_def sv_auth_required_def cu_auth_required_def)
  obtain e where e: "WriteUpstreamMethodSelectRequest junk c = Some (?c1\<lparr>cu_upstream := e # cu_upstream ?c1\<rparr>)" "growable_inv e" "view e = method_select_enc [?m]"
    using method_select_sent [of c junk] assms(1) by (cases c; cases auth) (auto simp: fresh_client_def auth_def)
  have "pump (?c1\<lparr>cu_upstream := e # cu_upstream ?c1\<rparr>) = Some (view e, ?c1)"
    using pump_one [of "?c1\<lparr>cu_upstream := e # cu_upstream ?c1\<rparr>" e "cu_upstream ?c1"] e by (simp add: method_select_enc_def)
  then have open1: "socks_session junk to_string c s = dialogue 3 junk to_string ?c1 (Await_read Via_socks ?s) (method_select_enc [?m])"
    using e srv_start_quiet [of s junk] assms(2,3) by (auto simp: socks_session_def connected_socks_def is_socks5_def matching_def)
  obtain s1 where s1: "server_turn junk (Await_read Via_socks ?s) (method_select_enc [?m]) =
      Some (Await_read (if auth then Username_password else Via_socks5) s1, method_select_response_stock_reply ?m)" "quiet s s1"
    using server_greeting [of s ?s junk] m5 assms(2) by (auto simp: matching_def same_config_def)
  let ?c2 = "c\<lparr>socks5_auth_handshake := auth, cu_upstream := (if auth then [GrowableIOBuffer] else []), socks_handshake := \<not> auth\<rparr>"
  let ?ys = "if auth then auth_enc (cu_username c, cu_password c) else socks5_request_enc (1, 0, t, p)"
  have "client_turn junk to_string ?c1 (method_select_response_stock_reply ?m) = Some (try_again, ?c2, ?ys)"
    using client_greeting_turn [of ?c1 t p junk to_string] assms(1,4,6,7) wf by (auto simp: auth_def cu_auth_required_def fresh_client_def)
  then have turn1: "socks_session junk to_string c s = dialogue 2 junk to_string ?c2 (Await_read (if auth then Username_password else Via_socks5) s1) ?ys"
    using open1 more_turns [OF s1(1), of to_string ?c1 try_again ?c2 ?ys 2]
    by (simp add: auth_enc_def socks5_request_enc_def numeral_3_eq_3 numeral_2_eq_2 del: dialogue.simps)
  have last: "\<exists>b s'. dialogue (Suc n) junk to_string (c\<lparr>socks5_auth_handshake := False, cu_upstream := [], socks_handshake := True\<rparr>)
      (Await_read Via_socks5 s2) (socks5_request_enc (1, 0, t, p)) = Some (try_again, c, Stream b s') \<and> view b = [] \<and> sv_request s' = built t p"
    if "quiet s s2" for s2 n
  proof -
    have "c\<lparr>socks5_auth_handshake := False, cu_upstream := [], socks_handshake := False\<rparr> = c" using assms(1) by (cases c) (simp add: fresh_client_def)
    then show ?thesis using request_turn [OF that m5(1) assms(5), of "c\<lparr>socks5_auth_handshake := False, cu_upstream := [], socks_handshake := True\<rparr>" n junk to_string]
        assms(1,3) by (simp add: fresh_client_def del: dialogue.simps)
  qed
  show ?thesis
  proof (cases auth)
    case True
    obtain s2 where s2: "server_turn junk (Await_read Username_password s1) (auth_enc (creds s)) = Some (Await_read Via_socks5 s2, auth_response_stock_reply 0)" "quiet s s2"
      using server_auth [OF s1(2), of junk] True assms(6,7) m5(2,3) by (auto simp: sv_auth_required_def)
    have "client_turn junk to_string ?c2 (auth_response_stock_reply 0) =
        Some (try_again, c\<lparr>socks5_auth_handshake := False, cu_upstream := [], socks_handshake := True\<rparr>, socks5_request_enc (1, 0, t, p))"
      using client_auth_turn [of ?c2 t p junk to_string] True assms(1,4) wf by (simp add: fresh_client_def)
    then show ?thesis using turn1 last [OF s2(2), of 0] more_turns [OF s2(1)] True m5(3)
      by (simp add: numeral_2_eq_2 socks5_request_enc_def del: dialogue.simps)
  next
    case False
    then show ?thesis using turn1 last [OF s1(2), of 1] by (simp add: numeral_2_eq_2 del: dialogue.simps)
  qed
qed

section \<open>Properties\<close>

text \<open>C19: A client and a server of this program that are configured alike complete the SOCKS handshake in at
  most three turns, for SOCKS4, SOCKS4A and SOCKS5 with and without credentials. The server then holds
  exactly the request of the client (under SOCKS4A the textual form of an address), nothing is left in its
  buffer, and the client waits for no further reply and has nothing queued.\<close>

theorem socks_session_connects:
  assumes "fresh_client c" "matching c s" "cu_request c = built t p" "valid_target t p" "conveyable to_string (cu_method c) t"
    and "length (cu_username c) \<le> 255" "length (cu_password c) \<le> 255"
  shows "\<exists>b s'. socks_session junk to_string c s = Some (try_again, c, Stream b s') \<and> view b = [] \<and>
    sv_request s' = built (arriving to_string (cu_method c) t) p"
proof -
  let ?m = "cu_method c" and ?n = "socks4a_name to_string t"
  have wf: "target_wf t" "p \<noteq> 0" using assms(4) by (simp_all add: valid_target_def)
  consider a where "?m = CRYPTO_SOCKS4" "t = Address (AddressV4 a)" "\<not> names_domain a"
    | "?m = CRYPTO_SOCKS4A" "?n \<noteq> []" "length ?n \<le> 255" "0 \<notin> set ?n" | "is_socks5 ?m"
    using assms(5) by (auto simp: conveyable_def Let_def split: if_splits target.splits ip_address.splits)
  then show ?thesis
  proof cases
    case (1 a)
    then obtain e where e: "WriteUpstreamSocks4Request junk c = Some (c\<lparr>socks_handshake := True, cu_upstream := [e]\<rparr>, [])"
      "growable_inv e" "view e = socks4_request_enc (1, p, a, [], [])"
      using socks4_request_sent [of c a p _ junk] assms(1,3) wf by (auto simp: fresh_client_def built_def)
    have "socks4_wf (1, p, a, [], [])" "socks4_target (1, p, a, [], []) = (t, p)" using 1 wf by (simp_all add: socks4_wf_def)
    from socks4_session [OF assms(1,2) _ this assms(4) _ e(2,3)] show ?thesis
      using 1 e(1) by (auto simp: connected_socks_def arriving_def)
  next
    case 2
    then obtain e where e: "WriteUpstreamSocks4ARequest junk to_string c = Some (c\<lparr>socks_handshake := True, cu_upstream := [e]\<rparr>)"
      "growable_inv e" "view e = socks4_request_enc (1, p, [0, 0, 0, 15], [], ?n)"
      using socks4a_request_sent [of c t p _ to_string junk] assms(1,3) wf by (auto simp: fresh_client_def built_def)
    have "socks4_wf (1, p, [0, 0, 0, 15], [], ?n)" "socks4_target (1, p, [0, 0, 0, 15], [], ?n) = (Domain ?n, p)" "valid_target (Domain ?n) p"
      using 2 wf names_marker by (simp_all add: socks4_wf_def valid_target_def)
    from socks4_session [OF assms(1,2) _ this _ e(2,3)] show ?thesis
      using 2 e(1) by (auto simp: connected_socks_def arriving_def)
  next
    case 3
    then have "?m \<noteq> CRYPTO_SOCKS4A" by (auto simp: is_socks5_def)
    then show ?thesis using socks5_session [OF assms(1,2) 3 assms(3,4,6,7)] by (auto simp: arriving_def)
  qed
qed

theorem socks_session_connects_witness:
  "\<exists>b s'. socks_session (\<lambda>_. 0) (\<lambda>_. [])
      \<lparr>cu_method = CRYPTO_SOCKS5, cu_username = [117], cu_password = [112], cu_request = built (Domain [97]) 80, cu_upstream = [],
       socks5_method_select_handshake = False, socks5_auth_handshake = False, socks_handshake = False\<rparr>
      \<lparr>sv_method = CRYPTO_SOCKS5, sv_username = [117], sv_password = [112], sv_request = new_ss_request, sv_pending = None,
       sv_state = sv_state_handshake, sv_rx = [], sv_out = []\<rparr> =
    Some (try_again,
      \<lparr>cu_method = CRYPTO_SOCKS5, cu_username = [117], cu_password = [112], cu_request = built (Domain [97]) 80, cu_upstream = [],
       socks5_method_select_handshake = False, socks5_auth_handshake = False, socks_handshake = False\<rparr>, Stream b s') \<and>
    sv_request s' = built (Domain [97]) 80"
  using socks_session_connects [where junk = "\<lambda>_. 0" and to_string = "\<lambda>_. []" and t = "Domain [97]" and p = 80 and
      c = "\<lparr>cu_method = CRYPTO_SOCKS5, cu_username = [117], cu_password = [112], cu_request = built (Domain [97]) 80, cu_upstream = [],
       socks5_method_select_handshake = False, socks5_auth_handshake = False, socks_handshake = False\<rparr>" and
      s = "\<lparr>sv_method = CRYPTO_SOCKS5, sv_username = [117], sv_password = [112], sv_request = new_ss_request, sv_pending = None,
       sv_state = sv_state_handshake, sv_rx = [], sv_out = []\<rparr>"]
  by (auto simp: fresh_client_def matching_def valid_target_def conveyable_def is_socks5_def arriving_def)

text \<open>A turn of the server is part of a run.\<close>

lemma server_turn_run:
  assumes "srv_run junk s0 xs out" "server_turn junk out ys = Some (out', reply)"
  shows "srv_run junk s0 (xs @ ys) out'"
proof -
  obtain op s out1 where o: "out = Await_read op s" "on_readable junk op (s\<lparr>sv_rx := sv_rx s @ [Data ys]\<rparr>) = Some out1"
    using assms(2) by (auto simp: server_turn_def split: srv_outcome.splits elim!: bind_SomeE)
  have "srv_step junk out [Data ys] out1"
    unfolding o(1) by (rule srv_step.readable [of no_error]) (simp add: callback_guard_def o(2))
  then have r: "srv_run junk s0 (xs @ ys) out1" using srv_run.step [OF assms(1)] by fastforce
  show ?thesis
  proof (cases "\<exists>wop s1. out1 = Await_write wop s1")
    case True
    then obtain wop s1 where w: "out1 = Await_write wop s1" by blast
    then have w2: "on_writable junk wop (Written (length reply)) s1 = Some out'"
      using assms(2) o by (auto simp: server_turn_def elim!: bind_SomeE)
    have "srv_step junk out1 [] out'"
      unfolding w by (rule srv_step.writable [where ec = no_error and w = "Written (length reply)"]) (simp add: callback_guard_def w2)
    then show ?thesis using srv_run.step [OF r] by fastforce
  next
    case False
    then show ?thesis using r assms(2) o by (auto simp: server_turn_def split: srv_outcome.splits)
  qed
qed

lemma authed_password: "authed c acc \<Longrightarrow> demands_auth c \<Longrightarrow> \<exists>pre. acc = pre @ auth_enc c"
  by (auto elim: authed.cases)

text \<open>C20: A SOCKS5 server with credentials relays only for a peer that presented them. Whatever the peer sends
  and however it is cut into segments, when a connection is handed to the relay the bytes received are
  some bytes, the user name and password configured, a request, and then what is passed on; the upstream
  it connects to is the target of that request, with a port that is not zero.\<close>

theorem socks5_serves_only_authorised:
  assumes "srv_run junk s0 xs (Stream b s)" "is_socks5 (sv_method s0)" "sv_username s0 \<noteq> []" "sv_password s0 \<noteq> []"
  shows "\<exists>pre cmd rsv. xs = pre @ auth_enc (sv_username s0, sv_password s0) @ socks5_request_enc (cmd, rsv, ss_message (sv_request s)) @
      view b @ rx_bytes (sv_rx s) \<and> snd (ss_message (sv_request s)) \<noteq> 0"
proof -
  have "stage s0 xs (asked (sv_method s0) (creds s0) (sv_request s)) s (view b)" using srv_run_inv [OF assms(1)] by simp
  then obtain pre cmd rsv where "authed (creds s0) pre" "snd (ss_message (sv_request s)) \<noteq> 0"
    "xs = pre @ socks5_request_enc (cmd, rsv, ss_message (sv_request s)) @ view b @ rx_bytes (sv_rx s)"
    using assms(2) by (auto simp: stage_def asked_def)
  moreover obtain pre' where "pre = pre' @ auth_enc (creds s0)"
    using authed_password [OF \<open>authed (creds s0) pre\<close>] assms(3,4) by (auto simp: demands_auth_def)
  ultimately show ?thesis by (intro exI [of _ pre'] exI [of _ cmd] exI [of _ rsv]) simp
qed

theorem socks5_serves_only_authorised_witness:
  "\<exists>xs b s. srv_run (\<lambda>_. 0) \<lparr>sv_method = CRYPTO_SOCKS5, sv_username = [117], sv_password = [112], sv_request = new_ss_request,
      sv_pending = None, sv_state = sv_state_handshake, sv_rx = [], sv_out = []\<rparr> xs (Stream b s) \<and>
    (\<exists>pre cmd rsv. xs = pre @ auth_enc ([117], [112]) @ socks5_request_enc (cmd, rsv, ss_message (sv_request s)) @ view b @ rx_bytes (sv_rx s))"
proof -
  define s0 where "s0 = \<lparr>sv_method = CRYPTO_SOCKS5, sv_username = [117], sv_password = [112], sv_request = new_ss_request,
      sv_pending = None, sv_state = sv_state_handshake, sv_rx = [], sv_out = []\<rparr>"
  have s0: "is_socks5 (sv_method s0)" "sv_username s0 = [117]" "sv_password s0 = [112]" "sv_rx s0 = []" "sv_auth_required s0" "same_config s0 s0"
    by (simp_all add: s0_def is_socks5_def sv_auth_required_def same_config_def)
  have "srv_run (\<lambda>_. 0) s0 [] (Await_read Via_socks s0)"
    using srv_run.start [of "\<lambda>_. 0" s0 "Await_read Via_socks s0"] srv_start_quiet [of s0 "\<lambda>_. 0"] by (simp add: s0_def)
  moreover obtain s1 where s1: "server_turn (\<lambda>_. 0) (Await_read Via_socks s0) (method_select_enc [username_or_password]) =
      Some (Await_read Username_password s1, method_select_response_stock_reply username_or_password)" "quiet s0 s1"
    using server_greeting [of s0 s0 "\<lambda>_. 0"] s0 by auto
  moreover obtain s2 where s2: "server_turn (\<lambda>_. 0) (Await_read Username_password s1) (auth_enc (creds s0)) =
      Some (Await_read Via_socks5 s2, auth_response_stock_reply 0)" "quiet s0 s2"
    using server_auth [OF s1(2), of "\<lambda>_. 0"] s0 by auto
  moreover obtain b s3 reply where s3: "server_turn (\<lambda>_. 0) (Await_read Via_socks5 s2) (socks5_request_enc (1, 0, Domain [97], 80)) = Some (Stream b s3, reply)"
    using server_request [OF s2(2) s0(1), of "Domain [97]" 80 "\<lambda>_. 0" 1 0] by (auto simp: valid_target_def)
  ultimately obtain xs where r: "srv_run (\<lambda>_. 0) s0 xs (Stream b s3)" using server_turn_run by blast
  have "\<exists>pre cmd rsv. xs = pre @ auth_enc ([117], [112]) @ socks5_request_enc (cmd, rsv, ss_message (sv_request s3)) @ view b @ rx_bytes (sv_rx s3)"
    using socks5_serves_only_authorised [OF r] s0 by auto
  with r show ?thesis unfolding s0_def by blast
qed

text \<open>C21: Two handshake states do not survive a read that would block. A server waiting for the credentials
  follows a null pointer, because the buffer was moved out of the connection before the read; one waiting for
  the request goes back to waiting for a greeting, so that the request that follows is taken for one.\<close>

theorem blocked_read_breaks_handshake:
  assumes "sv_pending s = Some b" "iobuf_empty b" "sv_rx s = []"
  shows "on_readable junk Username_password s = None \<and>
    on_readable junk Via_socks5 s = Some (Await_read Via_socks (s\<lparr>sv_pending := None\<rparr>))"
  using assms
  by (simp add: on_readable_def OnReadSocks5UsernamePasswordAuth.simps [of junk s] ReadSocks5UsernamePasswordAuth.simps [of junk]
      OnReadHandshakeViaSocks5_def ReadHandshakeViaSocks.simps [of junk] sv_read_def do_peek_def)

theorem blocked_read_breaks_handshake_witness:
  "on_readable (\<lambda>_. 0) Username_password \<lparr>sv_method = CRYPTO_SOCKS5, sv_username = [117], sv_password = [112], sv_request = new_ss_request,
      sv_pending = Some GrowableIOBuffer, sv_state = sv_state_handshake, sv_rx = [], sv_out = []\<rparr> = None"
  using blocked_read_breaks_handshake [of "\<lparr>sv_method = CRYPTO_SOCKS5, sv_username = [117], sv_password = [112], sv_request = new_ss_request,
      sv_pending = Some GrowableIOBuffer, sv_state = sv_state_handshake, sv_rx = [], sv_out = []\<rparr>" GrowableIOBuffer "\<lambda>_. 0"]
  by (simp add: iobuf_empty_def GrowableIOBuffer_def)

end
