(* ===== verification/Stream_Connect.thy ===== *)
theory Stream_Connect
  imports Net_Io
begin

text \<open>
  The connection to an upstream, \<^verbatim>\<open>net/stream.hpp\<close>: connecting to the first endpoint that can be reached, and the waits
  for the socket with the limit on the rate of transfers. Operations that the stream starts are effects; their
  completions are events. The socket, the resolver and the clock are arguments (\<open>stream_env\<close>), as are the functions of
  \<^verbatim>\<open>absl\<close> and \<^verbatim>\<open>asio\<close> on strings, addresses and times.
\<close>

section \<open>State\<close>

record stream =
  st_host_ips :: "byte list"
  st_host_sni :: "byte list"
  st_port :: u16
  st_endpoint :: endpoint
  st_endpoints :: "endpoint list"
  st_connected :: bool
  st_eof :: bool
  st_closed :: bool
  st_connect_callback :: bool
  st_socket_open :: bool
  st_resolving :: bool
  st_connecting :: bool
  st_timers :: nat

record stream_env =
  se_split :: "byte list \<Rightarrow> byte list list"
  se_make_address :: "byte list \<Rightarrow> ip_address option"
  se_is_multicast :: "ip_address \<Rightarrow> bool"
  se_resolver_init :: error_code
  se_open :: "endpoint \<Rightarrow> error_code"
  se_connect_timeout :: nat

datatype stream_effect = Connect_callback error_code | Resolve "byte list" u16 | Close_socket | Start_timer nat
  | Async_connect endpoint | Cancel_timer | Cancel_all

type_synonym stream_result = "(stream \<times> stream_effect list) option"

definition new_stream :: "byte list \<Rightarrow> byte list \<Rightarrow> u16 \<Rightarrow> stream" where
  "new_stream host_ips host_sni port =
     \<lparr>st_host_ips = host_ips, st_host_sni = host_sni, st_port = port, st_endpoint = (AddressV4 [0, 0, 0, 0], 0), st_endpoints = [],
      st_connected = False, st_eof = False, st_closed = False, st_connect_callback = False, st_socket_open = False,
      st_resolving = False, st_connecting = False, st_timers = 0\<rparr>"

section \<open>Connecting\<close>

text \<open>The callback is moved out before it is called.\<close>

definition on_async_connect_callback :: "error_code \<Rightarrow> stream \<Rightarrow> stream \<times> stream_effect list" where
  "on_async_connect_callback ec s =
     (if st_connect_callback s then (s\<lparr>st_connect_callback := False\<rparr>, [Connect_callback ec]) else (s, []))"

text \<open>Giving up: the stream counts as closed from here on.\<close>

definition give_up :: "error_code \<Rightarrow> stream \<Rightarrow> stream_result" where
  "give_up ec s = Some (on_async_connect_callback ec (s\<lparr>st_closed := True\<rparr>))"

text \<open>An endpoint that can be connected to is handed to the socket, with a timer when there is a timeout.\<close>

definition start_connect :: "stream_env \<Rightarrow> stream \<Rightarrow> stream \<times> stream_effect list" where
  "start_connect env s =
     (s\<lparr>st_connecting := True, st_timers := (if se_connect_timeout env \<noteq> 0 then Suc (st_timers s) else st_timers s)\<rparr>,
      (if se_connect_timeout env \<noteq> 0 then [Start_timer (se_connect_timeout env)] else []) @ [Async_connect (st_endpoint s)])"

definition with_effects :: "stream_effect list \<Rightarrow> stream_result \<Rightarrow> stream_result" where
  "with_effects es x = map_option (\<lambda>(s, es1). (s, es @ es1)) x"

text \<open>\<^const>\<open>None\<close>: the front of an empty deque.\<close>

function on_try_next_endpoint :: "stream_env \<Rightarrow> stream \<Rightarrow> stream_result"
  and on_resolve :: "stream_env \<Rightarrow> stream \<Rightarrow> stream_result" where
  "on_try_next_endpoint env s =
     (case st_endpoints s of [] \<Rightarrow> None | ep # eps \<Rightarrow> on_resolve env (s\<lparr>st_endpoint := ep, st_endpoints := eps\<rparr>))"
| "on_resolve env s =
     (if is_unspecified (fst (st_endpoint s)) \<or> se_is_multicast env (fst (st_endpoint s)) then
        (if st_endpoints s \<noteq> [] then on_try_next_endpoint env s else give_up network_unreachable s)
      else let es = (if st_socket_open s then [Close_socket] else []); ec = se_open env (st_endpoint s) in
        if ec \<noteq> no_error then
          with_effects es (if st_endpoints s \<noteq> [] then on_try_next_endpoint env (s\<lparr>st_socket_open := False\<rparr>)
                           else give_up ec (s\<lparr>st_socket_open := False\<rparr>))
        else with_effects es (Some (start_connect env (s\<lparr>st_socket_open := True\<rparr>))))"
  by pat_completeness auto
termination
  by (relation "measure (\<lambda>x. case x of Inl (_, s) \<Rightarrow> 2 * length (st_endpoints s) | Inr (_, s) \<Rightarrow> Suc (2 * length (st_endpoints s)))") auto

declare on_try_next_endpoint.simps [simp del] on_resolve.simps [simp del]

definition on_async_connected :: "stream_env \<Rightarrow> error_code \<Rightarrow> stream \<Rightarrow> stream_result" where
  "on_async_connected env ec s =
     with_effects [Cancel_timer]
       (if ec \<noteq> no_error then
          (if st_endpoints s \<noteq> [] then on_try_next_endpoint env s else Some (on_async_connect_callback ec s))
        else Some (on_async_connect_callback no_error (s\<lparr>st_connected := True\<rparr>)))"

text \<open>The addresses of a list of textual addresses; those that are not addresses are left out.\<close>

definition pre_resolved :: "stream_env \<Rightarrow> byte list \<Rightarrow> u16 \<Rightarrow> endpoint list" where
  "pre_resolved env ips port = map (\<lambda>a. (a, port)) (List.map_filter (se_make_address env) (se_split env ips))"

definition async_connect :: "stream_env \<Rightarrow> stream \<Rightarrow> stream_result" where
  "async_connect env s =
     (let s = s\<lparr>st_connect_callback := True\<rparr> in
      if st_port s = 0 then give_up network_unreachable s
      else if st_host_ips s \<noteq> [] then
        (let s1 = s\<lparr>st_endpoints := st_endpoints s @ pre_resolved env (st_host_ips s) (st_port s)\<rparr> in
         if st_endpoints s1 = [] then give_up host_not_found s1 else on_try_next_endpoint env s1)
      else case se_make_address env (takeWhile (\<lambda>b. b \<noteq> 0) (st_host_sni s)) of
        Some addr \<Rightarrow> on_try_next_endpoint env (s\<lparr>st_endpoints := st_endpoints s @ [(addr, st_port s)]\<rparr>)
      | None \<Rightarrow>
          if se_resolver_init env \<noteq> no_error then give_up (se_resolver_init env) s
          else Some (s\<lparr>st_resolving := True\<rparr>, [Resolve (st_host_sni s) (st_port s)]))"

text \<open>The completions: of the resolver, of the socket and of the timer.\<close>

definition on_stream_resolved :: "stream_env \<Rightarrow> error_code \<Rightarrow> endpoint list \<Rightarrow> stream \<Rightarrow> stream_result" where
  "on_stream_resolved env ec results s =
     (let s = s\<lparr>st_resolving := False\<rparr> in
      if ec = operation_aborted \<or> st_closed s then Some (s, [])
      else if ec \<noteq> no_error then on_async_connected env ec s
      else on_try_next_endpoint env (s\<lparr>st_endpoints := st_endpoints s @ results\<rparr>))"

definition on_connect_done :: "stream_env \<Rightarrow> error_code \<Rightarrow> stream \<Rightarrow> stream_result" where
  "on_connect_done env ec s =
     (let s = s\<lparr>st_connecting := False\<rparr> in
      if ec = bad_descriptor \<or> ec = operation_aborted \<or> st_closed s then Some (s, []) else on_async_connected env ec s)"

definition on_async_connect_expired :: "error_code \<Rightarrow> stream \<Rightarrow> stream_result" where
  "on_async_connect_expired ec s =
     (if st_connected s then Some (s, [])
      else Some (on_async_connect_callback (if ec = no_error then timed_out else ec) (s\<lparr>st_eof := True\<rparr>)))"

definition on_timer :: "error_code \<Rightarrow> stream \<Rightarrow> stream_result" where
  "on_timer ec s =
     (let s = s\<lparr>st_timers := st_timers s - 1\<rparr> in if ec = operation_aborted then Some (s, []) else on_async_connect_expired ec s)"

definition stream_close :: "stream \<Rightarrow> stream_result" where
  "stream_close s =
     (if st_closed s then Some (s, [])
      else Some (s\<lparr>st_closed := True, st_connected := False, st_eof := True, st_connect_callback := False, st_socket_open := False\<rparr>,
                 [Close_socket, Cancel_all]))"

section \<open>One attempt\<close>

definition usable :: "stream_env \<Rightarrow> endpoint \<Rightarrow> bool" where
  "usable env ep \<longleftrightarrow> \<not> is_unspecified (fst ep) \<and> \<not> se_is_multicast env (fst ep) \<and> se_open env ep = no_error"

definition tries :: "stream_effect list \<Rightarrow> endpoint list" where
  "tries es = concat (map (\<lambda>e. case e of Async_connect ep \<Rightarrow> [ep] | _ \<Rightarrow> []) es)"

definition callbacks :: "stream_effect list \<Rightarrow> error_code list" where
  "callbacks es = concat (map (\<lambda>e. case e of Connect_callback ec \<Rightarrow> [ec] | _ \<Rightarrow> []) es)"

lemma trace_simps [simp]:
  "tries [] = []" "tries (es @ es') = tries es @ tries es'" "callbacks [] = []" "callbacks (es @ es') = callbacks es @ callbacks es'"
  "tries (e # es) = (case e of Async_connect ep \<Rightarrow> [ep] | _ \<Rightarrow> []) @ tries es"
  "callbacks (e # es) = (case e of Connect_callback ec \<Rightarrow> [ec] | _ \<Rightarrow> []) @ callbacks es"
  by (simp_all add: tries_def callbacks_def)

text \<open>What trying the endpoints \<open>eps\<close> leads to: the first usable one is being connected to, or there is none and the
  failure has been reported.\<close>

definition attempted :: "stream_env \<Rightarrow> endpoint list \<Rightarrow> stream \<Rightarrow> stream \<Rightarrow> stream_effect list \<Rightarrow> bool" where
  "attempted env eps s s' es \<longleftrightarrow>
     st_connected s' = st_connected s \<and> st_resolving s' = st_resolving s \<and> tries es @ filter (usable env) (st_endpoints s') = filter (usable env) eps \<and>
     (if filter (usable env) eps \<noteq> [] then tries es = [st_endpoint s'] \<and> callbacks es = [] \<and> st_connecting s' \<and>
        st_connect_callback s' = st_connect_callback s \<and> st_closed s' = st_closed s
      else st_endpoints s' = [] \<and> \<not> st_connect_callback s' \<and> st_closed s' \<and> st_connecting s' = st_connecting s \<and> st_timers s' = st_timers s \<and>
        (\<exists>ec. ec \<noteq> no_error \<and> callbacks es = (if st_connect_callback s then [ec] else [])))"

lemma attempted_effects:
  "attempted env eps s s' es \<Longrightarrow> callbacks es0 = [] \<Longrightarrow> tries es0 = [] \<Longrightarrow> attempted env eps s s' (es0 @ es)"
  by (simp add: attempted_def)

lemma attempted_skip:
  "\<not> usable env ep \<Longrightarrow> attempted env (ep # eps) s = attempted env eps s"
  by (intro ext) (simp only: attempted_def filter.simps if_False)

lemma attempted_fields [simp]:
  "attempted env eps (s\<lparr>st_endpoint := ep\<rparr>) = attempted env eps s"
  "attempted env eps (s\<lparr>st_endpoints := eps'\<rparr>) = attempted env eps s"
  "attempted env eps (s\<lparr>st_socket_open := b\<rparr>) = attempted env eps s"
  by (simp_all add: attempted_def fun_eq_iff)

lemma give_up_attempted:
  assumes "filter (usable env) eps = []" "st_endpoints s = []" "ec \<noteq> no_error"
  shows "\<exists>s' es. give_up ec s = Some (s', es) \<and> attempted env eps s s' es"
  using assms by (auto simp: give_up_def on_async_connect_callback_def attempted_def)

lemma start_connect_attempted:
  "usable env (st_endpoint s) \<Longrightarrow> start_connect env s = (s', es) \<Longrightarrow> attempted env (st_endpoint s # st_endpoints s) s s' es"
  by (auto simp: start_connect_def attempted_def)

lemma try_attempts:
  "st_endpoints s \<noteq> [] \<Longrightarrow> \<exists>s' es. on_try_next_endpoint env s = Some (s', es) \<and> attempted env (st_endpoints s) s s' es"
  "\<exists>s' es. on_resolve env s = Some (s', es) \<and> attempted env (st_endpoint s # st_endpoints s) s s' es"
proof (induction env s and env s rule: on_try_next_endpoint_on_resolve.induct)
  case (1 env s)
  then obtain ep eps where e: "st_endpoints s = ep # eps" by (cases "st_endpoints s") auto
  from 1(1) [OF e] obtain s' es where "on_resolve env (s\<lparr>st_endpoint := ep, st_endpoints := eps\<rparr>) = Some (s', es)"
      "attempted env (ep # eps) (s\<lparr>st_endpoint := ep, st_endpoints := eps\<rparr>) s' es" by auto
  then show ?case using e by (simp add: on_try_next_endpoint.simps)
next
  case (2 env s)
  let ?es = "if st_socket_open s then [Close_socket] else []"
  let ?s = "s\<lparr>st_socket_open := False\<rparr>"
  consider "is_unspecified (fst (st_endpoint s)) \<or> se_is_multicast env (fst (st_endpoint s))"
    | "\<not> (is_unspecified (fst (st_endpoint s)) \<or> se_is_multicast env (fst (st_endpoint s)))" "se_open env (st_endpoint s) \<noteq> no_error"
    | "usable env (st_endpoint s)" by (auto simp: usable_def)
  then show ?case
  proof cases
    case 1
    then have u: "\<not> usable env (st_endpoint s)" by (auto simp: usable_def)
    show ?thesis using 1 2(1) [OF 1] give_up_attempted [of env "[]" s network_unreachable]
      by (cases "st_endpoints s = []") (simp_all add: on_resolve.simps [of env s] attempted_skip [OF u])
  next
    case a: 2
    then have u: "\<not> usable env (st_endpoint s)" by (auto simp: usable_def)
    have "\<exists>s' es. (if st_endpoints s \<noteq> [] then on_try_next_endpoint env ?s else give_up (se_open env (st_endpoint s)) ?s) = Some (s', es)
        \<and> attempted env (st_endpoints s) ?s s' es"
      using 2(2) [OF a(1) refl refl a(2)] give_up_attempted [of env "[]" ?s "se_open env (st_endpoint s)"] a(2)
      by (cases "st_endpoints s = []") simp_all
    then obtain s' es where r: "(if st_endpoints s \<noteq> [] then on_try_next_endpoint env ?s else give_up (se_open env (st_endpoint s)) ?s) = Some (s', es)"
        "attempted env (st_endpoints s) ?s s' es" by blast
    with attempted_effects [of env "st_endpoints s" s s' es ?es] show ?thesis
      using a by (simp add: on_resolve.simps [of env s] attempted_skip [OF u] with_effects_def)
  next
    case 3
    obtain s' es where c: "start_connect env (s\<lparr>st_socket_open := True\<rparr>) = (s', es)" by fastforce
    have "attempted env (st_endpoint s # st_endpoints s) (s\<lparr>st_socket_open := True\<rparr>) s' es"
      using start_connect_attempted [OF _ c] 3 by simp
    then have "attempted env (st_endpoint s # st_endpoints s) s s' (?es @ es)" by (intro attempted_effects) simp_all
    then show ?thesis using 3 c by (simp add: on_resolve.simps [of env s] with_effects_def usable_def)
  qed
qed

section \<open>Runs\<close>

datatype stream_event = Resolved error_code "endpoint list" | Connect_done error_code | Expired error_code | Close_stream

fun stream_step :: "stream_env \<Rightarrow> stream_event \<Rightarrow> stream \<Rightarrow> stream_result" where
  "stream_step env (Resolved ec rs) s = on_stream_resolved env ec rs s"
| "stream_step env (Connect_done ec) s = on_connect_done env ec s"
| "stream_step env (Expired ec) s = on_timer ec s"
| "stream_step env Close_stream s = stream_close s"

text \<open>The completions that can happen. A resolver that succeeds delivers an endpoint; operations are cancelled only by
  closing the stream. A timer that was cancelled may still report that it expired.\<close>

fun stream_enabled :: "stream_event \<Rightarrow> stream \<Rightarrow> bool" where
  "stream_enabled (Resolved ec rs) s \<longleftrightarrow> st_resolving s \<and> (ec = no_error \<longrightarrow> rs \<noteq> []) \<and> (ec = operation_aborted \<longrightarrow> st_closed s)"
| "stream_enabled (Connect_done ec) s \<longleftrightarrow> st_connecting s \<and> (ec = bad_descriptor \<or> ec = operation_aborted \<longrightarrow> st_closed s)"
| "stream_enabled (Expired ec) s \<longleftrightarrow> 0 < st_timers s"
| "stream_enabled Close_stream s \<longleftrightarrow> True"

inductive stream_run :: "stream_env \<Rightarrow> stream \<Rightarrow> stream_event list \<Rightarrow> stream_effect list \<Rightarrow> stream \<Rightarrow> bool" for env s0 where
  stream_start: "stream_run env s0 [] [] s0"
| stream_event: "stream_run env s0 evs es s \<Longrightarrow> stream_enabled ev s \<Longrightarrow> stream_step env ev s = Some (s', es')
    \<Longrightarrow> stream_run env s0 (evs @ [ev]) (es @ es') s'"

fun new_candidates :: "stream_event \<Rightarrow> endpoint list" where
  "new_candidates (Resolved no_error rs) = rs"
| "new_candidates _ = []"

definition expired :: "stream_event list \<Rightarrow> bool" where
  "expired evs \<longleftrightarrow> (\<exists>ec. Expired ec \<in> set evs)"

text \<open>The three phases, for the candidates \<open>all\<close>, the events \<open>evs\<close> and the effects \<open>es\<close> so far.\<close>

definition resolving_phase :: "endpoint list \<Rightarrow> stream \<Rightarrow> stream_effect list \<Rightarrow> bool" where
  "resolving_phase all s es \<longleftrightarrow> st_resolving s \<and> \<not> st_connecting s \<and> \<not> st_connected s \<and> st_timers s = 0 \<and> st_endpoints s = [] \<and>
     st_connect_callback s = (\<not> st_closed s) \<and> tries es = [] \<and> callbacks es = [] \<and> all = []"

definition trying_phase :: "stream_env \<Rightarrow> endpoint list \<Rightarrow> stream_event list \<Rightarrow> stream \<Rightarrow> stream_effect list \<Rightarrow> bool" where
  "trying_phase env all evs s es \<longleftrightarrow> \<not> st_resolving s \<and> st_connecting s \<and> \<not> st_connected s \<and> tries es \<noteq> [] \<and> st_endpoint s = last (tries es) \<and>
     filter (usable env) all = tries es @ filter (usable env) (st_endpoints s) \<and>
     (if st_connect_callback s then \<not> st_closed s \<and> callbacks es = []
      else if callbacks es = [] then st_closed s else expired evs \<and> (\<exists>ec. ec \<noteq> no_error \<and> callbacks es = [ec]))"

definition final_phase :: "stream_env \<Rightarrow> endpoint list \<Rightarrow> stream_event list \<Rightarrow> stream \<Rightarrow> stream_effect list \<Rightarrow> bool" where
  "final_phase env all evs s es \<longleftrightarrow> \<not> st_resolving s \<and> \<not> st_connecting s \<and> \<not> st_connect_callback s \<and>
     (\<exists>untried. filter (usable env) all = tries es @ untried \<and>
       (if callbacks es = [] then st_closed s
        else (\<exists>ec. callbacks es = [ec] \<and> (if ec = no_error then tries es \<noteq> [] \<and> st_endpoint s = last (tries es) else expired evs \<or> untried = []))))"

definition stream_inv :: "stream_env \<Rightarrow> endpoint list \<Rightarrow> stream_event list \<Rightarrow> stream \<Rightarrow> stream_effect list \<Rightarrow> bool" where
  "stream_inv env all evs s es \<longleftrightarrow> resolving_phase all s es \<or> trying_phase env all evs s es \<or> final_phase env all evs s es"

text \<open>The step that tries the endpoints that are left, with \<open>es\<close> as effects so far.\<close>

lemma attempted_inv:
  assumes "attempted env (st_endpoints s) s s' es'" "\<not> st_resolving s" "\<not> st_connecting s" "\<not> st_connected s"
    and "filter (usable env) all = tries es @ filter (usable env) (st_endpoints s)"
    and "if st_connect_callback s then \<not> st_closed s \<and> callbacks es = [] else expired evs \<and> (\<exists>ec. ec \<noteq> no_error \<and> callbacks es = [ec])"
  shows "stream_inv env all evs s' (es @ es')"
proof (cases "filter (usable env) (st_endpoints s) = []")
  case True
  then have "final_phase env all evs s' (es @ es')" using assms by (auto simp: attempted_def final_phase_def split: if_splits)
  then show ?thesis by (simp add: stream_inv_def)
next
  case False
  then have "tries es' = [st_endpoint s'] \<and> filter (usable env) all = (tries es @ tries es') @ filter (usable env) (st_endpoints s')"
    using assms(1,5) by (auto simp: attempted_def)
  then have "trying_phase env all evs s' (es @ es')" using False assms(1-4,6) by (auto simp: attempted_def trying_phase_def split: if_splits)
  then show ?thesis by (simp add: stream_inv_def)
qed

lemma connected_inv:
  assumes "\<not> st_resolving s" "\<not> st_connecting s" "\<not> st_connected s"
    and "filter (usable env) all = tries es @ filter (usable env) (st_endpoints s)"
    and "if st_connect_callback s then \<not> st_closed s \<and> callbacks es = [] else expired evs \<and> (\<exists>ec. ec \<noteq> no_error \<and> callbacks es = [ec])"
    and "ec = no_error \<longrightarrow> tries es \<noteq> [] \<and> st_endpoint s = last (tries es)"
  shows "\<exists>s' es'. on_async_connected env ec s = Some (s', es') \<and> stream_inv env all evs s' (es @ es')"
proof (cases "ec \<noteq> no_error \<and> st_endpoints s \<noteq> []")
  case True
  then obtain s' es' where t: "on_try_next_endpoint env s = Some (s', es')" "attempted env (st_endpoints s) s s' es'"
    using try_attempts(1) by blast
  from t(2) have "attempted env (st_endpoints s) s s' ([Cancel_timer] @ es')" by (intro attempted_effects) simp_all
  from attempted_inv [OF this assms(1-5)] show ?thesis using True t(1) by (simp add: on_async_connected_def with_effects_def)
next
  case False
  let ?s = "if ec = no_error then s\<lparr>st_connected := True\<rparr> else s"
  obtain s' es' where c: "on_async_connect_callback ec ?s = (s', es')" by fastforce
  have "final_phase env all evs s' (es @ Cancel_timer # es')"
    using c False assms by (auto simp: on_async_connect_callback_def final_phase_def split: if_splits)
  then show ?thesis using c False by (auto simp: on_async_connected_def with_effects_def stream_inv_def split: if_splits)
qed

lemma more_events:
  "trying_phase env all evs s es \<Longrightarrow> trying_phase env all (evs @ evs') s es"
  "final_phase env all evs s es \<Longrightarrow> final_phase env all (evs @ evs') s es"
  by (auto simp: trying_phase_def final_phase_def expired_def split: if_splits)

lemma quiet_phase:
  assumes "tries es' = []" "callbacks es' = []"
  shows "resolving_phase all s (es @ es') = resolving_phase all s es" "trying_phase env all evs s (es @ es') = trying_phase env all evs s es"
    "final_phase env all evs s (es @ es') = final_phase env all evs s es"
  using assms by (simp_all add: resolving_phase_def trying_phase_def final_phase_def)

lemma final_phase_kept:
  assumes "final_phase env all evs s es" "st_resolving s' = st_resolving s" "st_connecting s' = st_connecting s" "st_endpoint s' = st_endpoint s"
    "st_closed s \<longrightarrow> st_closed s'" "\<not> st_connect_callback s'"
  shows "final_phase env all evs s' es"
proof -
  from assms(1) obtain untried where "filter (usable env) all = tries es @ untried"
      "if callbacks es = [] then st_closed s
       else (\<exists>ec. callbacks es = [ec] \<and> (if ec = no_error then tries es \<noteq> [] \<and> st_endpoint s = last (tries es) else expired evs \<or> untried = []))"
    unfolding final_phase_def by blast
  then show ?thesis using assms unfolding final_phase_def by (intro conjI exI [of _ untried]) (auto split: if_splits)
qed

lemma expired_inv:
  assumes "stream_inv env all evs s es" "0 < st_timers s"
  shows "\<exists>s' es'. on_timer ec s = Some (s', es') \<and> stream_inv env all (evs @ [Expired ec]) s' (es @ es')"
proof -
  have e: "expired (evs @ [Expired ec])" by (auto simp: expired_def)
  obtain s' es' where t: "on_timer ec s = Some (s', es')" by (fastforce simp: on_timer_def on_async_connect_expired_def Let_def)
  then have same: "st_resolving s' = st_resolving s" "st_connecting s' = st_connecting s" "st_connected s' = st_connected s"
      "st_endpoint s' = st_endpoint s" "st_endpoints s' = st_endpoints s" "st_closed s' = st_closed s" "tries es' = []"
    and cb: "st_connect_callback s \<Longrightarrow> callbacks es' = [] \<and> st_connect_callback s' \<or> (\<exists>ec. ec \<noteq> no_error \<and> callbacks es' = [ec]) \<and> \<not> st_connect_callback s'"
      "\<not> st_connect_callback s \<Longrightarrow> callbacks es' = [] \<and> \<not> st_connect_callback s'"
    by (auto simp: on_timer_def on_async_connect_expired_def on_async_connect_callback_def Let_def split: if_splits)
  consider "trying_phase env all evs s es" | "final_phase env all evs s es"
    using assms by (auto simp: stream_inv_def resolving_phase_def)
  then have "trying_phase env all (evs @ [Expired ec]) s' (es @ es') \<or> final_phase env all (evs @ [Expired ec]) s' (es @ es')"
  proof cases
    case 1
    then show ?thesis using same cb e by (cases "st_connect_callback s") (auto simp: trying_phase_def split: if_splits)
  next
    case 2
    then have c: "\<not> st_connect_callback s" by (simp add: final_phase_def)
    have "final_phase env all (evs @ [Expired ec]) s' es"
      using final_phase_kept [OF more_events(2) [OF 2, of "[Expired ec]"]] same cb(2) [OF c] by simp
    then show ?thesis using quiet_phase(3) same(7) cb(2) [OF c] by simp
  qed
  then show ?thesis using t by (auto simp: stream_inv_def)
qed

lemma close_inv:
  assumes "stream_inv env all evs s es"
  shows "\<exists>s' es'. stream_close s = Some (s', es') \<and> stream_inv env all (evs @ [Close_stream]) s' (es @ es')"
proof -
  obtain s' es' where c: "stream_close s = Some (s', es')" by (cases "st_closed s") (simp_all add: stream_close_def)
  then have t: "stream_close s = Some (s', es')" "tries es' = []" "callbacks es' = []" by (auto simp: stream_close_def split: if_splits)
  then have same: "st_resolving s' = st_resolving s" "st_connecting s' = st_connecting s" "st_timers s' = st_timers s"
      "st_endpoint s' = st_endpoint s" "st_endpoints s' = st_endpoints s" "st_closed s'" "st_connected s' \<longrightarrow> st_connected s"
      "st_connect_callback s' \<longrightarrow> st_closed s \<and> st_connect_callback s"
    by (auto simp: stream_close_def split: if_splits)
  have "resolving_phase all s' es \<or> trying_phase env all evs s' es \<or> final_phase env all evs s' es"
    using assms unfolding stream_inv_def
  proof (elim disjE)
    assume "resolving_phase all s es"
    then show ?thesis using same by (auto simp: resolving_phase_def)
  next
    assume "trying_phase env all evs s es"
    then have "trying_phase env all evs s' es" using same by (auto simp: trying_phase_def split: if_splits)
    then show ?thesis by blast
  next
    assume "final_phase env all evs s es"
    with final_phase_kept [OF this same(1,2,4)] show ?thesis using same by (simp add: final_phase_def)
  qed
  then have "stream_inv env all (evs @ [Close_stream]) s' es" using more_events by (auto simp: stream_inv_def)
  then have "stream_inv env all (evs @ [Close_stream]) s' (es @ es')"
    by (simp only: stream_inv_def quiet_phase [OF t(2,3)])
  then show ?thesis using t(1) by blast
qed

lemma stream_step_inv:
  assumes "stream_inv env all evs s es" "stream_enabled ev s"
  shows "\<exists>s' es'. stream_step env ev s = Some (s', es') \<and> stream_inv env (all @ new_candidates ev) (evs @ [ev]) s' (es @ es')"
proof (cases ev)
  case (Resolved ec rs)
  with assms have r: "resolving_phase all s es" "ec = no_error \<longrightarrow> rs \<noteq> []" "ec = operation_aborted \<longrightarrow> st_closed s"
    by (auto simp: stream_inv_def trying_phase_def final_phase_def)
  consider "st_closed s" | "\<not> st_closed s" "ec \<noteq> no_error" | "\<not> st_closed s" "ec = no_error" by blast
  then show ?thesis
  proof cases
    case 1
    then have "final_phase env (all @ new_candidates ev) (evs @ [ev]) (s\<lparr>st_resolving := False\<rparr>) (es @ [])"
      using r(1) by (auto simp: resolving_phase_def final_phase_def)
    then show ?thesis using 1 Resolved by (simp add: on_stream_resolved_def stream_inv_def)
  next
    case 2
    moreover have "new_candidates ev = []" using 2 Resolved by (cases ec) auto
    moreover have "ec \<noteq> operation_aborted" using 2 r(3) by blast
    ultimately show ?thesis using Resolved r(1)
        connected_inv [of "s\<lparr>st_resolving := False\<rparr>" env all es "evs @ [ev]" ec] by (simp add: on_stream_resolved_def resolving_phase_def)
  next
    case 3
    let ?s = "s\<lparr>st_resolving := False, st_endpoints := st_endpoints s @ rs\<rparr>"
    obtain s' es' where t: "on_try_next_endpoint env ?s = Some (s', es')" "attempted env (st_endpoints ?s) ?s s' es'"
      using try_attempts(1) [of ?s env] 3 r(2) by auto
    have "stream_inv env (all @ rs) (evs @ [ev]) s' (es @ es')"
      by (rule attempted_inv [OF t(2)]) (use r(1) 3 in \<open>simp_all add: resolving_phase_def\<close>)
    then show ?thesis using 3 Resolved t(1) by (simp add: on_stream_resolved_def)
  qed
next
  case (Connect_done ec)
  with assms have r: "trying_phase env all evs s es" "ec = bad_descriptor \<or> ec = operation_aborted \<longrightarrow> st_closed s"
    by (auto simp: stream_inv_def resolving_phase_def final_phase_def)
  let ?s = "s\<lparr>st_connecting := False\<rparr>"
  have c: "if st_connect_callback ?s then \<not> st_closed ?s \<and> callbacks es = []
      else expired (evs @ [ev]) \<and> (\<exists>ec. ec \<noteq> no_error \<and> callbacks es = [ec])" if "\<not> st_closed s"
    using more_events(1) [OF r(1), of "[ev]"] that by (auto simp: trying_phase_def split: if_splits)
  show ?thesis
  proof (cases "st_closed s")
    case True
    then have "final_phase env (all @ new_candidates ev) (evs @ [ev]) ?s (es @ [])"
      using more_events(1) [OF r(1), of "[ev]"] Connect_done by (auto simp: trying_phase_def final_phase_def split: if_splits)
    then show ?thesis using True Connect_done by (simp add: on_connect_done_def stream_inv_def)
  next
    case False
    have "\<exists>s' es'. on_async_connected env ec ?s = Some (s', es') \<and> stream_inv env all (evs @ [ev]) s' (es @ es')"
      by (rule connected_inv [OF _ _ _ _ c [OF False]]) (use r(1) in \<open>simp_all add: trying_phase_def\<close>)
    then show ?thesis using False r(2) Connect_done by (auto simp: on_connect_done_def)
  qed
next
  case (Expired ec)
  then show ?thesis using assms expired_inv by simp
next
  case Close_stream
  then show ?thesis using close_inv [OF assms(1)] by simp
qed

section \<open>The whole connection\<close>

definition stream_candidates :: "stream_env \<Rightarrow> byte list \<Rightarrow> byte list \<Rightarrow> u16 \<Rightarrow> endpoint list" where
  "stream_candidates env ips sni port =
     (if port = 0 then [] else if ips \<noteq> [] then pre_resolved env ips port
      else case se_make_address env (takeWhile (\<lambda>b. b \<noteq> 0) sni) of Some a \<Rightarrow> [(a, port)] | None \<Rightarrow> [])"

lemma give_up_inv:
  assumes "st_connect_callback s" "\<not> st_resolving s" "\<not> st_connecting s" "ec \<noteq> no_error"
  shows "\<exists>s' es. give_up ec s = Some (s', es) \<and> stream_inv env [] [] s' es"
  using assms by (auto simp: give_up_def on_async_connect_callback_def stream_inv_def final_phase_def)

lemma try_inv:
  assumes "st_endpoints s \<noteq> []" "st_connect_callback s" "\<not> st_closed s" "\<not> st_resolving s" "\<not> st_connecting s" "\<not> st_connected s"
  shows "\<exists>s' es. on_try_next_endpoint env s = Some (s', es) \<and> stream_inv env (st_endpoints s) [] s' es"
  using try_attempts(1) [OF assms(1), of env] attempted_inv [OF _ assms(4-6), of env _ _ "st_endpoints s" "[]" "[]"] assms(2,3) by force

lemma async_connect_inv:
  "\<exists>s es. async_connect env (new_stream ips sni port) = Some (s, es) \<and> stream_inv env (stream_candidates env ips sni port) [] s es"
proof -
  let ?s = "(new_stream ips sni port)\<lparr>st_connect_callback := True\<rparr>"
  have s: "st_connect_callback ?s" "\<not> st_closed ?s" "\<not> st_resolving ?s" "\<not> st_connecting ?s" "\<not> st_connected ?s" "st_endpoints ?s = []"
      "st_port ?s = port" "st_host_ips ?s = ips" "st_host_sni ?s = sni" "st_timers ?s = 0"
    by (simp_all add: new_stream_def)
  consider "port = 0" | "port \<noteq> 0" "ips \<noteq> []" | a where "port \<noteq> 0" "ips = []" "se_make_address env (takeWhile (\<lambda>b. b \<noteq> 0) sni) = Some a"
    | "port \<noteq> 0" "ips = []" "se_make_address env (takeWhile (\<lambda>b. b \<noteq> 0) sni) = None" by fastforce
  then show ?thesis
  proof cases
    case 1
    then show ?thesis using give_up_inv [of ?s network_unreachable env] s by (simp add: async_connect_def stream_candidates_def new_stream_def)
  next
    case 2
    let ?s1 = "?s\<lparr>st_endpoints := pre_resolved env ips port\<rparr>"
    show ?thesis using 2 s give_up_inv [of ?s1 host_not_found env] try_inv [of ?s1 env]
      by (cases "pre_resolved env ips port = []") (simp_all add: async_connect_def stream_candidates_def new_stream_def Let_def)
  next
    case (3 a)
    then show ?thesis using s try_inv [of "?s\<lparr>st_endpoints := [(a, port)]\<rparr>" env]
      by (simp add: async_connect_def stream_candidates_def new_stream_def Let_def)
  next
    case 4
    then show ?thesis using s give_up_inv [of ?s "se_resolver_init env" env]
      by (cases "se_resolver_init env = no_error")
        (simp_all add: async_connect_def stream_candidates_def new_stream_def Let_def stream_inv_def resolving_phase_def)
  qed
qed

lemma stream_run_inv:
  assumes "stream_run env s0 evs es s" "stream_inv env all [] s0 es0"
  shows "stream_inv env (all @ concat (map new_candidates evs)) evs s (es0 @ es)"
  using assms
proof (induction rule: stream_run.induct)
  case stream_start
  then show ?case by simp
next
  case (stream_event evs es s ev s' es')
  then show ?case using stream_step_inv [of env "all @ concat (map new_candidates evs)" evs s "es0 @ es" ev] by auto
qed

lemma stream_inv_summary:
  assumes "stream_inv env all evs s es"
  shows "length (callbacks es) \<le> 1" "\<exists>untried. tries es @ untried = filter (usable env) all"
    and "callbacks es = [no_error] \<Longrightarrow> tries es \<noteq> [] \<and> st_endpoint s = last (tries es)"
    and "callbacks es = [ec] \<Longrightarrow> ec \<noteq> no_error \<Longrightarrow> \<not> expired evs \<Longrightarrow> tries es = filter (usable env) all"
    and "callbacks es = [] \<Longrightarrow> \<not> st_closed s \<Longrightarrow> st_resolving s \<or> st_connecting s"
  using assms unfolding stream_inv_def resolving_phase_def trying_phase_def final_phase_def
  by (elim disjE; force split: if_splits)+

text \<open>C36: Connecting tries the endpoints in order, reports at most once, and goes on until it has reported. Whatever the resolver, the sockets and the
  timers do, and in whatever order they complete: no completion faults; the endpoints connected to are, in order, the
  first of the usable ones among those configured or resolved; the caller is called back at most once; as long as it
  has not been called and the stream is not closed, an operation is outstanding; success is reported for the endpoint
  that was tried last; and failure, unless a timer expired, only after every usable endpoint was tried.\<close>

theorem connect_tries_endpoints:
  "\<exists>s0 es0. async_connect env (new_stream ips sni port) = Some (s0, es0) \<and>
    (\<forall>evs es s. stream_run env s0 evs es s \<longrightarrow>
      (let all = filter (usable env) (stream_candidates env ips sni port @ concat (map new_candidates evs));
           tried = tries (es0 @ es); made = callbacks (es0 @ es) in
       (\<forall>ev. stream_enabled ev s \<longrightarrow> stream_step env ev s \<noteq> None) \<and>
       (\<exists>untried. tried @ untried = all) \<and> length made \<le> 1 \<and>
       (made = [] \<and> \<not> st_closed s \<longrightarrow> st_resolving s \<or> st_connecting s) \<and>
       (made = [no_error] \<longrightarrow> tried \<noteq> [] \<and> st_endpoint s = last tried) \<and>
       (\<forall>ec. made = [ec] \<and> ec \<noteq> no_error \<and> \<not> expired evs \<longrightarrow> tried = all)))"
proof -
  obtain s0 es0 where start: "async_connect env (new_stream ips sni port) = Some (s0, es0)"
      "stream_inv env (stream_candidates env ips sni port) [] s0 es0" using async_connect_inv by blast
  show ?thesis
  proof (intro exI [of _ s0] exI [of _ es0] conjI start(1) allI impI)
    fix evs es s
    assume "stream_run env s0 evs es s"
    note inv = stream_run_inv [OF this start(2)]
    show "let all = filter (usable env) (stream_candidates env ips sni port @ concat (map new_candidates evs));
           tried = tries (es0 @ es); made = callbacks (es0 @ es) in
       (\<forall>ev. stream_enabled ev s \<longrightarrow> stream_step env ev s \<noteq> None) \<and>
       (\<exists>untried. tried @ untried = all) \<and> length made \<le> 1 \<and>
       (made = [] \<and> \<not> st_closed s \<longrightarrow> st_resolving s \<or> st_connecting s) \<and>
       (made = [no_error] \<longrightarrow> tried \<noteq> [] \<and> st_endpoint s = last tried) \<and>
       (\<forall>ec. made = [ec] \<and> ec \<noteq> no_error \<and> \<not> expired evs \<longrightarrow> tried = all)"
      unfolding Let_def using stream_inv_summary [OF inv] stream_step_inv [OF inv] by blast
  qed
qed

definition sample_stream_env :: stream_env where
  "sample_stream_env = \<lparr>se_split = (\<lambda>ips. [ips]), se_make_address = (\<lambda>_. None), se_is_multicast = (\<lambda>_. False), se_resolver_init = no_error,
     se_open = (\<lambda>_. no_error), se_connect_timeout = 0\<rparr>"

abbreviation sample_refused :: endpoint where "sample_refused \<equiv> (AddressV4 [10, 0, 0, 1], 80)"

abbreviation sample_accepting :: endpoint where "sample_accepting \<equiv> (AddressV4 [10, 0, 0, 2], 80)"

lemma sample_stream_run:
  assumes "async_connect sample_stream_env (new_stream [] [97] 80) = Some (s0, es0)"
  shows "\<exists>es s. stream_run sample_stream_env s0 [Resolved no_error [sample_refused, sample_accepting], Connect_done connection_refused, Connect_done no_error] es s \<and>
    callbacks (es0 @ es) = [no_error] \<and> tries (es0 @ es) = [sample_refused, sample_accepting]"
proof -
  have s0: "st_resolving s0" "\<not> st_closed s0" "st_endpoints s0 = []" "st_connect_callback s0" "callbacks es0 = []" "tries es0 = []"
      "st_socket_open s0 = False" "st_timers s0 = 0" "st_connecting s0 = False" "st_connected s0 = False"
    using assms by (auto simp: async_connect_def new_stream_def sample_stream_env_def Let_def)
  let ?s1 = "s0\<lparr>st_resolving := False, st_endpoint := sample_refused, st_endpoints := [sample_accepting], st_socket_open := True, st_connecting := True\<rparr>"
  let ?s2 = "s0\<lparr>st_resolving := False, st_endpoint := sample_accepting, st_endpoints := [], st_socket_open := True, st_connecting := True\<rparr>"
  let ?s3 = "s0\<lparr>st_resolving := False, st_endpoint := sample_accepting, st_endpoints := [], st_socket_open := True, st_connecting := False,
    st_connected := True, st_connect_callback := False\<rparr>"
  note defs = sample_stream_env_def on_stream_resolved_def on_connect_done_def on_async_connected_def on_try_next_endpoint.simps on_resolve.simps
    with_effects_def start_connect_def is_unspecified_def eval_nat_numeral on_async_connect_callback_def
  have 1: "stream_step sample_stream_env (Resolved no_error [sample_refused, sample_accepting]) s0 = Some (?s1, [Async_connect sample_refused])"
    using s0 by (simp add: defs)
  have 2: "stream_step sample_stream_env (Connect_done connection_refused) ?s1 = Some (?s2, [Cancel_timer, Close_socket, Async_connect sample_accepting])"
    using s0 by (simp add: defs)
  have 3: "stream_step sample_stream_env (Connect_done no_error) ?s2 = Some (?s3, [Cancel_timer, Connect_callback no_error])"
    using s0 by (simp add: defs)
  have r1: "stream_run sample_stream_env s0 [Resolved no_error [sample_refused, sample_accepting]] [Async_connect sample_refused] ?s1"
    using stream_event [OF stream_start _ 1] s0 by simp
  have r2: "stream_run sample_stream_env s0 [Resolved no_error [sample_refused, sample_accepting], Connect_done connection_refused]
      [Async_connect sample_refused, Cancel_timer, Close_socket, Async_connect sample_accepting] ?s2"
    using stream_event [OF r1 _ 2] s0 by simp
  show ?thesis using stream_event [OF r2 _ 3] s0 by (intro exI conjI) (simp, simp_all add: tries_def callbacks_def)
qed

theorem connect_tries_endpoints_witness:
  "\<exists>s0 es0 evs es s. async_connect sample_stream_env (new_stream [] [97] 80) = Some (s0, es0) \<and> stream_run sample_stream_env s0 evs es s \<and>
     callbacks (es0 @ es) = [no_error] \<and> tries (es0 @ es) = [sample_refused, sample_accepting] \<and> st_endpoint s = sample_accepting"
proof -
  obtain s0 es0 where c: "async_connect sample_stream_env (new_stream [] [97] 80) = Some (s0, es0)"
    and all: "\<And>evs es s. stream_run sample_stream_env s0 evs es s \<Longrightarrow> callbacks (es0 @ es) = [no_error] \<Longrightarrow> st_endpoint s = last (tries (es0 @ es))"
    using connect_tries_endpoints [of sample_stream_env "[]" "[97]" 80] unfolding Let_def by blast
  obtain es s where r: "stream_run sample_stream_env s0 [Resolved no_error [sample_refused, sample_accepting], Connect_done connection_refused, Connect_done no_error] es s"
      "callbacks (es0 @ es) = [no_error]" "tries (es0 @ es) = [sample_refused, sample_accepting]" using sample_stream_run [OF c] by blast
  then show ?thesis using c all [OF r(1,2)] by (metis last.simps list.distinct(1))
qed

end
