(* ===== verification/Stream_Wait.thy ===== *)
theory Stream_Wait
  imports Net_Io "HOL-Library.Signed_Division"
begin

text \<open>
  Waiting for the socket of an upstream, with the limit on the rate of transfers (\<^verbatim>\<open>net/stream.hpp\<close>). The clock is an
  argument: \<open>ms now start\<close> is \<^verbatim>\<open>absl::ToInt64Milliseconds(now - start)\<close>. Every reading of the clock is an argument of
  its own, and \<open>dchecks\<close> tells whether the build has assertions enabled (\<^verbatim>\<open>DCHECK\<close>; only official release builds have not).
  A signed overflow and a failed assertion are \<^const>\<open>None\<close>.
\<close>

section \<open>The limit\<close>

definition MIN_RATE_LIMIT_PERIOD :: int where
  "MIN_RATE_LIMIT_PERIOD = 3000"

definition INT64_MAX :: int where
  "INT64_MAX = 2 ^ 63 - 1"

definition int64 :: "int \<Rightarrow> int option" where
  "int64 x = (if - INT64_MAX - 1 \<le> x \<and> x \<le> INT64_MAX then Some x else None)"

type_synonym clock = "int \<Rightarrow> int \<Rightarrow> int"

definition pgrsLimitWaitTime :: "clock \<Rightarrow> int \<Rightarrow> int \<Rightarrow> int \<Rightarrow> int \<Rightarrow> int \<Rightarrow> int option" where
  "pgrsLimitWaitTime ms cursize startsize limit start now =
     do { size \<leftarrow> int64 (cursize - startsize);
          if limit = 0 \<or> size = 0 then Some 0
          else do {
            minimum \<leftarrow> (if size < INT64_MAX div 1000 then do { x \<leftarrow> int64 (1000 * size); int64 (x sdiv limit) }
                       else do { m \<leftarrow> int64 (size sdiv limit); if m < INT64_MAX div 1000 then int64 (m * 1000) else Some INT64_MAX });
            let actual = ms now start;
            if actual < minimum then int64 (minimum - actual) else Some 0 } }"

section \<open>Waiting\<close>

record waits =
  wt_connected :: bool
  wt_closed :: bool
  wt_read_inprogress :: bool
  wt_write_inprogress :: bool
  wt_read_callback :: bool
  wt_write_callback :: bool
  wt_rbytes :: int
  wt_wbytes :: int
  wt_dl_rate :: int
  wt_dl_start :: int
  wt_dl_size :: int
  wt_dl_state :: bool
  wt_ul_rate :: int
  wt_ul_start :: int
  wt_ul_size :: int
  wt_ul_state :: bool

datatype wait_effect = Delay_read int | Yield_read | Wait_readable | Delay_write int | Wait_writable
  | Read_callback error_code | Write_callback error_code

definition ratelimit :: "clock \<Rightarrow> int \<Rightarrow> waits \<Rightarrow> waits" where
  "ratelimit ms now s =
     (let s = (if wt_dl_rate s \<noteq> 0 \<and> MIN_RATE_LIMIT_PERIOD \<le> ms now (wt_dl_start s)
               then s\<lparr>wt_dl_start := now, wt_dl_size := wt_rbytes s\<rparr> else s)
      in if wt_ul_rate s \<noteq> 0 \<and> MIN_RATE_LIMIT_PERIOD \<le> ms now (wt_ul_start s)
         then s\<lparr>wt_ul_start := now, wt_ul_size := wt_wbytes s\<rparr> else s)"

text \<open>\<open>now\<close> is the time of the test, \<open>now'\<close> that of the time stamps taken after it.\<close>

definition wait_read :: "bool \<Rightarrow> clock \<Rightarrow> int \<Rightarrow> int \<Rightarrow> bool \<Rightarrow> bool \<Rightarrow> waits \<Rightarrow> (waits \<times> wait_effect list) option" where
  "wait_read dchecks ms now now' callback yield s =
     (if dchecks \<and> (wt_read_inprogress s \<or> \<not> callback) then None
      else if \<not> wt_connected s \<or> wt_closed s then Some (s, [])
      else do {
        let s = s\<lparr>wt_read_inprogress := True, wt_read_callback := callback\<rparr>;
        recv_timeout_ms \<leftarrow> if wt_dl_rate s \<noteq> 0 then pgrsLimitWaitTime ms (wt_rbytes s) (wt_dl_size s) (wt_dl_rate s) (wt_dl_start s) now
                          else Some 0;
        if recv_timeout_ms \<noteq> 0 then
          (let s = (if \<not> wt_ul_state s \<and> \<not> wt_dl_state s then ratelimit ms now' s else s)
           in Some (s\<lparr>wt_dl_state := True\<rparr>, [Delay_read recv_timeout_ms]))
        else
          (let s = (if wt_dl_state s \<and> \<not> wt_ul_state s then ratelimit ms now' s else s);
               s = s\<lparr>wt_dl_state := False\<rparr>
           in Some (s, [if yield then Yield_read else Wait_readable])) })"

text \<open>The completions of the two timers and of the socket.\<close>

definition on_read_delayed :: "bool \<Rightarrow> clock \<Rightarrow> int \<Rightarrow> int \<Rightarrow> error_code \<Rightarrow> waits \<Rightarrow> (waits \<times> wait_effect list) option" where
  "on_read_delayed dchecks ms now now' ec s =
     (if ec = operation_aborted then Some (s, [])
      else wait_read dchecks ms now now' (wt_read_callback s) False (s\<lparr>wt_read_callback := False, wt_read_inprogress := False\<rparr>))"

definition on_read_yielded :: "bool \<Rightarrow> clock \<Rightarrow> int \<Rightarrow> int \<Rightarrow> error_code \<Rightarrow> waits \<Rightarrow> (waits \<times> wait_effect list) option" where
  "on_read_yielded dchecks ms now now' ec s =
     (if ec = operation_aborted then Some (s, [])
      else let callback = wt_read_callback s; s = s\<lparr>wt_read_callback := False, wt_read_inprogress := False\<rparr> in
        if \<not> wt_connected s \<or> wt_closed s then Some (s, []) else wait_read dchecks ms now now' callback False s)"

definition on_stream_readable :: "error_code \<Rightarrow> waits \<Rightarrow> waits \<times> wait_effect list" where
  "on_stream_readable ec s =
     (if ec = bad_descriptor \<or> ec = operation_aborted then (s, [])
      else let callback = wt_read_callback s; s = s\<lparr>wt_read_callback := False, wt_read_inprogress := False\<rparr> in
        if \<not> wt_connected s \<or> wt_closed s \<or> \<not> callback then (s, []) else (s, [Read_callback ec]))"

definition wait_write_limited :: "bool \<Rightarrow> clock \<Rightarrow> int \<Rightarrow> int \<Rightarrow> bool \<Rightarrow> waits \<Rightarrow> (waits \<times> wait_effect list) option" where
  "wait_write_limited dchecks ms now now' callback s =
     (if dchecks \<and> (wt_write_inprogress s \<or> \<not> callback) then None
      else if \<not> wt_connected s \<or> wt_closed s then Some (s, [])
      else do {
        send_timeout_ms \<leftarrow> if wt_ul_rate s \<noteq> 0 then pgrsLimitWaitTime ms (wt_wbytes s) (wt_ul_size s) (wt_ul_rate s) (wt_ul_start s) now
                          else Some 0;
        if send_timeout_ms \<noteq> 0 then
          (let s = (if \<not> wt_ul_state s \<and> \<not> wt_dl_state s then ratelimit ms now' s else s);
               s = s\<lparr>wt_ul_state := True, wt_write_callback := callback\<rparr>
           in if dchecks \<and> wt_write_callback s then None else Some (s, [Delay_write send_timeout_ms]))
        else
          (let s = s\<lparr>wt_write_inprogress := True, wt_write_callback := callback\<rparr>;
               s = (if wt_ul_state s \<and> \<not> wt_dl_state s then ratelimit ms now' s else s)
           in Some (s\<lparr>wt_ul_state := False\<rparr>, [Wait_writable])) })"

definition on_write_delayed :: "bool \<Rightarrow> clock \<Rightarrow> int \<Rightarrow> int \<Rightarrow> error_code \<Rightarrow> waits \<Rightarrow> (waits \<times> wait_effect list) option" where
  "on_write_delayed dchecks ms now now' ec s =
     (if ec = operation_aborted then Some (s, [])
      else wait_write_limited dchecks ms now now' (wt_write_callback s) (s\<lparr>wt_write_callback := False\<rparr>))"

definition on_stream_writable :: "error_code \<Rightarrow> waits \<Rightarrow> waits \<times> wait_effect list" where
  "on_stream_writable ec s =
     (if ec = bad_descriptor \<or> ec = operation_aborted then (s, [])
      else let callback = wt_write_callback s; s = s\<lparr>wt_write_callback := False, wt_write_inprogress := False\<rparr> in
        if \<not> wt_connected s \<or> wt_closed s \<or> \<not> callback then (s, []) else (s, [Write_callback ec]))"

section \<open>The time to wait\<close>

lemma int64_nonneg: "0 \<le> x \<Longrightarrow> x \<le> INT64_MAX \<Longrightarrow> int64 x = Some x"
  by (simp add: int64_def INT64_MAX_def)

lemma sdiv_nonneg: "0 \<le> x \<Longrightarrow> 0 < y \<Longrightarrow> x sdiv y = x div (y::int)"
  by (cases "x = 0") (simp_all add: signed_divide_int_def)

lemma div_le_max: "0 \<le> x \<Longrightarrow> x \<le> INT64_MAX \<Longrightarrow> 0 < y \<Longrightarrow> 0 \<le> x div y \<and> x div y \<le> (INT64_MAX::int)"
  using zdiv_mono2 [of x 1 y] by (simp add: pos_imp_zdiv_nonneg_iff)

definition minimum_ms :: "int \<Rightarrow> int \<Rightarrow> int" where
  "minimum_ms n limit =
     (if n < INT64_MAX div 1000 then 1000 * n div limit
      else if n div limit < INT64_MAX div 1000 then n div limit * 1000 else INT64_MAX)"

lemma minimum_ms_range: "0 \<le> n \<Longrightarrow> n \<le> INT64_MAX \<Longrightarrow> 0 < limit \<Longrightarrow> 0 \<le> minimum_ms n limit \<and> minimum_ms n limit \<le> INT64_MAX"
  using div_le_max [of "1000 * n" limit] div_le_max [of n limit] by (auto simp: minimum_ms_def INT64_MAX_def)

lemma pgrsLimitWaitTime_minimum:
  assumes "0 < limit" "0 \<le> startsize" "startsize \<le> cursize" "cursize \<le> INT64_MAX" "0 \<le> ms now start" "ms now start \<le> INT64_MAX"
  shows "pgrsLimitWaitTime ms cursize startsize limit start now = Some (max 0 (minimum_ms (cursize - startsize) limit - ms now start))"
proof -
  define n where "n = cursize - startsize"
  have sz: "0 \<le> n" "n \<le> INT64_MAX" using assms by (auto simp: n_def)
  have d: "0 \<le> n div limit" "n div limit \<le> INT64_MAX" "n < INT64_MAX div 1000 \<Longrightarrow> 0 \<le> 1000 * n div limit \<and> 1000 * n div limit \<le> INT64_MAX"
    using div_le_max [OF sz assms(1)] div_le_max [of "1000 * n" limit] sz assms(1) by (auto simp: INT64_MAX_def)
  have m: "(if n < INT64_MAX div 1000 then do { x \<leftarrow> int64 (1000 * n); int64 (x sdiv limit) }
       else do { m \<leftarrow> int64 (n sdiv limit); if m < INT64_MAX div 1000 then int64 (m * 1000) else Some INT64_MAX }) = Some (minimum_ms n limit)"
  proof (cases "n < INT64_MAX div 1000")
    case True
    moreover from True have "1000 * n \<le> INT64_MAX" by (simp add: INT64_MAX_def)
    ultimately show ?thesis using d(3) sz(1) assms(1) by (simp add: minimum_ms_def int64_nonneg sdiv_nonneg)
  next
    case False
    have "n div limit < INT64_MAX div 1000 \<Longrightarrow> n div limit * 1000 \<le> INT64_MAX" by (simp add: INT64_MAX_def)
    then show ?thesis using False d(1,2) sz(1) assms(1) by (auto simp: minimum_ms_def int64_nonneg sdiv_nonneg)
  qed
  have z: "minimum_ms 0 limit = 0" by (simp add: minimum_ms_def INT64_MAX_def)
  have w: "(let actual = ms now start in if actual < minimum_ms n limit then int64 (minimum_ms n limit - actual) else Some 0) =
      Some (max 0 (minimum_ms n limit - ms now start))"
    using minimum_ms_range [OF sz assms(1)] assms(5) by (simp add: Let_def int64_def max_def INT64_MAX_def)
  show ?thesis
  proof (cases "n = 0")
    case True
    then show ?thesis using z assms(5) unfolding pgrsLimitWaitTime_def n_def [symmetric] by (simp add: int64_def INT64_MAX_def)
  next
    case False
    then show ?thesis using assms(1) unfolding pgrsLimitWaitTime_def n_def [symmetric] int64_nonneg [OF sz] Option.bind.simps m w by simp
  qed
qed

lemma minimum_ms_bounds:
  assumes "0 \<le> n" "0 < limit" "n div limit < INT64_MAX div 1000"
  shows "1000 * n < limit * (minimum_ms n limit + (if n < INT64_MAX div 1000 then 1 else 1000))" "limit * minimum_ms n limit \<le> 1000 * n"
proof -
  have a: "limit * (1000 * n div limit) \<le> 1000 * n" "1000 * n < limit * (1000 * n div limit) + limit"
    and b: "limit * (n div limit) \<le> n" "n < limit * (n div limit) + limit"
    using assms(2) pos_mod_bound [of limit "1000 * n"] pos_mod_sign [of limit "1000 * n"] mult_div_mod_eq [of limit "1000 * n"]
      pos_mod_bound [of limit n] pos_mod_sign [of limit n] mult_div_mod_eq [of limit n] by linarith+
  show "1000 * n < limit * (minimum_ms n limit + (if n < INT64_MAX div 1000 then 1 else 1000))"
    using a b assms(3) by (simp add: minimum_ms_def algebra_simps)
  show "limit * minimum_ms n limit \<le> 1000 * n"
    using a b assms(3) by (simp add: minimum_ms_def algebra_simps)
qed

text \<open>C37: The time the rate limit asks to wait is right. For a positive limit and sizes and times in range nothing
  overflows; after waiting, the transfer has taken long enough for the limit, up to the rounding of one millisecond (one
  second for transfers of more than 9 PB); and it is never made to wait longer than the limit requires.\<close>

theorem rate_limit_wait_time:
  assumes "0 < limit" "0 \<le> startsize" "startsize \<le> cursize" "cursize \<le> INT64_MAX" "0 \<le> ms now start" "ms now start \<le> INT64_MAX"
  shows "\<exists>w. pgrsLimitWaitTime ms cursize startsize limit start now = Some w \<and> 0 \<le> w \<and> w \<le> INT64_MAX \<and>
    (let n = cursize - startsize; taken = ms now start + w in
     n div limit < INT64_MAX div 1000 \<longrightarrow>
       1000 * n < limit * (taken + (if n < INT64_MAX div 1000 then 1 else 1000)) \<and> (0 < w \<longrightarrow> limit * taken \<le> 1000 * n))"
proof -
  let ?n = "cursize - startsize"
  define m where "m = minimum_ms ?n limit"
  define a where "a = ms now start"
  have r: "0 \<le> m" "m \<le> INT64_MAX" "0 \<le> a" using minimum_ms_range [of ?n limit] assms by (auto simp: m_def a_def)
  have b: "1000 * ?n < limit * (a + max 0 (m - a) + (if ?n < INT64_MAX div 1000 then 1 else 1000))"
      "0 < max 0 (m - a) \<Longrightarrow> limit * (a + max 0 (m - a)) \<le> 1000 * ?n" if "?n div limit < INT64_MAX div 1000"
  proof -
    note mb = minimum_ms_bounds [of ?n limit, OF _ assms(1) that, folded m_def]
    have "limit * (m + (if ?n < INT64_MAX div 1000 then 1 else 1000)) \<le> limit * (a + max 0 (m - a) + (if ?n < INT64_MAX div 1000 then 1 else 1000))"
      using assms(1) by (intro mult_left_mono) auto
    with mb(1) show "1000 * ?n < limit * (a + max 0 (m - a) + (if ?n < INT64_MAX div 1000 then 1 else 1000))" using assms(3) by linarith
    show "limit * (a + max 0 (m - a)) \<le> 1000 * ?n" if "0 < max 0 (m - a)" using that mb(2) assms(3) by (simp add: max_def split: if_splits)
  qed
  have "pgrsLimitWaitTime ms cursize startsize limit start now = Some (max 0 (m - a))"
    using pgrsLimitWaitTime_minimum [OF assms(1-4), of ms now start] assms(5,6) by (simp add: m_def a_def)
  then show ?thesis using r b by (intro exI [of _ "max 0 (m - a)"]) (simp add: Let_def a_def)
qed

theorem rate_limit_wait_time_witness:
  "\<exists>w. pgrsLimitWaitTime (\<lambda>now start. now - start) 5000 0 1000 0 2000 = Some w \<and> 0 < w \<and> 1000 * (2000 + w) \<le> 1000 * 5000 \<and> 1000 * 5000 < 1000 * (2000 + w + 1)"
proof -
  have "pgrsLimitWaitTime (\<lambda>now start. now - start) 5000 0 1000 0 2000 = Some 3000"
    by (simp add: pgrsLimitWaitTime_def int64_def INT64_MAX_def signed_divide_int_def)
  then show ?thesis
    using rate_limit_wait_time [of 1000 0 5000 "\<lambda>now start. now - start" 2000 0] by (simp add: INT64_MAX_def Let_def)
qed

section \<open>Delayed waits\<close>

text \<open>The clock: whole milliseconds of a duration, rounded down, at most the largest 64-bit number.\<close>

definition clock_ok :: "clock \<Rightarrow> bool" where
  "clock_ok ms \<longleftrightarrow> (\<forall>a b c. a \<le> b \<longrightarrow> b \<le> c \<longrightarrow> 0 \<le> ms b a \<and> ms c a \<le> INT64_MAX \<and> min INT64_MAX (ms b a + ms c b) \<le> ms c a)"

definition waits_ok :: "int \<Rightarrow> waits \<Rightarrow> bool" where
  "waits_ok now s \<longleftrightarrow> 0 \<le> wt_dl_rate s \<and> 0 \<le> wt_ul_rate s \<and> wt_dl_start s \<le> now \<and> wt_ul_start s \<le> now \<and>
     0 \<le> wt_dl_size s \<and> wt_dl_size s \<le> wt_rbytes s \<and> wt_rbytes s \<le> INT64_MAX \<and>
     0 \<le> wt_ul_size s \<and> wt_ul_size s \<le> wt_wbytes s \<and> wt_wbytes s \<le> INT64_MAX"

lemma clock_okD:
  assumes "clock_ok ms" "a \<le> b"
  shows "0 \<le> ms b a" "ms b a \<le> INT64_MAX" "b \<le> c \<Longrightarrow> min INT64_MAX (ms b a + ms c b) \<le> ms c a"
  using assms by (auto simp: clock_ok_def)

text \<open>A wait that was asked for is over when its time has passed and nothing was transferred, even when a new time stamp
  was taken in between.\<close>

lemma wait_over:
  assumes "clock_ok ms" "0 < limit" "0 \<le> startsize" "startsize \<le> cursize" "cursize \<le> INT64_MAX" "start \<le> now" "now \<le> now2"
    and "pgrsLimitWaitTime ms cursize startsize limit start now = Some w" "w \<le> ms now2 now"
  shows "pgrsLimitWaitTime ms cursize startsize limit start now2 = Some 0"
proof -
  define m a b c where "m = minimum_ms (cursize - startsize) limit" and "a = ms now start" and "b = ms now2 now" and "c = ms now2 start"
  have w: "w = max 0 (m - a)"
    using pgrsLimitWaitTime_minimum [OF assms(2-5), of ms now start] clock_okD [OF assms(1,6)] assms(8) by (simp add: m_def a_def)
  have "m \<le> INT64_MAX" using minimum_ms_range assms(2-5) by (simp add: m_def)
  moreover have "min INT64_MAX (a + b) \<le> c" unfolding a_def b_def c_def by (rule clock_okD(3) [OF assms(1,6,7)])
  ultimately have "m \<le> c" using w assms(9) unfolding b_def [symmetric] by linarith
  moreover have "0 \<le> c" "c \<le> INT64_MAX" using clock_okD [OF assms(1), of start now2] assms(6,7) by (auto simp: c_def)
  ultimately show ?thesis using pgrsLimitWaitTime_minimum [OF assms(2-5), of ms now2 start] by (simp add: m_def c_def)
qed

lemma wait_fresh: "pgrsLimitWaitTime ms n n limit start now = Some 0"
  by (simp add: pgrsLimitWaitTime_def int64_def INT64_MAX_def)

lemma ratelimit_same [simp]:
  "wt_connected (ratelimit ms now s) = wt_connected s" "wt_closed (ratelimit ms now s) = wt_closed s"
  "wt_read_inprogress (ratelimit ms now s) = wt_read_inprogress s" "wt_write_inprogress (ratelimit ms now s) = wt_write_inprogress s"
  "wt_read_callback (ratelimit ms now s) = wt_read_callback s" "wt_write_callback (ratelimit ms now s) = wt_write_callback s"
  "wt_rbytes (ratelimit ms now s) = wt_rbytes s" "wt_wbytes (ratelimit ms now s) = wt_wbytes s"
  "wt_dl_rate (ratelimit ms now s) = wt_dl_rate s" "wt_ul_rate (ratelimit ms now s) = wt_ul_rate s"
  "wt_dl_state (ratelimit ms now s) = wt_dl_state s" "wt_ul_state (ratelimit ms now s) = wt_ul_state s"
  by (simp_all add: ratelimit_def Let_def)

lemma ratelimit_stamps:
  "wt_dl_start (ratelimit ms now s) = wt_dl_start s \<and> wt_dl_size (ratelimit ms now s) = wt_dl_size s \<or> wt_dl_size (ratelimit ms now s) = wt_rbytes s"
  "wt_ul_start (ratelimit ms now s) = wt_ul_start s \<and> wt_ul_size (ratelimit ms now s) = wt_ul_size s \<or> wt_ul_size (ratelimit ms now s) = wt_wbytes s"
  by (simp_all add: ratelimit_def Let_def)

lemma limit_in_range:
  assumes "clock_ok ms" "waits_ok now s"
  shows "wt_dl_rate s \<noteq> 0 \<Longrightarrow> \<exists>w\<ge>0. pgrsLimitWaitTime ms (wt_rbytes s) (wt_dl_size s) (wt_dl_rate s) (wt_dl_start s) now = Some w"
    and "wt_ul_rate s \<noteq> 0 \<Longrightarrow> \<exists>w\<ge>0. pgrsLimitWaitTime ms (wt_wbytes s) (wt_ul_size s) (wt_ul_rate s) (wt_ul_start s) now = Some w"
  using assms(2) clock_okD [OF assms(1), of "wt_dl_start s" now] clock_okD [OF assms(1), of "wt_ul_start s" now]
  by (auto simp: waits_ok_def pgrsLimitWaitTime_minimum)

lemma delayed_over:
  assumes "clock_ok ms" "waits_ok now s" "now \<le> now2" "w \<le> ms now2 now"
  shows "wt_dl_rate s \<noteq> 0 \<Longrightarrow> pgrsLimitWaitTime ms (wt_rbytes s) (wt_dl_size s) (wt_dl_rate s) (wt_dl_start s) now = Some w \<Longrightarrow>
      st = wt_dl_start s \<and> sz = wt_dl_size s \<or> sz = wt_rbytes s \<Longrightarrow> pgrsLimitWaitTime ms (wt_rbytes s) sz (wt_dl_rate s) st now2 = Some 0"
    and "wt_ul_rate s \<noteq> 0 \<Longrightarrow> pgrsLimitWaitTime ms (wt_wbytes s) (wt_ul_size s) (wt_ul_rate s) (wt_ul_start s) now = Some w \<Longrightarrow>
      st = wt_ul_start s \<and> sz = wt_ul_size s \<or> sz = wt_wbytes s \<Longrightarrow> pgrsLimitWaitTime ms (wt_wbytes s) sz (wt_ul_rate s) st now2 = Some 0"
  using assms wait_fresh wait_over [OF assms(1) _ _ _ _ _ assms(3) _ assms(4)] by (auto simp: waits_ok_def)

lemma wait_read_starts:
  assumes "clock_ok ms" "waits_ok now s" "wt_connected s" "\<not> wt_closed s" "dchecks \<longrightarrow> \<not> wt_read_inprogress s"
  shows "\<exists>s1 e. wait_read dchecks ms now now' True yield s = Some (s1, [e]) \<and> wt_read_inprogress s1 \<and> wt_read_callback s1 \<and>
    (e = Yield_read \<or> e = Wait_readable \<or>
     (\<exists>w. e = Delay_read w \<and> 0 < w \<and> (\<forall>now2 now3. now \<le> now2 \<and> w \<le> ms now2 now \<longrightarrow>
       (\<exists>s2. on_read_delayed dchecks ms now2 now3 no_error s1 = Some (s2, [Wait_readable]) \<and> wt_read_inprogress s2 \<and> wt_read_callback s2))))"
proof -
  let ?s = "s\<lparr>wt_read_inprogress := True, wt_read_callback := True\<rparr>"
  obtain w where w: "(if wt_dl_rate s \<noteq> 0 then pgrsLimitWaitTime ms (wt_rbytes s) (wt_dl_size s) (wt_dl_rate s) (wt_dl_start s) now else Some 0) = Some w" "0 \<le> w"
    using limit_in_range(1) [OF assms(1,2)] by (cases "wt_dl_rate s = 0") auto
  show ?thesis
  proof (cases "w = 0")
    case True
    then show ?thesis using assms(3-5) w(1) by (auto simp: wait_read_def Let_def)
  next
    case False
    define s1 where "s1 = (if \<not> wt_ul_state ?s \<and> \<not> wt_dl_state ?s then ratelimit ms now' ?s else ?s)\<lparr>wt_dl_state := True\<rparr>"
    have rate: "wt_dl_rate s \<noteq> 0" "pgrsLimitWaitTime ms (wt_rbytes s) (wt_dl_size s) (wt_dl_rate s) (wt_dl_start s) now = Some w"
      using False w(1) by (auto split: if_splits)
    have s1: "wt_connected s1" "\<not> wt_closed s1" "wt_read_inprogress s1" "wt_read_callback s1" "wt_dl_rate s1 = wt_dl_rate s" "wt_rbytes s1 = wt_rbytes s"
      using assms(3,4) by (simp_all add: s1_def)
    have st: "wt_dl_start s1 = wt_dl_start s \<and> wt_dl_size s1 = wt_dl_size s \<or> wt_dl_size s1 = wt_rbytes s"
      using ratelimit_stamps(1) [of ms now' ?s] by (simp add: s1_def)
    have "\<exists>s2. on_read_delayed dchecks ms now2 now3 no_error s1 = Some (s2, [Wait_readable]) \<and> wt_read_inprogress s2 \<and> wt_read_callback s2"
      if "now \<le> now2" "w \<le> ms now2 now" for now2 now3
      using delayed_over(1) [OF assms(1,2) that rate st] s1 rate(1) by (simp add: on_read_delayed_def wait_read_def Let_def)
    moreover have "wait_read dchecks ms now now' True yield s = Some (s1, [Delay_read w])"
      using False rate assms(3-5) by (simp add: wait_read_def s1_def Let_def)
    ultimately show ?thesis using s1 False w(2) by auto
  qed
qed

lemma wait_write_starts:
  assumes "clock_ok ms" "waits_ok now s" "wt_connected s" "\<not> wt_closed s" "\<not> wt_write_inprogress s"
  shows "\<exists>s1 e. wait_write_limited False ms now now' True s = Some (s1, [e]) \<and> wt_write_callback s1 \<and>
    (e = Wait_writable \<and> wt_write_inprogress s1 \<or>
     (\<exists>w. e = Delay_write w \<and> 0 < w \<and> \<not> wt_write_inprogress s1 \<and> (\<forall>now2 now3. now \<le> now2 \<and> w \<le> ms now2 now \<longrightarrow>
       (\<exists>s2. on_write_delayed False ms now2 now3 no_error s1 = Some (s2, [Wait_writable]) \<and> wt_write_inprogress s2 \<and> wt_write_callback s2))))"
proof -
  obtain w where w: "(if wt_ul_rate s \<noteq> 0 then pgrsLimitWaitTime ms (wt_wbytes s) (wt_ul_size s) (wt_ul_rate s) (wt_ul_start s) now else Some 0) = Some w" "0 \<le> w"
    using limit_in_range(2) [OF assms(1,2)] by (cases "wt_ul_rate s = 0") auto
  show ?thesis
  proof (cases "w = 0")
    case True
    then show ?thesis using assms(3,4) w(1) by (auto simp: wait_write_limited_def Let_def)
  next
    case False
    define s1 where "s1 = (if \<not> wt_ul_state s \<and> \<not> wt_dl_state s then ratelimit ms now' s else s)\<lparr>wt_ul_state := True, wt_write_callback := True\<rparr>"
    have rate: "wt_ul_rate s \<noteq> 0" "pgrsLimitWaitTime ms (wt_wbytes s) (wt_ul_size s) (wt_ul_rate s) (wt_ul_start s) now = Some w"
      using False w(1) by (auto split: if_splits)
    have s1: "wt_connected s1" "\<not> wt_closed s1" "\<not> wt_write_inprogress s1" "wt_write_callback s1" "wt_ul_rate s1 = wt_ul_rate s" "wt_wbytes s1 = wt_wbytes s"
      using assms(3-5) by (simp_all add: s1_def)
    have st: "wt_ul_start s1 = wt_ul_start s \<and> wt_ul_size s1 = wt_ul_size s \<or> wt_ul_size s1 = wt_wbytes s"
      using ratelimit_stamps(2) [of ms now' s] by (simp add: s1_def)
    have "\<exists>s2. on_write_delayed False ms now2 now3 no_error s1 = Some (s2, [Wait_writable]) \<and> wt_write_inprogress s2 \<and> wt_write_callback s2"
      if "now \<le> now2" "w \<le> ms now2 now" for now2 now3
      using delayed_over(2) [OF assms(1,2) that rate st] s1 rate(1) by (simp add: on_write_delayed_def wait_write_limited_def Let_def)
    moreover have "wait_write_limited False ms now now' True s = Some (s1, [Delay_write w])"
      using False rate assms(3,4) by (simp add: wait_write_limited_def s1_def Let_def)
    ultimately show ?thesis using s1 False w(2) by auto
  qed
qed

lemma wait_write_asserts:
  "wt_connected s \<Longrightarrow> \<not> wt_closed s \<Longrightarrow> \<not> wt_write_inprogress s \<Longrightarrow>
     wait_write_limited True ms now now' True s = None \<longleftrightarrow>
     wait_write_limited False ms now now' True s = None \<or> (\<exists>s1 w. wait_write_limited False ms now now' True s = Some (s1, [Delay_write w]))"
  by (cases "if wt_ul_rate s \<noteq> 0 then pgrsLimitWaitTime ms (wt_wbytes s) (wt_ul_size s) (wt_ul_rate s) (wt_ul_start s) now else Some 0")
    (auto simp: wait_write_limited_def Let_def)

text \<open>C38: What a wait does. On an open stream, with sizes and clock in range, a wait for reading or for writing starts
  exactly one operation: the wait for the socket, or a delay for the rate limit. Once the delay has passed, and if nothing
  was transferred meanwhile, the timer starts the wait for the socket, with the callback still in place. While it is
  delayed, a wait for reading counts as in progress, but a wait for writing does not: the loops that ask
  \<^verbatim>\<open>write_inprogress()\<close> before they write go on writing, so the limit does not hold the upload back and the delay may be
  repeated. With assertions enabled a delayed wait for writing never happens, as it fails one that tests the callback right
  after it was stored.\<close>

theorem delayed_waits_proceed:
  assumes "clock_ok ms" "waits_ok now s" "wt_connected s" "\<not> wt_closed s"
  shows "((dchecks \<longrightarrow> \<not> wt_read_inprogress s) \<longrightarrow>
      (\<exists>s1 e. wait_read dchecks ms now now' True yield s = Some (s1, [e]) \<and> wt_read_inprogress s1 \<and> wt_read_callback s1 \<and>
        (e = Yield_read \<or> e = Wait_readable \<or>
         (\<exists>w. e = Delay_read w \<and> 0 < w \<and> (\<forall>now2 now3. now \<le> now2 \<and> w \<le> ms now2 now \<longrightarrow>
           (\<exists>s2. on_read_delayed dchecks ms now2 now3 no_error s1 = Some (s2, [Wait_readable]) \<and> wt_read_inprogress s2 \<and> wt_read_callback s2)))))) \<and>
    (\<not> wt_write_inprogress s \<longrightarrow>
      (\<exists>s1 e. wait_write_limited False ms now now' True s = Some (s1, [e]) \<and> wt_write_callback s1 \<and>
        (e = Wait_writable \<and> wt_write_inprogress s1 \<or>
         (\<exists>w. e = Delay_write w \<and> 0 < w \<and> \<not> wt_write_inprogress s1 \<and> (\<forall>now2 now3. now \<le> now2 \<and> w \<le> ms now2 now \<longrightarrow>
           (\<exists>s2. on_write_delayed False ms now2 now3 no_error s1 = Some (s2, [Wait_writable]) \<and> wt_write_inprogress s2 \<and> wt_write_callback s2)))))) \<and>
    (\<not> wt_write_inprogress s \<longrightarrow>
      (wait_write_limited True ms now now' True s = None \<longleftrightarrow> (\<exists>s1 w. wait_write_limited False ms now now' True s = Some (s1, [Delay_write w]))))"
proof (intro conjI impI)
  show "wait_write_limited True ms now now' True s = None \<longleftrightarrow> (\<exists>s1 w. wait_write_limited False ms now now' True s = Some (s1, [Delay_write w]))"
    if "\<not> wt_write_inprogress s"
    using wait_write_asserts [OF assms(3,4) that] wait_write_starts [OF assms that] by force
qed (fact wait_read_starts [OF assms] wait_write_starts [OF assms])+

definition sample_waits :: waits where
  "sample_waits = \<lparr>wt_connected = True, wt_closed = False, wt_read_inprogress = False, wt_write_inprogress = False, wt_read_callback = False,
     wt_write_callback = False, wt_rbytes = 5000, wt_wbytes = 5000, wt_dl_rate = 1000, wt_dl_start = 0, wt_dl_size = 0, wt_dl_state = False,
     wt_ul_rate = 1000, wt_ul_start = 0, wt_ul_size = 0, wt_ul_state = False\<rparr>"

definition sample_clock :: clock where
  "sample_clock now start = min INT64_MAX (now - start)"

lemma sample_clock_ok: "clock_ok sample_clock"
  by (auto simp: clock_ok_def sample_clock_def INT64_MAX_def)

theorem delayed_waits_proceed_witness:
  "\<exists>s1. wait_write_limited False sample_clock 2000 2000 True sample_waits = Some (s1, [Delay_write 3000]) \<and> \<not> wt_write_inprogress s1 \<and>
     (\<exists>s2. on_write_delayed False sample_clock 5000 5000 no_error s1 = Some (s2, [Wait_writable]) \<and> wt_write_callback s2) \<and>
     wait_write_limited True sample_clock 2000 2000 True sample_waits = None"
proof -
  have d: "\<exists>s1. wait_write_limited False sample_clock 2000 2000 True sample_waits = Some (s1, [Delay_write 3000])"
    by (simp add: wait_write_limited_def sample_waits_def sample_clock_def pgrsLimitWaitTime_def int64_def INT64_MAX_def signed_divide_int_def)
  have ok: "waits_ok 2000 sample_waits" "wt_connected sample_waits" "\<not> wt_closed sample_waits" "\<not> wt_write_inprogress sample_waits"
    by (simp_all add: waits_ok_def sample_waits_def INT64_MAX_def)
  have "sample_clock 5000 2000 = 3000" by (simp add: sample_clock_def INT64_MAX_def)
  moreover obtain s1 e where "wait_write_limited False sample_clock 2000 2000 True sample_waits = Some (s1, [e])"
      "e = Wait_writable \<or> (\<exists>w. e = Delay_write w \<and> 0 < w \<and> \<not> wt_write_inprogress s1 \<and> (\<forall>now2 now3. 2000 \<le> now2 \<and> w \<le> sample_clock now2 2000 \<longrightarrow>
         (\<exists>s2. on_write_delayed False sample_clock now2 now3 no_error s1 = Some (s2, [Wait_writable]) \<and> wt_write_inprogress s2 \<and> wt_write_callback s2)))"
    using conjunct1 [OF conjunct2 [OF delayed_waits_proceed [OF sample_clock_ok ok(1-3), of False 2000]]] ok(4) by blast
  moreover from this have "e = Delay_write 3000" using d by auto
  ultimately have "\<not> wt_write_inprogress s1" "2000 \<le> (5000::int) \<and> 3000 \<le> sample_clock 5000 2000 \<longrightarrow>
      (\<exists>s2. on_write_delayed False sample_clock 5000 5000 no_error s1 = Some (s2, [Wait_writable]) \<and> wt_write_inprogress s2 \<and> wt_write_callback s2)"
      "wait_write_limited False sample_clock 2000 2000 True sample_waits = Some (s1, [Delay_write 3000])" "sample_clock 5000 2000 = 3000"
    by blast+
  moreover have "wait_write_limited True sample_clock 2000 2000 True sample_waits = None"
    using conjunct2 [OF conjunct2 [OF delayed_waits_proceed [OF sample_clock_ok ok(1-3), of False 2000]]] ok(4) d by blast
  ultimately show ?thesis by auto
qed

end
