(* ===== verification/Http_Parser.thy ===== *)
theory Http_Parser
  imports Yass_Prelude "HOL-Library.Char_ord" "HOL-Library.List_Lexorder" "HOL-Library.Sublist" "HOL-Library.AList" "HOL-Library.Multiset"
begin

text \<open>
  The HTTP/1 request parser of \<^verbatim>\<open>net/http_parser.cpp\<close> in the build with Balsa. \<^verbatim>\<open>HttpRequestParser\<close> is a visitor
  of a \<^verbatim>\<open>quiche::BalsaFrame\<close>: the framer tokenises the input and calls the visitor back, which validates the
  request line, extracts the destination and keeps the headers that are written again for the origin server.

  The framer, the URL library and the hash map of headers are not part of the program. They are arguments: what
  the framer reports is a list of events, the functions of the libraries are the fields of \<open>http_lib\<close>, and the
  order in which the hash map is traversed is one of them.
\<close>

section \<open>Characters, prefixes and sorted tables\<close>

text \<open>Classification in the C locale. No byte above 127 belongs to a class.\<close>

definition in_chars :: "char \<Rightarrow> char \<Rightarrow> char \<Rightarrow> bool" where
  "in_chars a b c = (of_char a \<le> (of_char c :: nat) \<and> of_char c \<le> (of_char b :: nat))"

definition isdigit :: "char \<Rightarrow> bool" where
  "isdigit c = in_chars CHR ''0'' CHR ''9'' c"

definition isalpha :: "char \<Rightarrow> bool" where
  "isalpha c = (in_chars CHR ''A'' CHR ''Z'' c \<or> in_chars CHR ''a'' CHR ''z'' c)"

definition isalnum :: "char \<Rightarrow> bool" where
  "isalnum c = (isalpha c \<or> isdigit c)"

text \<open>\<^verbatim>\<open>std::lower_bound\<close> on the range of \<open>len\<close> elements from \<open>first\<close>, and \<^verbatim>\<open>std::binary_search\<close>.\<close>

function lower_bound :: "'a::linorder list \<Rightarrow> 'a \<Rightarrow> nat \<Rightarrow> nat \<Rightarrow> nat" where
  "lower_bound xs v first len =
     (if len = 0 then first
      else let half = len div 2; mid = first + half in
           if xs ! mid < v then lower_bound xs v (mid + 1) (len - half - 1)
           else lower_bound xs v first half)"
  by pat_completeness auto
termination by (relation "measure (\<lambda>(xs, v, first, len). len)") auto

declare lower_bound.simps [simp del]

definition binary_search :: "'a::linorder list \<Rightarrow> 'a \<Rightarrow> bool" where
  "binary_search xs v = (let i = lower_bound xs v 0 (length xs) in i \<noteq> length xs \<and> \<not> v < xs ! i)"

section \<open>Validation of the request line\<close>

definition kHttpVersionPrefix :: string where
  "kHttpVersionPrefix = ''HTTP/''"

definition kColonSlashSlash :: string where
  "kColonSlashSlash = ''://''"

definition kValidCharacters :: string where
  "kValidCharacters = ''!#$%&'' @ [CHR 0x27] @ ''*+-.0123456789ABCDEFGHIJKLMNOPQRSTUVWXYZ^_`abcdefghijklmnopqrstuvwxyz|~''"

definition kValidMethods :: "string list" where
  "kValidMethods =
     [''ACL'', ''BIND'', ''CHECKOUT'', ''CONNECT'', ''COPY'', ''DELETE'', ''GET'', ''HEAD'', ''LINK'',
      ''LOCK'', ''MERGE'', ''MKACTIVITY'', ''MKCALENDAR'', ''MKCOL'', ''MOVE'', ''MSEARCH'', ''NOTIFY'', ''OPTIONS'',
      ''PATCH'', ''POST'', ''PROPFIND'', ''PROPPATCH'', ''PURGE'', ''PUT'', ''REBIND'', ''REPORT'', ''SEARCH'',
      ''SOURCE'', ''SUBSCRIBE'', ''TRACE'', ''UNBIND'', ''UNLINK'', ''UNLOCK'', ''UNSUBSCRIBE'']"

definition isMethodValid :: "string \<Rightarrow> bool \<Rightarrow> bool" where
  "isMethodValid method allow_custom_methods =
     (if allow_custom_methods then method \<noteq> [] \<and> list_all (binary_search kValidCharacters) method
      else binary_search kValidMethods method)"

definition is_valid_path_query_char :: "char \<Rightarrow> bool" where
  "is_valid_path_query_char c = (c = CHR 0x09 \<or> c = CHR 0x0C \<or> in_chars CHR ''!'' CHR 0x7E c)"

definition is_scheme_suffix :: "char \<Rightarrow> bool" where
  "is_scheme_suffix c = (isalpha c \<or> isdigit c \<or> c \<in> set ''+-.'')"

definition valid_host_char :: "char \<Rightarrow> bool" where
  "valid_host_char c = (isalnum c \<or> c \<in> set (''!$%&'' @ [CHR 0x27] @ ''()*+,-.:;=@[]_~''))"

text \<open>The part of \<open>isUrlValid\<close> behind the scheme.\<close>

definition valid_host_and_path :: "string \<Rightarrow> bool" where
  "valid_host_and_path url =
     (let not_start = (\<lambda>c. \<not> (c = CHR ''/'' \<or> c = CHR ''?''));
          host = takeWhile not_start url; path_query = dropWhile not_start url
      in list_all valid_host_char host \<and> \<not> sublist ''@@'' host \<and> list_all is_valid_path_query_char path_query)"

definition isUrlValid :: "string \<Rightarrow> bool \<Rightarrow> bool" where
  "isUrlValid url is_connect =
     (if url = [] then False
      else if hd url = CHR ''/'' \<or> hd url = CHR ''*'' then list_all is_valid_path_query_char (tl url)
      else if is_connect then valid_host_and_path url
      else if \<not> isalpha (hd url) then False
      else let rest = dropWhile is_scheme_suffix (tl url) in
           prefix kColonSlashSlash rest \<and> valid_host_and_path (drop (length kColonSlashSlash) rest))"

definition isVersionValid :: "string \<Rightarrow> bool" where
  "isVersionValid version_input =
     (if version_input = [] then True
      else if \<not> prefix kHttpVersionPrefix version_input then False
      else let v = drop (length kHttpVersionPrefix) version_input in
           length v = 3 \<and> isdigit (v ! 0) \<and> v ! 1 = CHR ''.'' \<and> isdigit (v ! 2))"

section \<open>Libraries\<close>

text \<open>\<^verbatim>\<open>url::Component\<close>: a range of a string; a negative length means that the component is absent.\<close>

record url_component =
  cp_begin :: int
  cp_len :: int

record gurl =
  gurl_is_valid :: bool
  gurl_has_host :: bool
  gurl_has_query :: bool
  gurl_path :: string
  gurl_query :: string

type_synonym header_map = "(string \<times> string) list"

record balsa_headers =
  bh_lines :: "(string \<times> string) list"
  bh_content_length :: u64
  bh_chunked :: bool

text \<open>\<open>BalsaReset\<close> is what \<^verbatim>\<open>BalsaFrame::Reset\<close> leaves in the headers object the framer was given.\<close>

record http_lib =
  CompareCaseInsensitiveASCII :: "string \<Rightarrow> string \<Rightarrow> int"
  ParseAuthority :: "string \<Rightarrow> url_component \<times> url_component \<times> url_component \<times> url_component"
  ParsePort :: "string \<Rightarrow> url_component \<Rightarrow> int"
  StringToInt :: "string \<Rightarrow> int option"
  GURL :: "string \<Rightarrow> gurl"
  map_order :: "header_map \<Rightarrow> header_map"
  BalsaReset :: "balsa_headers \<Rightarrow> balsa_headers"

abbreviation same_name :: "http_lib \<Rightarrow> string \<Rightarrow> string \<Rightarrow> bool" where
  "same_name lib a b \<equiv> CompareCaseInsensitiveASCII lib a b = 0"

section \<open>SplitHostPortWithDefaultPort\<close>

definition component_text :: "string \<Rightarrow> url_component \<Rightarrow> string" where
  "component_text s c = take (nat (cp_len c)) (drop (nat (cp_begin c)) s)"

definition SplitHostPortWithDefaultPort :: "http_lib \<Rightarrow> int \<Rightarrow> string \<Rightarrow> (string \<times> u16) option" where
  "SplitHostPortWithDefaultPort lib default_port host_port_string =
     (let (username, password, host, port) = ParseAuthority lib host_port_string in
      if cp_len username \<ge> 0 \<or> cp_len password \<ge> 0 \<or> \<not> cp_len host > 0 then None
      else let parsed = (if cp_len port \<le> 0 then default_port else ParsePort lib host_port_string port) in
           if parsed \<le> 0 \<or> parsed > 65535 then None
           else Some (component_text host_port_string host, word_of_int parsed))"

section \<open>The visitor\<close>

datatype parser_status = Parser_Error | Parser_Ok | Parser_Paused

datatype balsa_error = UNKNOWN_TRANSFER_ENCODING | INVALID_CHUNK_LENGTH | HEADERS_TOO_LONG | TRAILER_TOO_LONG
  | TRAILER_MISSING_COLON | INVALID_HEADER_CHARACTER | OTHER_BALSA_ERROR string

text \<open>The callbacks of \<^verbatim>\<open>BalsaVisitorInterface\<close> that the parser acts on; all others are empty functions.\<close>

datatype balsa_event =
    RequestFirstLineInput string string string
  | ResponseFirstLineInput string string
  | ProcessHeadersInput balsa_headers
  | HeaderDoneInput
  | MessageDoneInput
  | HandleErrorInput balsa_error
  | HandleWarningInput balsa_error
  | OtherInput

record http_parser =
  hp_headers :: balsa_headers
  hp_method :: string
  http_url :: string
  hp_version_input :: string
  http_host :: string
  http_port :: u16
  http_headers :: header_map
  http_is_connect :: bool
  hp_content_type :: string
  hp_connection :: string
  hp_proxy_authorization :: string
  hp_headers_done :: bool
  hp_status :: parser_status
  hp_status_code :: int
  hp_error_message :: string

definition HttpRequestParser :: http_parser where
  "HttpRequestParser = \<lparr>hp_headers = \<lparr>bh_lines = [], bh_content_length = 0, bh_chunked = False\<rparr>, hp_method = [], http_url = [],
     hp_version_input = [], http_host = [], http_port = 0, http_headers = [], http_is_connect = False, hp_content_type = [],
     hp_connection = [], hp_proxy_authorization = [], hp_headers_done = False, hp_status = Parser_Paused,
     hp_status_code = 0, hp_error_message = []\<rparr>"

definition unbracket :: "string \<Rightarrow> string" where
  "unbracket h =
     (if length h \<ge> 2 \<and> h ! 0 = CHR ''['' \<and> h ! (length h - 1) = CHR '']'' then take (length h - 2) (drop 1 h) else h)"

text \<open>One turn of the loop over the header lines; \<^const>\<open>None\<close> is the \<^verbatim>\<open>break\<close> after a bad \<^verbatim>\<open>Host\<close> field.\<close>

definition host_line :: "http_lib \<Rightarrow> string \<Rightarrow> string \<Rightarrow> http_parser \<Rightarrow> http_parser option" where
  "host_line lib key v p =
     (if same_name lib key ''Host'' \<and> \<not> http_is_connect p then
        (case SplitHostPortWithDefaultPort lib 80 v of
           None \<Rightarrow> None
         | Some (hostname, portnum) \<Rightarrow> Some (p\<lparr>http_host := unbracket hostname, http_port := portnum\<rparr>))
      else Some p)"

definition noted_line :: "http_lib \<Rightarrow> string \<Rightarrow> string \<Rightarrow> http_parser \<Rightarrow> http_parser" where
  "noted_line lib key v p =
     (let p1 = (if same_name lib key ''Content-Type'' then p\<lparr>hp_content_type := v\<rparr> else p);
          p2 = (if same_name lib key ''Connection'' then p1\<lparr>hp_connection := v\<rparr> else p1);
          p3 = (if same_name lib key ''Proxy-Connection'' then p2\<lparr>hp_connection := v\<rparr> else p2)
      in if same_name lib key ''Proxy-Authorization'' then p3\<lparr>hp_proxy_authorization := v\<rparr> else p3)"

definition masked :: "http_lib \<Rightarrow> string \<Rightarrow> string \<Rightarrow> string" where
  "masked lib key v = (if same_name lib key ''Cookie'' then ''(masked)'' else v)"

primrec process_lines :: "http_lib \<Rightarrow> (string \<times> string) list \<Rightarrow> http_parser \<Rightarrow> http_parser" where
  "process_lines lib [] p = p"
| "process_lines lib (l # ls) p =
     (let (key, v0) = l;
          p1 = p\<lparr>http_headers := AList.update key v0 (http_headers p)\<rparr>;
          v = masked lib key v0
      in case host_line lib key v p1 of
           None \<Rightarrow> p1\<lparr>hp_status := Parser_Error\<rparr>
         | Some p2 \<Rightarrow> process_lines lib ls (noted_line lib key v p2))"

definition ProcessHeaders :: "http_lib \<Rightarrow> balsa_headers \<Rightarrow> http_parser \<Rightarrow> http_parser" where
  "ProcessHeaders lib h p = process_lines lib (bh_lines h) (p\<lparr>hp_headers := h\<rparr>)"

definition parse_error :: "string \<Rightarrow> http_parser \<Rightarrow> http_parser" where
  "parse_error msg p = p\<lparr>hp_status := Parser_Error, hp_error_message := msg\<rparr>"

text \<open>The end of \<^verbatim>\<open>OnRequestFirstLineInput\<close>, behind the extraction of the destination.\<close>

definition version_line :: "http_lib \<Rightarrow> string \<Rightarrow> http_parser \<Rightarrow> http_parser" where
  "version_line lib version_input p =
     (if \<not> isVersionValid version_input then parse_error ''HPE_INVALID_VERSION'' p
      else if same_name lib version_input ''HTTP/1.1'' then p\<lparr>hp_connection := ''Keep-Alive''\<rparr>
      else p\<lparr>hp_connection := ''Close''\<rparr>)"

definition OnRequestFirstLineInput :: "http_lib \<Rightarrow> string \<Rightarrow> string \<Rightarrow> string \<Rightarrow> http_parser \<Rightarrow> http_parser" where
  "OnRequestFirstLineInput lib method_input request_uri version_input p =
     (if hp_status p = Parser_Error then p
      else if \<not> isMethodValid method_input False then parse_error ''HPE_INVALID_METHOD'' p
      else let is_connect = same_name lib method_input ''CONNECT'';
               p1 = p\<lparr>http_is_connect := is_connect, hp_method := method_input\<rparr>
           in if \<not> isUrlValid request_uri is_connect then parse_error ''HPE_INVALID_URL'' p1
              else let p2 = p1\<lparr>http_url := request_uri, hp_version_input := version_input\<rparr> in
                   if is_connect then
                     (case SplitHostPortWithDefaultPort lib 80 (http_url p2) of
                        None \<Rightarrow> parse_error ''HPE_INVALID_AUTHORITY'' p2
                      | Some (hostname, portnum) \<Rightarrow>
                          version_line lib version_input (p2\<lparr>http_host := unbracket hostname, http_port := portnum\<rparr>))
                   else version_line lib version_input p2)"

definition OnResponseFirstLineInput :: "http_lib \<Rightarrow> string \<Rightarrow> string \<Rightarrow> http_parser \<Rightarrow> http_parser" where
  "OnResponseFirstLineInput lib version_input status_input p =
     (if hp_status p = Parser_Error then p
      else if \<not> isVersionValid version_input then parse_error ''HPE_INVALID_VERSION'' p
      else case StringToInt lib status_input of
             None \<Rightarrow> parse_error ''HPE_INVALID_STATUS'' p
           | Some status \<Rightarrow> if status \<le> 0 then parse_error ''HPE_INVALID_STATUS'' p else p\<lparr>hp_status_code := status\<rparr>)"

definition HeaderDone :: "http_parser \<Rightarrow> http_parser" where
  "HeaderDone p = (if hp_status p = Parser_Error then p else p\<lparr>hp_status := Parser_Ok, hp_headers_done := True\<rparr>)"

definition MessageDone :: "http_lib \<Rightarrow> http_parser \<Rightarrow> http_parser" where
  "MessageDone lib p =
     (if hp_status p = Parser_Error then p
      else p\<lparr>hp_status := Parser_Ok, hp_headers := BalsaReset lib (hp_headers p), hp_headers_done := False\<rparr>)"

fun HandleError :: "balsa_error \<Rightarrow> http_parser \<Rightarrow> http_parser" where
  "HandleError UNKNOWN_TRANSFER_ENCODING p = parse_error ''unsupported transfer encoding'' p"
| "HandleError INVALID_CHUNK_LENGTH p = parse_error ''HPE_INVALID_CHUNK_SIZE'' p"
| "HandleError HEADERS_TOO_LONG p = parse_error ''headers size exceeds limit'' p"
| "HandleError TRAILER_TOO_LONG p = parse_error ''trailers size exceeds limit'' p"
| "HandleError TRAILER_MISSING_COLON p = parse_error ''HPE_INVALID_HEADER_TOKEN'' p"
| "HandleError INVALID_HEADER_CHARACTER p = parse_error ''header value contains invalid chars'' p"
| "HandleError (OTHER_BALSA_ERROR s) p = parse_error s p"

definition HandleWarning :: "balsa_error \<Rightarrow> http_parser \<Rightarrow> http_parser" where
  "HandleWarning e p = (if e = TRAILER_MISSING_COLON then HandleError e p else p)"

fun visit :: "http_lib \<Rightarrow> balsa_event \<Rightarrow> http_parser \<Rightarrow> http_parser" where
  "visit lib (RequestFirstLineInput m u v) p = OnRequestFirstLineInput lib m u v p"
| "visit lib (ResponseFirstLineInput v s) p = OnResponseFirstLineInput lib v s p"
| "visit lib (ProcessHeadersInput h) p = ProcessHeaders lib h p"
| "visit lib HeaderDoneInput p = HeaderDone p"
| "visit lib MessageDoneInput p = MessageDone lib p"
| "visit lib (HandleErrorInput e) p = HandleError e p"
| "visit lib (HandleWarningInput e) p = HandleWarning e p"
| "visit lib OtherInput p = p"

text \<open>The framer maps the bytes of the buffer to the callbacks it makes and the number of bytes it processed.\<close>

type_synonym balsa_framer = "byte list \<Rightarrow> balsa_event list \<times> int"

definition Parse :: "http_lib \<Rightarrow> balsa_framer \<Rightarrow> byte list \<Rightarrow> http_parser \<Rightarrow> int \<times> bool \<times> http_parser" where
  "Parse lib framer buf p =
     (let (events, processed) = framer buf; p1 = fold (visit lib) events p
      in (processed, hp_status p1 = Parser_Ok, p1))"

section \<open>Writing the request again\<close>

definition crlf :: string where
  "crlf = [CHR 0x0D, CHR 0x0A]"

definition header_line :: "string \<times> string \<Rightarrow> string" where
  "header_line kv = fst kv @ '': '' @ snd kv @ crlf"

definition canonical_uri :: "http_lib \<Rightarrow> string \<Rightarrow> string" where
  "canonical_uri lib uri =
     (let url = GURL lib uri in
      if gurl_is_valid url \<and> gurl_has_host url then
        (if gurl_has_query url then gurl_path url @ ''?'' @ gurl_query url else gurl_path url)
      else uri)"

definition forwarded :: "http_lib \<Rightarrow> header_map \<Rightarrow> string \<times> string \<Rightarrow> bool" where
  "forwarded lib additional kv =
     (\<not> same_name lib (fst kv) ''Proxy-Connection'' \<and> \<not> same_name lib (fst kv) ''Proxy-Authorization'' \<and>
      fst kv \<notin> fst ` set additional)"

text \<open>The pointer to the additional headers may be null.\<close>

definition ReforgeHttpRequestImpl :: "http_lib \<Rightarrow> string \<Rightarrow> string \<Rightarrow> header_map option \<Rightarrow> string \<Rightarrow> header_map \<Rightarrow> string" where
  "ReforgeHttpRequestImpl lib version method_str additional_headers uri headers =
     (let additional = (case additional_headers of None \<Rightarrow> [] | Some hs \<Rightarrow> map_order lib hs) in
      method_str @ '' '' @ canonical_uri lib uri @ '' '' @ version @ crlf @
      concat (map header_line (filter (forwarded lib additional) (map_order lib headers))) @
      concat (map header_line additional) @ crlf)"

definition ReforgeHttpRequest :: "http_lib \<Rightarrow> header_map option \<Rightarrow> http_parser \<Rightarrow> string" where
  "ReforgeHttpRequest lib additional_headers p =
     ReforgeHttpRequestImpl lib (hp_version_input p) (hp_method p) additional_headers (http_url p) (http_headers p)"

section \<open>Sorted tables\<close>

lemma lower_bound_splits:
  assumes "sorted xs" "first + len \<le> length xs" "\<forall>i<first. xs ! i < v" "\<forall>i. first + len \<le> i \<longrightarrow> i < length xs \<longrightarrow> \<not> xs ! i < v"
  shows "lower_bound xs v first len \<le> length xs \<and> (\<forall>i<lower_bound xs v first len. xs ! i < v) \<and>
    (\<forall>i. lower_bound xs v first len \<le> i \<longrightarrow> i < length xs \<longrightarrow> \<not> xs ! i < v)"
  using assms
proof (induction xs v first len rule: lower_bound.induct)
  case (1 xs v first len)
  show ?case
  proof (cases "len = 0")
    case True
    then have "lower_bound xs v first len = first" by (simp add: lower_bound.simps)
    with True 1(4-6) show ?thesis by simp
  next
    case False
    define mid where "mid = first + len div 2"
    have mid: "mid < first + len" "first \<le> mid" "mid < length xs" using False 1(4) by (auto simp: mid_def)
    show ?thesis
    proof (cases "xs ! mid < v")
      case True
      have lo: "\<forall>i<mid + 1. xs ! i < v"
      proof (intro allI impI)
        fix i assume "i < mid + 1"
        then have "xs ! i \<le> xs ! mid" using 1(3) mid(3) by (auto intro: sorted_nth_mono)
        with True show "xs ! i < v" by simp
      qed
      have "mid + 1 + (len - len div 2 - 1) = first + len" using mid by (auto simp: mid_def)
      with 1(1) [OF False refl mid_def True] lo 1(3,4,6) have
        "let r = lower_bound xs v (mid + 1) (len - len div 2 - 1) in r \<le> length xs \<and> (\<forall>i<r. xs ! i < v) \<and>
          (\<forall>i. r \<le> i \<longrightarrow> i < length xs \<longrightarrow> \<not> xs ! i < v)" by (simp add: Let_def)
      moreover have "lower_bound xs v first len = lower_bound xs v (mid + 1) (len - len div 2 - 1)"
        using False True by (subst lower_bound.simps) (simp add: mid_def Let_def)
      ultimately show ?thesis by (simp add: Let_def)
    next
      case hi: False
      have up: "\<forall>i. first + len div 2 \<le> i \<longrightarrow> i < length xs \<longrightarrow> \<not> xs ! i < v"
      proof (intro allI impI)
        fix i assume "first + len div 2 \<le> i" "i < length xs"
        then have "xs ! mid \<le> xs ! i" using 1(3) by (auto simp: mid_def intro: sorted_nth_mono)
        with hi show "\<not> xs ! i < v" by simp
      qed
      have "first + len div 2 \<le> length xs" using mid by (simp add: mid_def)
      with 1(2) [OF False refl mid_def hi] up 1(3,5) have
        "let r = lower_bound xs v first (len div 2) in r \<le> length xs \<and> (\<forall>i<r. xs ! i < v) \<and>
          (\<forall>i. r \<le> i \<longrightarrow> i < length xs \<longrightarrow> \<not> xs ! i < v)" by (simp add: Let_def)
      moreover have "lower_bound xs v first len = lower_bound xs v first (len div 2)"
        using False hi by (subst lower_bound.simps) (simp add: mid_def Let_def)
      ultimately show ?thesis by (simp add: Let_def)
    qed
  qed
qed

lemma binary_search_correct:
  assumes "sorted xs"
  shows "binary_search xs v \<longleftrightarrow> v \<in> set xs"
proof -
  define r where "r = lower_bound xs v 0 (length xs)"
  have r: "r \<le> length xs" "\<forall>i<r. xs ! i < v" "\<forall>i. r \<le> i \<longrightarrow> i < length xs \<longrightarrow> \<not> xs ! i < v"
    using lower_bound_splits [of xs 0 "length xs" v] assms by (simp_all add: r_def)
  have "v \<in> set xs \<longleftrightarrow> r \<noteq> length xs \<and> \<not> v < xs ! r"
  proof
    assume "v \<in> set xs"
    then obtain i where i: "i < length xs" "xs ! i = v" by (auto simp: in_set_conv_nth)
    with r(2) have "r \<le> i" by (meson not_less order_less_irrefl)
    with i assms r(1) show "r \<noteq> length xs \<and> \<not> v < xs ! r" by (auto simp: not_less intro: sorted_nth_mono)
  next
    assume *: "r \<noteq> length xs \<and> \<not> v < xs ! r"
    with r have "r < length xs" "\<not> xs ! r < v" by auto
    with * have "xs ! r = v" by (simp add: antisym_conv3)
    with \<open>r < length xs\<close> show "v \<in> set xs" by (metis nth_mem)
  qed
  then show ?thesis by (simp add: binary_search_def r_def Let_def)
qed

lemma isMethodValid_iff: "isMethodValid m False \<longleftrightarrow> m \<in> set kValidMethods"
proof -
  have "sorted kValidMethods" by code_simp
  then show ?thesis by (simp add: isMethodValid_def binary_search_correct)
qed

lemma isMethodValid_custom_iff: "isMethodValid m True \<longleftrightarrow> m \<noteq> [] \<and> set m \<subseteq> set kValidCharacters"
proof -
  have "sorted kValidCharacters" by code_simp
  then show ?thesis by (auto simp: isMethodValid_def binary_search_correct list_all_iff)
qed

section \<open>What an accepted message is\<close>

text \<open>The callbacks that leave the status as it is, given the state of the parser at that point.\<close>

fun accepts :: "http_lib \<Rightarrow> http_parser \<Rightarrow> balsa_event \<Rightarrow> bool" where
  "accepts lib p (RequestFirstLineInput m u v) =
     (m \<in> set kValidMethods \<and> isUrlValid u (same_name lib m ''CONNECT'') \<and> isVersionValid v \<and>
      (same_name lib m ''CONNECT'' \<longrightarrow> SplitHostPortWithDefaultPort lib 80 u \<noteq> None))"
| "accepts lib p (ResponseFirstLineInput v s) = (isVersionValid v \<and> (\<exists>n>0. StringToInt lib s = Some n))"
| "accepts lib p (ProcessHeadersInput h) =
     (\<not> http_is_connect p \<longrightarrow> (\<forall>(k, v) \<in> set (bh_lines h). same_name lib k ''Host'' \<longrightarrow>
        SplitHostPortWithDefaultPort lib 80 (masked lib k v) \<noteq> None))"
| "accepts lib p (HandleErrorInput e) = False"
| "accepts lib p (HandleWarningInput e) = (e \<noteq> TRAILER_MISSING_COLON)"
| "accepts lib p e = True"

lemma parse_error_status [simp]: "hp_status (parse_error m p) = Parser_Error"
  by (simp add: parse_error_def)

lemma HandleError_status [simp]: "hp_status (HandleError e p) = Parser_Error"
  by (cases e) simp_all

lemma noted_line_keeps [simp]:
  "hp_status (noted_line lib k v p) = hp_status p" "http_is_connect (noted_line lib k v p) = http_is_connect p"
  by (simp_all add: noted_line_def Let_def)

lemma host_line_keeps:
  "host_line lib k v p = Some q \<Longrightarrow> hp_status q = hp_status p \<and> http_is_connect q = http_is_connect p"
  by (auto simp: host_line_def split: if_splits option.splits)

lemma process_lines_status:
  "hp_status (process_lines lib ls p) =
     (if (\<not> http_is_connect p \<longrightarrow> (\<forall>(k, v) \<in> set ls. same_name lib k ''Host'' \<longrightarrow>
        SplitHostPortWithDefaultPort lib 80 (masked lib k v) \<noteq> None))
      then hp_status p else Parser_Error)"
proof (induction ls arbitrary: p)
  case (Cons l ls)
  obtain k v where l: "l = (k, v)" by (cases l)
  show ?case
  proof (cases "host_line lib k (masked lib k v) (p\<lparr>http_headers := AList.update k v (http_headers p)\<rparr>)")
    case None
    then show ?thesis by (auto simp: l Let_def host_line_def split: if_splits option.splits)
  next
    case (Some q)
    have "\<not> (same_name lib k ''Host'' \<and> \<not> http_is_connect p \<and>
      SplitHostPortWithDefaultPort lib 80 (masked lib k v) = None)"
      using Some by (auto simp: host_line_def split: if_splits option.splits)
    with Some host_line_keeps [OF Some] show ?thesis by (auto simp: l Let_def Cons.IH)
  qed
qed simp

lemma version_line_status:
  "hp_status (version_line lib v p) = (if isVersionValid v then hp_status p else Parser_Error)"
  by (simp add: version_line_def)

lemma visit_status:
  assumes "hp_status p \<noteq> Parser_Error"
  shows "hp_status (visit lib e p) = Parser_Error \<longleftrightarrow> \<not> accepts lib p e"
  using assms
  by (cases e) (auto simp: OnRequestFirstLineInput_def OnResponseFirstLineInput_def ProcessHeaders_def HeaderDone_def MessageDone_def
      HandleWarning_def isMethodValid_iff version_line_status process_lines_status Let_def split: option.splits if_splits)

lemma visit_error_sticky: "hp_status p = Parser_Error \<Longrightarrow> hp_status (visit lib e p) = Parser_Error"
  by (cases e) (auto simp: OnRequestFirstLineInput_def OnResponseFirstLineInput_def ProcessHeaders_def HeaderDone_def MessageDone_def
      HandleWarning_def process_lines_status)

lemma visits_error_sticky: "hp_status p = Parser_Error \<Longrightarrow> hp_status (fold (visit lib) es p) = Parser_Error"
  by (induction es arbitrary: p) (simp_all add: visit_error_sticky)

lemma visits_accept:
  assumes "hp_status (fold (visit lib) es p) \<noteq> Parser_Error" "es = pre @ e # post"
  shows "accepts lib (fold (visit lib) pre p) e"
proof -
  define q where "q = fold (visit lib) pre p"
  have "hp_status q \<noteq> Parser_Error" "hp_status (visit lib e q) \<noteq> Parser_Error"
    using assms visits_error_sticky [of q lib "e # post"] visits_error_sticky [of "visit lib e q" lib post] by (auto simp: q_def)
  then show ?thesis using visit_status [of q lib e] by (simp add: q_def)
qed

section \<open>What is kept of the header\<close>

abbreviation CR :: char where
  "CR \<equiv> CHR 0x0D"

lemma noted_line_fields [simp]:
  "http_headers (noted_line lib k v p) = http_headers p" "hp_method (noted_line lib k v p) = hp_method p"
  "http_url (noted_line lib k v p) = http_url p" "hp_version_input (noted_line lib k v p) = hp_version_input p"
  by (simp_all add: noted_line_def Let_def)

lemma host_line_fields:
  "host_line lib k v p = Some q \<Longrightarrow> http_headers q = http_headers p \<and> hp_method q = hp_method p \<and> http_url q = http_url p \<and>
     hp_version_input q = hp_version_input p"
  by (auto simp: host_line_def split: if_splits option.splits)

lemma process_lines_fields:
  "hp_method (process_lines lib ls p) = hp_method p \<and> http_url (process_lines lib ls p) = http_url p \<and>
     hp_version_input (process_lines lib ls p) = hp_version_input p"
  by (induction ls arbitrary: p) (auto simp: Let_def split: prod.splits option.splits dest!: host_line_fields)

lemma process_lines_distinct:
  "distinct (map fst (http_headers p)) \<Longrightarrow> distinct (map fst (http_headers (process_lines lib ls p)))"
  by (induction ls arbitrary: p) (auto simp: Let_def distinct_update split: prod.splits option.splits dest!: host_line_fields)

lemma process_lines_map:
  "hp_status (process_lines lib ls p) \<noteq> Parser_Error \<Longrightarrow>
     map_of (http_headers (process_lines lib ls p)) = map_of (http_headers p) ++ map_of (rev ls)"
proof (induction ls arbitrary: p)
  case (Cons l ls)
  obtain k v where l: "l = (k, v)" by (cases l)
  define p1 where "p1 = p\<lparr>http_headers := AList.update k v (http_headers p)\<rparr>"
  obtain q where q: "host_line lib k (masked lib k v) p1 = Some q"
    using Cons.prems by (cases "host_line lib k (masked lib k v) p1") (auto simp: l p1_def Let_def)
  have eq: "process_lines lib (l # ls) p = process_lines lib ls (noted_line lib k (masked lib k v) q)"
    using q by (simp add: l p1_def Let_def)
  have "map_of (http_headers q) = (map_of (http_headers p))(k \<mapsto> v)"
    using host_line_fields [OF q] by (simp add: p1_def update_conv')
  then have "map_of (http_headers (process_lines lib (l # ls) p)) = (map_of (http_headers p))(k \<mapsto> v) ++ map_of (rev ls)"
    using Cons.IH [of "noted_line lib k (masked lib k v) q"] Cons.prems unfolding eq noted_line_fields by argo
  also have "\<dots> = map_of (http_headers p) ++ map_of (rev (l # ls))"
    by (simp add: l)
  finally show ?case .
qed simp

section \<open>Reading a request again\<close>

text \<open>The receiver of a request: lines end in CRLF, the header ends with an empty line, a field is a name, a colon,
  a space and a value.\<close>

fun split_crlf :: "string \<Rightarrow> (string \<times> string) option" where
  "split_crlf (a # b # r) =
     (if a = CR \<and> b = CHR 0x0A then Some ([], r) else map_option (\<lambda>(l, r). (a # l, r)) (split_crlf (b # r)))"
| "split_crlf _ = None"

lemma split_crlf_shorter: "split_crlf s = Some (l, r) \<Longrightarrow> length r < length s"
  by (induction s arbitrary: l r rule: split_crlf.induct) (auto split: if_splits)

function read_head :: "string \<Rightarrow> (string list \<times> string) option" where
  "read_head s =
     (case split_crlf s of
        None \<Rightarrow> None
      | Some (l, r) \<Rightarrow> if l = [] then Some ([], r) else map_option (\<lambda>(ls, b). (l # ls, b)) (read_head r))"
  by pat_completeness auto
termination by (relation "measure length") (auto dest: split_crlf_shorter)

declare read_head.simps [simp del]

text \<open>The path and the query of a request target, and field names without regard to case.\<close>

definition read_target :: "string \<Rightarrow> string \<times> string option" where
  "read_target t = (takeWhile (\<lambda>c. c \<noteq> CHR ''?'') t, case dropWhile (\<lambda>c. c \<noteq> CHR ''?'') t of [] \<Rightarrow> None | c # q \<Rightarrow> Some q)"

definition ascii_lower :: "char \<Rightarrow> char" where
  "ascii_lower c = (if CHR ''A'' \<le> c \<and> c \<le> CHR ''Z'' then char_of ((of_char c :: nat) + 32) else c)"

definition compares_ascii :: "http_lib \<Rightarrow> bool" where
  "compares_ascii lib \<longleftrightarrow> (\<forall>a b. same_name lib a b \<longleftrightarrow> map ascii_lower a = map ascii_lower b)"

definition read_field :: "string \<Rightarrow> string \<times> string" where
  "read_field l = (takeWhile (\<lambda>c. c \<noteq> CHR '':'') l, drop 2 (dropWhile (\<lambda>c. c \<noteq> CHR '':'') l))"

lemma split_crlf_line: "CR \<notin> set l \<Longrightarrow> split_crlf (l @ crlf @ r) = Some (l, r)"
proof (induction l)
  case (Cons a l)
  then show ?case by (cases l) (auto simp: crlf_def)
qed (simp add: crlf_def)

lemma read_head_lines:
  "\<forall>l \<in> set ls. l \<noteq> [] \<and> CR \<notin> set l \<Longrightarrow> read_head (concat (map (\<lambda>l. l @ crlf) ls) @ crlf @ body) = Some (ls, body)"
proof (induction ls)
  case Nil
  then show ?case using split_crlf_line [of "[]" body] by (simp add: read_head.simps)
next
  case (Cons l ls)
  then show ?case using split_crlf_line [of l "concat (map (\<lambda>l. l @ crlf) ls) @ crlf @ body"]
    by (subst read_head.simps) simp
qed

lemma read_field_line: "CHR '':'' \<notin> set k \<Longrightarrow> read_field (k @ '': '' @ v) = (k, v)"
proof -
  assume "CHR '':'' \<notin> set k"
  then have "\<forall>c \<in> set k. c \<noteq> CHR '':''" by auto
  then show ?thesis by (simp add: read_field_def takeWhile_append2 dropWhile_append2)
qed

definition clean_field :: "string \<times> string \<Rightarrow> bool" where
  "clean_field kv = (CR \<notin> set (fst kv) \<and> CR \<notin> set (snd kv) \<and> CHR '':'' \<notin> set (fst kv))"

lemma read_head_fields:
  assumes "first \<noteq> []" "CR \<notin> set first" "\<forall>kv \<in> set fs. clean_field kv"
  shows "\<exists>ls. read_head (first @ crlf @ concat (map header_line fs) @ crlf @ body) = Some (first # ls, body) \<and> map read_field ls = fs"
proof (intro exI [of _ "map (\<lambda>kv. fst kv @ '': '' @ snd kv) fs"] conjI)
  have "concat (map header_line fs) = concat (map (\<lambda>l. l @ crlf) (map (\<lambda>kv. fst kv @ '': '' @ snd kv) fs))"
    by (induction fs) (simp_all add: header_line_def)
  with read_head_lines [of "first # map (\<lambda>kv. fst kv @ '': '' @ snd kv) fs" body] assms
  show "read_head (first @ crlf @ concat (map header_line fs) @ crlf @ body) = Some (first # map (\<lambda>kv. fst kv @ '': '' @ snd kv) fs, body)"
    by (auto simp: clean_field_def)
  show "map read_field (map (\<lambda>kv. fst kv @ '': '' @ snd kv) fs) = fs"
    using assms(3) read_field_line by (auto simp: clean_field_def intro!: map_idI)
qed

section \<open>Validated text has no line breaks\<close>

lemma CR_invalid:
  "is_valid_path_query_char CR = False" "valid_host_char CR = False" "is_scheme_suffix CR = False" "isalpha CR = False" "isdigit CR = False"
  by code_simp+

lemma path_char_no_CR: "list_all is_valid_path_query_char s \<Longrightarrow> CR \<notin> set s"
  using CR_invalid(1) by (auto simp only: list_all_iff)

lemma host_char_no_CR: "list_all valid_host_char s \<Longrightarrow> CR \<notin> set s"
  using CR_invalid(2) by (auto simp only: list_all_iff)

lemma valid_host_and_path_no_CR: "valid_host_and_path s \<Longrightarrow> CR \<notin> set s"
proof -
  assume s: "valid_host_and_path s"
  let ?P = "\<lambda>c. \<not> (c = CHR ''/'' \<or> c = CHR ''?'')"
  have "CR \<notin> set (takeWhile ?P s)" "CR \<notin> set (dropWhile ?P s)"
    using s host_char_no_CR path_char_no_CR by (auto simp: valid_host_and_path_def Let_def)
  moreover have "set s = set (takeWhile ?P s) \<union> set (dropWhile ?P s)" by (metis set_append takeWhile_dropWhile_id)
  ultimately show ?thesis by blast
qed

lemma isUrlValid_no_CR:
  assumes "isUrlValid u c"
  shows "CR \<notin> set u"
proof (cases u)
  case (Cons a t)
  consider (path) "a = CHR ''/'' \<or> a = CHR ''*''" "list_all is_valid_path_query_char t" | (connect) "valid_host_and_path u"
    | (scheme) rest where "isalpha a" "dropWhile is_scheme_suffix t = rest" "prefix kColonSlashSlash rest"
        "valid_host_and_path (drop (length kColonSlashSlash) rest)"
    using assms Cons by (auto simp: isUrlValid_def Let_def split: if_splits)
  then show ?thesis
  proof cases
    case path
    then show ?thesis using path_char_no_CR Cons by auto
  next
    case connect
    then show ?thesis by (rule valid_host_and_path_no_CR)
  next
    case scheme
    have "rest = kColonSlashSlash @ drop (length kColonSlashSlash) rest" using scheme(3) by (auto simp: prefix_def)
    then have "set rest = set kColonSlashSlash \<union> set (drop (length kColonSlashSlash) rest)" by (metis set_append)
    then have "CR \<notin> set rest" using valid_host_and_path_no_CR [OF scheme(4)] by (auto simp: kColonSlashSlash_def)
    moreover have "CR \<notin> set (takeWhile is_scheme_suffix t)"
      using CR_invalid(3) by (auto dest!: set_takeWhileD)
    moreover have "set t = set (takeWhile is_scheme_suffix t) \<union> set rest" using scheme(2) by (metis set_append takeWhile_dropWhile_id)
    moreover have "a \<noteq> CR" using scheme(1) CR_invalid(4) by metis
    ultimately show ?thesis using Cons by simp
  qed
qed simp

lemma isVersionValid_no_CR:
  assumes "isVersionValid v"
  shows "CR \<notin> set v"
proof (cases "v = []")
  case False
  define w where "w = drop (length kHttpVersionPrefix) v"
  have w: "length w = 3" "isdigit (w ! 0)" "w ! 1 = CHR ''.''" "isdigit (w ! 2)" and pre: "prefix kHttpVersionPrefix v"
    using assms False by (auto simp: isVersionValid_def w_def Let_def split: if_splits)
  obtain a b c where abc: "w = [a, b, c]" using w(1) by (auto simp: numeral_3_eq_3 length_Suc_conv)
  with w CR_invalid(5) have "a \<noteq> CR" "c \<noteq> CR" "b = CHR ''.''" by auto
  with abc have "CR \<notin> set w" by simp
  moreover have "v = kHttpVersionPrefix @ w" using pre by (auto simp: prefix_def w_def)
  ultimately show ?thesis by (auto simp: kHttpVersionPrefix_def)
qed simp

lemma method_no_CR: "m \<in> set kValidMethods \<Longrightarrow> CR \<notin> set m"
  by (auto simp: kValidMethods_def)

section \<open>Properties\<close>

lemma visit_keeps_ok:
  "hp_status (visit lib e p) \<noteq> Parser_Error \<Longrightarrow>
     hp_status (visit lib e p) = (if e = HeaderDoneInput \<or> e = MessageDoneInput then Parser_Ok else hp_status p)"
  by (cases e) (auto simp: OnRequestFirstLineInput_def OnResponseFirstLineInput_def ProcessHeaders_def HeaderDone_def MessageDone_def
      HandleWarning_def version_line_status process_lines_status Let_def split: option.splits if_splits)

lemma visits_status:
  "hp_status (fold (visit lib) es p) \<noteq> Parser_Error \<Longrightarrow>
     hp_status (fold (visit lib) es p) =
       (if HeaderDoneInput \<in> set es \<or> MessageDoneInput \<in> set es then Parser_Ok else hp_status p)"
proof (induction es arbitrary: p)
  case (Cons e es)
  have "hp_status (visit lib e p) \<noteq> Parser_Error" using Cons.prems visits_error_sticky by fastforce
  then show ?case using Cons.prems Cons.IH [of "visit lib e p"] visit_keeps_ok [of lib e p] by (auto split: if_splits)
qed simp

lemma visits_not_error:
  assumes "hp_status p \<noteq> Parser_Error" "\<And>pre e post. es = pre @ e # post \<Longrightarrow> accepts lib (fold (visit lib) pre p) e"
  shows "hp_status (fold (visit lib) es p) \<noteq> Parser_Error"
  using assms
proof (induction es arbitrary: p)
  case (Cons e es)
  have "hp_status (visit lib e p) \<noteq> Parser_Error" using Cons.prems(1) Cons.prems(2) [of "[]" e es] by (simp add: visit_status)
  moreover have "accepts lib (fold (visit lib) pre (visit lib e p)) e'" if "es = pre @ e' # post" for pre e' post
    using Cons.prems(2) [of "e # pre" e' post] that by simp
  ultimately show ?case using Cons.IH [of "visit lib e p"] by simp
qed simp

text \<open>C25: A message is accepted exactly when the end of its header was reached and every callback of the framer was
  acceptable when it was made: a known method, a URL and version of the right form, an authority that splits into
  host and port where one is needed, and no framing error anywhere, before or after the end of the header.\<close>

theorem http_parser_accepts_exactly:
  "fst (snd (Parse lib framer buf HttpRequestParser)) \<longleftrightarrow>
     (HeaderDoneInput \<in> set (fst (framer buf)) \<or> MessageDoneInput \<in> set (fst (framer buf))) \<and>
     (\<forall>pre e post. fst (framer buf) = pre @ e # post \<longrightarrow> accepts lib (fold (visit lib) pre HttpRequestParser) e)"
  (is "?ok \<longleftrightarrow> ?done \<and> ?all")
proof -
  let ?es = "fst (framer buf)" and ?q = "fold (visit lib) (fst (framer buf)) HttpRequestParser"
  have ok: "?ok \<longleftrightarrow> hp_status ?q = Parser_Ok" by (simp add: Parse_def Let_def split_def)
  have start: "hp_status HttpRequestParser = Parser_Paused" by (simp add: HttpRequestParser_def)
  show ?thesis
  proof (cases "hp_status ?q = Parser_Error")
    case True
    then have "\<not> ?all" using visits_not_error [of HttpRequestParser ?es lib] start by auto
    with True ok show ?thesis by simp
  next
    case False
    then have ?all using visits_accept by blast
    with visits_status [OF False] ok start show ?thesis by auto
  qed
qed

text \<open>A library to run the definitions with: no user information, one colon before the port, and absolute
  \<^verbatim>\<open>http\<close> URLs only.\<close>

definition sample_number :: "string \<Rightarrow> int" where
  "sample_number s = fold (\<lambda>c n. 10 * n + (int (of_char c) - 48)) s 0"

definition sample_lib :: http_lib where
  "sample_lib = \<lparr>
     CompareCaseInsensitiveASCII = (\<lambda>a b. if map ascii_lower a = map ascii_lower b then 0 else 1),
     ParseAuthority = (\<lambda>s. let h = takeWhile (\<lambda>c. c \<noteq> CHR '':'') s in
       (\<lparr>cp_begin = 0, cp_len = -1\<rparr>, \<lparr>cp_begin = 0, cp_len = -1\<rparr>, \<lparr>cp_begin = 0, cp_len = int (length h)\<rparr>,
        if h = s then \<lparr>cp_begin = 0, cp_len = -1\<rparr> else \<lparr>cp_begin = int (length h) + 1, cp_len = int (length s) - int (length h) - 1\<rparr>)),
     ParsePort = (\<lambda>s c. sample_number (component_text s c)),
     StringToInt = (\<lambda>s. if list_all isdigit s then Some (sample_number s) else None),
     GURL = (\<lambda>u. let r = dropWhile (\<lambda>c. c \<noteq> CHR ''/'') (drop 7 u); path = takeWhile (\<lambda>c. c \<noteq> CHR ''?'') r; q = drop (length path) r in
       if prefix ''http://'' u then \<lparr>gurl_is_valid = True, gurl_has_host = True, gurl_has_query = (q \<noteq> []), gurl_path = path, gurl_query = drop 1 q\<rparr>
       else \<lparr>gurl_is_valid = False, gurl_has_host = False, gurl_has_query = False, gurl_path = [], gurl_query = []\<rparr>),
     map_order = rev,
     BalsaReset = (\<lambda>_. \<lparr>bh_lines = [], bh_content_length = 0, bh_chunked = False\<rparr>)\<rparr>"

definition sample_headers :: balsa_headers where
  "sample_headers = \<lparr>bh_lines = [(''Host'', ''a:81''), (''Proxy-Connection'', ''x''), (''Via'', ''1''), (''Via'', ''2'')],
     bh_content_length = 0, bh_chunked = False\<rparr>"

definition sample_framer :: balsa_framer where
  "sample_framer = (\<lambda>_. ([RequestFirstLineInput ''GET'' ''http://a/b'' ''HTTP/1.1'', ProcessHeadersInput sample_headers, HeaderDoneInput], 70))"

lemma sample_accepted: "fst (snd (Parse sample_lib sample_framer [] HttpRequestParser)) = True"
  by code_simp

theorem http_parser_accepts_exactly_witness:
  "fst (snd (Parse sample_lib sample_framer [] HttpRequestParser)) \<and>
   accepts sample_lib HttpRequestParser (RequestFirstLineInput ''GET'' ''http://a/b'' ''HTTP/1.1'')"
proof -
  have ok: "fst (snd (Parse sample_lib sample_framer [] HttpRequestParser))" by (simp add: sample_accepted)
  have evs: "fst (sample_framer []) = [] @ RequestFirstLineInput ''GET'' ''http://a/b'' ''HTTP/1.1'' # [ProcessHeadersInput sample_headers, HeaderDoneInput]"
    by (simp add: sample_framer_def)
  from ok http_parser_accepts_exactly [of sample_lib sample_framer "[]"] evs
  have "accepts sample_lib (fold (visit sample_lib) [] HttpRequestParser) (RequestFirstLineInput ''GET'' ''http://a/b'' ''HTTP/1.1'')"
    by blast
  with ok show ?thesis by simp
qed

lemma OnRequestFirstLineInput_fields:
  assumes "hp_status (OnRequestFirstLineInput lib m u v HttpRequestParser) \<noteq> Parser_Error"
  shows "hp_method (OnRequestFirstLineInput lib m u v HttpRequestParser) = m \<and> http_url (OnRequestFirstLineInput lib m u v HttpRequestParser) = u \<and>
    hp_version_input (OnRequestFirstLineInput lib m u v HttpRequestParser) = v \<and> http_headers (OnRequestFirstLineInput lib m u v HttpRequestParser) = []"
  using assms by (auto simp: OnRequestFirstLineInput_def HttpRequestParser_def version_line_def Let_def split: option.splits if_splits)

lemma rest_of_message:
  "set es \<subseteq> {HeaderDoneInput, MessageDoneInput, OtherInput} \<Longrightarrow>
     hp_method (fold (visit lib) es p) = hp_method p \<and> http_url (fold (visit lib) es p) = http_url p \<and>
     hp_version_input (fold (visit lib) es p) = hp_version_input p \<and> http_headers (fold (visit lib) es p) = http_headers p"
  by (induction es arbitrary: p) (auto simp: HeaderDone_def MessageDone_def)

lemma accepted_request_fields:
  assumes "fst (framer buf) = RequestFirstLineInput m u v # ProcessHeadersInput h # HeaderDoneInput # post"
    "set post \<subseteq> {MessageDoneInput, OtherInput}" "Parse lib framer buf HttpRequestParser = (n, True, p)"
  shows "hp_method p = m" "http_url p = u" "hp_version_input p = v" "m \<in> set kValidMethods" "isUrlValid u (same_name lib m ''CONNECT'')"
    "isVersionValid v" "map_of (http_headers p) = map_of (rev (bh_lines h))" "distinct (map fst (http_headers p))"
proof -
  let ?p1 = "OnRequestFirstLineInput lib m u v HttpRequestParser"
  let ?p2 = "ProcessHeaders lib h ?p1"
  have p: "p = fold (visit lib) (HeaderDoneInput # post) ?p2" and ok: "hp_status p \<noteq> Parser_Error"
    using assms(1,3) by (auto simp: Parse_def Let_def split_def)
  have s2: "hp_status ?p2 \<noteq> Parser_Error" using ok visits_error_sticky [of ?p2 lib "HeaderDoneInput # post"] by (auto simp: p)
  then have s1: "hp_status ?p1 \<noteq> Parser_Error" using visit_error_sticky [of ?p1 lib "ProcessHeadersInput h"] by auto
  note f1 = OnRequestFirstLineInput_fields [OF s1]
  have f2: "hp_method ?p2 = m \<and> http_url ?p2 = u \<and> hp_version_input ?p2 = v"
    using f1 by (simp add: ProcessHeaders_def process_lines_fields)
  have f3: "hp_method p = hp_method ?p2 \<and> http_url p = http_url ?p2 \<and> hp_version_input p = hp_version_input ?p2 \<and> http_headers p = http_headers ?p2"
    unfolding p using assms(2) by (intro rest_of_message) auto
  show "hp_method p = m" "http_url p = u" "hp_version_input p = v" using f2 f3 by auto
  have "accepts lib HttpRequestParser (RequestFirstLineInput m u v)"
    using s1 visit_status [of HttpRequestParser lib "RequestFirstLineInput m u v"] by (simp add: HttpRequestParser_def)
  then show "m \<in> set kValidMethods" "isUrlValid u (same_name lib m ''CONNECT'')" "isVersionValid v" by auto
  have "map_of (http_headers ?p2) = map_of (rev (bh_lines h))" and "distinct (map fst (http_headers ?p2))"
    using process_lines_map [of lib "bh_lines h" "?p1\<lparr>hp_headers := h\<rparr>"] process_lines_distinct [of "?p1\<lparr>hp_headers := h\<rparr>" lib "bh_lines h"] s2 f1
    by (auto simp: ProcessHeaders_def)
  then show "map_of (http_headers p) = map_of (rev (bh_lines h))" "distinct (map fst (http_headers p))" using f3 by auto
qed

lemma forwarded_perm: "mset xs = mset ys \<Longrightarrow> forwarded lib xs = forwarded lib ys"
  by (auto simp: forwarded_def fun_eq_iff dest: mset_eq_setD)

lemma ascii_lower_names: "map ascii_lower ''Proxy-Connection'' = ''proxy-connection''" "map ascii_lower ''Proxy-Authorization'' = ''proxy-authorization''"
  by code_simp+

lemma forwarded_names:
  "compares_ascii lib \<Longrightarrow> forwarded lib additional (k, x) \<longleftrightarrow>
     map ascii_lower k \<noteq> ''proxy-connection'' \<and> map ascii_lower k \<noteq> ''proxy-authorization'' \<and> k \<notin> fst ` set additional"
  unfolding forwarded_def compares_ascii_def fst_conv ascii_lower_names [symmetric] by blast

lemma canonical_uri_no_CR:
  assumes "CR \<notin> set u" "CR \<notin> set (gurl_path (GURL lib u))" "CR \<notin> set (gurl_query (GURL lib u))"
  shows "CR \<notin> set (canonical_uri lib u)"
  using assms by (auto simp: canonical_uri_def Let_def)

lemma read_target_parts:
  assumes "CHR ''?'' \<notin> set p"
  shows "read_target p = (p, None)" "read_target (p @ ''?'' @ q) = (p, Some q)"
proof -
  have d: "takeWhile (\<lambda>c. c \<noteq> CHR ''?'') p = p" "dropWhile (\<lambda>c. c \<noteq> CHR ''?'') p = []"
    using assms by (auto simp: takeWhile_eq_all_conv)
  show "read_target p = (p, None)" unfolding read_target_def d by simp
  show "read_target (p @ ''?'' @ q) = (p, Some q)"
    using assms by (subst read_target_def, subst takeWhile_append2, fastforce, subst dropWhile_append2, fastforce) simp
qed

text \<open>C26: A request that was parsed is written again so that a reader of HTTP/1 finds, in front of the unchanged body,
  the method and the version that were received, a target whose path and query are those of the URL (the target as
  received when it is not a URL with a host), and exactly these fields: the additional ones, and for every other field
  name of the request, except \<^verbatim>\<open>Proxy-Connection\<close> and \<^verbatim>\<open>Proxy-Authorization\<close> in any case, the value it had last. So the
  credentials for the proxy never reach the origin server, and a field that occurs more than once is forwarded only once.
  Of the URL library it is used that neither component has a line break and the path no question mark.\<close>

theorem http_request_forwarded:
  assumes "fst (framer buf) = RequestFirstLineInput m u v # ProcessHeadersInput h # HeaderDoneInput # post"
    and "set post \<subseteq> {MessageDoneInput, OtherInput}"
    and "Parse lib framer buf HttpRequestParser = (n, True, p)"
    and order: "\<And>hs. mset (map_order lib hs) = mset hs"
    and clean: "\<And>kv. kv \<in> set (bh_lines h) \<union> set additional \<Longrightarrow> clean_field kv"
    and gurl: "CR \<notin> set (gurl_path (GURL lib u))" "CR \<notin> set (gurl_query (GURL lib u))" "CHR ''?'' \<notin> set (gurl_path (GURL lib u))"
    and "distinct (map fst additional)" "compares_ascii lib"
  shows "\<exists>t ls. read_head (ReforgeHttpRequest lib (Some additional) p @ body) = Some ((m @ '' '' @ t @ '' '' @ v) # ls, body) \<and>
    (if gurl_is_valid (GURL lib u) \<and> gurl_has_host (GURL lib u)
     then read_target t = (gurl_path (GURL lib u), if gurl_has_query (GURL lib u) then Some (gurl_query (GURL lib u)) else None)
     else t = u) \<and>
    distinct (map fst (map read_field ls)) \<and>
    set (map read_field ls) = set additional \<union> {(k, x). map_of (rev (bh_lines h)) k = Some x \<and> k \<notin> fst ` set additional \<and>
      map ascii_lower k \<noteq> ''proxy-connection'' \<and> map ascii_lower k \<noteq> ''proxy-authorization''}"
proof -
  note f = accepted_request_fields [OF assms(1-3)]
  let ?first = "m @ '' '' @ canonical_uri lib u @ '' '' @ v"
  define fs where "fs = filter (forwarded lib additional) (map_order lib (http_headers p)) @ map_order lib additional"
  have reforged: "ReforgeHttpRequest lib (Some additional) p = ?first @ crlf @ concat (map header_line fs) @ crlf"
    using f forwarded_perm [OF order, of lib] by (simp add: ReforgeHttpRequest_def ReforgeHttpRequestImpl_def fs_def)
  have kept: "(k, x) \<in> set (http_headers p) \<longleftrightarrow> map_of (rev (bh_lines h)) k = Some x" for k x
    using f(7,8) by (metis map_of_eq_Some_iff)
  have sets: "set (map_order lib hs) = set hs" for hs using order by (metis set_mset_mset)
  have fset: "set fs = set additional \<union> {(k, x). map_of (rev (bh_lines h)) k = Some x \<and> k \<notin> fst ` set additional \<and>
      map ascii_lower k \<noteq> ''proxy-connection'' \<and> map ascii_lower k \<noteq> ''proxy-authorization''}"
  proof -
    have "{kv \<in> set (http_headers p). forwarded lib additional kv} = {(k, x). map_of (rev (bh_lines h)) k = Some x \<and> k \<notin> fst ` set additional \<and>
        map ascii_lower k \<noteq> ''proxy-connection'' \<and> map ascii_lower k \<noteq> ''proxy-authorization''}"
      by (simp only: set_eq_iff mem_Collect_eq split_paired_All prod.case kept forwarded_names [OF assms(10)] conj_ac simp_thms)
    then show ?thesis unfolding fs_def set_append set_filter sets by (simp only: Un_commute)
  qed
  have "distinct (map fst (map_order lib hs))" if "distinct (map fst hs)" for hs :: header_map
    using that order [of hs] mset_eq_imp_distinct_iff [of "map fst (map_order lib hs)" "map fst hs"] by simp
  then have dist: "distinct (map fst fs)"
    using f(8) assms(9) by (auto simp: fs_def distinct_map_filter sets forwarded_def)
  have "\<forall>kv \<in> set fs. clean_field kv"
    using clean by (auto simp: fset dest!: map_of_SomeD)
  moreover have "CR \<notin> set ?first"
    using f method_no_CR isVersionValid_no_CR canonical_uri_no_CR [OF isUrlValid_no_CR gurl(1,2)] by auto
  ultimately obtain ls where "read_head (?first @ crlf @ concat (map header_line fs) @ crlf @ body) = Some (?first # ls, body)" "map read_field ls = fs"
    using read_head_fields [of ?first fs body] by auto
  moreover have "if gurl_is_valid (GURL lib u) \<and> gurl_has_host (GURL lib u)
     then read_target (canonical_uri lib u) = (gurl_path (GURL lib u), if gurl_has_query (GURL lib u) then Some (gurl_query (GURL lib u)) else None)
     else canonical_uri lib u = u"
    using read_target_parts [OF gurl(3)] by (simp add: canonical_uri_def Let_def)
  ultimately show ?thesis using dist fset by (intro exI [of _ "canonical_uri lib u"] exI [of _ ls]) (simp add: reforged)
qed

definition sample_query :: balsa_framer where
  "sample_query = (\<lambda>_. ([RequestFirstLineInput ''GET'' ''http://a/b?c'' ''HTTP/1.1'', ProcessHeadersInput (sample_headers\<lparr>bh_lines :=
     (''proxy-AUTHORIZATION'', ''Basic'') # bh_lines sample_headers\<rparr>), HeaderDoneInput, MessageDoneInput], 70))"

lemma sample_lib_compares: "compares_ascii sample_lib"
  by (simp add: compares_ascii_def sample_lib_def)

theorem http_request_forwarded_witness:
  "\<exists>p t ls. Parse sample_lib sample_query [] HttpRequestParser = (70, True, p) \<and>
    read_head (ReforgeHttpRequest sample_lib (Some [(''Connection'', ''Close'')]) p @ ''body'') = Some ((''GET '' @ t @ '' HTTP/1.1'') # ls, ''body'') \<and>
    read_target t = (''/b'', Some ''c'') \<and> (''Via'', ''2'') \<in> set (map read_field ls) \<and> (''Via'', ''1'') \<notin> set (map read_field ls) \<and>
    (''proxy-AUTHORIZATION'', ''Basic'') \<notin> set (map read_field ls) \<and> (''Connection'', ''Close'') \<in> set (map read_field ls)"
proof -
  let ?r = "Parse sample_lib sample_query [] HttpRequestParser"
  let ?h = "sample_headers\<lparr>bh_lines := (''proxy-AUTHORIZATION'', ''Basic'') # bh_lines sample_headers\<rparr>" and ?u = "''http://a/b?c''"
  have "fst ?r = 70" by (simp add: Parse_def sample_query_def Let_def)
  moreover have "fst (snd ?r) = True" by code_simp
  ultimately have r: "?r = (70, True, snd (snd ?r))" by (metis prod.collapse)
  have evs: "fst (sample_query []) = RequestFirstLineInput ''GET'' ?u ''HTTP/1.1'' # ProcessHeadersInput ?h # HeaderDoneInput # [MessageDoneInput]"
    by (simp add: sample_query_def)
  have order: "\<And>hs. mset (map_order sample_lib hs) = mset hs" by (simp add: sample_lib_def)
  have "list_all clean_field (bh_lines ?h @ [(''Connection'', ''Close'')])" by code_simp
  then have clean: "\<And>kv. kv \<in> set (bh_lines ?h) \<union> set [(''Connection'', ''Close'')] \<Longrightarrow> clean_field kv"
    unfolding list_all_iff by (metis set_append)
  have g: "GURL sample_lib ?u = \<lparr>gurl_is_valid = True, gurl_has_host = True, gurl_has_query = True, gurl_path = ''/b'', gurl_query = ''c''\<rparr>" by code_simp
  have gurl: "CR \<notin> set (gurl_path (GURL sample_lib ?u))" "CR \<notin> set (gurl_query (GURL sample_lib ?u))" "CHR ''?'' \<notin> set (gurl_path (GURL sample_lib ?u))"
    by code_simp+
  have rest: "set [MessageDoneInput] \<subseteq> {MessageDoneInput, OtherInput}" "distinct (map fst [(''Connection'', ''Close'')])" by simp_all
  have vals: "map_of (rev (bh_lines ?h)) ''Via'' = Some ''2''" "map ascii_lower ''Via'' = ''via''" "map ascii_lower ''proxy-AUTHORIZATION'' = ''proxy-authorization''"
    by code_simp+
  obtain t ls where "read_head (ReforgeHttpRequest sample_lib (Some [(''Connection'', ''Close'')]) (snd (snd ?r)) @ ''body'') =
      Some ((''GET'' @ '' '' @ t @ '' '' @ ''HTTP/1.1'') # ls, ''body'')" "read_target t = (''/b'', Some ''c'')" and
    ls: "set (map read_field ls) = set [(''Connection'', ''Close'')] \<union> {(k, x). map_of (rev (bh_lines ?h)) k = Some x \<and> k \<notin> fst ` set [(''Connection'', ''Close'')] \<and>
      map ascii_lower k \<noteq> ''proxy-connection'' \<and> map ascii_lower k \<noteq> ''proxy-authorization''}"
    using http_request_forwarded [OF evs rest(1) r order clean gurl rest(2) sample_lib_compares, where body = "''body''"] unfolding g by auto
  moreover have "(''Via'', ''1'') \<notin> set (map read_field ls)" "(''Via'', ''2'') \<in> set (map read_field ls)" "(''Connection'', ''Close'') \<in> set (map read_field ls)"
      "(''proxy-AUTHORIZATION'', ''Basic'') \<notin> set (map read_field ls)"
    unfolding ls using vals by simp_all
  ultimately show ?thesis using r by auto
qed

end
