(* ===== verification/Base64.thy ===== *)
theory Base64
  imports Yass_Prelude
begin

text \<open>
  Base64 as the proxy uses it for credentials: \<^verbatim>\<open>net/base64.cpp\<close> over the bundled \<^verbatim>\<open>modp_b64\<close>, and the two functions of
  the connections that put a user name and a password into a \<^verbatim>\<open>Proxy-Authorization\<close> field and check it.

  The encoding tables \<open>e0\<close> to \<open>e2\<close> and the little-endian decoding tables \<open>d0\<close> to \<open>d3\<close> are written as the formulas
  their 256 entries follow. A table entry is an unsigned 32-bit number far below \<open>2 ^ 32\<close>, here a natural number.
\<close>

section \<open>Tables\<close>

definition bytes_of :: "string \<Rightarrow> byte list" where
  "bytes_of s = map (\<lambda>c. of_nat (of_char c)) s"

definition text_of :: "byte list \<Rightarrow> string" where
  "text_of bs = map (\<lambda>b. char_of (unat b)) bs"

definition alphabet :: "byte list" where
  "alphabet = bytes_of ''ABCDEFGHIJKLMNOPQRSTUVWXYZabcdefghijklmnopqrstuvwxyz0123456789+/''"

definition CHARPAD :: byte where
  "CHARPAD = 0x3D"

definition BADCHAR :: nat where
  "BADCHAR = 0x01FFFFFF"

definition e0 :: "nat \<Rightarrow> byte" where
  "e0 i = alphabet ! (i div 4)"

definition e1 :: "nat \<Rightarrow> byte" where
  "e1 i = alphabet ! (i mod 64)"

definition e2 :: "nat \<Rightarrow> byte" where
  "e2 i = alphabet ! (i mod 64)"

primrec position :: "'a \<Rightarrow> 'a list \<Rightarrow> nat option" where
  "position x [] = None"
| "position x (y # ys) = (if x = y then Some 0 else map_option Suc (position x ys))"

definition d_entry :: "(nat \<Rightarrow> nat) \<Rightarrow> byte \<Rightarrow> nat" where
  "d_entry f c = (case position c alphabet of None \<Rightarrow> BADCHAR | Some v \<Rightarrow> f v)"

definition d0 :: "byte \<Rightarrow> nat" where
  "d0 = d_entry (\<lambda>v. push_bit 2 v)"

definition d1 :: "byte \<Rightarrow> nat" where
  "d1 = d_entry (\<lambda>v. drop_bit 4 v OR push_bit 12 (v AND 15))"

definition d2 :: "byte \<Rightarrow> nat" where
  "d2 = d_entry (\<lambda>v. push_bit 8 (drop_bit 2 v) OR push_bit 22 (v AND 3))"

definition d3 :: "byte \<Rightarrow> nat" where
  "d3 = d_entry (\<lambda>v. push_bit 16 v)"

section \<open>Encoding\<close>

definition idx2 :: "byte \<Rightarrow> byte \<Rightarrow> nat" where
  "idx2 t1 t2 = push_bit 4 (unat t1 AND 0x03) OR (drop_bit 4 (unat t2) AND 0x0F)"

definition idx3 :: "byte \<Rightarrow> byte \<Rightarrow> nat" where
  "idx3 t2 t3 = push_bit 2 (unat t2 AND 0x0F) OR (drop_bit 6 (unat t3) AND 0x03)"

fun modp_b64_encode_data :: "byte list \<Rightarrow> byte list" where
  "modp_b64_encode_data (t1 # t2 # t3 # rest) = [e0 (unat t1), e1 (idx2 t1 t2), e1 (idx3 t2 t3), e2 (unat t3)] @ modp_b64_encode_data rest"
| "modp_b64_encode_data [t1, t2] = [e0 (unat t1), e1 (idx2 t1 t2), e2 (push_bit 2 (unat t2 AND 0x0F)), CHARPAD]"
| "modp_b64_encode_data [t1] = [e0 (unat t1), e1 (push_bit 4 (unat t1 AND 0x03)), CHARPAD, CHARPAD]"
| "modp_b64_encode_data [] = []"

definition modp_b64_encode_data_len :: "nat \<Rightarrow> nat" where
  "modp_b64_encode_data_len a = (a + 2) div 3 * 4"

definition MODP_B64_MAX_INPUT_LEN :: nat where
  "MODP_B64_MAX_INPUT_LEN = (2 ^ 64 - 1 - 1) div 4 * 3"

text \<open>The output string is enlarged to the computed length; the encoder writes behind the old text, and a length
  that differs aborts.\<close>

definition Base64EncodeAppend :: "byte list \<Rightarrow> byte list \<Rightarrow> byte list option" where
  "Base64EncodeAppend input output =
     (if length input > MODP_B64_MAX_INPUT_LEN then None
      else let encoded = modp_b64_encode_data input;
               resized = output @ replicate (modp_b64_encode_data_len (length input)) 0
           in do { written \<leftarrow> mem_write resized (length output) encoded;
                   if length resized = length output + length encoded then Some written else None })"

definition Base64Encode :: "byte list \<Rightarrow> byte list option" where
  "Base64Encode input = Base64EncodeAppend input []"

section \<open>Decoding\<close>

datatype decode_policy = kStrict | kForgiving | kNoPaddingValidation

primrec strip_padding :: "byte list \<Rightarrow> nat \<Rightarrow> nat" where
  "strip_padding src 0 = 0"
| "strip_padding src (Suc n) = (if src ! n = CHARPAD then strip_padding src n else Suc n)"

text \<open>\<^const>\<open>None\<close> is \<^verbatim>\<open>MODP_B64_ERROR\<close>. The caller passes a positive length.\<close>

definition do_decode_padding :: "byte list \<Rightarrow> nat \<Rightarrow> decode_policy \<Rightarrow> nat option" where
  "do_decode_padding src n policy =
     (let rem = n mod 4;
          n1 = (if policy = kNoPaddingValidation then strip_padding src n
                else if rem = 0 \<and> src ! (n - 1) = CHARPAD
                     then (if src ! (n - 2) = CHARPAD then n - 2 else n - 1) else n)
      in if policy = kStrict \<and> (rem \<noteq> 0 \<or> n < 4) then None
         else if n1 mod 4 = 1 then None else Some n1)"

definition byte_at :: "nat \<Rightarrow> nat \<Rightarrow> byte" where
  "byte_at x k = of_nat (drop_bit (8 * k) x)"

primrec decode_chunks :: "nat \<Rightarrow> byte list \<Rightarrow> (byte list \<times> byte list) option" where
  "decode_chunks 0 y = Some ([], y)"
| "decode_chunks (Suc n) y =
     (let x = d0 (y ! 0) OR d1 (y ! 1) OR d2 (y ! 2) OR d3 (y ! 3) in
      if x \<ge> BADCHAR then None
      else do { (out, y') \<leftarrow> decode_chunks n (drop 4 y);
                Some ([byte_at x 0, byte_at x 1, byte_at x 2] @ out, y') })"

definition decode_tail :: "nat \<Rightarrow> byte list \<Rightarrow> byte list option" where
  "decode_tail leftover y =
     (let (x, out) =
        (if leftover = 0 then let x = d0 (y ! 0) OR d1 (y ! 1) OR d2 (y ! 2) OR d3 (y ! 3) in (x, [byte_at x 0, byte_at x 1, byte_at x 2])
         else if leftover = 1 then let x = d0 (y ! 0) in (x, [])
         else if leftover = 2 then let x = d0 (y ! 0) OR d1 (y ! 1) in (x, [byte_at x 0])
         else let x = d0 (y ! 0) OR d1 (y ! 1) OR d2 (y ! 2) in (x, [byte_at x 0, byte_at x 1]))
      in if x \<ge> BADCHAR then None else Some out)"

definition modp_b64_decode :: "byte list \<Rightarrow> decode_policy \<Rightarrow> byte list option" where
  "modp_b64_decode src policy =
     (if src = [] then Some []
      else do {
        n \<leftarrow> do_decode_padding src (length src) policy;
        if n = 0 then Some []
        else let leftover = n mod 4; chunks = (if leftover = 0 then n div 4 - 1 else n div 4) in
          do { (out, y) \<leftarrow> decode_chunks chunks src;
               t \<leftarrow> decode_tail leftover y;
               Some (out @ t) } })"

definition modp_b64_decode_len :: "nat \<Rightarrow> nat" where
  "modp_b64_decode_len a = a div 4 * 3 + 2"

text \<open>\<open>strip_whitespace\<close> is \<^verbatim>\<open>RemoveChars\<close> of the base library with the ASCII whitespace of the Infra standard.\<close>

definition Base64Decode :: "(byte list \<Rightarrow> byte list) \<Rightarrow> byte list \<Rightarrow> decode_policy \<Rightarrow> byte list option" where
  "Base64Decode strip_whitespace input policy =
     (case modp_b64_decode input policy of
        Some out \<Rightarrow> Some out
      | None \<Rightarrow> if policy = kForgiving then modp_b64_decode (strip_whitespace input) policy else None)"

text \<open>The overload that returns a vector decodes with the default policy.\<close>

definition Base64Decode_vector :: "byte list \<Rightarrow> byte list option" where
  "Base64Decode_vector input = modp_b64_decode input kStrict"

section \<open>Credentials\<close>

definition GetProxyAuthorizationIdentity :: "byte list \<Rightarrow> byte list \<Rightarrow> byte list option" where
  "GetProxyAuthorizationIdentity user pass = Base64Encode (user @ bytes_of '':'' @ pass)"

definition kBasicAuthPrefix :: "byte list" where
  "kBasicAuthPrefix = bytes_of ''basic ''"

text \<open>\<open>to_lower\<close> is \<^verbatim>\<open>ToLowerASCII\<close> of the base library.\<close>

definition VerifyProxyAuthorizationIdentity ::
    "(byte list \<Rightarrow> byte list) \<Rightarrow> (byte list \<Rightarrow> byte list) \<Rightarrow> byte list \<Rightarrow> byte list \<Rightarrow> byte list \<Rightarrow> bool" where
  "VerifyProxyAuthorizationIdentity to_lower strip_whitespace auth user pass =
     (if length auth \<le> length kBasicAuthPrefix then False
      else if to_lower (take (length kBasicAuthPrefix) auth) \<noteq> kBasicAuthPrefix then False
      else case Base64Decode strip_whitespace (drop (length kBasicAuthPrefix) auth) kForgiving of
             None \<Rightarrow> False
           | Some p \<Rightarrow> p = user @ bytes_of '':'' @ pass)"

section \<open>One group of four characters\<close>

lemma position_nth: "distinct xs \<Longrightarrow> i < length xs \<Longrightarrow> position (xs ! i) xs = Some i"
proof (induction xs arbitrary: i)
  case (Cons y ys)
  then show ?case by (cases i) auto
qed simp

lemma alphabet_facts: "distinct alphabet" "length alphabet = 64" "CHARPAD \<notin> set alphabet"
  by code_simp+

lemma d_entry_alphabet: "v < 64 \<Longrightarrow> d_entry f (alphabet ! v) = f v"
  using position_nth [of alphabet v] alphabet_facts by (simp add: d_entry_def)

lemma or_push:
  assumes "w < 2 ^ k"
  shows "push_bit k v OR w = 2 ^ k * v + (w :: nat)"
proof -
  have "\<not> bit (push_bit k v) n \<or> \<not> bit w n" for n
    using assms by (metis bit_push_bit_iff bit_take_bit_iff not_le take_bit_nat_eq_self)
  then have "push_bit k v + w = push_bit k v OR w" by (rule disjunctive_add)
  then show ?thesis by (simp add: push_bit_eq_mult mult.commute)
qed

lemma unat_byte: "unat (t :: byte) < 256"
  using unsigned_less [of t] by simp

lemma and_mask: "(x :: nat) AND 15 = x mod 16" "x AND 3 = x mod 4"
  using take_bit_eq_mask [of 4 x] take_bit_eq_mask [of 2 x] by (simp_all add: take_bit_eq_mod mask_eq_exp_minus_1)

lemma group_value:
  assumes "v0 < 64" "v1 < 64" "v2 < 64" "v3 < (64 :: nat)"
  shows "push_bit 2 v0 OR (drop_bit 4 v1 OR push_bit 12 (v1 AND 15)) OR (push_bit 8 (drop_bit 2 v2) OR push_bit 22 (v2 AND 3)) OR push_bit 16 v3
    = 65536 * (64 * (v2 mod 4) + v3) + 256 * (16 * (v1 mod 16) + v2 div 4) + (4 * v0 + v1 div 16)" (is "?x = _")
proof -
  define a where "a = push_bit 2 v0 OR v1 div 16"
  define b where "b = push_bit 4 (v1 mod 16) OR v2 div 4"
  define c where "c = push_bit 6 (v2 mod 4) OR v3"
  have abc: "a = 4 * v0 + v1 div 16" "b = 16 * (v1 mod 16) + v2 div 4" "c = 64 * (v2 mod 4) + v3"
    using assms or_push [of "v1 div 16" 2 v0] or_push [of "v2 div 4" 4 "v1 mod 16"] or_push [of v3 6 "v2 mod 4"]
    by (auto simp: a_def b_def c_def)
  have small: "a < 2 ^ 8" "b < 2 ^ 8" using assms abc by auto
  have "?x = push_bit 16 c OR (push_bit 8 b OR a)"
    by (simp add: a_def b_def c_def and_mask drop_bit_eq_div push_bit_or ac_simps)
  also have "push_bit 8 b OR a = 256 * b + a" using or_push [OF small(1), of b] by simp
  also have "push_bit 16 c OR (256 * b + a) = 65536 * c + (256 * b + a)" using small or_push [of "256 * b + a" 16 c] by simp
  finally show ?thesis using abc by simp
qed

lemma idx_values: "idx2 t1 t2 = 16 * (unat t1 mod 4) + unat t2 div 16" "idx3 t2 t3 = 4 * (unat t2 mod 16) + unat t3 div 64"
proof -
  have "unat t div 16 < 16" "unat t div 64 < 4" for t :: byte using unat_byte [of t] by (auto simp: less_mult_imp_div_less)
  then show "idx2 t1 t2 = 16 * (unat t1 mod 4) + unat t2 div 16" "idx3 t2 t3 = 4 * (unat t2 mod 16) + unat t3 div 64"
    using or_push [of "unat t2 div 16" 4 "unat t1 mod 4"] or_push [of "unat t3 div 64" 2 "unat t2 mod 16"]
    by (simp_all add: idx2_def idx3_def and_mask drop_bit_eq_div)
qed

text \<open>The value of the four characters that stand for three bytes.\<close>

definition group_of :: "byte list \<Rightarrow> nat" where
  "group_of y = d0 (y ! 0) OR d1 (y ! 1) OR d2 (y ! 2) OR d3 (y ! 3)"



lemma group_encoded:
  "group_of [e0 (unat t1), e1 (idx2 t1 t2), e1 (idx3 t2 t3), e2 (unat t3)] = 65536 * unat t3 + 256 * unat t2 + unat t1"
proof -
  have t: "unat t1 < 256" "unat t2 < 256" "unat t3 < 256" by (rule unat_byte)+
  let ?v1 = "16 * (unat t1 mod 4) + unat t2 div 16" and ?v2 = "4 * (unat t2 mod 16) + unat t3 div 64"
  have lt: "unat t1 div 4 < 64" "?v1 < 64" "?v2 < 64" "unat t3 mod 64 < 64" using t by (auto simp: less_mult_imp_div_less)
  have "group_of [e0 (unat t1), e1 (idx2 t1 t2), e1 (idx3 t2 t3), e2 (unat t3)] =
    65536 * (64 * (?v2 mod 4) + unat t3 mod 64) + 256 * (16 * (?v1 mod 16) + ?v2 div 4) + (4 * (unat t1 div 4) + ?v1 div 16)"
    using group_value [OF lt] lt by (simp add: group_of_def e0_def e1_def e2_def idx_values d0_def d1_def d2_def d3_def d_entry_alphabet or.assoc)
  moreover have "?v2 mod 4 = unat t3 div 64" "?v2 div 4 = unat t2 mod 16" "?v1 mod 16 = unat t2 div 16" "?v1 div 16 = unat t1 mod 4"
    using t by (auto simp: less_mult_imp_div_less)
  moreover have "64 * (unat t3 div 64) + unat t3 mod 64 = unat t3" "16 * (unat t2 div 16) + unat t2 mod 16 = unat t2"
    "4 * (unat t1 div 4) + unat t1 mod 4 = unat t1" by simp_all
  ultimately show ?thesis by (simp only:)
qed

lemma bytes_of_group:
  fixes t1 t2 t3 :: byte
  defines "x \<equiv> 65536 * unat t3 + 256 * unat t2 + unat t1"
  shows "byte_at x 0 = t1" "byte_at x 1 = t2" "byte_at x 2 = t3" "x < BADCHAR"
proof -
  have t: "unat t1 < 256" "unat t2 < 256" "unat t3 < 256" by (rule unat_byte)+
  have z: "(256 :: byte) = 0" by simp
  have "(of_nat (256 * n + unat t) :: byte) = 256 * of_nat n + t" for n and t :: byte by simp
  then have "(of_nat (256 * n + unat t) :: byte) = t" for n and t :: byte by (simp only: z mult_zero_left add_0)
  then have byte: "(of_nat m :: byte) = t" if "m = 256 * n + unat t" for m n and t :: byte using that by blast
  show "byte_at x 0 = t1" unfolding byte_at_def by (intro byte [of _ "256 * unat t3 + unat t2"]) (simp add: x_def)
  have "x div 256 = 256 * unat t3 + unat t2" using t by (simp add: x_def)
  then show "byte_at x 1 = t2" unfolding byte_at_def by (intro byte [of _ "unat t3"]) (simp add: drop_bit_eq_div)
  have "x div 65536 = unat t3" using t by (simp add: x_def)
  then show "byte_at x 2 = t3" unfolding byte_at_def by (intro byte [of _ 0]) (simp add: drop_bit_eq_div)
  show "x < BADCHAR" using t by (simp add: x_def BADCHAR_def)
qed

section \<open>Round trip\<close>

lemma d_of_zero: "d2 (e1 0) = 0" "d3 (e2 0) = 0" "e2 i = e1 i" "idx2 t 0 = push_bit 4 (unat t AND 3)" "idx3 t 0 = push_bit 2 (unat t AND 15)" "idx3 0 0 = 0"
  using d_entry_alphabet [of 0] by (simp_all add: e1_def e2_def d2_def d3_def idx2_def idx3_def)

lemma group_two: "d0 (e0 (unat t1)) OR d1 (e1 (idx2 t1 t2)) OR d2 (e2 (push_bit 2 (unat t2 AND 15))) = 256 * unat t2 + unat t1"
  using group_encoded [of t1 t2 0] d_of_zero by (simp add: group_of_def)

lemma group_one: "d0 (e0 (unat t1)) OR d1 (e1 (push_bit 4 (unat t1 AND 3))) = unat (t1 :: byte)"
  using group_encoded [of t1 0 0] d_of_zero by (simp add: group_of_def)

lemma encode_length: "length (modp_b64_encode_data xs) = modp_b64_encode_data_len (length xs)"
proof (induction xs rule: modp_b64_encode_data.induct)
  case (1 t1 t2 t3 rest)
  have "(length (t1 # t2 # t3 # rest) + 2) div 3 = Suc ((length rest + 2) div 3)" by simp
  with 1 show ?case by (simp add: modp_b64_encode_data_len_def)
qed (simp_all add: modp_b64_encode_data_len_def)

lemma triples_cases:
  assumes "length ys = 3 * Suc n"
  obtains t1 t2 t3 zs where "ys = t1 # t2 # t3 # zs" "length zs = 3 * n"
  using assms by (auto simp: numeral_3_eq_3 length_Suc_conv)

lemma encode_append: "length ys = 3 * n \<Longrightarrow> modp_b64_encode_data (ys @ zs) = modp_b64_encode_data ys @ modp_b64_encode_data zs"
proof (induction n arbitrary: ys)
  case (Suc n)
  obtain t1 t2 t3 us where "ys = t1 # t2 # t3 # us" "length us = 3 * n" using Suc.prems by (rule triples_cases)
  then show ?case using Suc.IH [of us] by simp
qed simp

lemma decode_chunks_encoded: "length ys = 3 * n \<Longrightarrow> decode_chunks n (modp_b64_encode_data ys @ r) = Some (ys, r)"
proof (induction n arbitrary: ys)
  case (Suc n)
  obtain t1 t2 t3 zs where ys: "ys = t1 # t2 # t3 # zs" "length zs = 3 * n" using Suc.prems by (rule triples_cases)
  let ?y = "modp_b64_encode_data ys @ r"
  have "d0 (?y ! 0) OR d1 (?y ! 1) OR d2 (?y ! 2) OR d3 (?y ! 3) = 65536 * unat t3 + 256 * unat t2 + unat t1"
    using group_encoded [of t1 t2 t3] by (simp add: group_of_def ys or.assoc)
  moreover have "drop 4 ?y = modp_b64_encode_data zs @ r" by (simp add: ys)
  ultimately show ?case using Suc.IH [OF ys(2)] bytes_of_group [of t3 t2 t1] by (simp add: ys(1) Let_def not_le)
qed simp

lemma decode_tail_encoded:
  "decode_tail 0 (modp_b64_encode_data [t1, t2, t3]) = Some [t1, t2, t3]"
  "decode_tail 3 (modp_b64_encode_data [t1, t2]) = Some [t1, t2]"
  "decode_tail 2 (modp_b64_encode_data [t1]) = Some [t1]"
  using bytes_of_group [of t3 t2 t1] group_encoded [of t1 t2 t3] bytes_of_group [of 0 t2 t1] group_two [of t1 t2] bytes_of_group [of 0 0 t1] group_one [of t1]
  by (simp_all add: decode_tail_def Let_def group_of_def not_le or.assoc)

lemma alphabet_not_pad: "e1 i \<noteq> CHARPAD" "e2 i \<noteq> CHARPAD"
proof -
  have "alphabet ! (i mod 64) \<in> set alphabet" using alphabet_facts(2) by (intro nth_mem) simp
  then show "e1 i \<noteq> CHARPAD" "e2 i \<noteq> CHARPAD" using alphabet_facts(3) by (auto simp: e1_def e2_def)
qed

lemma padding_encoded:
  assumes "length ys = 3 * n" "policy \<noteq> kNoPaddingValidation" "t \<noteq> []" "length t \<le> 3"
  shows "do_decode_padding (modp_b64_encode_data ys @ modp_b64_encode_data t) (4 * n + 4) policy = Some (4 * n + length t + 1)"
proof -
  have len: "length (modp_b64_encode_data ys) = 4 * n" using assms(1) by (simp add: encode_length modp_b64_encode_data_len_def)
  then have nth: "(modp_b64_encode_data ys @ z) ! (3 + 4 * n) = z ! 3" "(modp_b64_encode_data ys @ z) ! Suc (Suc (4 * n)) = z ! 2" for z
    by (simp_all add: nth_append)
  consider t1 where "t = [t1]" | t1 t2 where "t = [t1, t2]" | t1 t2 t3 where "t = [t1, t2, t3]"
    using assms(3,4) by (cases t; cases "tl t"; cases "tl (tl t)") auto
  then show ?thesis
  proof cases
    case 1
    have "Suc (Suc (4 * n)) mod 4 \<noteq> Suc 0" by presburger
    with 1 assms(2) nth show ?thesis by (simp add: do_decode_padding_def Let_def)
  qed (use assms(2) nth alphabet_not_pad in \<open>simp_all add: do_decode_padding_def Let_def\<close>)
qed

lemma split_last_group:
  assumes "xs \<noteq> []"
  obtains ys t n where "xs = ys @ t" "length ys = 3 * n" "t \<noteq> []" "length t \<le> 3"
proof -
  define n where "n = (length xs - 1) div 3"
  have "3 * n \<le> length xs - 1" "length xs - 1 < 3 * n + 3" using div_mult_mod_eq [of "length xs - 1" 3] by (auto simp: n_def)
  then show ?thesis using that [of "take (3 * n) xs" "drop (3 * n) xs" n] assms by (cases "length xs") auto
qed

lemma decode_encoded:
  assumes "policy \<noteq> kNoPaddingValidation"
  shows "modp_b64_decode (modp_b64_encode_data xs) policy = Some xs"
proof (cases "xs = []")
  case False
  then obtain ys t n where xs: "xs = ys @ t" "length ys = 3 * n" "t \<noteq> []" "length t \<le> 3" by (rule split_last_group)
  let ?enc = "modp_b64_encode_data ys @ modp_b64_encode_data t"
  have enc: "modp_b64_encode_data xs = ?enc" using encode_append [OF xs(2)] by (simp add: xs(1))
  have len: "length ?enc = 4 * n + 4"
    using xs(2-4) by (cases t; cases "tl t"; cases "tl (tl t)") (auto simp: encode_length modp_b64_encode_data_len_def)
  note pad = padding_encoded [OF xs(2) assms xs(3,4)]
  note chunks = decode_chunks_encoded [OF xs(2), of "modp_b64_encode_data t"]
  consider t1 where "t = [t1]" | t1 t2 where "t = [t1, t2]" | t1 t2 t3 where "t = [t1, t2, t3]"
    using xs(3,4) by (cases t; cases "tl t"; cases "tl (tl t)") auto
  then have "\<exists>l. l = (4 * n + length t + 1) mod 4 \<and> decode_tail l (modp_b64_encode_data t) = Some t \<and>
    (if l = 0 then (4 * n + length t + 1) div 4 - 1 else (4 * n + length t + 1) div 4) = n"
  proof cases
    case 1
    have "(4 * n + 2) mod 4 = 2" "(4 * n + 2) div 4 = n" by presburger+
    with 1 decode_tail_encoded(3) show ?thesis by simp
  next
    case 2
    have "(4 * n + 3) mod 4 = 3" "(4 * n + 3) div 4 = n" by presburger+
    with 2 decode_tail_encoded(2) show ?thesis by simp
  next
    case 3
    then show ?thesis using decode_tail_encoded(1) by simp
  qed
  then show ?thesis using pad chunks len xs(1) unfolding enc modp_b64_decode_def by (auto simp: Let_def)
qed (simp add: modp_b64_decode_def)

lemma Base64Encode_ok: "length xs \<le> MODP_B64_MAX_INPUT_LEN \<Longrightarrow> Base64Encode xs = Some (modp_b64_encode_data xs)"
  using encode_length [of xs] by (simp add: Base64Encode_def Base64EncodeAppend_def Let_def mem_write_def)

lemma split_at_colon:
  assumes "c \<notin> set u" "c \<notin> set u'"
  shows "u @ c # p = u' @ c # p' \<longleftrightarrow> u = u' \<and> p = p'"
proof
  assume eq: "u @ c # p = u' @ c # p'"
  have t: "takeWhile (\<lambda>x. x \<noteq> c) (w @ c # q) = w" if "c \<notin> set w" for w q using that by (induction w) auto
  have "u = u'" using arg_cong [OF eq, of "takeWhile (\<lambda>x. x \<noteq> c)"] t assms by metis
  with eq show "u = u' \<and> p = p'" by simp
qed simp

text \<open>C27: Base64 round trip and what the server makes of it. Encoding never writes outside the string it enlarged, the
  decoder returns the encoded bytes under both policies of the program, and the field a client sends for its user
  name and password is accepted exactly by a server that is configured with the same two. User names have no colon, as
  RFC 7617 requires: it is what separates the name from the password.\<close>

theorem proxy_credentials_roundtrip:
  assumes "length user + length pass < MODP_B64_MAX_INPUT_LEN" "policy \<noteq> kNoPaddingValidation"
    and "to_lower kBasicAuthPrefix = kBasicAuthPrefix"
    and "0x3A \<notin> set user" "0x3A \<notin> set user'"
  shows "\<exists>field. GetProxyAuthorizationIdentity user pass = Some field \<and>
    Base64Decode strip field policy = Some (user @ [0x3A] @ pass) \<and>
    (VerifyProxyAuthorizationIdentity to_lower strip (kBasicAuthPrefix @ field) user' pass' \<longleftrightarrow> user' = user \<and> pass' = pass)"
proof -
  have colon: "bytes_of '':'' = [0x3A]" by (simp add: bytes_of_def)
  let ?f = "modp_b64_encode_data (user @ [0x3A] @ pass)"
  have f: "GetProxyAuthorizationIdentity user pass = Some ?f"
    using assms(1) by (simp add: GetProxyAuthorizationIdentity_def colon Base64Encode_ok)
  have dec: "Base64Decode strip ?f p = Some (user @ [0x3A] @ pass)" if "p \<noteq> kNoPaddingValidation" for p
    using decode_encoded [OF that] by (simp add: Base64Decode_def)
  have "?f \<noteq> []" using encode_length [of "user @ [0x3A] @ pass"] by (auto simp: modp_b64_encode_data_len_def)
  then have "VerifyProxyAuthorizationIdentity to_lower strip (kBasicAuthPrefix @ ?f) user' pass' \<longleftrightarrow> user @ [0x3A] @ pass = user' @ [0x3A] @ pass'"
    using assms(3) dec [of kForgiving] by (simp add: VerifyProxyAuthorizationIdentity_def colon)
  with f dec [OF assms(2)] split_at_colon [OF assms(4,5), of pass pass'] show ?thesis by auto
qed

theorem proxy_credentials_roundtrip_witness:
  "\<exists>field. GetProxyAuthorizationIdentity (bytes_of ''user'') (bytes_of ''secret'') = Some field \<and>
    Base64Decode id field kForgiving = Some (bytes_of ''user:secret'') \<and>
    VerifyProxyAuthorizationIdentity id id (kBasicAuthPrefix @ field) (bytes_of ''user'') (bytes_of ''secret'')"
proof -
  have "length (bytes_of ''user'') + length (bytes_of ''secret'') < MODP_B64_MAX_INPUT_LEN" "kForgiving \<noteq> kNoPaddingValidation"
    "id kBasicAuthPrefix = kBasicAuthPrefix" "0x3A \<notin> set (bytes_of ''user'')"
    by (simp_all add: bytes_of_def MODP_B64_MAX_INPUT_LEN_def)
  note main = proxy_credentials_roundtrip [where to_lower = id and strip = id and pass' = "bytes_of ''secret''", OF this this(4)]
  have "bytes_of ''user'' @ [0x3A] @ bytes_of ''secret'' = bytes_of ''user:secret''" by (simp add: bytes_of_def)
  with main show ?thesis by auto
qed

end
