(* ===== verification/Http_Proxy.thy ===== *)
theory Http_Proxy
  imports Http_Parser Base64 SS_Request Net_Io
begin

text \<open>
  HTTP requests at the two connections: the header that is written again in place of the one that was read (the
  same statements in \<^verbatim>\<open>cli/cli_connection.cpp\<close> and \<^verbatim>\<open>server/server_connection.cpp\<close>), the split of a buffer that holds
  the beginning of the next keep-alive request, and the HTTPS handshake of the server.
\<close>

section \<open>Replacing the header of a request\<close>

definition write_from_start :: "nat \<Rightarrow> byte list \<Rightarrow> growable \<Rightarrow> growable option" where
  "write_from_start i xs b = do { m \<leftarrow> mem_write (mem b) i xs; Some (b\<lparr>mem := m\<rparr>) }"

definition rewrite_head :: "(nat \<Rightarrow> byte) \<Rightarrow> int \<Rightarrow> int \<Rightarrow> byte list \<Rightarrow> growable \<Rightarrow> growable option" where
  "rewrite_head junk previous_offset nparsed header buf =
     do { buf \<leftarrow> SetCapacity junk (previous_offset + max nparsed (int (length header)) + buf_size buf) buf;
          body \<leftarrow> data_slice buf 0 (nat (buf_size buf));
          buf \<leftarrow> write_from_start (length header) body buf;
          let payload_size = buf_size buf;
          buf \<leftarrow> set_offset 0 buf;
          buf \<leftarrow> SetCapacity junk (int (length header) + payload_size) buf;
          memcpy_data 0 header buf }"

section \<open>The rest of a keep-alive buffer\<close>

text \<open>The conversion of a \<^verbatim>\<open>size_t\<close> to an \<^verbatim>\<open>int\<close> parameter.\<close>

definition int_of_size :: "u64 \<Rightarrow> int" where
  "int_of_size n = sint (ucast n :: u32)"

definition data_from :: "growable \<Rightarrow> u64 \<Rightarrow> int \<Rightarrow> byte list option" where
  "data_from b i n = (if n < 0 then None else data_slice b (uint i) (nat n))"

text \<open>The result is \<^verbatim>\<open>http_keep_alive_remaining_bytes_\<close>, \<^verbatim>\<open>http_keep_alive_pending_buf_\<close> and the buffer.\<close>

definition keep_alive_split :: "(nat \<Rightarrow> byte) \<Rightarrow> bool \<Rightarrow> u64 \<Rightarrow> nat \<Rightarrow> growable \<Rightarrow> (int \<times> growable option \<times> growable) option" where
  "keep_alive_split junk keep_alive content_length header_size buf =
     (let remaining = sint (content_length + of_nat header_size - of_int (buf_size buf)) in
      if keep_alive \<and> remaining < 0 then
        let request_size = content_length + of_nat header_size in
        do { rest \<leftarrow> data_from buf request_size (int_of_size (of_int (buf_size buf) - request_size));
             pending \<leftarrow> copyBuffer junk rest;
             buf \<leftarrow> SetCapacity junk (int_of_size request_size) buf;
             Some (0, Some pending, buf) }
      else Some (remaining, None, buf))"

section \<open>The HTTPS handshake of the server\<close>

text \<open>What the handler depends on: libraries, flags, the peer as text and the version of the program.\<close>

record https_env =
  he_junk :: "nat \<Rightarrow> byte"
  he_lib :: http_lib
  he_framer :: balsa_framer
  he_to_lower :: "byte list \<Rightarrow> byte list"
  he_strip :: "byte list \<Rightarrow> byte list"
  he_make_address :: "string \<Rightarrow> ip_address option"
  he_hide_ip :: bool
  he_hide_via :: bool
  he_peer :: string
  he_version :: string

datatype https_outcome = Https_read_again | Https_disconnect error_code | Https_stream growable ss_request bool

definition via_headers :: "https_env \<Rightarrow> header_map" where
  "via_headers env =
     (let h1 = [(''Connection'', ''Close'')];
          h2 = (if \<not> he_hide_ip env then AList.update ''Forwarded'' (''for='' @ [CHR 0x22] @ he_peer env @ [CHR 0x22]) h1 else h1)
      in if \<not> he_hide_via env then AList.update ''Via'' (''YASS/'' @ he_version env) h2 else h2)"

definition https_request :: "https_env \<Rightarrow> string \<Rightarrow> u16 \<Rightarrow> ss_request option" where
  "https_request env hostname portnum =
     (case he_make_address env hostname of
        Some addr \<Rightarrow> ss_request_endpoint (addr, portnum)
      | None \<Rightarrow> ss_request_domain (bytes_of hostname) portnum)"

definition https_auth_ok :: "https_env \<Rightarrow> byte list \<Rightarrow> byte list \<Rightarrow> string \<Rightarrow> bool" where
  "https_auth_ok env user pass auth =
     (user \<noteq> [] \<and> pass \<noteq> [] \<longrightarrow> VerifyProxyAuthorizationIdentity (he_to_lower env) (he_strip env) (bytes_of auth) user pass)"

definition https_segment :: "https_env \<Rightarrow> byte list \<Rightarrow> byte list \<Rightarrow> growable \<Rightarrow> https_outcome option" where
  "https_segment env user pass buf =
     do { xs \<leftarrow> span buf;
          let (nparsed, ok, parser) = Parse (he_lib env) (he_framer env) xs HttpRequestParser;
          if \<not> ok then Some (Https_disconnect invalid_argument)
          else do {
            let previous_offset = offset buf;
            buf \<leftarrow> set_offset (offset buf + nparsed) buf;
            if http_port parser = 0 \<or> http_host parser = [] then Some (Https_disconnect invalid_argument)
            else if length (http_host parser) > TLSEXT_MAXLEN_host_name then Some (Https_disconnect invalid_argument)
            else if \<not> https_auth_ok env user pass (hp_proxy_authorization parser) then Some (Https_disconnect invalid_argument)
            else do {
              request \<leftarrow> https_request env (http_host parser) (http_port parser);
              buf \<leftarrow> (if http_is_connect parser then Some buf
                     else rewrite_head (he_junk env) previous_offset nparsed
                            (bytes_of (ReforgeHttpRequest (he_lib env) (Some (via_headers env)) parser)) buf);
              Some (Https_stream buf request (http_is_connect parser)) } } }"

definition OnReadHandshakeViaHttps :: "https_env \<Rightarrow> byte list \<Rightarrow> byte list \<Rightarrow> read_result \<Rightarrow> https_outcome option" where
  "OnReadHandshakeViaHttps env user pass r =
     (case r of
        WouldBlock \<Rightarrow> Some Https_read_again
      | ReadError ec \<Rightarrow> Some (Https_disconnect ec)
      | Data xs \<Rightarrow> do { buf \<leftarrow> read_segment (he_junk env) SOCKET_DEBUF_SIZE xs; https_segment env user pass buf })"

section \<open>When the header can be replaced in place\<close>

lemma rewrite_shorter:
  assumes "growable_inv b" "offset b = p + n" "0 \<le> p" "int (length h) \<le> n"
  shows "\<exists>b'. rewrite_head junk p n h b = Some b' \<and> growable_inv b' \<and> view b' = h @ view b \<and> offset b' = 0"
proof -
  let ?size = "int (length (view b))"
  have size: "buf_size b = ?size" and inv: "0 \<le> offset b" "offset b + ?size = capacity b" "capacity b \<le> int (length (mem b))"
      "capacity b \<le> INT_MAX" "buf_data b = offset b"
    using assms(1) length_view [OF assms(1)] by (auto simp: growable_inv_def)
  have cap: "p + max n (int (length h)) + buf_size b = capacity b" using assms size inv by simp
  have same: "SetCapacity junk (capacity b) b = Some b"
    using assms(1) by (cases b) (auto simp: SetCapacity_def set_offset_def growable_inv_def in_int_nonneg)
  let ?m = "take (length h) (mem b) @ view b @ drop (length h + length (view b)) (mem b)"
  have fits: "length h + length (view b) \<le> length (mem b)" using assms inv by linarith
  have slice: "data_slice b 0 (nat (buf_size b)) = Some (view b)" using data_slice_view [OF assms(1), of "length (view b)"] size by simp
  let ?b1 = "b\<lparr>mem := ?m\<rparr>"
  let ?b2 = "?b1\<lparr>offset := 0, buf_data := 0, buf_size := capacity b\<rparr>"
  have b1: "write_from_start (length h) (view b) b = Some ?b1" using fits by (simp add: write_from_start_def mem_write_def)
  have b2: "set_offset 0 ?b1 = Some ?b2" using inv by (simp add: set_offset_def)
  have inv2: "growable_inv ?b2" using inv fits by (simp add: growable_inv_def)
  have len: "int (length h) + ?size \<le> capacity b" using assms inv by linarith
  obtain b3 where b3: "SetCapacity junk (int (length h) + ?size) ?b2 = Some b3" "growable_inv b3" "offset b3 = 0"
      "view b3 = take (nat (int (length h) + ?size)) (view ?b2)"
    using SetCapacity_shrink [OF inv2, of "int (length h) + ?size" junk] len by auto
  have "view ?b2 = take (nat (capacity b)) ?m" by (subst view_def) simp
  moreover have "nat (int (length h) + ?size) = length h + length (view b)" "length h + length (view b) \<le> nat (capacity b)" using len by linarith+
  ultimately have "view b3 = take (length h + length (view b)) ?m" using b3(4) by (simp only: take_take min.absorb1)
  also have "\<dots> = [] @ take (length h) (mem b) @ view b" using fits by simp
  finally have "view b3 = [] @ take (length h) (mem b) @ view b" .
  from memcpy_append [OF b3(2) this, of h] fits obtain b4 where "memcpy_data 0 h b3 = Some b4" "growable_inv b4" "view b4 = h @ view b" "offset b4 = 0"
    using b3(3) by auto
  then show ?thesis using cap same slice b1 b2 b3(1) size by (simp add: rewrite_head_def)
qed

lemma rewrite_longer:
  assumes "growable_inv b" "offset b = n" "n < int (length h)"
  shows "rewrite_head junk 0 n h b = None"
proof (cases "int (length h) + buf_size b \<le> INT_MAX")
  case True
  let ?c = "int (length h) + buf_size b"
  have inv: "0 \<le> n" "n + buf_size b = capacity b" "0 \<le> buf_size b" using assms(1,2) by (auto simp: growable_inv_def)
  then have gt: "capacity b < ?c" using assms(3) by simp
  let ?b1 = "b\<lparr>mem := mem_realloc junk (mem b) (nat ?c), capacity := ?c, offset := n, buf_data := n, buf_size := ?c - n\<rparr>"
  have b1: "SetCapacity junk ?c b = Some ?b1"
    using gt inv assms(2) True by (simp add: SetCapacity_def set_offset_def in_int_nonneg Let_def)
  have "write_from_start (length h) body ?b1 = None" if "data_slice ?b1 0 (nat (buf_size ?b1)) = Some body" for body
  proof -
    have "length body = nat (?c - n)" using that by (auto simp: data_slice_def mem_slice_def split: if_splits)
    then show ?thesis using inv assms(3) by (auto simp: write_from_start_def mem_write_def)
  qed
  with b1 assms(3) show ?thesis by (auto simp: rewrite_head_def split: bind_splits)
next
  case False
  then show ?thesis using assms(3) by (simp add: rewrite_head_def SetCapacity_def in_int_def)
qed

section \<open>Sizes and machine integers\<close>

lemma sint_of_int_small: "- (2 ^ 63) \<le> x \<Longrightarrow> x < 2 ^ 63 \<Longrightarrow> sint (of_int x :: u64) = x"
  by (simp add: signed_of_int signed_take_bit_int_eq_self)

lemma sint_of_int_large: "2 ^ 63 \<le> x \<Longrightarrow> x < 2 ^ 64 \<Longrightarrow> sint (of_int x :: u64) < 0"
proof -
  assume x: "2 ^ 63 \<le> x" "x < 2 ^ 64"
  have "(of_int x :: u64) = of_int (x - 2 ^ 64)" by simp
  then have "sint (of_int x :: u64) = sint (of_int (x - 2 ^ 64) :: u64)" by (rule arg_cong)
  also have "\<dots> = x - 2 ^ 64" using x by (intro sint_of_int_small) simp_all
  finally show ?thesis using x by simp
qed

lemma int_of_size_small: "0 \<le> x \<Longrightarrow> x \<le> INT_MAX \<Longrightarrow> int_of_size (of_int x) = x"
proof -
  assume x: "0 \<le> x" "x \<le> INT_MAX"
  have "uint (of_int x :: u64) = x" using x by (simp add: unsigned_of_int take_bit_int_eq_self INT_MAX_def)
  then have "(ucast (of_int x :: u64) :: u32) = of_int x" by (metis ucast_eq)
  then show ?thesis using x by (simp add: int_of_size_def signed_of_int signed_take_bit_int_eq_self INT_MAX_def)
qed

lemma request_size_value:
  assumes "uint cl + int h < 2 ^ 64"
  shows "cl + of_nat h = (of_int (uint cl + int h) :: u64)" "uint (cl + of_nat h) = uint cl + int h"
proof -
  show eq: "cl + of_nat h = (of_int (uint cl + int h) :: u64)" by simp
  have "0 \<le> uint cl + int h" by (simp add: add_nonneg_nonneg)
  then show "uint (cl + of_nat h) = uint cl + int h"
    unfolding eq using assms by (simp add: unsigned_of_int take_bit_int_eq_self del: of_int_add)
qed

lemma remaining_value: "(cl + of_nat h - of_int (int h + int n) :: u64) = of_int (uint cl - int n)"
  by simp

lemma data_slice_mid:
  assumes "growable_inv b" "i + n = length (view b)"
  shows "data_slice b (int i) n = Some (drop i (view b))"
proof -
  have "nat (offset b) + (i + n) = nat (capacity b)" "nat (capacity b) \<le> length (mem b)" "0 \<le> offset b"
    using assms length_view [OF assms(1)] by (auto simp: growable_inv_def)
  moreover from this have "n = nat (capacity b) - (i + nat (offset b))" by simp
  ultimately show ?thesis
    using assms(1) by (auto simp: data_slice_def growable_inv_def mem_slice_def view_def drop_take nat_add_distrib add.commute)
qed

lemma keep_alive_split_at:
  assumes "growable_inv buf" "offset buf = 0" "cl + of_nat h = (of_int (int k) :: u64)" "k \<le> length (view buf)"
    and rem: "sint (cl + of_nat h - of_int (buf_size buf)) < 0"
  shows "\<exists>b. keep_alive_split junk True cl h buf = do { p \<leftarrow> copyBuffer junk (drop k (view buf)); Some (0, Some p, b) } \<and>
    growable_inv b \<and> view b = take k (view buf)"
proof -
  have size: "buf_size buf = int (length (view buf))" "buf_size buf \<le> INT_MAX"
    using buf_size_view [OF assms(1)] assms(1) by (auto simp: growable_inv_def)
  have cap: "capacity buf = buf_size buf" using assms(1,2) by (simp add: growable_inv_def)
  have small: "int k \<le> INT_MAX" "int (length (view buf) - k) \<le> INT_MAX" using size assms(4) by linarith+
  have u: "uint (of_int (int k) :: u64) = int k"
    using small(1) by (simp only: unsigned_of_int take_bit_int_eq_self_iff) (auto simp: INT_MAX_def take_bit_nat_eq_self_iff take_bit_int_eq_self)
  have n: "of_int (int (length (view buf))) - (of_int (int k) :: u64) = of_int (int (length (view buf) - k))" using assms(4) by (simp add: of_nat_diff)
  have data: "data_from buf (of_int (int k)) (int_of_size (of_int (int (length (view buf))) - of_int (int k))) = Some (drop k (view buf))"
    unfolding data_from_def n u int_of_size_small [OF of_nat_0_le_iff small(2)] nat_int using data_slice_mid [OF assms(1), of k "length (view buf) - k"] assms(4) by simp
  obtain b where b: "SetCapacity junk (int k) buf = Some b" "growable_inv b" "view b = take k (view buf)"
    using SetCapacity_shrink [OF assms(1), of "int k" junk] assms(2,4) size(1) cap by auto
  have "int_of_size (of_int (int k)) = int k" using int_of_size_small [of "int k"] small(1) by simp
  then show ?thesis using rem data b unfolding assms(3) size(1) by (intro exI [of _ b]) (simp add: keep_alive_split_def assms(3) size(1) Let_def)
qed

lemma keep_alive_split_ok:
  assumes "growable_inv buf" "offset buf = 0" "view buf = head @ body" "uint cl < 2 ^ 63 + int (length body)"
  shows "\<exists>b. keep_alive_split junk True cl (length head) buf =
      (if uint cl < int (length body) then do { p \<leftarrow> copyBuffer junk (drop (unat cl) body); Some (0, Some p, b) }
       else Some (uint cl - int (length body), None, b)) \<and> growable_inv b \<and> view b = head @ take (unat cl) body"
proof -
  have size: "buf_size buf = int (length head) + int (length body)" using assms(1,3) by (simp add: buf_size_view)
  have small: "int (length head) + int (length body) \<le> INT_MAX" "0 \<le> uint cl" using size assms(1) by (auto simp: growable_inv_def)
  have c: "int (unat cl) = uint cl" by simp
  have rem: "sint (cl + of_nat (length head) - of_int (buf_size buf)) = uint cl - int (length body)"
  proof -
    have "int (length body) \<le> 2 ^ 63" using small(1) by (simp add: INT_MAX_def)
    then have "- (2 ^ 63) \<le> uint cl - int (length body)" "uint cl - int (length body) < 2 ^ 63" using assms(4) small(2) by linarith+
    then show ?thesis unfolding size remaining_value by (rule sint_of_int_small)
  qed
  show ?thesis
  proof (cases "uint cl < int (length body)")
    case True
    then have less: "unat cl < length body" using c by linarith
    have "cl + of_nat (length head) = (of_int (int (length head + unat cl)) :: u64)" by simp
    from keep_alive_split_at [OF assms(1,2) this, of junk] show ?thesis using True less rem assms(3) by simp
  next
    case False
    then have "length body \<le> unat cl" using c by linarith
    then show ?thesis using False rem assms(1,3) by (intro exI [of _ buf]) (simp add: keep_alive_split_def Let_def)
  qed
qed

lemma keep_alive_split_cuts_head:
  assumes "growable_inv buf" "offset buf = 0" "view buf = head @ body" "2 ^ 64 \<le> uint cl + int (length head)"
  shows "\<exists>b. keep_alive_split junk True cl (length head) buf =
      do { p \<leftarrow> copyBuffer junk (drop (nat (uint cl + int (length head) - 2 ^ 64)) (head @ body)); Some (0, Some p, b) } \<and>
    growable_inv b \<and> view b = take (nat (uint cl + int (length head) - 2 ^ 64)) head"
proof -
  define k where "k = nat (uint cl + int (length head) - 2 ^ 64)"
  have size: "buf_size buf = int (length head) + int (length body)" using assms(1,3) by (simp add: buf_size_view)
  have small: "int (length head) + int (length body) \<le> INT_MAX" using size assms(1) by (auto simp: growable_inv_def)
  have cl: "uint cl < 2 ^ 64" using unsigned_less [of cl, where ?'a = int] by simp
  then have k: "k < length head" "int k = uint cl + int (length head) - 2 ^ 64" using assms(4) by (auto simp: k_def)
  have "cl + of_nat (length head) = (of_int (uint cl + int (length head)) :: u64)" by simp
  also have "\<dots> = of_int (int k + 2 ^ 64)" unfolding k(2) by simp
  also have "\<dots> = of_int (int k)" by simp
  finally have rs: "cl + of_nat (length head) = (of_int (int k) :: u64)" .
  have "sint (cl + of_nat (length head) - of_int (buf_size buf)) < 0"
    unfolding size remaining_value using assms(4) small cl by (intro sint_of_int_large) (simp_all add: INT_MAX_def)
  from keep_alive_split_at [OF assms(1,2) rs _ this, of junk] k(1) assms(3) show ?thesis unfolding k_def [symmetric] by simp
qed

lemma keep_alive_split_wraps:
  assumes "growable_inv buf" "offset buf = 0" "view buf = head @ body" "length (mem buf) < 2 ^ 63"
    and cl: "2 ^ 63 + int (length body) \<le> uint cl" "uint cl + int (length head) < 2 ^ 64"
  shows "keep_alive_split junk True cl (length head) buf = None"
proof -
  have size: "buf_size buf = int (length head) + int (length body)" using assms(1,3) by (simp add: buf_size_view)
  have "uint cl < 2 ^ 64" using cl(2) by simp
  then have rem: "sint (of_int (uint cl - int (length body)) :: u64) < 0" using cl(1) by (intro sint_of_int_large) auto
  have "data_from buf (cl + of_nat (length head)) n = None" for n
    using assms(1,2,4) cl(1) request_size_value(2) [OF cl(2)] by (auto simp: data_from_def data_slice_def mem_slice_def growable_inv_def)
  then show ?thesis using rem by (simp add: keep_alive_split_def size remaining_value Let_def)
qed

section \<open>Properties\<close>

text \<open>C28: Replacing the header of a request in its buffer. When the new header is not longer than the old one, the
  buffer holds the new header and the unchanged body. When it is longer, by however little, the body is moved past
  the end of the allocation: the buffer was grown, so its size already counts the new room as part of the body.\<close>

theorem rewrite_head_exact:
  assumes "growable_inv buf" "offset buf = nparsed"
  shows "if int (length header) \<le> nparsed
    then \<exists>b. rewrite_head junk 0 nparsed header buf = Some b \<and> growable_inv b \<and> view b = header @ view buf
    else rewrite_head junk 0 nparsed header buf = None"
  using rewrite_shorter [OF assms(1), of 0 nparsed header junk] rewrite_longer [OF assms] assms(2) by auto

theorem rewrite_head_exact_witness:
  "(\<exists>b. set_offset 4 \<lparr>mem = [1, 2, 3, 4, 5, 6], buf_data = 0, buf_size = 6, capacity = 6, offset = 0\<rparr> = Some b \<and>
     map_option view (rewrite_head (\<lambda>_. 0) 0 4 [7, 8] b) = Some [7, 8, 5, 6] \<and> rewrite_head (\<lambda>_. 0) 0 4 [7, 7, 7, 7, 7] b = None)"
proof -
  let ?b = "\<lparr>mem = [1, 2, 3, 4, 5, 6], buf_data = 4, buf_size = 2, capacity = 6, offset = 4\<rparr> :: growable"
  have b: "set_offset 4 \<lparr>mem = [1, 2, 3, 4, 5, 6], buf_data = 0, buf_size = 6, capacity = 6, offset = 0\<rparr> = Some ?b"
    by (simp add: set_offset_def)
  have inv: "growable_inv ?b" "offset ?b = 4" "view ?b = [5, 6]" by (simp_all add: growable_inv_def view_def INT_MAX_def)
  show ?thesis
    using b inv(3) rewrite_head_exact [OF inv(1,2), of "[7, 8]" "\<lambda>_. 0"] rewrite_head_exact [OF inv(1,2), of "[7, 7, 7, 7, 7]" "\<lambda>_. 0"]
    by auto
qed



definition https_target :: "https_env \<Rightarrow> http_parser \<Rightarrow> target" where
  "https_target env p = (case he_make_address env (http_host p) of Some a \<Rightarrow> Address a | None \<Rightarrow> Domain (bytes_of (http_host p)))"

definition https_admits :: "https_env \<Rightarrow> byte list \<Rightarrow> byte list \<Rightarrow> http_parser \<Rightarrow> bool" where
  "https_admits env user pass p \<longleftrightarrow> http_port p \<noteq> 0 \<and> http_host p \<noteq> [] \<and> length (http_host p) \<le> 255 \<and>
     https_auth_ok env user pass (hp_proxy_authorization p)"

lemma https_request_ok:
  assumes "\<And>h a. he_make_address env h = Some a \<Longrightarrow> target_wf (Address a)" "length (http_host p) \<le> 255"
  shows "\<exists>r. https_request env (http_host p) (http_port p) = Some r \<and> ss_message r = (https_target env p, http_port p)"
proof (cases "he_make_address env (http_host p)")
  case None
  have "target_wf (Domain (bytes_of (http_host p)))" using assms(2) by (simp add: bytes_of_def)
  then show ?thesis using None ss_request_domain_enc [of "bytes_of (http_host p)" "http_port p"] ss_message_enc(1) assms(2)
    by (auto simp: https_request_def https_target_def bytes_of_def)
next
  case (Some a)
  with assms(1) have "target_wf (Address a)" by blast
  with Some show ?thesis using ss_request_endpoint_enc [of a "http_port p"] ss_message_enc(1) by (auto simp: https_request_def https_target_def)
qed

text \<open>C30: The HTTPS handshake of the server on any segment. It starts a stream only for a request that was accepted, names
  a host and a port, and carries the right credentials where the server has any; the stream is for that target, and
  the bytes behind the header follow, with the rewritten header in front of them unless the method is CONNECT. The
  one fault it can run into is a rewritten header that is longer than the one it replaces.\<close>

theorem https_handshake_exact:
  assumes "length xs \<le> 17 * 1024" "0 \<le> snd (he_framer env xs)" "snd (he_framer env xs) \<le> int (length xs)"
    and address: "\<And>h a. he_make_address env h = Some a \<Longrightarrow> target_wf (Address a)"
    and parsed: "Parse (he_lib env) (he_framer env) xs HttpRequestParser = (n, ok, p)"
    and head: "head = bytes_of (ReforgeHttpRequest (he_lib env) (Some (via_headers env)) p)"
  shows "case OnReadHandshakeViaHttps env user pass (Data xs) of
      None \<Rightarrow> ok \<and> https_admits env user pass p \<and> \<not> http_is_connect p \<and> n < int (length head)
    | Some (Https_stream b r c) \<Rightarrow> ok \<and> https_admits env user pass p \<and> c = http_is_connect p \<and>
        ss_message r = (https_target env p, http_port p) \<and> view b = (if c then [] else head) @ drop (nat n) xs
    | Some outcome \<Rightarrow> outcome = Https_disconnect invalid_argument \<and> \<not> (ok \<and> https_admits env user pass p)"
proof -
  have n: "n = snd (he_framer env xs)" using parsed by (auto simp: Parse_def Let_def split_def)
  obtain b where b: "read_segment (he_junk env) SOCKET_DEBUF_SIZE xs = Some b" "growable_inv b" "view b = xs" "offset b = 0"
    using read_segment_ok [of xs SOCKET_DEBUF_SIZE "he_junk env"] assms(1) by (auto simp: SOCKET_DEBUF_SIZE_def INT_MAX_def)
  obtain b1 where b1: "set_offset (offset b + n) b = Some b1" "growable_inv b1" "view b1 = drop (nat n) xs" "offset b1 = n"
    using set_offset_advance [OF b(2), of "nat n"] assms(2,3) b(3,4) n by (auto simp: nat_le_iff)
  have seg: "OnReadHandshakeViaHttps env user pass (Data xs) = https_segment env user pass b"
    by (simp add: OnReadHandshakeViaHttps_def b(1))
  show ?thesis
  proof (cases "ok \<and> https_admits env user pass p")
    case False
    have "https_segment env user pass b = Some (Https_disconnect invalid_argument)"
      using False b1(1) parsed b(3,4) span_view [OF b(2)]
      by (auto simp: https_segment_def https_admits_def TLSEXT_MAXLEN_host_name_def)
    with False seg show ?thesis by simp
  next
    case True
    have "\<exists>r. https_request env (http_host p) (http_port p) = Some r \<and> ss_message r = (https_target env p, http_port p)"
      by (rule https_request_ok) (use address True in \<open>auto simp: https_admits_def\<close>)
    then obtain r where r: "https_request env (http_host p) (http_port p) = Some r" "ss_message r = (https_target env p, http_port p)" by blast
    have "https_segment env user pass b =
      do { buf \<leftarrow> (if http_is_connect p then Some b1 else rewrite_head (he_junk env) 0 n head b1); Some (Https_stream buf r (http_is_connect p)) }"
      using True b1(1) parsed b(3,4) span_view [OF b(2)] r(1)
      by (auto simp: https_segment_def https_admits_def TLSEXT_MAXLEN_host_name_def head)
    then show ?thesis
      using True seg r(2) b1(2-4) rewrite_shorter [OF b1(2), of 0 n head "he_junk env"] rewrite_longer [OF b1(2,4), of head "he_junk env"]
      by (cases "http_is_connect p"; cases "int (length head) \<le> n") auto
  qed
qed

definition sample_env :: https_env where
  "sample_env = \<lparr>he_junk = (\<lambda>_. 0), he_lib = sample_lib,
     he_framer = (\<lambda>_. ([RequestFirstLineInput ''CONNECT'' ''a:81'' ''HTTP/1.1'',
        ProcessHeadersInput \<lparr>bh_lines = [], bh_content_length = 0, bh_chunked = False\<rparr>, HeaderDoneInput], 3)),
     he_to_lower = id, he_strip = id, he_make_address = (\<lambda>_. None), he_hide_ip = True, he_hide_via = True, he_peer = [], he_version = []\<rparr>"

theorem https_handshake_exact_witness:
  "\<exists>b r. OnReadHandshakeViaHttps sample_env [] [] (Data [1, 2, 3, 4]) = Some (Https_stream b r True) \<and>
    ss_message r = (Domain (bytes_of ''a''), 81) \<and> view b = [4]"
proof -
  let ?p = "snd (snd (Parse (he_lib sample_env) (he_framer sample_env) [1, 2, 3, 4] HttpRequestParser))"
  have "fst (snd (Parse (he_lib sample_env) (he_framer sample_env) [1, 2, 3, 4] HttpRequestParser)) = True" by code_simp
  moreover have "fst (Parse (he_lib sample_env) (he_framer sample_env) [1, 2, 3, 4] HttpRequestParser) = 3"
    by (simp add: Parse_def sample_env_def Let_def)
  ultimately have "Parse (he_lib sample_env) (he_framer sample_env) [1, 2, 3, 4] HttpRequestParser = (3, True, ?p)"
    by (metis prod.collapse)
  moreover have "http_host ?p = ''a''" "http_port ?p = 81" "http_is_connect ?p = True" by code_simp+
  ultimately obtain p where parsed: "Parse (he_lib sample_env) (he_framer sample_env) [1, 2, 3, 4] HttpRequestParser = (3, True, p)"
    and p: "http_host p = ''a''" "http_port p = 81" "http_is_connect p" by (simp only: )
  have admits: "https_admits sample_env [] [] p" "https_target sample_env p = Domain (bytes_of ''a'')"
    unfolding https_admits_def https_target_def https_auth_ok_def p by (simp_all add: sample_env_def)
  have pre: "length [1, 2, 3, 4 :: byte] \<le> 17 * 1024" "0 \<le> snd (he_framer sample_env [1, 2, 3, 4])"
    "snd (he_framer sample_env [1, 2, 3, 4]) \<le> int (length [1, 2, 3, 4 :: byte])"
    "\<And>h a. he_make_address sample_env h = Some a \<Longrightarrow> target_wf (Address a)" by (simp_all add: sample_env_def)
  note main = https_handshake_exact [where env = sample_env and xs = "[1, 2, 3, 4]" and user = "[]" and pass = "[]", OF pre parsed refl]
  show ?thesis
  proof (cases "OnReadHandshakeViaHttps sample_env [] [] (Data [1, 2, 3, 4])")
    case None
    with main p(3) show ?thesis by simp
  next
    case (Some out)
    with main admits p show ?thesis by (cases out) auto
  qed
qed

end
