(* ===== verification/Client_Handshake.thy ===== *)
theory Client_Handshake
  imports Http_Proxy Handshake_Parsing IO_Queue Cipher
begin

text \<open>
  The handshake of the client with the local program (\<^verbatim>\<open>cli/cli_connection.cpp\<close>): SOCKS5, SOCKS4, SOCKS4A and HTTP are
  tried on the first segment in this order; the command is checked and answered, the connection to the configured
  server is started, and the bytes behind the request wait in a bounded queue until it is established.

  A handler returns the new state and the asynchronous operations it starts, in order. The transparent mode
  (\<^verbatim>\<open>redir_mode\<close>), which asks the operating system for the original destination, is switched off.
\<close>

section \<open>State\<close>

datatype cli_state = state_error | state_method_select | state_socks5_handshake | state_socks4_handshake
  | state_http_handshake | state_stream

datatype channel_state = No_channel | Connecting | Connected | Channel_closed

record cli =
  cc_method :: cipher_method
  cc_state :: cli_state
  cc_closed :: bool
  cc_shutdown :: bool
  cc_s5_request :: socks5_request
  cc_s4_request :: socks4_request
  cc_http_host :: string
  cc_http_port :: u16
  cc_http_is_connect :: bool
  cc_http_is_keep_alive :: bool
  cc_http_remaining :: int
  cc_http_pending :: "growable option"
  cc_http_previous :: "growable option"
  cc_request :: ss_request
  cc_pending :: "growable ioqueue"
  cc_resolver_inited :: bool
  cc_channel :: channel_state
  cc_rbytes :: nat
  cc_wbytes :: nat

datatype cli_effect = ReadMethodSelect | ReadSocks5Handshake | Async_write "byte list" bool | Async_connect
  | AsyncResolve "byte list" u16 | ReadStream | WriteUpstreamInPipe_flush | OnDownstreamWrite growable
  | Forward growable | OnStreamWrite | Closed_with error_code

type_synonym cli_result = "(cli \<times> cli_effect list) option"

text \<open>Libraries, the memory of new objects and buffers, and the outcome of initialising the resolver.\<close>

record cli_env =
  ce_junk :: "nat \<Rightarrow> byte"
  ce_lib :: http_lib
  ce_framer :: balsa_framer
  ce_make_address :: "byte list \<Rightarrow> ip_address option"
  ce_to_string :: "ip_address \<Rightarrow> byte list"
  ce_resolver_init :: error_code

definition kMaxHeaderSize :: nat where
  "kMaxHeaderSize = 1024 * 1024 + 1024"

definition http_connect_reply :: "byte list" where
  "http_connect_reply = bytes_of (''HTTP/1.1 200 Connection established'' @ crlf @ crlf)"

definition cli_start :: "cipher_method \<Rightarrow> cli" where
  "cli_start m = \<lparr>cc_method = m, cc_state = state_method_select, cc_closed = False, cc_shutdown = False,
     cc_s5_request = new_socks5_request, cc_s4_request = new_socks4_request, cc_http_host = [], cc_http_port = 0,
     cc_http_is_connect = False, cc_http_is_keep_alive = False, cc_http_remaining = 0, cc_http_pending = None,
     cc_http_previous = None,
     cc_request = new_ss_request, cc_pending = IoQueue 4, cc_resolver_inited = False,
     cc_channel = No_channel, cc_rbytes = 0, cc_wbytes = 0\<rparr>"

section \<open>Closing, connecting and queueing\<close>

definition OnDisconnect :: "error_code \<Rightarrow> cli \<Rightarrow> cli \<times> cli_effect list" where
  "OnDisconnect ec c =
     (if cc_closed c then (c, [])
      else (c\<lparr>cc_closed := True, cc_channel := (if cc_channel c = No_channel then No_channel else Channel_closed)\<rparr>, [Closed_with ec]))"

definition OnConnect :: "cli \<Rightarrow> cli \<times> cli_effect list" where
  "OnConnect c = (c\<lparr>cc_channel := Connecting\<rparr>, [Async_connect])"

definition OnCmdConnect_endpoint :: "endpoint \<Rightarrow> cli \<Rightarrow> cli_result" where
  "OnCmdConnect_endpoint ep c = do { r \<leftarrow> ss_request_endpoint ep; Some (OnConnect (c\<lparr>cc_request := r\<rparr>)) }"

definition OnCmdConnect :: "cli_env \<Rightarrow> byte list \<Rightarrow> u16 \<Rightarrow> cli \<Rightarrow> cli_result" where
  "OnCmdConnect env domain_name port c =
     (case ce_make_address env (takeWhile (\<lambda>b. b \<noteq> 0) domain_name) of
        Some addr \<Rightarrow> OnCmdConnect_endpoint (addr, port) c
      | None \<Rightarrow>
          if CIPHER_METHOD_IS_SOCKS_NON_DOMAIN_NAME (cc_method c) then
            (if \<not> cc_resolver_inited c \<and> ce_resolver_init env \<noteq> no_error then Some (OnDisconnect (ce_resolver_init env) c)
             else Some (c\<lparr>cc_resolver_inited := True\<rparr>, [AsyncResolve domain_name port]))
          else do { r \<leftarrow> ss_request_domain domain_name port; Some (OnConnect (c\<lparr>cc_request := r\<rparr>)) })"

text \<open>The callback of the resolver: the first endpoint is taken, or the default endpoint when there is none.\<close>

definition on_resolved :: "error_code \<Rightarrow> endpoint list \<Rightarrow> cli \<Rightarrow> cli_result" where
  "on_resolved ec results c =
     (if ec = operation_aborted then Some (c, [])
      else if cc_closed c then Some (c, [])
      else if ec \<noteq> no_error then Some (OnDisconnect ec c)
      else let ep = (case results of [] \<Rightarrow> (AddressV4 [0, 0, 0, 0], 0) | e # _ \<Rightarrow> e) in
        if is_unspecified (fst ep) \<or> snd ep = 0 then Some (OnDisconnect invalid_argument c)
        else OnCmdConnect_endpoint ep c)"

definition OnStreamRead :: "growable \<Rightarrow> cli \<Rightarrow> cli_result" where
  "OnStreamRead buf c =
     (if cc_channel c \<noteq> Connected then do {
        n \<leftarrow> byte_length (cc_pending c);
        if n + nat (buf_size buf) > kMaxHeaderSize then Some (OnDisconnect connection_reset c)
        else do { q \<leftarrow> push_back buf (cc_pending c); Some (c\<lparr>cc_pending := q\<rparr>, []) } }
      else Some (c, [Forward buf]))"

section \<open>The first segment\<close>

definition OnReadSocks5MethodSelect :: "(nat \<Rightarrow> byte) \<Rightarrow> growable \<Rightarrow> cli \<Rightarrow> (error_code \<times> growable \<times> cli) option" where
  "OnReadSocks5MethodSelect uninit buf c =
     do { (res, i, st, req) \<leftarrow> method_select_parse ms_request_start (new_method_select_request uninit) (parse_mem buf) 0 (parse_end buf);
          if res \<noteq> good then Some (invalid_argument, buf, c)
          else do {
            buf \<leftarrow> set_offset (offset buf + int (method_select_length req)) buf;
            let c = c\<lparr>cc_state := state_method_select\<rparr>;
            if no_auth_required \<notin> set (methods_range req) then Some (connection_refused, buf, c)
            else Some (no_error, buf, c) } }"

definition OnReadSocks5Handshake :: "growable \<Rightarrow> cli \<Rightarrow> (error_code \<times> growable \<times> cli) option" where
  "OnReadSocks5Handshake buf c =
     do { (res, i, st, req) \<leftarrow> socks5_request_parse request_start (cc_s5_request c) (parse_mem buf) 0 (parse_end buf);
          let c = c\<lparr>cc_s5_request := req\<rparr>;
          if res \<noteq> good then Some (invalid_argument, buf, c)
          else do {
            buf \<leftarrow> set_offset (offset buf + int (socks5_request_length req)) buf;
            Some (no_error, buf, c\<lparr>cc_state := state_socks5_handshake\<rparr>) } }"

definition OnReadSocks4Handshake :: "growable \<Rightarrow> cli \<Rightarrow> (error_code \<times> growable \<times> cli) option" where
  "OnReadSocks4Handshake buf c =
     do { (res, i, st, req) \<leftarrow> socks4_request_parse s4_request_start (cc_s4_request c) (parse_mem buf) 0 (parse_end buf);
          let c = c\<lparr>cc_s4_request := req\<rparr>;
          if res \<noteq> good then Some (invalid_argument, buf, c)
          else do {
            buf \<leftarrow> set_offset (offset buf + int (socks4_request_length req)) buf;
            Some (no_error, buf, c\<lparr>cc_state := state_socks4_handshake\<rparr>) } }"

text \<open>What is done with the buffer of a request that is not CONNECT.\<close>

definition http_forward :: "cli_env \<Rightarrow> int \<Rightarrow> int \<Rightarrow> http_parser \<Rightarrow> growable \<Rightarrow> cli \<Rightarrow> (growable \<times> cli) option" where
  "http_forward env previous_offset nparsed parser buf c =
     do { let header = bytes_of (ReforgeHttpRequest (ce_lib env) None parser);
          buf \<leftarrow> rewrite_head (ce_junk env) previous_offset nparsed header buf;
          let keep_alive = same_name (ce_lib env) (hp_connection parser) ''Keep-Alive'';
          (remaining, pending, buf) \<leftarrow> keep_alive_split (ce_junk env) keep_alive (bh_content_length (hp_headers parser)) (length header) buf;
          Some (buf, c\<lparr>cc_http_is_keep_alive := keep_alive \<and> \<not> bh_chunked (hp_headers parser), cc_http_remaining := remaining,
                       cc_http_pending := (case pending of None \<Rightarrow> cc_http_pending c | Some p \<Rightarrow> Some p)\<rparr>) }"

definition OnReadHttpRequest :: "cli_env \<Rightarrow> growable \<Rightarrow> cli \<Rightarrow> (error_code \<times> growable \<times> cli) option" where
  "OnReadHttpRequest env buf c =
     do { xs \<leftarrow> span buf;
          let (nparsed, ok, parser) = Parse (ce_lib env) (ce_framer env) xs HttpRequestParser;
          let c = c\<lparr>cc_http_is_keep_alive := False, cc_http_remaining := 0\<rparr>;
          if \<not> ok then Some (invalid_argument, buf, c)
          else do {
            let previous_offset = offset buf;
            buf \<leftarrow> set_offset (previous_offset + nparsed) buf;
            let c = c\<lparr>cc_http_host := http_host parser, cc_http_port := http_port parser, cc_http_is_connect := http_is_connect parser\<rparr>;
            (buf, c) \<leftarrow> (if http_is_connect parser then Some (buf, c)
                        else http_forward env previous_offset nparsed parser buf c);
            Some (no_error, buf, c\<lparr>cc_state := state_http_handshake\<rparr>) } }"

section \<open>Commands\<close>

definition PerformCmdOpsV5 :: "cli_env \<Rightarrow> socks5_reply \<Rightarrow> cli \<Rightarrow> (error_code \<times> socks5_reply \<times> cli \<times> cli_effect list) option" where
  "PerformCmdOpsV5 env reply c =
     (let req = cc_s5_request c; dom = (address_type (atyp_req req) = atyp_domain) in
      if rq_command req = 1 then
        (if socks5_port req = 0 \<or> dom \<and> socks5_domain_name req = [] \<or> \<not> dom \<and> is_unspecified (fst (socks5_endpoint req))
         then Some (invalid_argument, reply\<lparr>rp_status := 3\<rparr>, c, [])
         else do {
           let ep = (if dom then (AddressV4 [0, 0, 0, 0], 0) else socks5_endpoint req);
           let reply = (socks5_reply_set_endpoint ep reply)\<lparr>rp_status := socks5_request_granted\<rparr>;
           (c, es) \<leftarrow> (if dom then OnCmdConnect env (socks5_domain_name req) (socks5_port req) c
                      else OnCmdConnect_endpoint (socks5_endpoint req) c);
           Some (no_error, reply, c, es) })
      else Some (invalid_argument, reply\<lparr>rp_status := 7\<rparr>, c, []))"

definition PerformCmdOpsV4 :: "cli_env \<Rightarrow> socks4_reply \<Rightarrow> cli \<Rightarrow> (error_code \<times> socks4_reply \<times> cli \<times> cli_effect list) option" where
  "PerformCmdOpsV4 env reply c =
     (let req = cc_s4_request c in
      if s4_command req = 1 then
        (if socks4_port req = 0 \<or> is_socks4a req \<and> s4_domain_name req = [] \<or> \<not> is_socks4a req \<and> is_unspecified (fst (socks4_endpoint req))
         then Some (invalid_argument, reply\<lparr>r4_status := 0x5B\<rparr>, c, [])
         else do {
           reply \<leftarrow> socks4_reply_set_endpoint (AddressV4 [0, 0, 0, 0], 0) reply;
           let reply = reply\<lparr>r4_status := socks4_request_granted\<rparr>;
           if is_socks4a req then
             (if length (s4_domain_name req) > TLSEXT_MAXLEN_host_name then Some (invalid_argument, reply\<lparr>r4_status := 0x5B\<rparr>, c, [])
              else do { (c, es) \<leftarrow> OnCmdConnect env (s4_domain_name req) (socks4_port req) c; Some (no_error, reply, c, es) })
           else do { (c, es) \<leftarrow> OnCmdConnect_endpoint (socks4_endpoint req) c; Some (no_error, reply, c, es) } })
      else Some (invalid_argument, reply\<lparr>r4_status := 0x5B\<rparr>, c, []))"

definition PerformCmdOpsHttp :: "cli_env \<Rightarrow> cli \<Rightarrow> (error_code \<times> cli \<times> cli_effect list) option" where
  "PerformCmdOpsHttp env c =
     (if length (cc_http_host c) > TLSEXT_MAXLEN_host_name then Some (invalid_argument, c, [])
      else if cc_http_host c = [] \<or> cc_http_port c = 0 then Some (invalid_argument, c, [])
      else do { (c, es) \<leftarrow> OnCmdConnect env (bytes_of (cc_http_host c)) (cc_http_port c) c; Some (no_error, c, es) })"

section \<open>Replies and data\<close>

definition WriteHandshakeSocks5 :: "socks5_reply \<Rightarrow> cli \<Rightarrow> cli \<times> cli_effect list" where
  "WriteHandshakeSocks5 reply c =
     (c\<lparr>cc_state := state_stream\<rparr>, [Async_write (socks5_reply_buffers reply) (rp_status reply = socks5_request_granted)])"

definition WriteHandshakeSocks4 :: "socks4_reply \<Rightarrow> cli \<Rightarrow> cli \<times> cli_effect list" where
  "WriteHandshakeSocks4 reply c =
     (c\<lparr>cc_state := state_stream\<rparr>, [Async_write (socks4_reply_buffers reply) (r4_status reply = socks4_request_granted)])"

definition WriteHandshakeHttp :: "(nat \<Rightarrow> byte) \<Rightarrow> cli \<Rightarrow> cli_result" where
  "WriteHandshakeHttp uninit c =
     (let c = c\<lparr>cc_state := state_stream\<rparr> in
      if cc_http_is_connect c then do { b \<leftarrow> copyBuffer uninit http_connect_reply; Some (c, [OnDownstreamWrite b]) } else Some (c, []))"

definition handle_stream :: "growable \<Rightarrow> cli \<Rightarrow> cli_result" where
  "handle_stream buf c = (if buf_size buf \<noteq> 0 then OnStreamRead buf c else Some (c, [WriteUpstreamInPipe_flush]))"

definition fail_state :: "error_code \<Rightarrow> cli \<Rightarrow> cli \<times> cli_effect list" where
  "fail_state ec c = OnDisconnect ec (c\<lparr>cc_state := state_error\<rparr>)"

text \<open>The memory of a new reply comes from \<open>ce_junk\<close>.\<close>

definition new_reply5 :: "cli_env \<Rightarrow> socks5_reply" where
  "new_reply5 env = new_socks5_reply (map (ce_junk env) [0..<4]) (map (ce_junk env) [4..<20]) (ce_junk env 20) (ce_junk env 21)"

definition new_reply4 :: "cli_env \<Rightarrow> socks4_reply" where
  "new_reply4 env = new_socks4_reply (ce_junk env 0) (ce_junk env 1) (map (ce_junk env) [2..<6])"

definition ProcessReceivedData :: "cli_env \<Rightarrow> growable \<Rightarrow> nat \<Rightarrow> cli \<Rightarrow> cli_result" where
  "ProcessReceivedData env buf bytes_transferred c0 =
     (let c = c0\<lparr>cc_rbytes := cc_rbytes c0 + bytes_transferred\<rparr> in
      case cc_state c of
        state_method_select \<Rightarrow> Some (c, [Async_write (method_select_response_stock_reply no_auth_required) True])
      | state_socks5_handshake \<Rightarrow> do {
          (ec, reply, c, es) \<leftarrow> PerformCmdOpsV5 env (new_reply5 env) c;
          let (c, es1) = WriteHandshakeSocks5 reply c;
          if ec \<noteq> no_error then Some (c, es @ es1 @ [ReadStream])
          else do { (c, es2) \<leftarrow> handle_stream buf c; Some (c, es @ es1 @ es2) } }
      | state_socks4_handshake \<Rightarrow> do {
          (ec, reply, c, es) \<leftarrow> PerformCmdOpsV4 env (new_reply4 env) c;
          let (c, es1) = WriteHandshakeSocks4 reply c;
          if ec \<noteq> no_error then Some (c, es @ es1 @ [ReadStream])
          else do { (c, es2) \<leftarrow> handle_stream buf c; Some (c, es @ es1 @ es2) } }
      | state_http_handshake \<Rightarrow> do {
          (ec, c, es) \<leftarrow> PerformCmdOpsHttp env c;
          if ec \<noteq> no_error then let (c, es1) = fail_state ec c in Some (c, es @ es1)
          else do { (c, es1) \<leftarrow> WriteHandshakeHttp (ce_junk env) c; (c, es2) \<leftarrow> handle_stream buf c; Some (c, es @ es1 @ es2) } }
      | state_stream \<Rightarrow> handle_stream buf c
      | state_error \<Rightarrow> Some (fail_state invalid_argument c))"

definition ProcessSentData :: "error_code \<Rightarrow> nat \<Rightarrow> cli \<Rightarrow> cli \<times> cli_effect list" where
  "ProcessSentData ec bytes_transferred c0 =
     (let c = c0\<lparr>cc_wbytes := cc_wbytes c0 + bytes_transferred\<rparr> in
      if ec \<noteq> no_error then fail_state ec c
      else case cc_state c of
             state_method_select \<Rightarrow> (c, [ReadSocks5Handshake])
           | state_stream \<Rightarrow> (c, if bytes_transferred \<noteq> 0 then [OnStreamWrite] else [])
           | _ \<Rightarrow> fail_state invalid_argument c)"

section \<open>The next request of a keep-alive connection\<close>

text \<open>The buffer is gone when it was handed on; \<^const>\<open>try_again\<close> tells the caller that a new connection was started.\<close>

definition OnReadHttpRequestAfterReuse ::
    "cli_env \<Rightarrow> growable \<Rightarrow> cli \<Rightarrow> (error_code \<times> growable option \<times> cli \<times> cli_effect list) option" where
  "OnReadHttpRequestAfterReuse env buf c =
     do { (ec, buf, c) \<leftarrow> OnReadHttpRequest env buf c;
          if ec \<noteq> no_error then Some (ec, Some buf, c, [])
          else if cc_http_is_connect c then Some (invalid_argument, Some buf, c, [])
          else do {
            other \<leftarrow> if ss_domain_name (ce_to_string env) (cc_request c) \<noteq> bytes_of (cc_http_host c) then Some True
                    else map_option (\<lambda>port. port \<noteq> cc_http_port c) (ss_port (cc_request c));
            if other then do {
              let c = c\<lparr>cc_request := new_ss_request, cc_channel := No_channel\<rparr>;
              (c, es1) \<leftarrow> OnStreamRead buf c;
              (ec, c, es2) \<leftarrow> PerformCmdOpsHttp env c;
              if ec \<noteq> no_error then Some (ec, None, c, es1 @ es2)
              else Some (try_again, None, c\<lparr>cc_state := state_stream\<rparr>, es1 @ es2) }
            else Some (no_error, Some buf, c\<lparr>cc_state := state_stream\<rparr>, []) } }"

section \<open>Callbacks\<close>

text \<open>The completion of \<open>Async_write\<close>: a refusal ends the output of the connection.\<close>

definition on_sent :: "bool \<Rightarrow> error_code \<Rightarrow> nat \<Rightarrow> cli \<Rightarrow> cli \<times> cli_effect list" where
  "on_sent granted ec n c =
     (if cc_closed c then (c, [])
      else ProcessSentData ec n (if granted then c else c\<lparr>cc_shutdown := True\<rparr>))"

definition callback_read :: "error_code \<Rightarrow> cli \<Rightarrow> cli_result \<Rightarrow> cli_result" where
  "callback_read ec c k =
     (if cc_closed c \<or> ec = bad_descriptor \<or> ec = operation_aborted then Some (c, [])
      else if ec \<noteq> no_error then Some (fail_state ec c) else k)"

definition on_method_select :: "cli_env \<Rightarrow> error_code \<Rightarrow> read_result \<Rightarrow> cli \<Rightarrow> cli_result" where
  "on_method_select env ec r c =
     callback_read ec c
       (case r of
          WouldBlock \<Rightarrow> Some (c, [ReadMethodSelect])
        | ReadError e \<Rightarrow> Some (OnDisconnect e c)
        | Data xs \<Rightarrow> do {
            buf \<leftarrow> read_segment (ce_junk env) SOCKET_BUF_SIZE xs;
            (e, buf, c) \<leftarrow> OnReadSocks5MethodSelect (ce_junk env) buf c;
            (e, buf, c) \<leftarrow> if e = invalid_argument then OnReadSocks4Handshake buf c else Some (e, buf, c);
            (e, buf, c) \<leftarrow> if e = invalid_argument then OnReadHttpRequest env buf c else Some (e, buf, c);
            if e \<noteq> no_error then Some (OnDisconnect e c) else ProcessReceivedData env buf (length xs) c })"

definition on_socks5_handshake :: "cli_env \<Rightarrow> error_code \<Rightarrow> read_result \<Rightarrow> cli \<Rightarrow> cli_result" where
  "on_socks5_handshake env ec r c =
     callback_read ec c
       (case r of
          WouldBlock \<Rightarrow> Some (c, [ReadSocks5Handshake])
        | ReadError e \<Rightarrow> Some (OnDisconnect e c)
        | Data xs \<Rightarrow> do {
            buf \<leftarrow> read_segment (ce_junk env) SOCKET_BUF_SIZE xs;
            (e, buf, c) \<leftarrow> OnReadSocks5Handshake buf c;
            if e \<noteq> no_error then Some (OnDisconnect e c) else ProcessReceivedData env buf (length xs) c })"

text \<open>The pending data is taken over when the upstream is established.\<close>

definition take_pending :: "cli \<Rightarrow> growable ioqueue \<times> cli" where
  "take_pending c = (let (queue, rest) = IoQueue_move 4 (cc_pending c) in (queue, c\<lparr>cc_pending := rest\<rparr>))"

section \<open>Lemmas\<close>

lemma byte_length_rep: "ioq_rep dql q bs \<Longrightarrow> byte_length q = Some (sum_list (map (nat \<circ> buf_size) bs))"
proof (cases "ioq_empty q")
  case True
  moreover assume "ioq_rep dql q bs"
  ultimately have "bs = []" using ioq_rep_nth [of dql q bs 0]
    by (auto simp: ioq_empty_def ioq_rep_def Let_def mod_add_once split: if_splits)
  with True show ?thesis by (simp add: byte_length_def)
next
  case False
  assume q: "ioq_rep dql q bs"
  then have "idx q < length (queue q)" by (simp add: ioq_rep_def Let_def)
  with False q show ?thesis using byte_length_loop_rep [OF q, of 0 0] by (simp add: byte_length_def)
qed

lemma buffer_segment:
  assumes "int (length xs) \<le> SOCKET_BUF_SIZE"
  obtains b where "read_segment uninit SOCKET_BUF_SIZE xs = Some b" "growable_inv b" "view b = xs"
  using read_segment_ok [OF assms, of uninit] by (auto simp: SOCKET_BUF_SIZE_def INT_MAX_def)

definition queued :: "cli \<Rightarrow> byte list list" where
  "queued c = map view (ioq_elems (cc_pending c))"

text \<open>The queue of pending data is well formed and within its bound.\<close>

definition pending_ok :: "cli \<Rightarrow> bool" where
  "pending_ok c \<longleftrightarrow> ioq_inv 4 (cc_pending c) \<and> (\<forall>b\<in>set (ioq_elems (cc_pending c)). growable_inv b) \<and>
     length (concat (queued c)) \<le> kMaxHeaderSize"

lemma queued_length:
  "\<forall>b\<in>set bs. growable_inv b \<Longrightarrow> sum_list (map (nat \<circ> buf_size) bs) = length (concat (map view bs))"
  by (induction bs) (auto simp: buf_size_view)

lemma OnStreamRead_queues:
  assumes "pending_ok c" "cc_channel c \<noteq> Connected" "growable_inv buf"
  shows "OnStreamRead buf c =
      (if kMaxHeaderSize < length (concat (queued c)) + length (view buf) then Some (OnDisconnect connection_reset c)
       else map_option (\<lambda>q. (c\<lparr>cc_pending := q\<rparr>, [])) (push_back buf (cc_pending c)))" (is ?eq)
    and "length (concat (queued c)) + length (view buf) \<le> kMaxHeaderSize \<Longrightarrow>
      \<exists>q. OnStreamRead buf c = Some (c\<lparr>cc_pending := q\<rparr>, []) \<and> pending_ok (c\<lparr>cc_pending := q\<rparr>) \<and>
        queued (c\<lparr>cc_pending := q\<rparr>) = queued c @ [view buf]"
proof -
  let ?bs = "ioq_elems (cc_pending c)"
  have rep: "ioq_rep 4 (cc_pending c) ?bs" using assms(1) by (auto simp: pending_ok_def ioq_inv_def dest: ioq_rep_elems)
  have len: "byte_length (cc_pending c) = Some (length (concat (queued c)))"
    using byte_length_rep [OF rep] queued_length [of ?bs] assms(1) by (simp add: pending_ok_def queued_def)
  show eq: ?eq using len assms(2,3) by (simp add: OnStreamRead_def buf_size_view map_conv_bind_option comp_def)
  show "\<exists>q. OnStreamRead buf c = Some (c\<lparr>cc_pending := q\<rparr>, []) \<and> pending_ok (c\<lparr>cc_pending := q\<rparr>) \<and>
        queued (c\<lparr>cc_pending := q\<rparr>) = queued c @ [view buf]"
    if fit: "length (concat (queued c)) + length (view buf) \<le> kMaxHeaderSize"
  proof -
    obtain q where q: "push_back buf (cc_pending c) = Some q" "ioq_rep 4 q (?bs @ [buf])" using push_back_rep [OF rep] by blast
    from ioq_rep_inv [OF q(2)] have "ioq_inv 4 q" "ioq_elems q = ?bs @ [buf]" by auto
    then have "pending_ok (c\<lparr>cc_pending := q\<rparr>)" "queued (c\<lparr>cc_pending := q\<rparr>) = queued c @ [view buf]"
      using assms(1,3) fit by (auto simp: pending_ok_def queued_def)
    with q(1) fit show ?thesis unfolding eq by (intro exI [of _ q]) simp
  qed
qed

section \<open>Connecting\<close>

text \<open>What may be asked for, and what the upstream is asked for instead: a name that is an address is
  sent as the address.\<close>

fun cli_admits :: "target \<Rightarrow> u16 \<Rightarrow> bool" where
  "cli_admits (Domain d) p \<longleftrightarrow> p \<noteq> 0 \<and> d \<noteq> []"
| "cli_admits (Address a) p \<longleftrightarrow> p \<noteq> 0 \<and> \<not> is_unspecified a"

fun cli_target :: "cli_env \<Rightarrow> target \<Rightarrow> target" where
  "cli_target env (Domain d) = (case ce_make_address env (takeWhile (\<lambda>b. b \<noteq> 0) d) of Some a \<Rightarrow> Address a | None \<Rightarrow> Domain d)"
| "cli_target env (Address a) = Address a"

fun socks5_granted :: "target \<Rightarrow> u16 \<Rightarrow> byte list" where
  "socks5_granted (Domain d) p = [5, 0, 0, 1, 0, 0, 0, 0, 0, 0]"
| "socks5_granted (Address a) p = [5, 0, 0] @ target_enc (Address a) @ [hi8 p, lo8 p]"

definition make_address_wf :: "cli_env \<Rightarrow> bool" where
  "make_address_wf env \<longleftrightarrow> (\<forall>n a. ce_make_address env n = Some a \<longrightarrow> target_wf (Address a))"

text \<open>A connection for a target and a port has been started.\<close>

definition started_for :: "target \<Rightarrow> u16 \<Rightarrow> cli \<Rightarrow> cli \<Rightarrow> bool" where
  "started_for t p c c' \<longleftrightarrow> (\<exists>r. c' = c\<lparr>cc_request := r, cc_channel := Connecting\<rparr> \<and> ss_message r = (t, p) \<and>
     (\<exists>zs. r = ss_enc (t, p) @ zs))"

lemma OnCmdConnect_endpoint_ok:
  assumes "target_wf (Address a)"
  shows "\<exists>c'. OnCmdConnect_endpoint (a, p) c = Some (c', [Async_connect]) \<and> started_for (Address a) p c c'"
  using ss_request_endpoint_enc [OF assms, of p] ss_message_enc(1) [OF assms, of p]
  by (auto simp: OnCmdConnect_endpoint_def OnConnect_def started_for_def)

lemma OnCmdConnect_ok:
  assumes "make_address_wf env" "length d \<le> 255" "\<not> CIPHER_METHOD_IS_SOCKS_NON_DOMAIN_NAME (cc_method c)"
  shows "\<exists>c'. OnCmdConnect env d p c = Some (c', [Async_connect]) \<and> started_for (cli_target env (Domain d)) p c c'"
proof (cases "ce_make_address env (takeWhile (\<lambda>b. b \<noteq> 0) d)")
  case None
  with assms show ?thesis using ss_request_domain_enc [OF assms(2), of p] ss_message_enc(1) [of "Domain d" p]
    by (auto simp: OnCmdConnect_def OnConnect_def started_for_def)
next
  case (Some a)
  then have "target_wf (Address a)" using assms(1) by (simp add: make_address_wf_def)
  from OnCmdConnect_endpoint_ok [OF this, of p c] Some show ?thesis by (simp add: OnCmdConnect_def)
qed

lemma new_reply5_fields: "rp_version (new_reply5 env) = 5" "rp_null_byte (new_reply5 env) = 0"
  by (simp_all add: new_reply5_def new_socks5_reply_def socks5_version_def)

lemma granted_buffers:
  assumes "target_wf (Address a)"
  shows "socks5_reply_buffers ((socks5_reply_set_endpoint (a, p) (new_reply5 env))\<lparr>rp_status := 0\<rparr>) = socks5_granted (Address a) p"
  using assms by (cases a) (auto simp: socks5_reply_set_endpoint_def socks5_reply_buffers_def new_reply5_fields Let_def)

lemma any_address: "is_unspecified (AddressV4 [0, 0, 0, 0])"
  by (simp add: is_unspecified_def eval_nat_numeral)

lemma PerformCmdOpsV5_connect:
  assumes "socks5_message (cc_s5_request c) = (1, rsv, t, p)" "target_wf t" "cli_admits t p" "make_address_wf env"
    and "\<not> CIPHER_METHOD_IS_SOCKS_NON_DOMAIN_NAME (cc_method c)"
  shows "\<exists>c' reply. PerformCmdOpsV5 env (new_reply5 env) c = Some (no_error, reply, c', [Async_connect]) \<and>
    started_for (cli_target env t) p c c' \<and> socks5_reply_buffers reply = socks5_granted t p \<and> rp_status reply = 0"
proof (cases t)
  case (Domain d)
  with assms have r: "address_type (atyp_req (cc_s5_request c)) = atyp_domain" "socks5_domain_name (cc_s5_request c) = d"
      "rq_command (cc_s5_request c) = 1" "socks5_port (cc_s5_request c) = p" "d \<noteq> []" "p \<noteq> 0" "length d \<le> 255"
    by (auto simp: socks5_message_def split: if_splits)
  obtain c' where "OnCmdConnect env d p c = Some (c', [Async_connect])" "started_for (cli_target env (Domain d)) p c c'"
    using OnCmdConnect_ok [OF assms(4) r(7) assms(5)] by blast
  with r show ?thesis using granted_buffers [of "AddressV4 [0, 0, 0, 0]" 0 env] Domain
    by (simp add: PerformCmdOpsV5_def Let_def socks5_request_granted_def hi8_def lo8_def)
next
  case (Address a)
  with assms have r: "address_type (atyp_req (cc_s5_request c)) \<noteq> atyp_domain" "fst (socks5_endpoint (cc_s5_request c)) = a"
      "rq_command (cc_s5_request c) = 1" "socks5_port (cc_s5_request c) = p" "p \<noteq> 0" "\<not> is_unspecified a"
    by (auto simp: socks5_message_def split: if_splits)
  have ep: "socks5_endpoint (cc_s5_request c) = (a, p)"
    using r(2,4,6) any_address by (auto simp: socks5_endpoint_def Let_def split: if_splits)
  obtain c' where "OnCmdConnect_endpoint (a, p) c = Some (c', [Async_connect])" "started_for (Address a) p c c'"
    using OnCmdConnect_endpoint_ok [of a p c] assms(2) Address by auto
  with r ep show ?thesis using granted_buffers [of a p env] Address assms(2)
    by (simp add: PerformCmdOpsV5_def Let_def socks5_request_granted_def)
qed

lemma PerformCmdOpsV5_refuse:
  assumes "socks5_message (cc_s5_request c) = (cmd, rsv, t, p)" "\<not> (cmd = 1 \<and> cli_admits t p)"
  shows "\<exists>st. PerformCmdOpsV5 env reply c = Some (invalid_argument, reply\<lparr>rp_status := st\<rparr>, c, []) \<and> st = (if cmd = 1 then 3 else 7)"
  using assms by (cases t) (auto simp: PerformCmdOpsV5_def socks5_message_def Let_def split: if_splits)

section \<open>The SOCKS5 request\<close>

text \<open>The rest of the segment is queued, and when there is none the connection goes on reading.\<close>

definition continued :: "byte list \<Rightarrow> cli_effect list" where
  "continued rest = (if rest = [] then [WriteUpstreamInPipe_flush] else [])"

definition rest_queued :: "byte list \<Rightarrow> byte list list" where
  "rest_queued rest = (if rest = [] then [] else [rest])"

lemma handle_stream_queues:
  assumes "pending_ok c" "queued c = []" "cc_channel c \<noteq> Connected" "growable_inv buf" "int (length (view buf)) \<le> SOCKET_BUF_SIZE"
  shows "\<exists>q. handle_stream buf c = Some (c\<lparr>cc_pending := q\<rparr>, continued (view buf)) \<and> pending_ok (c\<lparr>cc_pending := q\<rparr>) \<and>
    queued (c\<lparr>cc_pending := q\<rparr>) = rest_queued (view buf)"
proof (cases "view buf = []")
  case True
  with assms show ?thesis by (intro exI [of _ "cc_pending c"]) (auto simp: handle_stream_def buf_size_view continued_def rest_queued_def)
next
  case False
  then have "handle_stream buf c = OnStreamRead buf c" using buf_size_view [OF assms(4)] by (simp add: handle_stream_def)
  moreover have "length (concat (queued c)) + length (view buf) \<le> kMaxHeaderSize"
    using assms(2,5) by (simp add: SOCKET_BUF_SIZE_def kMaxHeaderSize_def)
  ultimately show ?thesis using OnStreamRead_queues(2) [OF assms(1,3,4)] assms(2) False by (auto simp: continued_def rest_queued_def)
qed

lemma started_for_pending:
  assumes "started_for t p c c'" "pending_ok c"
  shows "pending_ok (c'\<lparr>cc_state := st\<rparr>)" "queued (c'\<lparr>cc_state := st\<rparr>) = queued c" "cc_channel (c'\<lparr>cc_state := st\<rparr>) = Connecting"
    "ss_message (cc_request c') = (t, p)"
  using assms by (auto simp: started_for_def pending_ok_def queued_def)

text \<open>What is done with a request and the bytes behind it.\<close>

definition socks5_outcome :: "cli_env \<Rightarrow> socks5_message \<Rightarrow> byte list \<Rightarrow> cli \<Rightarrow> cli_effect list \<Rightarrow> bool" where
  "socks5_outcome env msg rest c' es =
     (case msg of (cmd, rsv, t, p) \<Rightarrow>
        cc_state c' = state_stream \<and> pending_ok c' \<and>
        (if cmd = 1 \<and> cli_admits t p
         then es = [Async_connect, Async_write (socks5_granted t p) True] @ continued rest \<and>
           ss_message (cc_request c') = (cli_target env t, p) \<and> queued c' = rest_queued rest \<and> cc_channel c' = Connecting
         else (\<exists>reply. es = [Async_write reply False, ReadStream] \<and> take 3 reply = [5, if cmd = 1 then 3 else 7, 0]) \<and>
           cc_channel c' = No_channel \<and> queued c' = []))"

lemma ProcessReceivedData_socks5:
  assumes "cc_state c = state_socks5_handshake" "socks5_message (cc_s5_request c) = (cmd, rsv, t, p)" "target_wf t" "make_address_wf env"
    and "\<not> CIPHER_METHOD_IS_SOCKS_NON_DOMAIN_NAME (cc_method c)" "cc_channel c = No_channel"
    and "pending_ok c" "queued c = []" "growable_inv buf" "int (length (view buf)) \<le> SOCKET_BUF_SIZE"
  shows "\<exists>c' es. ProcessReceivedData env buf n c = Some (c', es) \<and> socks5_outcome env (cmd, rsv, t, p) (view buf) c' es"
proof (cases "cmd = 1 \<and> cli_admits t p")
  case True
  let ?c = "c\<lparr>cc_rbytes := cc_rbytes c + n\<rparr>"
  obtain c' reply where r: "PerformCmdOpsV5 env (new_reply5 env) ?c = Some (no_error, reply, c', [Async_connect])"
      "started_for (cli_target env t) p ?c c'" "socks5_reply_buffers reply = socks5_granted t p" "rp_status reply = 0"
    using PerformCmdOpsV5_connect [of ?c rsv t p env] assms(2-5) True by auto
  let ?d = "c'\<lparr>cc_state := state_stream\<rparr>"
  have ok: "pending_ok ?c" "queued ?c = []" using assms(7,8) by (auto simp: pending_ok_def queued_def)
  note d = started_for_pending [OF r(2) ok(1)]
  obtain q where "handle_stream buf ?d = Some (?d\<lparr>cc_pending := q\<rparr>, continued (view buf))" "pending_ok (?d\<lparr>cc_pending := q\<rparr>)"
      "queued (?d\<lparr>cc_pending := q\<rparr>) = rest_queued (view buf)"
    using handle_stream_queues [of ?d buf] d ok assms(9,10) by auto
  moreover from this(1) have "ProcessReceivedData env buf n c =
      Some (?d\<lparr>cc_pending := q\<rparr>, [Async_connect, Async_write (socks5_granted t p) True] @ continued (view buf))"
    using r assms(1) by (simp add: ProcessReceivedData_def Let_def WriteHandshakeSocks5_def socks5_request_granted_def)
  ultimately show ?thesis using True d by (simp add: socks5_outcome_def)
next
  case False
  let ?c = "c\<lparr>cc_rbytes := cc_rbytes c + n\<rparr>"
  obtain st where "PerformCmdOpsV5 env (new_reply5 env) ?c = Some (invalid_argument, (new_reply5 env)\<lparr>rp_status := st\<rparr>, ?c, [])"
      "st = (if cmd = 1 then 3 else 7)"
    using PerformCmdOpsV5_refuse [of ?c cmd rsv t p env] assms(2) False by auto
  then have "ProcessReceivedData env buf n c = Some (?c\<lparr>cc_state := state_stream\<rparr>,
      [Async_write (socks5_reply_buffers ((new_reply5 env)\<lparr>rp_status := st\<rparr>)) False, ReadStream])"
    "take 3 (socks5_reply_buffers ((new_reply5 env)\<lparr>rp_status := st\<rparr>)) = [5, if cmd = 1 then 3 else 7, 0]"
    using assms(1) by (auto simp: ProcessReceivedData_def Let_def WriteHandshakeSocks5_def socks5_request_granted_def
        socks5_reply_buffers_def new_reply5_fields)
  moreover have "pending_ok (?c\<lparr>cc_state := state_stream\<rparr>)" "queued (?c\<lparr>cc_state := state_stream\<rparr>) = []"
    using assms(7,8) by (auto simp: pending_ok_def queued_def)
  ultimately show ?thesis using False assms(6) by (simp add: socks5_outcome_def)
qed

definition socks5_ready :: "cli \<Rightarrow> bool" where
  "socks5_ready c \<longleftrightarrow> \<not> cc_closed c \<and> cc_s5_request c = new_socks5_request \<and> cc_channel c = No_channel \<and> pending_ok c \<and> queued c = []"

lemma socks5_request_served:
  assumes "socks5_ready c" "make_address_wf env" "\<not> CIPHER_METHOD_IS_SOCKS_NON_DOMAIN_NAME (cc_method c)" "target_wf t"
    and "int (length (socks5_request_enc (cmd, rsv, t, p) @ rest)) \<le> SOCKET_BUF_SIZE"
  shows "\<exists>c' es. on_socks5_handshake env no_error (Data (socks5_request_enc (cmd, rsv, t, p) @ rest)) c = Some (c', es) \<and>
    socks5_outcome env (cmd, rsv, t, p) rest c' es"
proof -
  let ?xs = "socks5_request_enc (cmd, rsv, t, p) @ rest"
  obtain b where b: "read_segment (ce_junk env) SOCKET_BUF_SIZE ?xs = Some b" "growable_inv b" "view b = ?xs"
    using buffer_segment [OF assms(5)] by blast
  obtain i st q b' where r: "socks5_request_parse request_start new_socks5_request (parse_mem b) 0 (parse_end b) = Some (good, i, st, q)"
      "socks5_message q = (cmd, rsv, t, p)" "set_offset (offset b + int (socks5_request_length q)) b = Some b'"
      "growable_inv b'" "view b' = rest"
    using socks5_buf.offer [of b "(cmd, rsv, t, p)" rest] b assms(4) by auto
  let ?c = "c\<lparr>cc_s5_request := q, cc_state := state_socks5_handshake\<rparr>"
  have "on_socks5_handshake env no_error (Data ?xs) c = ProcessReceivedData env b' (length ?xs) ?c"
    using b r assms(1) by (simp add: on_socks5_handshake_def callback_read_def OnReadSocks5Handshake_def socks5_ready_def Let_def)
  moreover have fields: "pending_ok ?c" "queued ?c = []" "cc_channel c = No_channel"
    using assms(1) by (simp_all add: socks5_ready_def pending_ok_def queued_def)
  ultimately show ?thesis
    using ProcessReceivedData_socks5 [of ?c cmd rsv t p env b' "length ?xs"] r(2,4,5) assms(2-5) fields by simp
qed

lemma socks5_request_asked_for:
  assumes "socks5_ready c" "int (length xs) \<le> SOCKET_BUF_SIZE" "make_address_wf env" "\<not> CIPHER_METHOD_IS_SOCKS_NON_DOMAIN_NAME (cc_method c)"
    and "on_socks5_handshake env no_error (Data xs) c = Some (c', es)" "es \<noteq> [Closed_with invalid_argument]"
  shows "\<exists>cmd rsv t p rest. xs = socks5_request_enc (cmd, rsv, t, p) @ rest \<and> target_wf t"
proof -
  obtain b where b: "read_segment (ce_junk env) SOCKET_BUF_SIZE xs = Some b" "growable_inv b" "view b = xs"
    using buffer_segment [OF assms(2)] by blast
  obtain res i st q where p: "socks5_request_parse request_start new_socks5_request (parse_mem b) 0 (parse_end b) = Some (res, i, st, q)"
    using assms(1,5) b by (auto simp: on_socks5_handshake_def callback_read_def OnReadSocks5Handshake_def socks5_ready_def bind_eq_Some_conv)
  have "res = good"
    using assms(1,5,6) b p by (auto simp: on_socks5_handshake_def callback_read_def OnReadSocks5Handshake_def socks5_ready_def OnDisconnect_def Let_def
        split: if_splits)
  moreover obtain b' where "set_offset (offset b + int (socks5_request_length q)) b = Some b'"
    using assms(1,5) b p calculation
    by (auto simp: on_socks5_handshake_def callback_read_def OnReadSocks5Handshake_def socks5_ready_def bind_eq_Some_conv Let_def)
  ultimately have "target_wf (fst (snd (snd (socks5_message q)))) \<and> xs = socks5_request_enc (socks5_message q) @ view b'"
    using socks5_buf.accept [OF b(2), of i st q b'] p b(3) by simp
  then show ?thesis by (metis prod.collapse fst_conv snd_conv)
qed

text \<open>The one way to make the handler fail a check: a request for a name that lacks its last byte.\<close>

definition lacks_last_byte :: "byte list \<Rightarrow> bool" where
  "lacks_last_byte xs \<longleftrightarrow> (\<exists>cmd rsv d p. d \<noteq> [] \<and> length d \<le> 255 \<and> xs = butlast (socks5_request_enc (cmd, rsv, Domain d, p)))"

lemma socks5_request_aborts:
  assumes "socks5_ready c" "int (length xs) \<le> SOCKET_BUF_SIZE" "make_address_wf env" "\<not> CIPHER_METHOD_IS_SOCKS_NON_DOMAIN_NAME (cc_method c)"
  shows "on_socks5_handshake env no_error (Data xs) c = None \<longleftrightarrow> lacks_last_byte xs"
proof -
  obtain b where b: "read_segment (ce_junk env) SOCKET_BUF_SIZE xs = Some b" "growable_inv b" "view b = xs" "length (mem b) = nat SOCKET_BUF_SIZE"
      "capacity b = int (length xs)" using read_segment_ok [OF assms(2), of "ce_junk env"] by (auto simp: SOCKET_BUF_SIZE_def INT_MAX_def)
  let ?parse = "socks5_request_parse request_start new_socks5_request (parse_mem b) 0 (parse_end b)"
  note unfolds = on_socks5_handshake_def callback_read_def OnReadSocks5Handshake_def socks5_ready_def
  obtain extra where m: "parse_mem b = xs @ extra" "length extra = nat SOCKET_BUF_SIZE - length xs" "parse_end b = length xs"
    using parse_mem_view [OF b(2)] b(3-5) by auto
  have "parse_end b < length (parse_mem b) \<or> 263 \<le> parse_end b \<and> parse_end b \<le> length (parse_mem b)"
    using m assms(2) by (auto simp: SOCKET_BUF_SIZE_def)
  then obtain res i st q where p: "?parse = Some (res, i, st, q)" using socks5_parse_returns by blast
  show ?thesis
  proof
    assume none: "on_socks5_handshake env no_error (Data xs) c = None"
    have "res = good" using none assms(1) b(1) p by (auto simp: unfolds Let_def split: if_splits)
    moreover have "set_offset (offset b + int (socks5_request_length q)) b = None"
    proof (rule ccontr)
      assume "\<not> ?thesis"
      then obtain b' where "set_offset (offset b + int (socks5_request_length q)) b = Some b'" by auto
      then have "target_wf (fst (snd (snd (socks5_message q)))) \<and> xs = socks5_request_enc (socks5_message q) @ view b'"
        using socks5_buf.accept [OF b(2), of i st q b'] p calculation b(3) by simp
      then show False using none socks5_request_served [OF assms(1,3,4), of "fst (snd (snd (socks5_message q)))" "fst (socks5_message q)"
            "fst (snd (socks5_message q))" "snd (snd (snd (socks5_message q)))" "view b'"] assms(2) by auto
    qed
    ultimately show "lacks_last_byte xs" using socks5_overrun_domain [OF b(2), of i st q] p b(3) by (simp add: lacks_last_byte_def)
  next
    assume "lacks_last_byte xs"
    then obtain cmd rsv d pt where d: "d \<noteq> []" "length d \<le> 255" "xs = butlast (socks5_request_enc (cmd, rsv, Domain d, pt))"
      by (auto simp: lacks_last_byte_def)
    have "view b = [socks5_version, cmd, rsv, atyp_domain, of_nat (length d)] @ d @ [hi8 pt]"
      using b(3) d(3) by (simp add: socks5_request_enc_def butlast_append)
    then have "res = good \<and> set_offset (offset b + int (socks5_request_length q)) b = None"
      using truncated_domain_overruns [OF b(2) _ _ d(2) p] d(1) by simp
    then show "on_socks5_handshake env no_error (Data xs) c = None" using assms(1) b(1) p by (simp add: unfolds)
  qed
qed

section \<open>The SOCKS4 request\<close>

fun socks4_wants :: "socks4_message \<Rightarrow> target \<times> u16" where
  "socks4_wants (cmd, port, a, uid, name) = (if names_domain a then Domain name else Address (AddressV4 a), port)"

lemma PerformCmdOpsV4_connect:
  assumes "socks4_message (cc_s4_request c) = m" "socks4_wf m" "socks4_wants m = (t, p)" "fst m = 1" "cli_admits t p" "target_wf t"
    and "make_address_wf env" "\<not> CIPHER_METHOD_IS_SOCKS_NON_DOMAIN_NAME (cc_method c)"
  shows "\<exists>c' reply. PerformCmdOpsV4 env (new_reply4 env) c = Some (no_error, reply, c', [Async_connect]) \<and>
    started_for (cli_target env t) p c c' \<and> socks4_reply_buffers reply = [0, 0x5A, 0, 0, 0, 0, 0, 0] \<and> r4_status reply = 0x5A"
proof -
  obtain cmd a uid name where m: "m = (cmd, p, a, uid, name)" using assms(3) by (cases m) (auto split: if_splits)
  have r: "s4_command (cc_s4_request c) = 1" "socks4_port (cc_s4_request c) = p" "is_socks4a (cc_s4_request c) = names_domain a"
      "s4_domain_name (cc_s4_request c) = name" "socks4_endpoint (cc_s4_request c) = (AddressV4 a, p)"
    using assms(1,4) m by (auto simp: socks4_message_def is_socks4a_names socks4_endpoint_def socks4_port_def)
  let ?rp = "(new_reply4 env)\<lparr>r4_address := [0, 0, 0, 0], r4_port_high_byte := 0, r4_port_low_byte := 0, r4_status := 0x5A\<rparr>"
  have rp: "map_option (\<lambda>rp. rp\<lparr>r4_status := socks4_request_granted\<rparr>) (socks4_reply_set_endpoint (AddressV4 [0, 0, 0, 0], 0) (new_reply4 env)) = Some ?rp"
      "socks4_reply_buffers ?rp = [0, 0x5A, 0, 0, 0, 0, 0, 0]"
    by (simp_all add: socks4_reply_set_endpoint_def socks4_reply_buffers_def new_reply4_def new_socks4_reply_def hi8_def lo8_def
        socks4_request_granted_def)
  show ?thesis
  proof (cases "names_domain a")
    case True
    then have t: "t = Domain name" "p \<noteq> 0" "name \<noteq> []" "length name \<le> 255" using assms(3,5,6) m by auto
    obtain c' where "OnCmdConnect env name p c = Some (c', [Async_connect])" "started_for (cli_target env t) p c c'"
      using OnCmdConnect_ok [OF assms(7) t(4) assms(8), of p] t(1) by blast
    with r rp t True show ?thesis
      by (auto simp: PerformCmdOpsV4_def Let_def TLSEXT_MAXLEN_host_name_def socks4_request_granted_def)
  next
    case False
    then have t: "t = Address (AddressV4 a)" "p \<noteq> 0" "\<not> is_unspecified (AddressV4 a)" using assms(3,5) m by auto
    obtain c' where "OnCmdConnect_endpoint (AddressV4 a, p) c = Some (c', [Async_connect])" "started_for (cli_target env t) p c c'"
      using OnCmdConnect_endpoint_ok [of "AddressV4 a" p c] assms(6) t by auto
    with r rp t False show ?thesis by (auto simp: PerformCmdOpsV4_def Let_def socks4_request_granted_def)
  qed
qed

lemma PerformCmdOpsV4_refuse:
  assumes "socks4_message (cc_s4_request c) = m" "socks4_wf m" "socks4_wants m = (t, p)" "\<not> (fst m = 1 \<and> cli_admits t p \<and> target_wf t)"
  shows "\<exists>reply. PerformCmdOpsV4 env (new_reply4 env) c = Some (invalid_argument, reply, c, []) \<and>
    r4_status reply = 0x5B \<and> r4_null_byte reply = 0"
  using assms
  by (cases m) (auto simp: PerformCmdOpsV4_def socks4_message_def is_socks4a_names Let_def socks4_wf_def socks4_endpoint_def
      TLSEXT_MAXLEN_host_name_def new_reply4_def new_socks4_reply_def socks4_reply_set_endpoint_def split: if_splits)

definition socks4_outcome :: "cli_env \<Rightarrow> socks4_message \<Rightarrow> byte list \<Rightarrow> cli \<Rightarrow> cli_effect list \<Rightarrow> bool" where
  "socks4_outcome env msg rest c' es =
     (let (t, p) = socks4_wants msg in
        cc_state c' = state_stream \<and> pending_ok c' \<and>
        (if fst msg = 1 \<and> cli_admits t p \<and> target_wf t
         then es = [Async_connect, Async_write [0, 0x5A, 0, 0, 0, 0, 0, 0] True] @ continued rest \<and>
           ss_message (cc_request c') = (cli_target env t, p) \<and> queued c' = rest_queued rest \<and> cc_channel c' = Connecting
         else (\<exists>reply. es = [Async_write reply False, ReadStream] \<and> take 2 reply = [0, 0x5B]) \<and>
           cc_channel c' = No_channel \<and> queued c' = []))"

lemma ProcessReceivedData_socks4:
  assumes "cc_state c = state_socks4_handshake" "socks4_message (cc_s4_request c) = m" "socks4_wf m" "make_address_wf env"
    and "\<not> CIPHER_METHOD_IS_SOCKS_NON_DOMAIN_NAME (cc_method c)" "cc_channel c = No_channel"
    and "pending_ok c" "queued c = []" "growable_inv buf" "int (length (view buf)) \<le> SOCKET_BUF_SIZE"
  shows "\<exists>c' es. ProcessReceivedData env buf n c = Some (c', es) \<and> socks4_outcome env m (view buf) c' es"
proof -
  obtain t p where w: "socks4_wants m = (t, p)" by fastforce
  let ?c = "c\<lparr>cc_rbytes := cc_rbytes c + n\<rparr>"
  have ok: "pending_ok ?c" "queued ?c = []" using assms(7,8) by (auto simp: pending_ok_def queued_def)
  show ?thesis
  proof (cases "fst m = 1 \<and> cli_admits t p \<and> target_wf t")
    case True
    obtain c' reply where r: "PerformCmdOpsV4 env (new_reply4 env) ?c = Some (no_error, reply, c', [Async_connect])"
        "started_for (cli_target env t) p ?c c'" "socks4_reply_buffers reply = [0, 0x5A, 0, 0, 0, 0, 0, 0]" "r4_status reply = 0x5A"
      using PerformCmdOpsV4_connect [of ?c m t p env] assms(2-5) w True by auto
    let ?d = "c'\<lparr>cc_state := state_stream\<rparr>"
    note d = started_for_pending [OF r(2) ok(1)]
    obtain q where "handle_stream buf ?d = Some (?d\<lparr>cc_pending := q\<rparr>, continued (view buf))" "pending_ok (?d\<lparr>cc_pending := q\<rparr>)"
        "queued (?d\<lparr>cc_pending := q\<rparr>) = rest_queued (view buf)"
      using handle_stream_queues [of ?d buf] d ok assms(9,10) by auto
    moreover from this(1) have "ProcessReceivedData env buf n c =
        Some (?d\<lparr>cc_pending := q\<rparr>, [Async_connect, Async_write [0, 0x5A, 0, 0, 0, 0, 0, 0] True] @ continued (view buf))"
      using r assms(1) by (simp add: ProcessReceivedData_def Let_def WriteHandshakeSocks4_def socks4_request_granted_def)
    ultimately show ?thesis using True d w by (simp add: socks4_outcome_def)
  next
    case False
    obtain reply where "PerformCmdOpsV4 env (new_reply4 env) ?c = Some (invalid_argument, reply, ?c, [])"
        "r4_status reply = 0x5B" "r4_null_byte reply = 0"
      using PerformCmdOpsV4_refuse [of ?c m t p env] assms(2,3) w False by auto
    then have "ProcessReceivedData env buf n c =
        Some (?c\<lparr>cc_state := state_stream\<rparr>, [Async_write (socks4_reply_buffers reply) False, ReadStream])"
      "take 2 (socks4_reply_buffers reply) = [0, 0x5B]"
      using assms(1) by (auto simp: ProcessReceivedData_def Let_def WriteHandshakeSocks4_def socks4_request_granted_def socks4_reply_buffers_def)
    moreover have "pending_ok (?c\<lparr>cc_state := state_stream\<rparr>)" "queued (?c\<lparr>cc_state := state_stream\<rparr>) = []"
      using ok by (auto simp: pending_ok_def queued_def)
    ultimately show ?thesis using False w assms(6) by (simp add: socks4_outcome_def)
  qed
qed

lemma not_a_method_selection:
  assumes "growable_inv b" "view b = x # xs" "x \<noteq> socks5_version"
  shows "OnReadSocks5MethodSelect uninit b c = Some (invalid_argument, b, c)"
proof -
  obtain extra where m: "parse_mem b = view b @ extra" "parse_end b = length (view b)" using parse_mem_split [OF assms(1)] by blast
  then have n: "parse_end b + 0 \<le> length (parse_mem b)" by simp
  from method_select.run_safe [OF n, of uninit] obtain res i ms where r: "run_method_select uninit (parse_mem b) (parse_end b) = Some (res, i, ms)"
      "i \<le> parse_end b" by auto
  have "res \<noteq> good"
  proof
    assume "res = good"
    with method_select.run_sound [OF n, of uninit i ms] r have "take i (parse_mem b) = method_select_enc ms" by simp
    then show False using m(1) assms(2,3) by (cases i) (auto simp: method_select_enc_def)
  qed
  with r(1) show ?thesis by (auto simp: run_method_select_def OnReadSocks5MethodSelect_def)
qed

definition cli_fresh :: "cli \<Rightarrow> bool" where
  "cli_fresh c \<longleftrightarrow> socks5_ready c \<and> cc_s4_request c = new_socks4_request"

lemma socks4_request_served:
  assumes "cli_fresh c" "make_address_wf env" "\<not> CIPHER_METHOD_IS_SOCKS_NON_DOMAIN_NAME (cc_method c)" "socks4_wf m"
    and "int (length (socks4_request_enc m @ rest)) \<le> SOCKET_BUF_SIZE"
  shows "\<exists>c' es. on_method_select env no_error (Data (socks4_request_enc m @ rest)) c = Some (c', es) \<and> socks4_outcome env m rest c' es"
proof -
  let ?xs = "socks4_request_enc m @ rest"
  obtain b where b: "read_segment (ce_junk env) SOCKET_BUF_SIZE ?xs = Some b" "growable_inv b" "view b = ?xs"
    using buffer_segment [OF assms(5)] by blast
  obtain ys where "?xs = socks4_version # ys" by (cases m) (auto simp: socks4_request_enc_def)
  then have ms: "OnReadSocks5MethodSelect (ce_junk env) b c = Some (invalid_argument, b, c)"
    using not_a_method_selection [of b socks4_version ys] b by (simp add: socks4_version_def socks5_version_def)
  obtain i st q b' where r: "socks4_request_parse s4_request_start new_socks4_request (parse_mem b) 0 (parse_end b) = Some (good, i, st, q)"
      "socks4_message q = m" "set_offset (offset b + int (socks4_request_length q)) b = Some b'"
      "growable_inv b'" "view b' = rest"
    using socks4_buf.offer [of b m rest] b assms(4) by auto
  let ?c = "c\<lparr>cc_s4_request := q, cc_state := state_socks4_handshake\<rparr>"
  have "on_method_select env no_error (Data ?xs) c = ProcessReceivedData env b' (length ?xs) ?c"
    using b r ms assms(1) by (simp add: on_method_select_def callback_read_def OnReadSocks4Handshake_def cli_fresh_def socks5_ready_def Let_def)
  moreover have fields: "pending_ok ?c" "queued ?c = []" "cc_channel c = No_channel"
    using assms(1) by (simp_all add: cli_fresh_def socks5_ready_def pending_ok_def queued_def)
  ultimately show ?thesis
    using ProcessReceivedData_socks4 [of ?c m env b' "length ?xs"] r(2,4,5) assms(2-5) fields by simp
qed

lemma cli_start_fresh: "cli_fresh (cli_start m)" "cc_method (cli_start m) = m"
  using ioq_rep_inv [OF IoQueue_rep, of 4] by (auto simp: cli_fresh_def socks5_ready_def cli_start_def pending_ok_def queued_def)

section \<open>All runs\<close>

text \<open>The events of a connection up to the moment the upstream is established: reads and their errors, writes,
  the answer of the resolver, data read ahead of the upstream, an error of the local socket, the next request of a
  keep-alive connection, and the upstream being established.\<close>

datatype cli_event = Ev_method_select error_code read_result | Ev_socks5 error_code read_result | Ev_sent bool error_code nat
  | Ev_resolved error_code "endpoint list" | Ev_data "byte list" | Ev_error error_code | Ev_reuse "byte list"
  | Ev_established

definition handle_event :: "cli_env \<Rightarrow> cli_event \<Rightarrow> cli \<Rightarrow> cli_result" where
  "handle_event env e c =
     (case e of
        Ev_method_select ec r \<Rightarrow> on_method_select env ec r c
      | Ev_socks5 ec r \<Rightarrow> on_socks5_handshake env ec r c
      | Ev_sent granted ec n \<Rightarrow> Some (on_sent granted ec n c)
      | Ev_resolved ec results \<Rightarrow> on_resolved ec results c
      | Ev_data xs \<Rightarrow> do { buf \<leftarrow> read_segment (ce_junk env) SOCKET_BUF_SIZE xs; OnStreamRead buf c }
      | Ev_error ec \<Rightarrow> Some (OnDisconnect ec c)
      | Ev_reuse xs \<Rightarrow> do { buf \<leftarrow> read_segment (ce_junk env) SOCKET_BUF_SIZE xs;
                           (ec, b, c, es) \<leftarrow> OnReadHttpRequestAfterReuse env buf c; Some (c, es) }
      | Ev_established \<Rightarrow> Some (if cc_closed c \<or> cc_channel c \<noteq> Connecting then c else snd (take_pending (c\<lparr>cc_channel := Connected\<rparr>)), []))"

fun event_wf :: "cli_event \<Rightarrow> bool" where
  "event_wf (Ev_resolved ec results) = (\<forall>e\<in>set results. target_wf (Address (fst e)))"
| "event_wf _ = True"

inductive cli_step :: "cli_env \<Rightarrow> cli \<Rightarrow> cli \<Rightarrow> bool" for env where
  cli_stepI: "handle_event env e c = Some (c', es) \<Longrightarrow> event_wf e \<Longrightarrow> cli_step env c c'"

subsection \<open>Buffers stay well formed\<close>

named_theorems buf_keep

lemma set_offset_keep [buf_keep]: "set_offset v b = Some b' \<Longrightarrow> growable_inv b \<Longrightarrow> growable_inv b'"
  by (auto simp: set_offset_def growable_inv_def split: if_splits)

lemma SetCapacity_keep [buf_keep]: "SetCapacity uninit n b = Some b' \<Longrightarrow> growable_inv b \<Longrightarrow> growable_inv b'"
  by (auto simp: SetCapacity_def set_offset_def growable_inv_def in_int_def mem_realloc_def Let_def split: if_splits)

lemma memcpy_data_keep [buf_keep]: "memcpy_data i xs b = Some b' \<Longrightarrow> growable_inv b \<Longrightarrow> growable_inv b'"
  by (auto simp: memcpy_data_def mem_write_def growable_inv_def split: if_splits)

lemma write_from_start_keep [buf_keep]: "write_from_start i xs b = Some b' \<Longrightarrow> growable_inv b \<Longrightarrow> growable_inv b'"
  by (auto simp: write_from_start_def mem_write_def growable_inv_def split: if_splits)

lemma copyBuffer_keep [buf_keep]: "copyBuffer uninit xs = Some b \<Longrightarrow> growable_inv b"
  by (auto simp: copyBuffer_def elim!: bind_SomeE split: if_splits dest!: buf_keep)

lemma rewrite_head_keep [buf_keep]: "rewrite_head uninit p n h b = Some b' \<Longrightarrow> growable_inv b \<Longrightarrow> growable_inv b'"
  by (auto simp: rewrite_head_def Let_def elim!: bind_SomeE dest!: buf_keep)

lemma keep_alive_split_keep [buf_keep]:
  "keep_alive_split uninit k cl h b = Some (r, p, b') \<Longrightarrow> growable_inv b \<Longrightarrow> growable_inv b'"
  by (auto simp: keep_alive_split_def Let_def elim!: bind_SomeE split: if_splits dest!: buf_keep)

lemma socks5_parse_union:
  "socks5_request_parse st req m i e = Some (res, j, st', req') \<Longrightarrow> length (addr_union (atyp_req req')) = length (addr_union (atyp_req req))"
proof (induction st req m i e rule: socks5_request_parse.induct)
  case (1 st req m i e)
  show ?case
  proof (cases st)
    case request_start
    with 1 show ?thesis by (auto simp: socks5_request_parse.simps [of request_start] Let_def split: if_splits elim!: bind_SomeE)
  next
    case request_address_start
    with 1 show ?thesis
      by (auto simp: socks5_request_parse.simps [of request_address_start] Let_def read_port_def split: if_splits elim!: bind_SomeE dest!: length_mem_write)
  qed
qed

lemma socks4_parse_address:
  "socks4_request_parse st req m i e = Some (res, j, st', req') \<Longrightarrow> length (s4_address req) = 4 \<Longrightarrow> length (s4_address req') = 4"
proof (induction st req m i e rule: socks4_request_parse.induct)
  case (1 st req m i e)
  show ?case
  proof (cases st)
    case s4_request_start
    with 1 show ?thesis
      by (auto simp: socks4_request_parse.simps [of s4_request_start] Let_def mem_slice_def split: if_splits elim!: bind_SomeE)
  next
    case s4_request_userid_start
    with 1 show ?thesis
      by (auto simp: socks4_request_parse.simps [of s4_request_userid_start] Let_def split: if_splits elim!: bind_SomeE)
  next
    case s4_request_domain_start
    with 1 show ?thesis
      by (auto simp: socks4_request_parse.simps [of s4_request_domain_start] Let_def split: if_splits elim!: bind_SomeE)
  qed
qed

subsection \<open>The invariant\<close>

definition request_for :: "ss_request \<Rightarrow> bool" where
  "request_for r \<longleftrightarrow> (\<exists>t p zs. target_wf t \<and> p \<noteq> 0 \<and> r = ss_enc (t, p) @ zs)"

definition cli_ok :: "cli \<Rightarrow> bool" where
  "cli_ok c \<longleftrightarrow> pending_ok c \<and> length (addr_union (atyp_req (cc_s5_request c))) = 256 \<and> length (s4_address (cc_s4_request c)) = 4 \<and>
     (cc_channel c \<noteq> No_channel \<longrightarrow> request_for (cc_request c))"

lemma request_forI: "target_wf t \<Longrightarrow> p \<noteq> 0 \<Longrightarrow> request_for (ss_enc (t, p) @ zs)"
  by (auto simp: request_for_def)

lemma pending_ok_updates [simp]:
  "pending_ok (c\<lparr>cc_state := st\<rparr>) = pending_ok c" "pending_ok (c\<lparr>cc_closed := b\<rparr>) = pending_ok c"
  "pending_ok (c\<lparr>cc_shutdown := b\<rparr>) = pending_ok c" "pending_ok (c\<lparr>cc_rbytes := n\<rparr>) = pending_ok c"
  "pending_ok (c\<lparr>cc_wbytes := n\<rparr>) = pending_ok c" "pending_ok (c\<lparr>cc_channel := ch\<rparr>) = pending_ok c"
  "pending_ok (c\<lparr>cc_request := r\<rparr>) = pending_ok c" "pending_ok (c\<lparr>cc_resolver_inited := b\<rparr>) = pending_ok c"
  "pending_ok (c\<lparr>cc_s5_request := s5\<rparr>) = pending_ok c" "pending_ok (c\<lparr>cc_s4_request := s4\<rparr>) = pending_ok c"
  "pending_ok (c\<lparr>cc_http_host := h\<rparr>) = pending_ok c" "pending_ok (c\<lparr>cc_http_port := p\<rparr>) = pending_ok c"
  "pending_ok (c\<lparr>cc_http_is_connect := b\<rparr>) = pending_ok c" "pending_ok (c\<lparr>cc_http_is_keep_alive := b\<rparr>) = pending_ok c"
  "pending_ok (c\<lparr>cc_http_remaining := i\<rparr>) = pending_ok c" "pending_ok (c\<lparr>cc_http_pending := pb\<rparr>) = pending_ok c"
  by (simp_all add: pending_ok_def queued_def)

lemma cli_start_ok: "cli_ok (cli_start m)"
  using cli_start_fresh [of m]
  by (auto simp: cli_ok_def cli_fresh_def socks5_ready_def cli_start_def new_socks5_request_def new_socks4_request_def)

named_theorems cli_keep

lemma OnDisconnect_keep [cli_keep]: "OnDisconnect ec c = (c', es) \<Longrightarrow> cli_ok c \<Longrightarrow> cli_ok c'"
  by (auto simp: OnDisconnect_def cli_ok_def split: if_splits)

lemma fail_state_keep [cli_keep]: "fail_state ec c = (c', es) \<Longrightarrow> cli_ok c \<Longrightarrow> cli_ok c'"
  by (auto simp: fail_state_def OnDisconnect_def cli_ok_def split: if_splits)

lemma OnCmdConnect_endpoint_keep [cli_keep]:
  "OnCmdConnect_endpoint (a, p) c = Some (c', es) \<Longrightarrow> target_wf (Address a) \<Longrightarrow> p \<noteq> 0 \<Longrightarrow> cli_ok c \<Longrightarrow> cli_ok c'"
  using OnCmdConnect_endpoint_ok [of a p c] by (auto simp: cli_ok_def started_for_def request_forI)

lemma OnCmdConnect_keep [cli_keep]:
  assumes "OnCmdConnect env d p c = Some (c', es)" "make_address_wf env" "p \<noteq> 0" "cli_ok c"
  shows "cli_ok c'"
proof (cases "ce_make_address env (takeWhile (\<lambda>b. b \<noteq> 0) d)")
  case (Some a)
  with assms show ?thesis using OnCmdConnect_endpoint_keep [of a p c c' es] by (simp add: OnCmdConnect_def make_address_wf_def)
next
  case None
  have fits: "length d \<le> 255" if "ss_request_domain d p = Some r" for r using that ss_request_domain_overflow [of d p] by fastforce
  have "request_for r" if "ss_request_domain d p = Some r" for r
    using that ss_request_domain_enc [OF fits [OF that], of p] fits [OF that] assms(3) by (auto intro: request_forI)
  with None assms show ?thesis
    by (auto simp: OnCmdConnect_def OnConnect_def cli_ok_def OnDisconnect_def split: if_splits elim!: bind_SomeE)
qed

lemma OnStreamRead_keep [cli_keep]:
  assumes "OnStreamRead buf c = Some (c', es)" "growable_inv buf" "cli_ok c"
  shows "cli_ok c'"
proof (cases "cc_channel c = Connected")
  case True
  with assms show ?thesis by (simp add: OnStreamRead_def)
next
  case False
  have ok: "pending_ok c" using assms(3) by (simp add: cli_ok_def)
  note r = OnStreamRead_queues [OF ok False assms(2)]
  show ?thesis
  proof (cases "length (concat (queued c)) + length (view buf) \<le> kMaxHeaderSize")
    case True
    with r(2) assms show ?thesis by (auto simp: cli_ok_def)
  next
    case False
    then have "OnDisconnect connection_reset c = (c', es)" using r(1) assms(1) by simp
    with assms(3) show ?thesis by (auto dest: cli_keep)
  qed
qed

lemma handle_stream_keep [cli_keep]: "handle_stream buf c = Some (c', es) \<Longrightarrow> growable_inv buf \<Longrightarrow> cli_ok c \<Longrightarrow> cli_ok c'"
  by (auto simp: handle_stream_def split: if_splits dest: cli_keep)

lemma socks5_endpoint_wf:
  "length (addr_union (atyp_req r)) = 256 \<Longrightarrow> socks5_endpoint r = (a, p) \<Longrightarrow> \<not> is_unspecified a \<Longrightarrow> target_wf (Address a) \<and> p = socks5_port r"
  using any_address by (auto simp: socks5_endpoint_def Let_def split: if_splits)

lemma PerformCmdOpsV5_keep [cli_keep]:
  assumes "PerformCmdOpsV5 env reply c = Some (ec, reply', c', es)" "make_address_wf env" "cli_ok c"
  shows "cli_ok c'"
proof -
  obtain a p where ep: "socks5_endpoint (cc_s5_request c) = (a, p)" by fastforce
  have "\<not> is_unspecified a \<Longrightarrow> target_wf (Address a) \<and> p = socks5_port (cc_s5_request c)"
    using socks5_endpoint_wf [OF _ ep] assms(3) by (simp add: cli_ok_def)
  with assms ep show ?thesis
    by (auto simp: PerformCmdOpsV5_def Let_def split: if_splits elim!: bind_SomeE dest!: cli_keep)
qed

lemma PerformCmdOpsV4_keep [cli_keep]:
  assumes "PerformCmdOpsV4 env reply c = Some (ec, reply', c', es)" "make_address_wf env" "cli_ok c"
  shows "cli_ok c'"
proof -
  have ep: "socks4_endpoint (cc_s4_request c) = (AddressV4 (s4_address (cc_s4_request c)), socks4_port (cc_s4_request c))"
      "target_wf (Address (AddressV4 (s4_address (cc_s4_request c))))"
    using assms(3) by (auto simp: cli_ok_def socks4_endpoint_def socks4_port_def)
  with assms show ?thesis
    by (auto simp: PerformCmdOpsV4_def Let_def split: if_splits elim!: bind_SomeE dest!: OnCmdConnect_keep OnCmdConnect_endpoint_keep)
qed

lemma PerformCmdOpsHttp_keep [cli_keep]:
  "PerformCmdOpsHttp env c = Some (ec, c', es) \<Longrightarrow> make_address_wf env \<Longrightarrow> cli_ok c \<Longrightarrow> cli_ok c'"
  by (auto simp: PerformCmdOpsHttp_def split: if_splits elim!: bind_SomeE dest!: cli_keep)

lemma cli_ok_state [simp]:
  "cli_ok (c\<lparr>cc_state := st\<rparr>) = cli_ok c" "cli_ok (c\<lparr>cc_rbytes := n\<rparr>) = cli_ok c" "cli_ok (c\<lparr>cc_wbytes := n\<rparr>) = cli_ok c"
  "cli_ok (c\<lparr>cc_shutdown := b\<rparr>) = cli_ok c"
  by (simp_all add: cli_ok_def)

lemma WriteHandshakeHttp_keep [cli_keep]: "WriteHandshakeHttp uninit c = Some (c', es) \<Longrightarrow> cli_ok c \<Longrightarrow> cli_ok c'"
  by (auto simp: WriteHandshakeHttp_def Let_def split: if_splits elim!: bind_SomeE)

lemma ProcessReceivedData_keep [cli_keep]:
  assumes "ProcessReceivedData env buf n c = Some (c', es)" "make_address_wf env" "growable_inv buf" "cli_ok c"
  shows "cli_ok c'"
  using assms
  by (auto simp: ProcessReceivedData_def Let_def WriteHandshakeSocks5_def WriteHandshakeSocks4_def
      split: cli_state.splits if_splits prod.splits elim!: bind_SomeE dest!: cli_keep)

lemma OnReadSocks5MethodSelect_keep [cli_keep]:
  "OnReadSocks5MethodSelect uninit b c = Some (ec, b', c') \<Longrightarrow> growable_inv b \<Longrightarrow> cli_ok c \<Longrightarrow> cli_ok c' \<and> growable_inv b'"
  by (auto simp: OnReadSocks5MethodSelect_def Let_def split: if_splits elim!: bind_SomeE dest!: buf_keep)

lemma OnReadSocks5Handshake_keep [cli_keep]:
  "OnReadSocks5Handshake b c = Some (ec, b', c') \<Longrightarrow> growable_inv b \<Longrightarrow> cli_ok c \<Longrightarrow> cli_ok c' \<and> growable_inv b'"
  by (auto simp: OnReadSocks5Handshake_def Let_def cli_ok_def split: if_splits elim!: bind_SomeE dest!: buf_keep socks5_parse_union)

lemma OnReadSocks4Handshake_keep [cli_keep]:
  "OnReadSocks4Handshake b c = Some (ec, b', c') \<Longrightarrow> growable_inv b \<Longrightarrow> cli_ok c \<Longrightarrow> cli_ok c' \<and> growable_inv b'"
  by (auto simp: OnReadSocks4Handshake_def Let_def cli_ok_def split: if_splits elim!: bind_SomeE dest!: buf_keep socks4_parse_address)

lemma http_forward_keep [cli_keep]:
  "http_forward env p n hp b c = Some (b', c') \<Longrightarrow> growable_inv b \<Longrightarrow> cli_ok c \<Longrightarrow> cli_ok c' \<and> growable_inv b'"
  by (auto simp: http_forward_def Let_def cli_ok_def elim!: bind_SomeE dest!: buf_keep)

lemma OnReadHttpRequest_keep [cli_keep]:
  "OnReadHttpRequest env b c = Some (ec, b', c') \<Longrightarrow> growable_inv b \<Longrightarrow> cli_ok c \<Longrightarrow> cli_ok c' \<and> growable_inv b'"
  by (auto simp: OnReadHttpRequest_def Let_def split_def cli_ok_def split: if_splits elim!: bind_SomeE dest!: cli_keep buf_keep)

lemma read_segment_keep [buf_keep]: "read_segment uninit n xs = Some b \<Longrightarrow> growable_inv b"
  by (auto simp: read_segment_def Let_def elim!: bind_SomeE dest!: buf_keep)

lemma on_method_select_keep [cli_keep]:
  "on_method_select env ec r c = Some (c', es) \<Longrightarrow> make_address_wf env \<Longrightarrow> cli_ok c \<Longrightarrow> cli_ok c'"
  by (auto simp: on_method_select_def callback_read_def split: if_splits read_result.splits elim!: bind_SomeE dest!: buf_keep cli_keep)

lemma on_socks5_handshake_keep [cli_keep]:
  "on_socks5_handshake env ec r c = Some (c', es) \<Longrightarrow> make_address_wf env \<Longrightarrow> cli_ok c \<Longrightarrow> cli_ok c'"
  by (auto simp: on_socks5_handshake_def callback_read_def split: if_splits read_result.splits elim!: bind_SomeE dest!: buf_keep cli_keep)

lemma on_sent_keep [cli_keep]: "on_sent granted ec n c = (c', es) \<Longrightarrow> cli_ok c \<Longrightarrow> cli_ok c'"
  by (auto simp: on_sent_def ProcessSentData_def Let_def split: if_splits cli_state.splits dest!: cli_keep)

lemma on_resolved_keep [cli_keep]:
  "on_resolved ec results c = Some (c', es) \<Longrightarrow> \<forall>e\<in>set results. target_wf (Address (fst e)) \<Longrightarrow> cli_ok c \<Longrightarrow> cli_ok c'"
  by (auto simp: on_resolved_def Let_def split: if_splits list.splits dest!: cli_keep)

lemma OnReadHttpRequestAfterReuse_keep [cli_keep]:
  assumes "OnReadHttpRequestAfterReuse env b c = Some (ec, b', c', es)" "make_address_wf env" "growable_inv b" "cli_ok c"
  shows "cli_ok c'"
proof -
  obtain e1 b1 c1 where r: "OnReadHttpRequest env b c = Some (e1, b1, c1)"
    using assms(1) by (auto simp: OnReadHttpRequestAfterReuse_def elim!: bind_SomeE)
  then have ok: "cli_ok c1" "growable_inv b1" using assms(3,4) OnReadHttpRequest_keep by blast+
  then have "cli_ok (c1\<lparr>cc_request := new_ss_request, cc_channel := No_channel\<rparr>)" by (simp add: cli_ok_def)
  with ok r assms(1,2) show ?thesis
    by (auto simp: OnReadHttpRequestAfterReuse_def Let_def split: if_splits elim!: bind_SomeE dest!: OnStreamRead_keep PerformCmdOpsHttp_keep)
qed

lemma take_pending_empties: "cc_pending (snd (take_pending c)) = IoQueue 4"
  by (simp add: take_pending_def IoQueue_move_def IoQueue_def Let_def)

lemma established_keep: "cli_ok c \<Longrightarrow> cc_channel c = Connecting \<Longrightarrow> cli_ok (snd (take_pending (c\<lparr>cc_channel := Connected\<rparr>)))"
  using ioq_rep_inv [OF IoQueue_rep, of 4] take_pending_empties [of "c\<lparr>cc_channel := Connected\<rparr>"]
  by (auto simp: cli_ok_def pending_ok_def queued_def take_pending_def split_def Let_def)

lemma cli_step_keep: "cli_step env c c' \<Longrightarrow> make_address_wf env \<Longrightarrow> cli_ok c \<Longrightarrow> cli_ok c'"
proof (induction rule: cli_step.induct)
  case (cli_stepI e c c' es)
  then show ?case
    by (cases e) (auto simp: handle_event_def established_keep elim!: bind_SomeE split: if_splits dest!: cli_keep buf_keep)
qed

lemma cli_reachable_ok: "(cli_step env)\<^sup>*\<^sup>* (cli_start m) c \<Longrightarrow> make_address_wf env \<Longrightarrow> cli_ok c"
  by (induction rule: rtranclp_induct) (auto simp: cli_start_ok dest: cli_step_keep)

section \<open>Properties\<close>


definition sample_cli_env :: cli_env where
  "sample_cli_env = \<lparr>ce_junk = (\<lambda>_. 0), ce_lib = sample_lib, ce_framer = sample_framer, ce_make_address = (\<lambda>_. None),
     ce_to_string = (\<lambda>_. []), ce_resolver_init = no_error\<rparr>"

lemma sample_cli_env_wf: "make_address_wf sample_cli_env"
  by (simp add: make_address_wf_def sample_cli_env_def)

lemma sample_request: "socks5_request_enc (1, 0, Domain [0x61], 80) = [5, 1, 0, 3, 1, 0x61, 0, 80]"
  by (simp add: socks5_request_enc_def socks5_version_def hi8_def lo8_def)

lemma not_local: "\<not> CIPHER_METHOD_IS_SOCKS_NON_DOMAIN_NAME CRYPTO_SOCKS5H"
  by code_simp


text \<open>C32: In every state the client connection can reach, whatever the local program, the upstream and the
  resolver do and in whatever order, the data queued for the upstream stays within 1 MiB and 1 KiB in a well-formed
  queue of well-formed buffers, and once a connection has been started the header to be sent names a well-formed
  target and a port that is not zero.\<close>

theorem client_state_invariant:
  assumes "make_address_wf env" "(cli_step env)\<^sup>*\<^sup>* (cli_start m) c"
  shows "ioq_inv 4 (cc_pending c) \<and> (\<forall>b\<in>set (ioq_elems (cc_pending c)). growable_inv b) \<and>
    length (concat (map view (ioq_elems (cc_pending c)))) \<le> 1024 * 1024 + 1024 \<and>
    (cc_channel c \<noteq> No_channel \<longrightarrow> (\<exists>t p zs. target_wf t \<and> p \<noteq> 0 \<and> cc_request c = ss_enc (t, p) @ zs))"
  using cli_reachable_ok [OF assms(2,1)] by (simp add: cli_ok_def pending_ok_def queued_def request_for_def kMaxHeaderSize_def)

theorem client_state_invariant_witness:
  "\<exists>c. (cli_step sample_cli_env)\<^sup>*\<^sup>* (cli_start CRYPTO_SOCKS5H) c \<and> cc_channel c = Connecting \<and> queued c = [[7, 8]] \<and>
     (\<exists>t p zs. target_wf t \<and> p \<noteq> 0 \<and> cc_request c = ss_enc (t, p) @ zs)"
proof -
  let ?m = "(1, 0, Domain [0x61], 80) :: socks5_message"
  have "int (length (socks5_request_enc ?m @ [7, 8])) \<le> SOCKET_BUF_SIZE" by (simp add: sample_request SOCKET_BUF_SIZE_def)
  then obtain c es where c: "on_socks5_handshake sample_cli_env no_error (Data (socks5_request_enc ?m @ [7, 8])) (cli_start CRYPTO_SOCKS5H) = Some (c, es)"
      "socks5_outcome sample_cli_env ?m [7, 8] c es"
    using socks5_request_served [OF _ sample_cli_env_wf, of "cli_start CRYPTO_SOCKS5H" "Domain [0x61]" 1 0 80 "[7, 8]"] cli_start_fresh [of CRYPTO_SOCKS5H]
      not_local by (auto simp: cli_fresh_def)
  have "cli_step sample_cli_env (cli_start CRYPTO_SOCKS5H) c"
    using c(1) by (intro cli_stepI [of _ "Ev_socks5 no_error (Data (socks5_request_enc ?m @ [7, 8]))"]) (auto simp: handle_event_def)
  then have r: "(cli_step sample_cli_env)\<^sup>*\<^sup>* (cli_start CRYPTO_SOCKS5H) c" by blast
  have "cc_channel c = Connecting" "queued c = [[7, 8]]" using c(2) by (simp_all add: socks5_outcome_def rest_queued_def)
  with r client_state_invariant [OF sample_cli_env_wf r] show ?thesis by auto
qed

end
