(* ===== verification/Client_Relay.thy ===== *)
theory Client_Relay
  imports Client_Handshake Cipher_Stream
begin

text \<open>
  The path from the local program to the upstream (\<^verbatim>\<open>cli/cli_connection.cpp\<close>): reading the socket, the requests of a
  keep-alive connection, encryption, and the loop that writes to the upstream until it would block or its share of
  bytes is used up. The upstream is not an HTTP/2 connection (\<^verbatim>\<open>adapter_\<close> is null).

  What the sockets do is given per iteration of the loop: what a read delivers, how much of a buffer is written and
  with which error, and whether the clock has passed the deadline.
\<close>

section \<open>State\<close>

record ('c, 'm) relay =
  rl_cli :: cli
  rl_upstream :: "growable ioqueue"
  rl_upstream_error :: error_code
  rl_upstream_writable :: bool
  rl_socks_wait :: bool
  rl_encoder :: "('c, 'm) cipher option"
  rl_decoder :: "('c, 'm) cipher option"
  rl_read_inprogress :: bool
  rl_channel_eof :: bool
  rl_channel_write_inprogress :: bool

datatype relay_effect = Cli cli_effect | Disconnected error_code | Received "byte list" | Sent "byte list"
  | Wait_write | Read_stream bool | Read_upstream

definition SS_FRAME_SIZE :: int where
  "SS_FRAME_SIZE = 16384 - 128"

definition kYieldAfterBytesRead :: int where
  "kYieldAfterBytesRead = 32 * 1024"

section \<open>Encryption\<close>

function encrypt_loop :: "('c, 'm) cipher_env \<Rightarrow> 's visitor \<Rightarrow> growable \<Rightarrow> int \<Rightarrow> growable \<Rightarrow> ('c, 'm) cipher \<Rightarrow> 's
    \<Rightarrow> (growable \<times> ('c, 'm) cipher \<times> 's) option" where
  "encrypt_loop env vis plaintext plaintext_offset cipherbuf c s =
     (if plaintext_offset < buf_size plaintext then do {
        let plaintext_size = min (buf_size plaintext - plaintext_offset) SS_FRAME_SIZE;
        xs \<leftarrow> data_slice plaintext plaintext_offset (nat plaintext_size);
        (cipherbuf, c, s) \<leftarrow> encrypt env vis xs cipherbuf c s;
        encrypt_loop env vis plaintext (plaintext_offset + plaintext_size) cipherbuf c s }
      else Some (cipherbuf, c, s))"
  by pat_completeness auto
termination
  by (relation "measure (\<lambda>(_, _, pt, off, _). nat (buf_size pt - off))") (auto simp: SS_FRAME_SIZE_def)

declare encrypt_loop.simps [simp del]

text \<open>The last buffer of the queue is changed in place.\<close>

definition set_back :: "'a \<Rightarrow> 'a ioqueue \<Rightarrow> 'a ioqueue" where
  "set_back b q = (let n = length (queue q) in q\<lparr>queue := (queue q)[(end_idx q + n - 1) mod n := Some b]\<rparr>)"

definition set_front :: "'a \<Rightarrow> 'a ioqueue \<Rightarrow> 'a ioqueue" where
  "set_front b q = q\<lparr>queue := (queue q)[idx q := Some b]\<rparr>"

definition EncryptData :: "('c, 'm) cipher_env \<Rightarrow> 's visitor \<Rightarrow> growable ioqueue \<Rightarrow> growable \<Rightarrow> ('c, 'm) cipher \<Rightarrow> 's
    \<Rightarrow> (growable ioqueue \<times> ('c, 'm) cipher \<times> 's) option" where
  "EncryptData env vis q0 plaintext c s =
     do { (q, cipherbuf) \<leftarrow> (if ioq_empty q0 then do { q \<leftarrow> push_back GrowableIOBuffer q0; Some (q, GrowableIOBuffer) }
                           else do { b \<leftarrow> Option.bind (ioq_back q0) id; Some (q0, b) });
          (cipherbuf, c, s) \<leftarrow> encrypt_loop env vis plaintext 0 cipherbuf c s;
          Some (set_back cipherbuf q, c, s) }"

text \<open>The visitor of the encoder: a protocol error disconnects the upstream.\<close>

definition encoder_visitor :: "relay_effect list visitor" where
  "encoder_visitor = \<lparr>on_received_data = (\<lambda>_ s. (False, s)), on_protocol_error = (\<lambda>s. s @ [Disconnected connection_aborted])\<rparr>"

section \<open>Data for the upstream\<close>

type_synonym ('c, 'm) relay_env = "('c, 'm) cipher_env \<times> cli_env"

definition queue_upstream :: "('c, 'm) relay_env \<Rightarrow> growable \<Rightarrow> ('c, 'm) relay \<Rightarrow> (('c, 'm) relay \<times> relay_effect list) option" where
  "queue_upstream env buf r =
     (if CIPHER_METHOD_IS_HTTPS (cc_method (rl_cli r)) \<or> CIPHER_METHOD_IS_SOCKS (cc_method (rl_cli r)) then
        do { q \<leftarrow> push_back buf (rl_upstream r); Some (r\<lparr>rl_upstream := q\<rparr>, []) }
      else do {
        c \<leftarrow> rl_encoder r;
        (q, c, es) \<leftarrow> EncryptData (fst env) encoder_visitor (rl_upstream r) buf c [];
        Some (r\<lparr>rl_upstream := q, rl_encoder := Some c\<rparr>, es) })"

text \<open>The upstream tells when it can be written to; there is no limit on its rate.\<close>

definition wait_write :: "('c, 'm) relay \<Rightarrow> ('c, 'm) relay \<times> relay_effect list" where
  "wait_write r = (if cc_channel (rl_cli r) \<noteq> Connected then (r, []) else (r\<lparr>rl_channel_write_inprogress := True\<rparr>, [Wait_write]))"

definition OnUpstreamWriteFlush :: "('c, 'm) relay \<Rightarrow> ('c, 'm) relay \<times> relay_effect list" where
  "OnUpstreamWriteFlush r =
     (if \<not> ioq_empty (rl_upstream r) \<and> rl_upstream_writable r then wait_write (r\<lparr>rl_upstream_writable := False\<rparr>) else (r, []))"

definition relay_OnStreamRead :: "('c, 'm) relay_env \<Rightarrow> growable \<Rightarrow> ('c, 'm) relay \<Rightarrow> (('c, 'm) relay \<times> relay_effect list) option" where
  "relay_OnStreamRead env buf r =
     (if cc_channel (rl_cli r) \<noteq> Connected then do {
        (c, es) \<leftarrow> OnStreamRead buf (rl_cli r);
        Some (r\<lparr>rl_cli := c\<rparr>, map Cli es) }
      else do {
        (r, es) \<leftarrow> queue_upstream env buf r;
        let (r, es1) = OnUpstreamWriteFlush r;
        Some (r, es @ es1) })"

section \<open>The next buffer for the upstream\<close>

text \<open>The result: the error code, whether the upstream is blocked, and whether there is a buffer (the front of the queue).\<close>

type_synonym ('c, 'm) next_result = "(error_code \<times> bool \<times> bool \<times> ('c, 'm) relay \<times> relay_effect list) option"

definition soft :: "error_code \<Rightarrow> bool" where
  "soft ec \<longleftrightarrow> ec = try_again \<or> ec = would_block"

text \<open>From the label \<^verbatim>\<open>out\<close>; \<open>got\<close> is the number of bytes read.\<close>

definition next_out :: "error_code \<Rightarrow> nat \<Rightarrow> ('c, 'm) relay \<Rightarrow> relay_effect list \<Rightarrow> ('c, 'm) next_result" where
  "next_out ec got r es =
     (if ioq_empty (rl_upstream r) then Some (if ec = no_error then try_again else ec, got \<noteq> 0, False, r, es)
      else Some (ec, False, True, if ec \<noteq> no_error \<and> \<not> soft ec then r\<lparr>rl_upstream_error := ec\<rparr> else r, es))"

definition queue_and_out :: "('c, 'm) relay_env \<Rightarrow> nat \<Rightarrow> growable \<Rightarrow> ('c, 'm) relay \<Rightarrow> relay_effect list \<Rightarrow> ('c, 'm) next_result" where
  "queue_and_out env got buf r es = do { (r, es1) \<leftarrow> queue_upstream env buf r; next_out no_error got r (es @ es1) }"

text \<open>From the label \<^verbatim>\<open>after_read\<close>.\<close>

definition after_read :: "('c, 'm) relay_env \<Rightarrow> nat \<Rightarrow> growable \<Rightarrow> ('c, 'm) relay \<Rightarrow> relay_effect list \<Rightarrow> ('c, 'm) next_result" where
  "after_read env got buf r es =
     (let c = rl_cli r in
      if cc_channel c \<noteq> Connected then do {
        (c, es1) \<leftarrow> OnStreamRead buf c;
        Some (try_again, False, False, r\<lparr>rl_cli := c\<rparr>, es @ map Cli es1) }
      else if \<not> cc_http_is_keep_alive c then queue_and_out env got buf r es
      else if cc_http_remaining c = 0 then do {
        (ec, b, c, es1) \<leftarrow> OnReadHttpRequestAfterReuse (snd env) buf c;
        incomplete \<leftarrow> if ec = invalid_argument then map_option (\<lambda>b. buf_size b < 64 * 1024) b else Some False;
        if incomplete then Some (try_again, False, False, r\<lparr>rl_cli := c\<lparr>cc_http_previous := b\<rparr>\<rparr>, es @ map Cli es1)
        else if ec \<noteq> no_error then Some (ec, False, False, r\<lparr>rl_cli := c\<rparr>, es @ map Cli es1)
        else do { buf \<leftarrow> b; queue_and_out env got buf (r\<lparr>rl_cli := c\<rparr>) (es @ map Cli es1) } }
      else if cc_http_remaining c < int got then do {
        rest \<leftarrow> data_slice buf (cc_http_remaining c) (nat (buf_size buf - cc_http_remaining c));
        pending \<leftarrow> copyBuffer (ce_junk (snd env)) rest;
        buf \<leftarrow> SetCapacity (ce_junk (snd env)) (cc_http_remaining c) buf;
        queue_and_out env got buf (r\<lparr>rl_cli := c\<lparr>cc_http_pending := Some pending, cc_http_remaining := 0\<rparr>\<rparr>) es }
      else queue_and_out env got buf (r\<lparr>rl_cli := c\<lparr>cc_http_remaining := cc_http_remaining c - int got\<rparr>\<rparr>) es)"

text \<open>The buffer a read goes to: the one kept from an incomplete request, or a new one.\<close>

definition read_local :: "cli_env \<Rightarrow> byte list \<Rightarrow> cli \<Rightarrow> (growable \<times> cli) option" where
  "read_local env xs c =
     (case (if cc_http_is_keep_alive c then cc_http_previous c else None) of
        Some buf \<Rightarrow>
          do { let previous_capacity = capacity buf;
               buf \<leftarrow> if int (length xs) \<le> min (buf_size buf) SOCKET_BUF_SIZE then memcpy_data 0 xs buf else None;
               buf \<leftarrow> SetCapacity (ce_junk env) (previous_capacity + int (length xs)) buf;
               Some (buf, c\<lparr>cc_http_previous := None\<rparr>) }
      | None \<Rightarrow> do { buf \<leftarrow> read_segment (ce_junk env) SOCKET_BUF_SIZE xs; Some (buf, c) })"

definition GetNextUpstreamBuf :: "('c, 'm) relay_env \<Rightarrow> read_result \<Rightarrow> ('c, 'm) relay \<Rightarrow> ('c, 'm) next_result" where
  "GetNextUpstreamBuf env rd r =
     (let c = rl_cli r in
      if \<not> ioq_empty (rl_upstream r) then do {
        b \<leftarrow> Option.bind (front (rl_upstream r)) id;
        if rl_socks_wait r \<and> iobuf_empty b then Some (try_again, False, False, r, []) else Some (no_error, False, True, r, []) }
      else if rl_upstream_error r \<noteq> no_error then Some (rl_upstream_error r, False, False, r, [])
      else if cc_closed c then Some (end_of_file, False, False, r, [])
      else case (if cc_http_is_keep_alive c then cc_http_pending c else None) of
        Some buf \<Rightarrow> after_read env (nat (buf_size buf)) buf (r\<lparr>rl_cli := c\<lparr>cc_http_pending := None\<rparr>\<rparr>) []
      | None \<Rightarrow>
          (case rd of
             WouldBlock \<Rightarrow> do { (buf, c) \<leftarrow> read_local (snd env) [] c; next_out would_block 0 (r\<lparr>rl_cli := c\<rparr>) [] }
           | ReadError ec \<Rightarrow>
               do { (buf, c) \<leftarrow> read_local (snd env) [] c;
                    let (c, es) = (if soft ec then (c, []) else fail_state ec c);
                    next_out ec 0 (r\<lparr>rl_cli := c\<rparr>) (map Cli es) }
           | Data xs \<Rightarrow>
               do { (buf, c) \<leftarrow> read_local (snd env) xs c;
                    let r1 = r\<lparr>rl_cli := c\<lparr>cc_rbytes := cc_rbytes c + length xs\<rparr>\<rparr>;
                    if xs = [] then next_out no_error 0 r1 [] else after_read env (length xs) buf r1 [Received xs] }))"

section \<open>Writing to the upstream\<close>

text \<open>What the sockets and the clock do in one iteration: a read, a write of a buffer of the given size, and whether
  the deadline has passed.\<close>

record pipe_io =
  io_read :: read_result
  io_write :: "nat \<Rightarrow> nat \<times> error_code"
  io_late :: bool

datatype ('c, 'm) pipe_step =
    Pipe_return "('c, 'm) relay" "relay_effect list"
  | Pipe_break bool bool error_code "('c, 'm) relay" "relay_effect list"
  | Pipe_next bool int "('c, 'm) relay" "relay_effect list"

text \<open>The part of an iteration behind the call of \<^verbatim>\<open>write_some()\<close> on the front \<open>b\<close> of the queue. An error is also
  reported to the connection by the stream.\<close>

definition pipe_written :: "pipe_io \<Rightarrow> bool \<Rightarrow> int \<Rightarrow> growable \<Rightarrow> ('c, 'm) relay \<Rightarrow> relay_effect list \<Rightarrow> ('c, 'm) pipe_step option" where
  "pipe_written io again bytes b r es =
     (let (written, ec) = io_write io (nat (buf_size b)) in
      do { xs \<leftarrow> data_slice b 0 written;
           b \<leftarrow> set_offset (offset b + int written) b;
           let r = r\<lparr>rl_upstream := set_front b (rl_upstream r)\<rparr>;
           let es = es @ [Sent xs] @ (if ec \<noteq> no_error \<and> \<not> soft ec then [Disconnected ec] else []);
           let bytes = bytes + int written;
           if soft ec then Some (Pipe_break again False ec r es)
           else do {
             r \<leftarrow> if iobuf_empty b then do { q \<leftarrow> pop_front (rl_upstream r); Some (r\<lparr>rl_upstream := q\<rparr>) } else Some r;
             if ec \<noteq> no_error then
               (let (c, es1) = OnDisconnect ec (rl_cli r) in Some (Pipe_return (r\<lparr>rl_cli := c\<rparr>) (es @ map Cli es1)))
             else if \<not> iobuf_empty b then Some (Pipe_break again False try_again r es)
             else if kYieldAfterBytesRead < bytes \<or> io_late io then
               (if ioq_empty (rl_upstream r) then Some (Pipe_break True True no_error r es)
                else Some (Pipe_break again False try_again r es))
             else Some (Pipe_next again bytes r es) } })"

definition pipe_iteration :: "('c, 'm) relay_env \<Rightarrow> pipe_io \<Rightarrow> bool \<Rightarrow> int \<Rightarrow> ('c, 'm) relay \<Rightarrow> ('c, 'm) pipe_step option" where
  "pipe_iteration env io again bytes r =
     do { (ec, upstream_blocked, has_buf, r, es) \<leftarrow> GetNextUpstreamBuf env (io_read io) r;
          b \<leftarrow> if has_buf then Option.bind (front (rl_upstream r)) id else Some GrowableIOBuffer;
          let read = (if has_buf then buf_size b else 0);
          if ec \<noteq> no_error \<and> \<not> soft ec then Some (Pipe_return r es)
          else let again1 = (again \<or> soft ec \<and> \<not> upstream_blocked);
                   ec1 = (if soft ec \<and> \<not> upstream_blocked then no_error else ec) in
            if read = 0 then Some (Pipe_break again1 False ec1 r es)
            else if cc_channel (rl_cli r) \<noteq> Connected \<or> rl_channel_eof r then Some (Pipe_break again1 False try_again r es)
            else pipe_written io again1 bytes b r es }"

definition ReadStream :: "bool \<Rightarrow> ('c, 'm) relay \<Rightarrow> ('c, 'm) relay \<times> relay_effect list" where
  "ReadStream yield r =
     (if rl_read_inprogress r \<or> cc_closed (rl_cli r) then (r, []) else (r\<lparr>rl_read_inprogress := True\<rparr>, [Read_stream yield]))"

definition pipe_end :: "bool \<Rightarrow> bool \<Rightarrow> error_code \<Rightarrow> ('c, 'm) relay \<Rightarrow> relay_effect list \<Rightarrow> ('c, 'm) relay \<times> relay_effect list" where
  "pipe_end again yield ec r es =
     (let (r, es1) = (if again \<and> \<not> rl_read_inprogress r then ReadStream yield r else (r, []));
          (r, es2) = (if soft ec then OnUpstreamWriteFlush r else (r, []))
      in (r, es @ es1 @ es2))"

partial_function (option) pipe_loop :: "('c, 'm) relay_env \<Rightarrow> (nat \<Rightarrow> pipe_io) \<Rightarrow> nat \<Rightarrow> bool \<Rightarrow> int \<Rightarrow> ('c, 'm) relay \<Rightarrow> relay_effect list
    \<Rightarrow> (('c, 'm) relay \<times> relay_effect list) option" where
  "pipe_loop env io i again bytes r es =
     do { st \<leftarrow> pipe_iteration env (io i) again bytes r;
          case st of
            Pipe_return r es1 \<Rightarrow> Some (r, es @ es1)
          | Pipe_break again yield ec r es1 \<Rightarrow> Some (pipe_end again yield ec r (es @ es1))
          | Pipe_next again bytes r es1 \<Rightarrow> pipe_loop env io (Suc i) again bytes r (es @ es1) }"

definition WriteUpstreamInPipe :: "('c, 'm) relay_env \<Rightarrow> (nat \<Rightarrow> pipe_io) \<Rightarrow> ('c, 'm) relay \<Rightarrow> (('c, 'm) relay \<times> relay_effect list) option" where
  "WriteUpstreamInPipe env io r = (if rl_channel_write_inprogress r then Some (r, []) else pipe_loop env io 0 False 0 r [])"

definition pipe_and_flush :: "('c, 'm) relay_env \<Rightarrow> (nat \<Rightarrow> pipe_io) \<Rightarrow> ('c, 'm) relay \<Rightarrow> (('c, 'm) relay \<times> relay_effect list) option" where
  "pipe_and_flush env io r =
     do { (r, es) \<leftarrow> WriteUpstreamInPipe env io r; let (r, es1) = OnUpstreamWriteFlush r; Some (r, es @ es1) }"

text \<open>The callbacks of \<^verbatim>\<open>ReadStream()\<close>: the socket is readable, or the posted continuation runs.\<close>

definition on_readable :: "('c, 'm) relay_env \<Rightarrow> (nat \<Rightarrow> pipe_io) \<Rightarrow> error_code \<Rightarrow> ('c, 'm) relay \<Rightarrow> (('c, 'm) relay \<times> relay_effect list) option" where
  "on_readable env io ec r =
     (let r = r\<lparr>rl_read_inprogress := False\<rparr> in
      if cc_closed (rl_cli r) then Some (r, [])
      else if ec = bad_descriptor \<or> ec = operation_aborted then Some (r, [])
      else if ec \<noteq> no_error then (let (c, es) = fail_state ec (rl_cli r) in Some (r\<lparr>rl_cli := c\<rparr>, map Cli es))
      else pipe_and_flush env io r)"

definition on_posted :: "('c, 'm) relay_env \<Rightarrow> (nat \<Rightarrow> pipe_io) \<Rightarrow> ('c, 'm) relay \<Rightarrow> (('c, 'm) relay \<times> relay_effect list) option" where
  "on_posted env io r =
     (let r = r\<lparr>rl_read_inprogress := False\<rparr> in if cc_closed (rl_cli r) then Some (r, []) else pipe_and_flush env io r)"

definition sent_event :: "('c, 'm) relay_env \<Rightarrow> (nat \<Rightarrow> pipe_io) \<Rightarrow> ('c, 'm) relay \<Rightarrow> (('c, 'm) relay \<times> relay_effect list) option" where
  "sent_event env io r = pipe_and_flush env io (r\<lparr>rl_upstream_writable := True\<rparr>)"

text \<open>What \<^verbatim>\<open>disconnected()\<close> does to this direction; the rest of it is about the other one.\<close>

definition lose_upstream :: "error_code \<Rightarrow> ('c, 'm) relay \<Rightarrow> ('c, 'm) relay \<times> relay_effect list" where
  "lose_upstream ec r =
     (r\<lparr>rl_upstream_writable := False, rl_channel_eof := True, rl_cli := (rl_cli r)\<lparr>cc_channel := Channel_closed\<rparr>\<rparr>, [Disconnected ec])"

text \<open>The callbacks of the stream's and the connection's \<^verbatim>\<open>wait_write()\<close>.\<close>

definition on_writable :: "('c, 'm) relay_env \<Rightarrow> (nat \<Rightarrow> pipe_io) \<Rightarrow> error_code \<Rightarrow> ('c, 'm) relay \<Rightarrow> (('c, 'm) relay \<times> relay_effect list) option" where
  "on_writable env io ec r =
     (if ec = bad_descriptor \<or> ec = operation_aborted then Some (r, [])
      else let r = r\<lparr>rl_channel_write_inprogress := False\<rparr> in
        if cc_channel (rl_cli r) \<noteq> Connected \<or> cc_closed (rl_cli r) then Some (r, [])
        else if ec \<noteq> no_error then Some (lose_upstream ec r)
        else sent_event env io r)"

section \<open>Queues changed in place\<close>

lemma update_rep:
  assumes "ioq_rep dql q xs" "k < length xs"
  shows "ioq_rep dql (q\<lparr>queue := (queue q)[(idx q + k) mod length (queue q) := Some b]\<rparr>) (xs[k := b])"
proof -
  let ?n = "length (queue q)"
  have "rotate (idx q) ((queue q)[(idx q + k) mod ?n := Some b]) = (rotate (idx q) (queue q))[k := Some b]"
    using assms by (intro rotate_update) (auto simp: ioq_rep_def Let_def)
  then show ?thesis using assms by (simp add: ioq_rep_def Let_def list_update_append map_update)
qed

lemma set_front_rep: "ioq_rep dql q (x # xs) \<Longrightarrow> ioq_rep dql (set_front b q) (b # xs)"
  using update_rep [of dql q "x # xs" 0 b] by (simp add: set_front_def ioq_rep_def Let_def)

lemma set_back_rep: "ioq_rep dql q (xs @ [x]) \<Longrightarrow> ioq_rep dql (set_back b q) (xs @ [b])"
  using update_rep [of dql q "xs @ [x]" "length xs" b] mod_add_pred [of "idx q" "length (queue q)" "Suc (length xs)"]
  by (simp add: set_back_def ioq_rep_def Let_def)

lemma empty_rep: "ioq_rep dql q xs \<Longrightarrow> ioq_empty q \<longleftrightarrow> xs = []"
  by (auto simp: ioq_empty_def ioq_rep_def Let_def mod_add_once split: if_splits)

section \<open>The loop\<close>

fun sent :: "relay_effect list \<Rightarrow> byte list" where
  "sent [] = []"
| "sent (Sent xs # es) = xs @ sent es"
| "sent (_ # es) = sent es"

fun received :: "relay_effect list \<Rightarrow> byte list list" where
  "received [] = []"
| "received (Received xs # es) = xs # received es"
| "received (_ # es) = received es"

lemma sent_append [simp]: "sent (es @ es1) = sent es @ sent es1"
  by (induction es rule: sent.induct) simp_all

lemma received_append [simp]: "received (es @ es1) = received es @ received es1"
  by (induction es rule: received.induct) simp_all

lemma cli_effects [simp]: "sent (map Cli es) = []" "received (map Cli es) = []"
  by (induction es) simp_all

text \<open>The buffers waiting for the upstream.\<close>

definition waiting :: "('c, 'm) relay \<Rightarrow> byte list list" where
  "waiting r = map view (ioq_elems (rl_upstream r))"

definition relay_ok :: "('c, 'm) relay \<Rightarrow> bool" where
  "relay_ok r \<longleftrightarrow> ioq_inv 16 (rl_upstream r) \<and> (\<forall>b\<in>set (ioq_elems (rl_upstream r)). growable_inv b \<and> view b \<noteq> [])"

text \<open>A connected relay that does not look into the requests.\<close>

definition open_relay :: "('c, 'm) relay \<Rightarrow> bool" where
  "open_relay r \<longleftrightarrow> \<not> cc_http_is_keep_alive (rl_cli r) \<and> cc_channel (rl_cli r) = Connected \<and> \<not> rl_socks_wait r \<and>
     rl_upstream_error r = no_error"

text \<open>What is known of the sockets: a read fits its buffer, a write takes at most the buffer, and nothing when it fails.\<close>

definition io_ok :: "pipe_io \<Rightarrow> bool" where
  "io_ok io \<longleftrightarrow> (case io_read io of Data xs \<Rightarrow> int (length xs) \<le> SOCKET_BUF_SIZE | _ \<Rightarrow> True) \<and> (\<forall>n. fst (io_write io n) \<le> n \<and> (snd (io_write io n) \<noteq> no_error \<longrightarrow> fst (io_write io n) = 0))"

lemma waiting_rep: "relay_ok r \<Longrightarrow> \<exists>bs. ioq_rep 16 (rl_upstream r) bs \<and> waiting r = map view bs \<and> (\<forall>b\<in>set bs. growable_inv b \<and> view b \<noteq> [])"
  by (auto simp: relay_ok_def waiting_def ioq_inv_def)

lemma relay_okI:
  "ioq_rep 16 (rl_upstream r) bs \<Longrightarrow> \<forall>b\<in>set bs. growable_inv b \<and> view b \<noteq> [] \<Longrightarrow> relay_ok r \<and> waiting r = map view bs"
  using ioq_rep_inv [of 16 "rl_upstream r" bs] by (simp add: relay_ok_def waiting_def)

lemma waiting_empty: "relay_ok r \<Longrightarrow> ioq_empty (rl_upstream r) \<longleftrightarrow> waiting r = []"
  using waiting_rep [of r] empty_rep [of 16 "rl_upstream r"] by auto

lemma next_out_idle:
  "relay_ok r \<Longrightarrow> waiting r = [] \<Longrightarrow> next_out ec 0 r es = Some (if ec = no_error then try_again else ec, False, False, r, es)"
  by (simp add: next_out_def waiting_empty)

lemma relay_ok_cli [simp]: "relay_ok (r\<lparr>rl_cli := c\<rparr>) = relay_ok r" "waiting (r\<lparr>rl_cli := c\<rparr>) = waiting r"
  by (simp_all add: relay_ok_def waiting_def)

text \<open>Step results.\<close>

fun outcome :: "('c, 'm) pipe_step \<Rightarrow> ('c, 'm) relay \<times> relay_effect list" where
  "outcome (Pipe_return r es) = (r, es)"
| "outcome (Pipe_break again yield ec r es) = (r, es)"
| "outcome (Pipe_next again bytes r es) = (r, es)"

text \<open>When the loop ends: the connection is closed, or data is left and the error code asks for a wait, or the queue is
  empty and a read is asked for.\<close>

fun settled :: "('c, 'm) pipe_step \<Rightarrow> bool" where
  "settled (Pipe_return r es) = cc_closed (rl_cli r)"
| "settled (Pipe_break again yield ec r es) = (if waiting r = [] then again else soft ec)"
| "settled (Pipe_next again bytes r es) = True"

definition same_relay :: "('c, 'm) relay \<Rightarrow> ('c, 'm) relay \<Rightarrow> bool" where
  "same_relay r r' \<longleftrightarrow> cc_method (rl_cli r') = cc_method (rl_cli r) \<and> rl_encoder r' = rl_encoder r"

definition same_flags :: "('c, 'm) relay \<Rightarrow> ('c, 'm) relay \<Rightarrow> bool" where
  "same_flags r r' \<longleftrightarrow> rl_upstream_writable r' = rl_upstream_writable r \<and> rl_channel_write_inprogress r' = rl_channel_write_inprogress r"

text \<open>An open relay, or one that was closed by an error.\<close>

definition still_open :: "('c, 'm) relay \<Rightarrow> bool" where
  "still_open r \<longleftrightarrow> open_relay r \<or>
     cc_closed (rl_cli r) \<and> cc_channel (rl_cli r) \<noteq> Connected \<and> \<not> rl_socks_wait r \<and> rl_upstream_error r = no_error"

lemma pipe_written_ok:
  assumes "ioq_rep 16 (rl_upstream r) (b # bs)" "\<forall>b\<in>set (b # bs). growable_inv b \<and> view b \<noteq> []" "open_relay r" "io_ok io" "sent es = []"
  shows "\<exists>st r' es'. pipe_written io again bytes b r es = Some st \<and> outcome st = (r', es') \<and> relay_ok r' \<and>
    sent es' @ concat (waiting r') = view b @ concat (map view bs) \<and> length (sent es') \<le> length (view b) \<and> received es' = received es \<and>
    settled st \<and> same_relay r r' \<and> same_flags r r' \<and> still_open r' \<and>
    (\<forall>xs\<in>set (waiting r'). \<exists>ys\<in>set (view b # map view bs). length xs \<le> length ys) \<and>
    (\<forall>a n r1 es1. st = Pipe_next a n r1 es1 \<longrightarrow>
       sent es' = view b \<and> n = bytes + int (length (view b)) \<and> n \<le> kYieldAfterBytesRead \<and> open_relay r' \<and> waiting r' = map view bs)"
proof -
  let ?w = "io_write io (nat (buf_size b))"
  let ?k = "fst ?w" and ?ec = "snd ?w"
  have b: "growable_inv b" "view b \<noteq> []" "nat (buf_size b) = length (view b)"
    using assms(2) buf_size_view [of b] by auto
  have k: "?k \<le> length (view b)" "?ec \<noteq> no_error \<Longrightarrow> ?k = 0" using assms(4) b(3) by (auto simp: io_ok_def)
  have slice: "data_slice b 0 ?k = Some (take ?k (view b))" using data_slice_view [OF b(1) k(1)] by simp
  obtain b' where b': "set_offset (offset b + int ?k) b = Some b'" "growable_inv b'" "view b' = drop ?k (view b)"
    using advance_view [OF b(1) k(1)] by blast
  let ?q = "set_front b' (rl_upstream r)"
  have q: "ioq_rep 16 ?q (b' # bs)" by (rule set_front_rep [OF assms(1)])
  show ?thesis
  proof (cases "view b' = []")
    case True
    then have whole1: "?k = length (view b)" using b'(3) k(1) by simp
    then have "?k \<noteq> 0" using b(2) by simp
    then have "?ec = no_error" using k(2) by (rule contrapos_np)
    note whole = whole1 this
    obtain q' where q': "pop_front ?q = Some q'" "ioq_rep 16 q' bs" using pop_front_rep [OF q] by blast
    let ?r = "r\<lparr>rl_upstream := q'\<rparr>"
    have ok: "relay_ok ?r \<and> waiting ?r = map view bs" using q'(2) assms(2) by (intro relay_okI) simp_all
    have plain: "open_relay ?r" using assms(3) by (simp add: open_relay_def)
    have "iobuf_empty b'" using iobuf_empty_view [OF b'(2)] True by simp
    with b'(1) slice q'(1) whole show ?thesis using ok plain assms(5) empty_rep [OF q'(2)]
      by (cases "kYieldAfterBytesRead < bytes + int ?k \<or> io_late io"; cases "ioq_empty q'")
        (auto simp: pipe_written_def split_def Let_def soft_def b(3) same_relay_def same_flags_def still_open_def)
  next
    case False
    let ?r = "r\<lparr>rl_upstream := ?q\<rparr>"
    have ok: "relay_ok ?r \<and> waiting ?r = map view (b' # bs)" using q assms(2) b'(2) False by (intro relay_okI) simp_all
    have "\<not> iobuf_empty b'" using iobuf_empty_view [OF b'(2)] False by simp
    moreover have "open_relay ?r" using assms(3) by (simp add: open_relay_def)
    moreover have "\<not> rl_socks_wait r" "rl_upstream_error r = no_error" using assms(3) by (simp_all add: open_relay_def)
    ultimately show ?thesis using b' slice ok assms(5)
      by (cases "soft ?ec"; cases "?ec = no_error")
        (auto simp: pipe_written_def split_def Let_def soft_def OnDisconnect_def same_relay_def same_flags_def still_open_def)
  qed
qed

text \<open>An operation is outstanding whose callback goes on with the relay.\<close>

definition live :: "('c, 'm) relay \<Rightarrow> bool" where
  "live r \<longleftrightarrow> cc_closed (rl_cli r) \<or>
     (if waiting r = [] then rl_read_inprogress r else \<not> rl_upstream_writable r \<and> rl_channel_write_inprogress r)"

text \<open>The upstream is waited for exactly as long as it is not marked writable, and only with data in the queue.\<close>

definition armed :: "('c, 'm) relay \<Rightarrow> bool" where
  "armed r \<longleftrightarrow> cc_closed (rl_cli r) \<or>
     (if rl_channel_write_inprogress r then \<not> rl_upstream_writable r \<and> waiting r \<noteq> [] else rl_upstream_writable r)"

definition only_flags :: "('c, 'm) relay \<Rightarrow> ('c, 'm) relay \<Rightarrow> bool" where
  "only_flags r r' \<longleftrightarrow> rl_cli r' = rl_cli r \<and> rl_upstream r' = rl_upstream r \<and> rl_upstream_error r' = rl_upstream_error r \<and>
     rl_socks_wait r' = rl_socks_wait r \<and> rl_encoder r' = rl_encoder r"

lemma only_flags_keep:
  assumes "only_flags r r'"
  shows "relay_ok r' = relay_ok r" "waiting r' = waiting r" "same_relay r r'" "still_open r' = still_open r" "open_relay r' = open_relay r"
  using assms by (simp_all add: only_flags_def relay_ok_def waiting_def same_relay_def still_open_def open_relay_def)

lemma ReadStream_flags:
  "ReadStream yield r = (r', es) \<Longrightarrow> only_flags r r' \<and> same_flags r r' \<and> sent es = [] \<and> received es = [] \<and>
     (cc_closed (rl_cli r) \<or> rl_read_inprogress r')"
  by (auto simp: ReadStream_def only_flags_def same_flags_def split: if_splits)

lemma OnUpstreamWriteFlush_flags:
  "OnUpstreamWriteFlush r = (r', es) \<Longrightarrow> only_flags r r' \<and> rl_read_inprogress r' = rl_read_inprogress r \<and> sent es = [] \<and> received es = [] \<and>
     (still_open r \<and> \<not> ioq_empty (rl_upstream r) \<and> rl_upstream_writable r \<longrightarrow>
        cc_closed (rl_cli r) \<or> \<not> rl_upstream_writable r' \<and> rl_channel_write_inprogress r') \<and>
     (ioq_empty (rl_upstream r) \<or> \<not> rl_upstream_writable r \<longrightarrow> r' = r \<and> es = [])"
  by (auto simp: OnUpstreamWriteFlush_def wait_write_def only_flags_def still_open_def open_relay_def split: if_splits)

text \<open>After the loop. While the upstream is not marked writable nothing is armed.\<close>

definition armed_by :: "('c, 'm) relay \<Rightarrow> ('c, 'm) relay \<Rightarrow> bool" where
  "armed_by r r' \<longleftrightarrow> (if rl_upstream_writable r then live r' \<and> armed r' else same_flags r r')"

lemma pipe_end_settles:
  assumes "pipe_end again yield ec r es = (r', es')" "relay_ok r" "settled (Pipe_break again yield ec r es)" "still_open r"
    and "\<not> rl_channel_write_inprogress r"
  shows "\<exists>es0. es' = es @ es0 \<and> sent es0 = [] \<and> received es0 = [] \<and> only_flags r r' \<and> armed_by r r'"
proof -
  obtain r1 es1 where 1: "(if again \<and> \<not> rl_read_inprogress r then ReadStream yield r else (r, [])) = (r1, es1)" by fastforce
  obtain r2 es2 where 2: "(if soft ec then OnUpstreamWriteFlush r1 else (r1, [])) = (r2, es2)" by fastforce
  have eq: "r' = r2" "es' = es @ es1 @ es2" using assms(1) 1 2 by (simp_all add: pipe_end_def)
  have r1: "only_flags r r1" "same_flags r r1" "sent es1 = []" "received es1 = []" "again \<longrightarrow> cc_closed (rl_cli r) \<or> rl_read_inprogress r1"
    using 1 ReadStream_flags [of yield r r1 es1] by (auto simp: only_flags_def same_flags_def split: if_splits)
  have r2: "only_flags r1 r2" "rl_read_inprogress r2 = rl_read_inprogress r1" "sent es2 = []" "received es2 = []"
    using 2 OnUpstreamWriteFlush_flags [of r1 r2 es2] by (auto simp: only_flags_def split: if_splits)
  have o: "only_flags r r2" using r1(1) r2(1) by (simp add: only_flags_def)
  have same: "r2 = r1" if "waiting r = [] \<or> \<not> rl_upstream_writable r"
    using that 2 OnUpstreamWriteFlush_flags [of r1 r2 es2] waiting_empty [OF assms(2)] r1(1,2)
    by (auto simp: only_flags_def same_flags_def split: if_splits)
  have "armed_by r r2"
  proof (cases "waiting r = []")
    case True
    then show ?thesis using same assms(3,5) r1(2,5) only_flags_keep(2) [OF o] o
      by (auto simp: armed_by_def live_def armed_def only_flags_def same_flags_def)
  next
    case False
    then have "\<not> ioq_empty (rl_upstream r1)" "still_open r1" "soft ec"
      using waiting_empty [OF assms(2)] r1(1) assms(3,4) only_flags_keep [OF r1(1)] by (auto simp: only_flags_def)
    then show ?thesis using False same 2 OnUpstreamWriteFlush_flags [of r1 r2 es2] only_flags_keep(2) [OF o] o r1(2)
      by (auto simp: armed_by_def live_def armed_def only_flags_def same_flags_def)
  qed
  with o show ?thesis using eq r1(3,4) r2(3,4) by simp
qed

section \<open>What the upstream receives\<close>

text \<open>
  The contract of \<^verbatim>\<open>queue_upstream\<close>: with the connection's encoder in the abstract state \<open>st\<close>, the bytes \<open>xs\<close> are queued as
  \<open>code st xs\<close>, and the encoder is left in the state \<open>advance st xs\<close>. What is proved of the loop holds for every such
  encoding; the relay without encryption and the relay with an AEAD cipher are two of them.
\<close>

primrec coded :: "('s \<Rightarrow> byte list \<Rightarrow> byte list) \<Rightarrow> ('s \<Rightarrow> byte list \<Rightarrow> 's) \<Rightarrow> 's \<Rightarrow> byte list list \<Rightarrow> byte list" where
  "coded code advance st [] = []"
| "coded code advance st (xs # xss) = code st xs @ coded code advance (advance st xs) xss"

lemma coded_append: "coded code advance st (xss @ yss) = coded code advance st xss @ coded code advance (foldl advance st xss) yss"
  by (induction xss arbitrary: st) simp_all

subsection \<open>Runs\<close>

datatype relay_event = Readable error_code | Posted | Writable error_code

definition handle_relay :: "('c, 'm) relay_env \<Rightarrow> (nat \<Rightarrow> pipe_io) \<Rightarrow> relay_event \<Rightarrow> ('c, 'm) relay \<Rightarrow> (('c, 'm) relay \<times> relay_effect list) option" where
  "handle_relay env io ev r =
     (case ev of Readable ec \<Rightarrow> on_readable env io ec r | Posted \<Rightarrow> on_posted env io r | Writable ec \<Rightarrow> on_writable env io ec r)"

text \<open>The callbacks that can run: those of the outstanding operations. Operations are cancelled only by closing.\<close>

fun enabled :: "relay_event \<Rightarrow> ('c, 'm) relay \<Rightarrow> bool" where
  "enabled (Readable ec) r = (rl_read_inprogress r \<and> ec \<noteq> bad_descriptor \<and> ec \<noteq> operation_aborted)"
| "enabled Posted r = rl_read_inprogress r"
| "enabled (Writable ec) r = (rl_channel_write_inprogress r \<and> ec \<noteq> bad_descriptor \<and> ec \<noteq> operation_aborted)"

inductive relay_run :: "('c, 'm) relay_env \<Rightarrow> ('c, 'm) relay \<Rightarrow> relay_effect list \<Rightarrow> ('c, 'm) relay \<Rightarrow> bool" for env r where
  run_start: "relay_run env r [] r"
| run_step: "relay_run env r es r1 \<Longrightarrow> open_relay r1 \<Longrightarrow> \<not> cc_closed (rl_cli r1) \<Longrightarrow> enabled ev r1 \<Longrightarrow> \<forall>i. io_ok (io i) \<Longrightarrow>
    handle_relay env io ev r1 = Some (r2, es2) \<Longrightarrow> relay_run env r (es @ es2) r2"

text \<open>On a relay that was closed nothing is read or written.\<close>

lemma closed_pipe:
  assumes "relay_ok r" "still_open r" "\<not> open_relay r"
  shows "\<exists>r' es. pipe_and_flush env io r = Some (r', es) \<and> only_flags r r' \<and> sent es = [] \<and> received es = []"
proof -
  have c: "cc_closed (rl_cli r)" "cc_channel (rl_cli r) \<noteq> Connected" "\<not> rl_socks_wait r" "rl_upstream_error r = no_error"
    using assms(2,3) by (auto simp: still_open_def)
  obtain bs where bs: "ioq_rep 16 (rl_upstream r) bs" "\<forall>b\<in>set bs. growable_inv b \<and> view b \<noteq> []" using waiting_rep [OF assms(1)] by blast
  have "\<exists>r' es. WriteUpstreamInPipe env io r = Some (r', es) \<and> only_flags r r' \<and> sent es = [] \<and> received es = []"
  proof (cases "rl_channel_write_inprogress r")
    case False
    show ?thesis
    proof (cases bs)
      case Nil
      then have "pipe_iteration env (io 0) False 0 r = Some (Pipe_return r [])"
        using c empty_rep [OF bs(1)] by (simp add: pipe_iteration_def GetNextUpstreamBuf_def soft_def)
      then show ?thesis using False by (simp add: WriteUpstreamInPipe_def only_flags_def) (subst pipe_loop.simps, simp)
    next
      case (Cons b bs')
      then have "buf_size b \<noteq> 0" "front (rl_upstream r) = Some (Some b)" "\<not> ioq_empty (rl_upstream r)"
        using bs buf_size_view [of b] front_rep [OF bs(1)] empty_rep [OF bs(1)] by simp_all
      then have it: "pipe_iteration env (io 0) False 0 r = Some (Pipe_break False False try_again r [])"
        using c by (simp add: pipe_iteration_def GetNextUpstreamBuf_def soft_def)
      obtain r' es where e: "OnUpstreamWriteFlush r = (r', es)" by fastforce
      have "WriteUpstreamInPipe env io r = Some (r', es)"
        using False it e by (simp add: WriteUpstreamInPipe_def) (subst pipe_loop.simps, simp add: pipe_end_def soft_def)
      then show ?thesis using OnUpstreamWriteFlush_flags [OF e] by blast
    qed
  qed (simp add: WriteUpstreamInPipe_def only_flags_def)
  then obtain r1 es1 where 1: "WriteUpstreamInPipe env io r = Some (r1, es1)" "only_flags r r1" "sent es1 = []" "received es1 = []" by blast
  obtain r2 es2 where 2: "OnUpstreamWriteFlush r1 = (r2, es2)" by fastforce
  from OnUpstreamWriteFlush_flags [OF 2] 1 2 show ?thesis by (auto simp: pipe_and_flush_def only_flags_def)
qed

locale upstream_codec =
  fixes env :: "('c, 'm) relay_env"
    and codec :: "cipher_method \<Rightarrow> ('c, 'm) cipher option \<Rightarrow> 's \<Rightarrow> bool"
    and code :: "'s \<Rightarrow> byte list \<Rightarrow> byte list"
    and advance :: "'s \<Rightarrow> byte list \<Rightarrow> 's"
    and bound :: int
  assumes queue_ok: "relay_ok r \<Longrightarrow> waiting r = [] \<Longrightarrow> codec (cc_method (rl_cli r)) (rl_encoder r) st \<Longrightarrow>
      growable_inv b \<Longrightarrow> view b \<noteq> [] \<Longrightarrow> int (length (view b)) \<le> SOCKET_BUF_SIZE \<Longrightarrow>
      \<exists>q e. queue_upstream env b r = Some (r\<lparr>rl_upstream := q, rl_encoder := e\<rparr>, []) \<and> relay_ok (r\<lparr>rl_upstream := q\<rparr>) \<and>
        waiting (r\<lparr>rl_upstream := q\<rparr>) = [code st (view b)] \<and> codec (cc_method (rl_cli r)) e (advance st (view b)) \<and>
        int (length (code st (view b))) \<le> bound"
    and bound_ok: "SOCKET_BUF_SIZE \<le> bound"
begin

lemma next_data:
  assumes "relay_ok r" "open_relay r" "codec (cc_method (rl_cli r)) (rl_encoder r) st" "waiting r = []" "\<not> cc_closed (rl_cli r)"
    and "xs \<noteq> []" "int (length xs) \<le> SOCKET_BUF_SIZE"
  defines "r1 \<equiv> r\<lparr>rl_cli := (rl_cli r)\<lparr>cc_rbytes := cc_rbytes (rl_cli r) + length xs\<rparr>\<rparr>"
  shows "\<exists>q e. GetNextUpstreamBuf env (Data xs) r = Some (no_error, False, True, r1\<lparr>rl_upstream := q, rl_encoder := e\<rparr>, [Received xs]) \<and>
    relay_ok (r1\<lparr>rl_upstream := q, rl_encoder := e\<rparr>) \<and> waiting (r1\<lparr>rl_upstream := q, rl_encoder := e\<rparr>) = [code st xs] \<and>
    codec (cc_method (rl_cli r)) e (advance st xs) \<and> int (length (code st xs)) \<le> bound"
proof -
  have e: "ioq_empty (rl_upstream r)" using waiting_empty assms(1,4) by blast
  have k: "\<not> cc_http_is_keep_alive (rl_cli r)" "rl_upstream_error r = no_error" "cc_channel (rl_cli r) = Connected"
    using assms(2) by (simp_all add: open_relay_def)
  obtain b where b: "read_segment (ce_junk (snd env)) SOCKET_BUF_SIZE xs = Some b" "growable_inv b" "view b = xs"
    using buffer_segment [OF assms(7)] by blast
  obtain q en where q: "queue_upstream env b r1 = Some (r1\<lparr>rl_upstream := q, rl_encoder := en\<rparr>, [])" "relay_ok (r1\<lparr>rl_upstream := q\<rparr>)"
      "waiting (r1\<lparr>rl_upstream := q\<rparr>) = [code st xs]" "codec (cc_method (rl_cli r)) en (advance st xs)" "int (length (code st xs)) \<le> bound"
    using queue_ok [of r1 st b] assms(1,3,4,6,7) b(2,3) by (auto simp: r1_def)
  have "\<not> ioq_empty q" using waiting_empty [OF q(2)] q(3) by simp
  then have "GetNextUpstreamBuf env (Data xs) r = Some (no_error, False, True, r1\<lparr>rl_upstream := q, rl_encoder := en\<rparr>, [Received xs])"
    using e k b assms(5,6) q(1) unfolding r1_def
    by (auto simp: GetNextUpstreamBuf_def read_local_def after_read_def queue_and_out_def next_out_def Let_def)
  moreover have "relay_ok (r1\<lparr>rl_upstream := q, rl_encoder := en\<rparr>) = relay_ok (r1\<lparr>rl_upstream := q\<rparr>)"
      "waiting (r1\<lparr>rl_upstream := q, rl_encoder := en\<rparr>) = waiting (r1\<lparr>rl_upstream := q\<rparr>)" by (simp_all add: relay_ok_def waiting_def)
  ultimately show ?thesis using q by auto
qed

lemma next_reads:
  assumes "relay_ok r" "open_relay r" "codec (cc_method (rl_cli r)) (rl_encoder r) st" "waiting r = []" "io_ok io"
  shows "\<exists>ec has r' es. GetNextUpstreamBuf env (io_read io) r = Some (ec, False, has, r', es) \<and> relay_ok r' \<and> sent es = [] \<and>
     concat (waiting r') = coded code advance st (received es) \<and> codec (cc_method (rl_cli r')) (rl_encoder r') (foldl advance st (received es)) \<and>
     (\<forall>xs\<in>set (waiting r'). int (length xs) \<le> bound) \<and> same_flags r r' \<and> still_open r' \<and>
     (if has then ec = no_error \<and> open_relay r' \<and> waiting r' \<noteq> []
      else waiting r' = [] \<and> (soft ec \<or> ec \<noteq> no_error \<and> cc_closed (rl_cli r')))"
proof -
  have e: "ioq_empty (rl_upstream r)" using waiting_empty assms(1,4) by blast
  have k: "\<not> cc_http_is_keep_alive (rl_cli r)" "rl_upstream_error r = no_error" using assms(2) by (simp_all add: open_relay_def)
  have idle: ?thesis if "GetNextUpstreamBuf env (io_read io) r = Some (ec, False, False, r\<lparr>rl_cli := c\<rparr>, map Cli es)"
      "soft ec \<or> ec \<noteq> no_error \<and> cc_closed c" "cc_method c = cc_method (rl_cli r)" "still_open (r\<lparr>rl_cli := c\<rparr>)" for ec c es
    using that assms(1,3,4) by (intro exI [of _ ec] exI [of _ False] exI [of _ "r\<lparr>rl_cli := c\<rparr>"] exI [of _ "map Cli es"]) (simp add: same_flags_def)
  have out: "next_out ec 0 (r\<lparr>rl_cli := c\<rparr>) es = Some (if ec = no_error then try_again else ec, False, False, r\<lparr>rl_cli := c\<rparr>, es)" for ec c es
    using next_out_idle [of "r\<lparr>rl_cli := c\<rparr>"] assms(1,4) by simp
  obtain b0 where b0: "read_segment (ce_junk (snd env)) SOCKET_BUF_SIZE [] = Some b0"
    using buffer_segment [of "[]"] by (auto simp: SOCKET_BUF_SIZE_def)
  note unfold = GetNextUpstreamBuf_def read_local_def Let_def
  consider (closed) "cc_closed (rl_cli r)" | (data) xs where "\<not> cc_closed (rl_cli r)" "io_read io = Data xs" "xs \<noteq> []"
    | (no_data) "\<not> cc_closed (rl_cli r)" "io_read io = Data []" | (blocked) "\<not> cc_closed (rl_cli r)" "io_read io = WouldBlock"
    | (failed) ec where "\<not> cc_closed (rl_cli r)" "io_read io = ReadError ec"
    by (cases "io_read io") auto
  then show ?thesis
  proof cases
    case closed
    then have "GetNextUpstreamBuf env (io_read io) r = Some (end_of_file, False, False, r\<lparr>rl_cli := rl_cli r\<rparr>, map Cli [])"
      using e k by (simp add: unfold)
    then show ?thesis using closed assms(2) by (intro idle) (auto simp: still_open_def)
  next
    case (data xs)
    then have len: "int (length xs) \<le> SOCKET_BUF_SIZE" using assms(5) by (simp add: io_ok_def)
    let ?c = "rl_cli r\<lparr>cc_rbytes := cc_rbytes (rl_cli r) + length xs\<rparr>"
    obtain q en where q: "GetNextUpstreamBuf env (io_read io) r = Some (no_error, False, True, r\<lparr>rl_cli := ?c, rl_upstream := q, rl_encoder := en\<rparr>, [Received xs])"
        "relay_ok (r\<lparr>rl_cli := ?c, rl_upstream := q, rl_encoder := en\<rparr>)" "waiting (r\<lparr>rl_cli := ?c, rl_upstream := q, rl_encoder := en\<rparr>) = [code st xs]"
        "codec (cc_method (rl_cli r)) en (advance st xs)" "int (length (code st xs)) \<le> bound"
      using next_data [OF assms(1-4) data(1,3) len] data(2) by auto
    moreover have "open_relay (r\<lparr>rl_cli := ?c, rl_upstream := q, rl_encoder := en\<rparr>)" using assms(2) by (simp add: open_relay_def)
    ultimately show ?thesis
      by (intro exI [of _ no_error] exI [of _ True] exI [of _ "r\<lparr>rl_cli := ?c, rl_upstream := q, rl_encoder := en\<rparr>"] exI [of _ "[Received xs]"])
        (simp add: same_flags_def still_open_def)
  next
    case no_data
    let ?c = "rl_cli r\<lparr>cc_rbytes := cc_rbytes (rl_cli r)\<rparr>"
    have "GetNextUpstreamBuf env (io_read io) r = Some (try_again, False, False, r\<lparr>rl_cli := ?c\<rparr>, map Cli [])"
      using b0 e k no_data out [of no_error ?c "[]"] by (simp add: unfold)
    then show ?thesis by (rule idle) (use assms(2) in \<open>simp_all add: soft_def still_open_def open_relay_def\<close>)
  next
    case blocked
    then have "GetNextUpstreamBuf env (io_read io) r = Some (would_block, False, False, r\<lparr>rl_cli := rl_cli r\<rparr>, map Cli [])"
      using e k b0 out [of would_block "rl_cli r" "[]"] by (simp add: unfold)
    then show ?thesis by (rule idle) (use assms(2) in \<open>simp_all add: soft_def still_open_def\<close>)
  next
    case (failed ec)
    let ?p = "if soft ec then (rl_cli r, []) else fail_state ec (rl_cli r)"
    have "GetNextUpstreamBuf env (io_read io) r = next_out ec 0 (r\<lparr>rl_cli := fst ?p\<rparr>) (map Cli (snd ?p))"
      using e k b0 failed by (simp add: unfold split_def)
    then have "GetNextUpstreamBuf env (io_read io) r =
        Some (if ec = no_error then try_again else ec, False, False, r\<lparr>rl_cli := fst ?p\<rparr>, map Cli (snd ?p))"
      unfolding out .
    then show ?thesis by (rule idle) (use assms(2) failed(1) in \<open>auto simp: soft_def fail_state_def OnDisconnect_def still_open_def open_relay_def\<close>)
  qed
qed

lemma iteration_ok:
  assumes "relay_ok r" "open_relay r" "codec (cc_method (rl_cli r)) (rl_encoder r) st" "io_ok io"
    and "\<forall>xs\<in>set (waiting r). int (length xs) \<le> M" "bound \<le> M"
  shows "\<exists>step r' es. pipe_iteration env io again bytes r = Some step \<and> outcome step = (r', es) \<and> relay_ok r' \<and>
    concat (waiting r) @ coded code advance st (received es) = sent es @ concat (waiting r') \<and> int (length (sent es)) \<le> M \<and> settled step \<and>
    codec (cc_method (rl_cli r')) (rl_encoder r') (foldl advance st (received es)) \<and>
    same_flags r r' \<and> still_open r' \<and> (\<forall>xs\<in>set (waiting r'). int (length xs) \<le> M) \<and>
    (\<forall>a n r1 es1. step = Pipe_next a n r1 es1 \<longrightarrow> 0 < length (sent es) \<and> n = bytes + int (length (sent es)) \<and> n \<le> kYieldAfterBytesRead \<and>
       open_relay r')"
proof -
  have M: "0 \<le> M" using assms(6) bound_ok by (simp add: SOCKET_BUF_SIZE_def)
  obtain ec has r0 es0 where g: "GetNextUpstreamBuf env (io_read io) r = Some (ec, False, has, r0, es0)" "relay_ok r0" "sent es0 = []"
      "concat (waiting r) @ coded code advance st (received es0) = concat (waiting r0)" "\<forall>xs\<in>set (waiting r0). int (length xs) \<le> M"
      "codec (cc_method (rl_cli r0)) (rl_encoder r0) (foldl advance st (received es0))" "same_flags r r0" "still_open r0"
      "if has then ec = no_error \<and> open_relay r0 \<and> waiting r0 \<noteq> [] else waiting r0 = [] \<and> (soft ec \<or> ec \<noteq> no_error \<and> cc_closed (rl_cli r0))"
  proof (cases "waiting r = []")
    case True
    from next_reads [OF assms(1-3) True assms(4)] True assms(6) show ?thesis
      by (elim exE conjE) (rule that; (assumption | force))
  next
    case False
    obtain bs where bs: "ioq_rep 16 (rl_upstream r) bs" "waiting r = map view bs" using waiting_rep [OF assms(1)] by blast
    with False have "\<not> ioq_empty (rl_upstream r)" "front (rl_upstream r) = Some (Some (hd bs))"
      using empty_rep [OF bs(1)] front_rep [OF bs(1)] by auto
    then have "GetNextUpstreamBuf env (io_read io) r = Some (no_error, False, True, r, [])"
      using assms(2) by (simp add: GetNextUpstreamBuf_def open_relay_def Let_def)
    with False assms show ?thesis by (intro that [of no_error True r "[]"]) (auto simp: same_flags_def still_open_def)
  qed
  obtain bs where bs: "ioq_rep 16 (rl_upstream r0) bs" "waiting r0 = map view bs" "\<forall>b\<in>set bs. growable_inv b \<and> view b \<noteq> []"
    using waiting_rep [OF g(2)] by blast
  show ?thesis
  proof (cases "has \<and> \<not> rl_channel_eof r0")
    case True
    then have h: "ec = no_error" "open_relay r0" "bs \<noteq> []" using g(9) bs(2) by auto
    then obtain b bs' where b: "bs = b # bs'" by (cases bs) auto
    have f: "front (rl_upstream r0) = Some (Some b)" using front_rep [OF bs(1)] b by simp
    have "buf_size b \<noteq> 0" using bs(3) b buf_size_view [of b] by simp
    then have it: "pipe_iteration env io again bytes r = pipe_written io again bytes b r0 es0"
      using g(1) f h(1,2) True by (simp add: pipe_iteration_def soft_def open_relay_def Let_def)
    obtain step r' es' where w: "pipe_written io again bytes b r0 es0 = Some step" "outcome step = (r', es')" "relay_ok r'"
        "sent es' @ concat (waiting r') = view b @ concat (map view bs')" "length (sent es') \<le> length (view b)" "received es' = received es0"
        "settled step" "same_relay r0 r'" "same_flags r0 r'" "still_open r'"
        "\<forall>xs\<in>set (waiting r'). \<exists>ys\<in>set (view b # map view bs'). length xs \<le> length ys"
        "\<And>a n r1 es1. step = Pipe_next a n r1 es1 \<Longrightarrow> sent es' = view b \<and> n = bytes + int (length (view b)) \<and> n \<le> kYieldAfterBytesRead \<and>
           open_relay r' \<and> waiting r' = map view bs'"
      using pipe_written_ok [of r0 b bs' io es0 again bytes] bs(1,3) b h(2) assms(4) g(3) by blast
    have c: "concat (waiting r) @ coded code advance st (received es') = sent es' @ concat (waiting r')" using g(4) bs(2) b w(4,6) by simp
    have v: "int (length (view b)) \<le> M" "view b \<noteq> []" "\<forall>xs\<in>set (map view bs'). int (length xs) \<le> M" using g(5) bs(2,3) b by auto
    then have "int (length (sent es')) \<le> M" using w(5) by simp
    moreover have "codec (cc_method (rl_cli r')) (rl_encoder r') (foldl advance st (received es'))"
      using g(6) w(6,8) by (simp add: same_relay_def)
    moreover have "same_flags r r'" using g(7) w(9) by (simp add: same_flags_def)
    moreover have "\<forall>xs\<in>set (waiting r'). int (length xs) \<le> M" using w(11) v(1,3) by fastforce
    ultimately show ?thesis using it w(1-3,7,10,12) c v by (intro exI [of _ step] exI [of _ r'] exI [of _ es']) auto
  next
    case False
    obtain fb where "has \<Longrightarrow> front (rl_upstream r0) = Some (Some fb) \<and> buf_size fb \<noteq> 0"
      using front_rep [OF bs(1)] g(9) bs(2,3) buf_size_view [of "hd bs"] by (cases has) auto
    then have "\<exists>step. pipe_iteration env io again bytes r = Some step \<and> outcome step = (r0, es0) \<and> settled step \<and> (\<forall>a n r1 es1. step \<noteq> Pipe_next a n r1 es1)"
      using g(1,9) False by (cases has) (auto simp: pipe_iteration_def Let_def soft_def)
    with g(2-8) M show ?thesis by auto
  qed
qed

text \<open>What a run of the loop leaves behind.\<close>

definition ran :: "('c, 'm) relay \<Rightarrow> 's \<Rightarrow> int \<Rightarrow> ('c, 'm) relay \<Rightarrow> relay_effect list \<Rightarrow> bool" where
  "ran r st M r' es \<longleftrightarrow> relay_ok r' \<and> concat (waiting r) @ coded code advance st (received es) = sent es @ concat (waiting r') \<and>
     codec (cc_method (rl_cli r')) (rl_encoder r') (foldl advance st (received es)) \<and> still_open r' \<and> armed_by r r' \<and>
     (\<forall>xs\<in>set (waiting r'). int (length xs) \<le> M)"

lemma loop_ok:
  assumes "\<forall>i. io_ok (io i)" "bound \<le> M" "0 \<le> bytes" "bytes \<le> kYieldAfterBytesRead"
    and "relay_ok r" "open_relay r" "codec (cc_method (rl_cli r)) (rl_encoder r) st" "\<forall>xs\<in>set (waiting r). int (length xs) \<le> M"
    and "\<not> rl_channel_write_inprogress r"
  shows "\<exists>r' es'. pipe_loop env io i again bytes r es = Some (r', es @ es') \<and> ran r st M r' es' \<and>
    bytes + int (length (sent es')) \<le> kYieldAfterBytesRead + M"
  using assms(3-)
proof (induction "nat (kYieldAfterBytesRead - bytes)" arbitrary: i again bytes r es st rule: less_induct)
  case less
  obtain step r1 es1 where it: "pipe_iteration env (io i) again bytes r = Some step" "outcome step = (r1, es1)" "relay_ok r1"
      "concat (waiting r) @ coded code advance st (received es1) = sent es1 @ concat (waiting r1)" "int (length (sent es1)) \<le> M" "settled step"
      "codec (cc_method (rl_cli r1)) (rl_encoder r1) (foldl advance st (received es1))"
      "same_flags r r1" "still_open r1" "\<forall>xs\<in>set (waiting r1). int (length xs) \<le> M"
      "\<And>a n r2 es2. step = Pipe_next a n r2 es2 \<Longrightarrow> 0 < length (sent es1) \<and> n = bytes + int (length (sent es1)) \<and> n \<le> kYieldAfterBytesRead \<and>
         open_relay r1"
    using iteration_ok [OF less.prems(3,4,5) _ less.prems(6) assms(2), of "io i" again bytes] assms(1) by blast
  have w: "rl_upstream_writable r1 = rl_upstream_writable r" "\<not> rl_channel_write_inprogress r1"
    using it(8) less.prems(7) by (simp_all add: same_flags_def)
  have arm: "armed_by r r'" if "armed_by r1 r'" for r' using that it(8) by (simp add: armed_by_def same_flags_def split: if_splits)
  show ?case
  proof (cases step)
    case (Pipe_return r2 es2)
    with it less.prems(2) show ?thesis by (subst pipe_loop.simps) (auto simp: ran_def armed_by_def live_def armed_def)
  next
    case (Pipe_break a y ec r2 es2)
    then have eq: "r2 = r1" "es2 = es1" using it(2) by simp_all
    obtain r' es' where e: "pipe_end a y ec r1 (es @ es1) = (r', es')" by fastforce
    have "settled (Pipe_break a y ec r1 (es @ es1))" using it(6) Pipe_break eq by simp
    from pipe_end_settles [OF e it(3) this it(9) w(2)] obtain es0 where es0: "es' = (es @ es1) @ es0" "sent es0 = []" "received es0 = []"
        "only_flags r1 r'" "armed_by r1 r'" by blast
    note keep = only_flags_keep [OF es0(4)]
    have "codec (cc_method (rl_cli r')) (rl_encoder r') (foldl advance st (received (es1 @ es0)))" using it(7) es0(3) keep(3) by (simp add: same_relay_def)
    with it(1,3,4,5,9,10) Pipe_break eq e es0 keep arm less.prems(2) show ?thesis
      by (subst pipe_loop.simps) (intro exI [of _ r'] exI [of _ "es1 @ es0"], auto simp: ran_def)
  next
    case (Pipe_next a n r2 es2)
    then have eq: "r2 = r1" "es2 = es1" and nx: "0 < length (sent es1)" "n = bytes + int (length (sent es1))" "n \<le> kYieldAfterBytesRead"
        "open_relay r1" using it(2,11) by auto
    have "bytes < n" using nx(1,2) by linarith
    then have "nat (kYieldAfterBytesRead - n) < nat (kYieldAfterBytesRead - bytes)" "0 \<le> n" using nx(3) less.prems(1) by linarith+
    from less.hyps [OF this nx(3) it(3) nx(4) it(7,10) w(2), of "Suc i" a "es @ es1"] obtain r' es' where l:
      "pipe_loop env io (Suc i) a n r1 (es @ es1) = Some (r', (es @ es1) @ es')" "ran r1 (foldl advance st (received es1)) M r' es'"
      "n + int (length (sent es')) \<le> kYieldAfterBytesRead + M"
      by blast
    then have "ran r st M r' (es1 @ es')" using it(4) arm by (simp add: ran_def coded_append) (metis append.assoc)
    with l it(1) Pipe_next eq nx(2) show ?thesis
      by (subst pipe_loop.simps) (intro exI [of _ r'] exI [of _ "es1 @ es'"], auto)
  qed
qed

text \<open>One call of \<^verbatim>\<open>WriteUpstreamInPipe()\<close>.\<close>

lemma pipe_ok:
  assumes "\<forall>i. io_ok (io i)" "bound \<le> M" "relay_ok r" "open_relay r" "codec (cc_method (rl_cli r)) (rl_encoder r) st"
    and "\<forall>xs\<in>set (waiting r). int (length xs) \<le> M" "\<not> rl_channel_write_inprogress r"
  shows "\<exists>r' es. WriteUpstreamInPipe env io r = Some (r', es) \<and> ran r st M r' es \<and> int (length (sent es)) \<le> kYieldAfterBytesRead + M"
  using loop_ok [OF assms(1,2) _ _ assms(3-7), of 0 0 False "[]"] assms(7) by (simp add: WriteUpstreamInPipe_def kYieldAfterBytesRead_def)

text \<open>What has flowed in a run that started in \<open>r0\<close> with the encoder in the state \<open>st\<close>.\<close>

definition flow :: "('c, 'm) relay \<Rightarrow> 's \<Rightarrow> int \<Rightarrow> ('c, 'm) relay \<Rightarrow> relay_effect list \<Rightarrow> bool" where
  "flow r0 st M r es \<longleftrightarrow> relay_ok r \<and> concat (waiting r0) @ coded code advance st (received es) = sent es @ concat (waiting r) \<and>
     codec (cc_method (rl_cli r)) (rl_encoder r) (foldl advance st (received es)) \<and> (\<forall>xs\<in>set (waiting r). int (length xs) \<le> M)"

lemma flow_flags: "only_flags r r' \<Longrightarrow> flow r0 st M r es \<Longrightarrow> sent es' = [] \<Longrightarrow> received es' = [] \<Longrightarrow> flow r0 st M r' (es @ es')"
  using only_flags_keep [of r r'] by (simp add: flow_def same_relay_def)

lemma pipe_and_flush_ok:
  assumes "flow r0 st M r es" "open_relay r" "rl_upstream_writable r" "\<not> rl_channel_write_inprogress r" "bound \<le> M" "\<forall>i. io_ok (io i)"
  shows "\<exists>r' es'. pipe_and_flush env io r = Some (r', es') \<and> flow r0 st M r' (es @ es') \<and> live r' \<and> armed r'"
proof -
  obtain r1 es1 where 1: "WriteUpstreamInPipe env io r = Some (r1, es1)" "ran r (foldl advance st (received es)) M r1 es1"
    using pipe_ok [OF assms(6,5) _ assms(2) _ _ assms(4)] assms(1) unfolding flow_def by blast
  have la: "live r1" "armed r1" using 1(2) assms(3) by (simp_all add: ran_def armed_by_def)
  obtain r2 es2 where 2: "OnUpstreamWriteFlush r1 = (r2, es2)" by fastforce
  note fl = OnUpstreamWriteFlush_flags [OF 2]
  have "live r2 \<and> armed r2"
  proof (cases "cc_closed (rl_cli r1)")
    case True
    then show ?thesis using fl by (auto simp: live_def armed_def only_flags_def)
  next
    case False
    then have "ioq_empty (rl_upstream r1) \<or> \<not> rl_upstream_writable r1" using 1(2) la waiting_empty [of r1] by (auto simp: ran_def live_def)
    then show ?thesis using la fl by simp
  qed
  moreover have "flow r0 st M r1 (es @ es1)" using assms(1) 1(2) by (simp add: flow_def ran_def coded_append) (metis append.assoc)
  then have "flow r0 st M r2 ((es @ es1) @ es2)" using flow_flags [of r1 r2 r0 st M "es @ es1" es2] fl by blast
  ultimately show ?thesis using 1(1) 2 by (simp add: pipe_and_flush_def)
qed

text \<open>The same on a relay that may have been closed.\<close>

lemma pipe_any_ok:
  assumes "flow r0 st M r es" "still_open r" "rl_upstream_writable r" "\<not> rl_channel_write_inprogress r" "bound \<le> M" "\<forall>i. io_ok (io i)"
  shows "\<exists>r' es'. pipe_and_flush env io r = Some (r', es') \<and> flow r0 st M r' (es @ es') \<and> (open_relay r' \<longrightarrow> live r' \<and> armed r')"
proof (cases "open_relay r")
  case True
  from pipe_and_flush_ok [OF assms(1) True assms(3-6)] show ?thesis by blast
next
  case False
  have "relay_ok r" using assms(1) by (simp add: flow_def)
  from closed_pipe [OF this assms(2) False, of env io] obtain r1 es1 where 1: "pipe_and_flush env io r = Some (r1, es1)" "only_flags r r1"
    "sent es1 = []" "received es1 = []" by blast
  with flow_flags [OF 1(2) assms(1) 1(3,4)] only_flags_keep(5) [OF 1(2)] False show ?thesis by auto
qed

lemma event_ok:
  assumes "flow r0 st M r es" "live r" "armed r" "open_relay r" "\<not> cc_closed (rl_cli r)" "enabled ev r" "bound \<le> M" "\<forall>i. io_ok (io i)"
  shows "\<exists>r' es'. handle_relay env io ev r = Some (r', es') \<and> flow r0 st M r' (es @ es') \<and> (open_relay r' \<longrightarrow> live r' \<and> armed r')"
proof -
  note io = assms(7,8)
  define r1 where "r1 = r\<lparr>rl_read_inprogress := False\<rparr>"
  have o: "only_flags r r1" "only_flags r (r\<lparr>rl_channel_write_inprogress := False, rl_upstream_writable := True\<rparr>)" by (simp_all add: r1_def only_flags_def)
  note f = flow_flags [OF o(1) assms(1), of "[]", simplified] flow_flags [OF o(2) assms(1), of "[]", simplified]
  have posted: "\<exists>r' es'. pipe_and_flush env io r1 = Some (r', es') \<and> flow r0 st M r' (es @ es') \<and> live r' \<and> armed r'"
  proof (cases "rl_channel_write_inprogress r")
    case True
    then have w: "\<not> rl_upstream_writable r" "waiting r1 \<noteq> []" using assms(3,5) only_flags_keep(2) [OF o(1)] by (simp_all add: armed_def)
    then have "pipe_and_flush env io r1 = Some (r1, [])" using True
      by (simp add: r1_def pipe_and_flush_def WriteUpstreamInPipe_def OnUpstreamWriteFlush_def)
    moreover have "live r1 \<and> armed r1" using w True by (simp add: live_def armed_def r1_def)
    ultimately show ?thesis using f(1) by simp
  next
    case False
    then have "rl_upstream_writable r" using assms(3,5) by (simp add: armed_def)
    then show ?thesis using pipe_and_flush_ok [OF f(1) _ _ _ io] False assms(4) only_flags_keep(5) [OF o(1)] by (simp add: r1_def)
  qed
  have written: "\<exists>r' es'. sent_event env io (r\<lparr>rl_channel_write_inprogress := False\<rparr>) = Some (r', es') \<and> flow r0 st M r' (es @ es') \<and> live r' \<and> armed r'"
    using pipe_and_flush_ok [OF f(2) _ _ _ io] assms(4) only_flags_keep(5) [OF o(2)] by (simp add: sent_event_def)
  have open1: "\<not> cc_closed (rl_cli r1)" using assms(5) by (simp add: r1_def)
  have channel: "cc_channel (rl_cli r) = Connected" using assms(4) by (simp add: open_relay_def)
  show ?thesis
  proof (cases ev)
    case (Readable ec)
    obtain c ds where c0: "fail_state ec (rl_cli r1) = (c, ds)" by fastforce
    then have "cc_method c = cc_method (rl_cli r)" "cc_closed c" by (auto simp: fail_state_def OnDisconnect_def r1_def split: if_splits)
    note c = c0 this
    have "flow r0 st M (r1\<lparr>rl_cli := c\<rparr>) (es @ map Cli ds)" using f(1) c(2) by (simp add: flow_def r1_def)
    moreover have "live (r1\<lparr>rl_cli := c\<rparr>)" "armed (r1\<lparr>rl_cli := c\<rparr>)" using c(3) by (simp_all add: live_def armed_def)
    ultimately show ?thesis using Readable posted c(1) open1 assms(6)
      by (cases "ec = no_error") (auto simp: handle_relay_def on_readable_def r1_def [symmetric])
  next
    case Posted
    with posted open1 show ?thesis by (auto simp: handle_relay_def on_posted_def r1_def [symmetric])
  next
    case (Writable ec)
    have "flow r0 st M (fst (lose_upstream ec (r\<lparr>rl_channel_write_inprogress := False\<rparr>))) (es @ [Disconnected ec])"
      using assms(1) by (simp add: flow_def lose_upstream_def relay_ok_def waiting_def)
    with Writable written channel assms(5,6) show ?thesis
      by (cases "ec = no_error") (auto simp: handle_relay_def on_writable_def Let_def lose_upstream_def open_relay_def)
  qed
qed

lemma run_ok:
  assumes "relay_run env r1 es r2" "flow r0 st M r1 es1" "open_relay r1 \<longrightarrow> live r1 \<and> armed r1" "bound \<le> M"
  shows "flow r0 st M r2 (es1 @ es) \<and> (open_relay r2 \<longrightarrow> live r2 \<and> armed r2)"
  using assms(1)
proof induction
  case run_start
  then show ?case using assms(2,3) by simp
next
  case (run_step es r ev io r' es')
  with event_ok [of r0 st M r "es1 @ es" ev io] assms(4) show ?case by auto
qed

text \<open>A relay that is still open has an outstanding operation, and every callback returns.\<close>

lemma run_progress:
  assumes "relay_run env r1 es r2" "flow r0 st M r1 es1" "open_relay r1 \<longrightarrow> live r1 \<and> armed r1" "bound \<le> M" "open_relay r2" "\<not> cc_closed (rl_cli r2)"
  shows "(\<exists>ev. enabled ev r2) \<and> (\<forall>ev io. enabled ev r2 \<longrightarrow> (\<forall>i. io_ok (io i)) \<longrightarrow> (\<exists>r3 es3. handle_relay env io ev r2 = Some (r3, es3)))"
proof -
  have f: "flow r0 st M r2 (es1 @ es)" "live r2" "armed r2" using run_ok [OF assms(1-4)] assms(5) by auto
  then have "enabled Posted r2 \<or> enabled (Writable no_error) r2" using assms(6) by (auto simp: live_def split: if_splits)
  with event_ok [OF f assms(5,6) _ assms(4)] show ?thesis by blast
qed

end

text \<open>Without encryption the bytes are queued as they are.\<close>

definition relays_plain :: "cipher_method \<Rightarrow> bool" where
  "relays_plain m \<longleftrightarrow> CIPHER_METHOD_IS_HTTPS m \<or> CIPHER_METHOD_IS_SOCKS m"

lemma queue_upstream_plain:
  assumes "relay_ok r" "waiting r = []" "relays_plain (cc_method (rl_cli r))" "growable_inv b" "view b \<noteq> []"
  shows "\<exists>q. queue_upstream env b r = Some (r\<lparr>rl_upstream := q\<rparr>, []) \<and> relay_ok (r\<lparr>rl_upstream := q\<rparr>) \<and> waiting (r\<lparr>rl_upstream := q\<rparr>) = [view b]"
proof -
  have "ioq_rep 16 (rl_upstream r) []" using waiting_rep [OF assms(1)] assms(2) by auto
  from push_back_rep [OF this, of b] obtain q where q: "push_back b (rl_upstream r) = Some q" "ioq_rep 16 q [b]" by auto
  then have "relay_ok (r\<lparr>rl_upstream := q\<rparr>) \<and> waiting (r\<lparr>rl_upstream := q\<rparr>) = map view [b]" using assms(4,5) by (intro relay_okI) simp_all
  then show ?thesis using q(1) assms(3) by (auto simp: queue_upstream_def relays_plain_def)
qed

interpretation plain: upstream_codec env "\<lambda>m e st. relays_plain m" "\<lambda>(_ :: unit) xs. xs" "\<lambda>_ _. ()" SOCKET_BUF_SIZE
proof
  fix r :: "('a, 'b) relay" and b st
  assume "relay_ok r" "waiting r = []" "relays_plain (cc_method (rl_cli r))" "growable_inv b" "view b \<noteq> []" "int (length (view b)) \<le> SOCKET_BUF_SIZE"
  with queue_upstream_plain [of r b env] obtain q where
    "queue_upstream env b r = Some (r\<lparr>rl_upstream := q\<rparr>, [])" "relay_ok (r\<lparr>rl_upstream := q\<rparr>)" "waiting (r\<lparr>rl_upstream := q\<rparr>) = [view b]" by blast
  moreover have "r\<lparr>rl_upstream := q, rl_encoder := rl_encoder r\<rparr> = r\<lparr>rl_upstream := q\<rparr>" by simp
  ultimately show "\<exists>q e. queue_upstream env b r = Some (r\<lparr>rl_upstream := q, rl_encoder := e\<rparr>, []) \<and> relay_ok (r\<lparr>rl_upstream := q\<rparr>) \<and>
      waiting (r\<lparr>rl_upstream := q\<rparr>) = [view b] \<and> relays_plain (cc_method (rl_cli r)) \<and> int (length (view b)) \<le> SOCKET_BUF_SIZE"
    using \<open>relays_plain (cc_method (rl_cli r))\<close> \<open>int (length (view b)) \<le> SOCKET_BUF_SIZE\<close> by metis
qed simp

lemma coded_plain: "coded (\<lambda>_ xs. xs) (\<lambda>_ _. ()) () xss = concat xss"
  by (induction xss) simp_all

section \<open>Requests of a keep-alive connection\<close>

lemma incomplete_request_kept:
  assumes "relay_ok r" "waiting r = []" "rl_upstream_error r = no_error" "cc_channel (rl_cli r) = Connected" "\<not> cc_closed (rl_cli r)"
    and "cc_http_is_keep_alive (rl_cli r)" "cc_http_remaining (rl_cli r) = 0" "cc_http_pending (rl_cli r) = None" "cc_http_previous (rl_cli r) = None"
    and "xs \<noteq> []" "int (length xs) \<le> SOCKET_BUF_SIZE" "\<not> fst (snd (Parse (ce_lib (snd env)) (ce_framer (snd env)) xs HttpRequestParser))"
  shows "\<exists>b. GetNextUpstreamBuf env (Data xs) r = Some (try_again, False, False,
      r\<lparr>rl_cli := (rl_cli r)\<lparr>cc_rbytes := cc_rbytes (rl_cli r) + length xs, cc_http_is_keep_alive := False, cc_http_remaining := 0,
                              cc_http_previous := Some b\<rparr>\<rparr>, [Received xs]) \<and> view b = xs"
proof -
  have e: "ioq_empty (rl_upstream r)" using waiting_empty assms(1,2) by blast
  obtain b where b: "read_segment (ce_junk (snd env)) SOCKET_BUF_SIZE xs = Some b" "growable_inv b" "view b = xs"
    using buffer_segment [OF assms(11)] by blast
  let ?c = "rl_cli r\<lparr>cc_rbytes := cc_rbytes (rl_cli r) + length xs\<rparr>"
  have "OnReadHttpRequestAfterReuse (snd env) b ?c = Some (invalid_argument, Some b, ?c\<lparr>cc_http_is_keep_alive := False, cc_http_remaining := 0\<rparr>, [])"
    using assms(12) span_view [OF b(2)] b(3) by (simp add: OnReadHttpRequestAfterReuse_def OnReadHttpRequest_def split_def Let_def)
  moreover have "buf_size b < 64 * 1024" using buf_size_view [OF b(2)] b(3) assms(11) by (simp add: SOCKET_BUF_SIZE_def)
  ultimately show ?thesis using e b(1,3) assms(3-10)
    by (intro exI [of _ b]) (simp add: GetNextUpstreamBuf_def read_local_def after_read_def Let_def)
qed

lemma chunked_body_set_aside:
  assumes "growable_inv buf" "offset buf = 0" "view buf = head @ body" "body \<noteq> []"
    and "Parse (ce_lib env) (ce_framer env) (view buf) HttpRequestParser = (int (length head), True, hp)" "\<not> http_is_connect hp"
    and "same_name (ce_lib env) (hp_connection hp) ''Keep-Alive''" "bh_chunked (hp_headers hp)" "bh_content_length (hp_headers hp) = 0"
    and "length (ReforgeHttpRequest (ce_lib env) None hp) \<le> length head"
  shows "\<exists>b c' p. OnReadHttpRequest env buf c = Some (no_error, b, c') \<and> view b = bytes_of (ReforgeHttpRequest (ce_lib env) None hp) \<and>
    cc_http_pending c' = Some p \<and> view p = body \<and> \<not> cc_http_is_keep_alive c'"
proof -
  let ?h = "bytes_of (ReforgeHttpRequest (ce_lib env) None hp)"
  have len: "length ?h \<le> length head" using assms(10) by (simp add: bytes_of_def)
  obtain b1 where b1: "set_offset (int (length head)) buf = Some b1" "growable_inv b1" "view b1 = body" "offset b1 = int (length head)"
    using set_offset_advance [OF assms(1), of "length head"] assms(2,3) by (auto simp: set_offset_def)
  obtain b2 where b2: "rewrite_head (ce_junk env) 0 (int (length head)) ?h b1 = Some b2" "growable_inv b2" "view b2 = ?h @ body" "offset b2 = 0"
    using rewrite_shorter [OF b1(2), of 0 "int (length head)" ?h "ce_junk env"] b1(3,4) len by auto
  have "int (length body) \<le> INT_MAX" using buf_size_view [OF b1(2)] b1(2,3) by (auto simp: growable_inv_def)
  then obtain p where p: "copyBuffer (ce_junk env) body = Some p" "view p = body" using copyBuffer_ok [of body "ce_junk env"] by auto
  obtain b3 where b3: "keep_alive_split (ce_junk env) True 0 (length ?h) b2 = Some (0, Some p, b3)" "view b3 = ?h"
    using keep_alive_split_ok [OF b2(2,4,3), of 0 "ce_junk env"] assms(4) p(1) by (auto simp: INT_MAX_def)
  then show ?thesis using assms(2,5-9) b1(1) b2(1) p(2) span_view [OF assms(1)]
    by (simp add: OnReadHttpRequest_def http_forward_def Let_def)
qed

section \<open>Properties\<close>

definition sample_relay :: "(nat, unit) relay" where
  "sample_relay = \<lparr>rl_cli = (cli_start CRYPTO_HTTPS)\<lparr>cc_channel := Connected\<rparr>, rl_upstream = IoQueue 16, rl_upstream_error = no_error,
     rl_upstream_writable = True, rl_socks_wait = False, rl_encoder = None, rl_decoder = None, rl_read_inprogress = False, rl_channel_eof = False,
     rl_channel_write_inprogress = False\<rparr>"

definition sample_io :: "nat \<Rightarrow> pipe_io" where
  "sample_io i = \<lparr>io_read = (if i = 0 then Data [1, 2, 3] else WouldBlock), io_write = (\<lambda>n. (n, no_error)), io_late = False\<rparr>"

lemma sample_relay_ok: "relay_ok sample_relay" "open_relay sample_relay" "waiting sample_relay = []" "relays_plain (cc_method (rl_cli sample_relay))"
  using ioq_rep_inv [OF IoQueue_rep, of 16]
  by (auto simp: relay_ok_def open_relay_def waiting_def sample_relay_def cli_start_def relays_plain_def CIPHER_METHOD_IS_HTTPS_def)

lemma sample_io_ok: "io_ok (sample_io i)"
  by (simp add: io_ok_def sample_io_def SOCKET_BUF_SIZE_def)

text \<open>C33: On a plain relay the loop that writes to the upstream terminates and loses nothing. A plain relay is a connection
  with an HTTPS or SOCKS method, where the data is not encrypted by the program, whose upstream is connected and which is not
  kept alive for further HTTP requests. Whatever the local socket delivers, and however much of each buffer the upstream
  accepts, a call of \<^verbatim>\<open>WriteUpstreamInPipe()\<close> on it returns without a failed check; the bytes it sent, followed by the bytes left in the queue, are exactly
  the bytes that were in the queue followed by those it read. It sends no more than \<^verbatim>\<open>kYieldAfterBytesRead\<close> bytes and
  one buffer, so that a fast sender cannot keep the other connections waiting.\<close>

theorem upstream_pipe_terminates:
  assumes "relay_ok r" "open_relay r" "relays_plain (cc_method (rl_cli r))" "\<forall>i. io_ok (io i)"
    and "\<forall>xs\<in>set (waiting r). int (length xs) \<le> M" "SOCKET_BUF_SIZE \<le> M"
  shows "\<exists>r' es. WriteUpstreamInPipe env io r = Some (r', es) \<and> relay_ok r' \<and>
    sent es @ concat (waiting r') = concat (waiting r) @ concat (received es) \<and> int (length (sent es)) \<le> 32 * 1024 + M"
proof (cases "rl_channel_write_inprogress r")
  case True
  then show ?thesis using assms(1,6) by (simp add: WriteUpstreamInPipe_def SOCKET_BUF_SIZE_def)
next
  case False
  from plain.pipe_ok [OF assms(4,6,1,2,3,5) False, of env] show ?thesis by (auto simp: plain.ran_def coded_plain kYieldAfterBytesRead_def)
qed

theorem upstream_pipe_terminates_witness:
  "\<exists>r' es. WriteUpstreamInPipe (plain_env, sample_cli_env) sample_io sample_relay = Some (r', es) \<and>
     sent es @ concat (waiting r') = concat (received es) \<and> int (length (sent es)) \<le> 32 * 1024 + 17 * 1024"
  using upstream_pipe_terminates [OF sample_relay_ok(1,2,4), of sample_io "17 * 1024" "(plain_env, sample_cli_env)"]
    sample_relay_ok(3) sample_io_ok by (auto simp: SOCKET_BUF_SIZE_def)

definition sample_buffer :: growable where
  "sample_buffer = \<lparr>mem = [1, 2, 3], buf_data = 0, buf_size = 3, capacity = 3, offset = 0\<rparr>"

definition sample_queue :: "growable ioqueue" where
  "sample_queue = \<lparr>idx = 0, end_idx = 1, queue = Some sample_buffer # replicate 15 None\<rparr>"

lemma sample_queue_rep: "ioq_rep 16 sample_queue [sample_buffer]" "growable_inv sample_buffer" "view sample_buffer = [1, 2, 3]"
  by (simp_all add: ioq_rep_def sample_queue_def sample_buffer_def growable_inv_def view_def INT_MAX_def)

definition slow_io :: "nat \<Rightarrow> pipe_io" where
  "slow_io i = \<lparr>io_read = WouldBlock, io_write = (\<lambda>n. (min n 2, no_error)), io_late = False\<rparr>"

text \<open>A relay that waits for the upstream, and what it does when two bytes can be written.\<close>

definition waiting_relay :: "(nat, unit) relay" where
  "waiting_relay = sample_relay\<lparr>rl_upstream := sample_queue, rl_upstream_writable := False, rl_channel_write_inprogress := True\<rparr>"

lemma waiting_relay_ok:
  "relay_ok waiting_relay" "waiting waiting_relay = [[1, 2, 3]]" "open_relay waiting_relay" "live waiting_relay" "armed waiting_relay"
  "relays_plain (cc_method (rl_cli waiting_relay))" "\<not> cc_closed (rl_cli waiting_relay)"
proof -
  have "rl_upstream waiting_relay = sample_queue" by (simp add: waiting_relay_def)
  then show w: "relay_ok waiting_relay" "waiting waiting_relay = [[1, 2, 3]]" using relay_okI [of waiting_relay "[sample_buffer]"] sample_queue_rep by simp_all
  then show "open_relay waiting_relay" "live waiting_relay" "armed waiting_relay" "relays_plain (cc_method (rl_cli waiting_relay))"
    "\<not> cc_closed (rl_cli waiting_relay)"
    using sample_relay_ok(2,4) by (simp_all add: open_relay_def live_def armed_def) (simp_all add: waiting_relay_def sample_relay_def cli_start_def)
qed

lemma sample_run: "handle_relay env slow_io (Writable no_error) waiting_relay =
  Some (waiting_relay\<lparr>rl_upstream := sample_queue\<lparr>queue := Some (sample_buffer\<lparr>offset := 2, buf_data := 2, buf_size := 1\<rparr>) # replicate 15 None\<rparr>\<rparr>,
    [Sent [1, 2], Wait_write])"
  unfolding handle_relay_def on_writable_def sent_event_def pipe_and_flush_def WriteUpstreamInPipe_def
  by (subst pipe_loop.simps)
    (simp add: slow_io_def pipe_iteration_def GetNextUpstreamBuf_def pipe_written_def pipe_end_def OnUpstreamWriteFlush_def wait_write_def
      waiting_relay_def sample_relay_def sample_queue_def sample_buffer_def ioq_empty_def front_def set_front_def cli_start_def set_offset_def
      data_slice_def mem_slice_def iobuf_empty_def soft_def)

text \<open>C34: A plain relay to the upstream (not encrypted by the program and not kept alive for further HTTP requests) never
  stalls and never faults. In every run of its callbacks, as long as the connection is open, there is an outstanding operation whose callback goes on with the relay (the upstream is waited
  for while there are bytes in the queue, the local socket when there are none), and the callback of every outstanding
  operation returns without a failed check, whatever the sockets do. At any time the bytes sent, followed by those in
  the queue, are those that were in the queue at the start followed by those received.\<close>

theorem upstream_pipe_never_stalls:
  assumes "relay_run env r es r'" "relay_ok r" "open_relay r" "live r" "armed r" "relays_plain (cc_method (rl_cli r))"
    and "open_relay r'" "\<not> cc_closed (rl_cli r')"
  shows "(\<exists>ev. enabled ev r') \<and>
    (\<forall>ev io. enabled ev r' \<longrightarrow> (\<forall>i. io_ok (io i)) \<longrightarrow> (\<exists>r2 es2. handle_relay env io ev r' = Some (r2, es2))) \<and>
    sent es @ concat (waiting r') = concat (waiting r) @ concat (received es)"
proof -
  define M where "M = Max (insert SOCKET_BUF_SIZE ((int \<circ> length) ` set (waiting r)))"
  have M: "\<forall>xs\<in>set (waiting r). int (length xs) \<le> M" "SOCKET_BUF_SIZE \<le> M" by (auto simp: M_def intro!: Max_ge)
  have start: "plain.flow r () M r []" "open_relay r \<longrightarrow> live r \<and> armed r" using assms(2-6) M(1) by (simp_all add: plain.flow_def)
  from plain.run_ok [OF assms(1) start M(2)] have "sent es @ concat (waiting r') = concat (waiting r) @ concat (received es)"
    by (simp add: plain.flow_def coded_plain)
  with plain.run_progress [OF assms(1) start M(2) assms(7,8)] show ?thesis by blast
qed

theorem upstream_pipe_never_stalls_witness:
  "\<exists>es r'. relay_run (plain_env, sample_cli_env) waiting_relay es r' \<and> sent es = [1, 2] \<and> (\<exists>ev. enabled ev r') \<and> sent es @ concat (waiting r') = [1, 2, 3]"
proof -
  let ?env = "(plain_env, sample_cli_env)"
  let ?r = "waiting_relay\<lparr>rl_upstream := sample_queue\<lparr>queue := Some (sample_buffer\<lparr>offset := 2, buf_data := 2, buf_size := 1\<rparr>) # replicate 15 None\<rparr>\<rparr>"
  have ev: "enabled (Writable no_error) waiting_relay" by (simp add: waiting_relay_def)
  have io: "\<forall>i. io_ok (slow_io i)" by (simp add: io_ok_def slow_io_def)
  have run: "relay_run ?env waiting_relay ([] @ [Sent [1, 2], Wait_write]) ?r"
    by (rule run_step [OF run_start waiting_relay_ok(3,7) ev io sample_run])
  have "open_relay ?r" "\<not> cc_closed (rl_cli ?r)" using waiting_relay_ok(3,7) by (simp_all add: open_relay_def)
  from upstream_pipe_never_stalls [OF run waiting_relay_ok(1,3,4,5,6) this] run show ?thesis
    using waiting_relay_ok(2) by (intro exI [of _ "[Sent [1, 2], Wait_write]"] exI [of _ ?r]) simp
qed

text \<open>C35: Data of a keep-alive connection is lost. When the header of a later request arrives in two segments, the first
  segment is put aside and keep-alive handling is switched off at once, so the second segment is sent to the upstream
  without it and the first is never used again. And when the first request uses the chunked transfer encoding, the
  part of the body that arrived with the header is put aside as if it were the next request, keep-alive handling is
  switched off, and it is never sent either: as long as keep-alive handling is off, only what is newly read from the
  socket is sent.\<close>

theorem keep_alive_data_lost:
  assumes "relay_ok r" "waiting r = []" "rl_upstream_error r = no_error" "cc_channel (rl_cli r) = Connected" "\<not> cc_closed (rl_cli r)"
    and "relays_plain (cc_method (rl_cli r))" "\<not> rl_socks_wait r"
    and "xs \<noteq> []" "int (length xs) \<le> SOCKET_BUF_SIZE" "ys \<noteq> []" "int (length ys) \<le> SOCKET_BUF_SIZE"
  shows "(cc_http_is_keep_alive (rl_cli r) \<and> cc_http_remaining (rl_cli r) = 0 \<and> cc_http_pending (rl_cli r) = None \<and>
      cc_http_previous (rl_cli r) = None \<and> \<not> fst (snd (Parse (ce_lib (snd env)) (ce_framer (snd env)) xs HttpRequestParser)) \<longrightarrow>
      (\<exists>r1 r2 b. GetNextUpstreamBuf env (Data xs) r = Some (try_again, False, False, r1, [Received xs]) \<and>
         GetNextUpstreamBuf env (Data ys) r1 = Some (no_error, False, True, r2, [Received ys]) \<and> waiting r2 = [ys] \<and>
         cc_http_previous (rl_cli r2) = Some b \<and> view b = xs \<and> \<not> cc_http_is_keep_alive (rl_cli r2))) \<and>
    (\<not> cc_http_is_keep_alive (rl_cli r) \<longrightarrow>
      (\<exists>r1. GetNextUpstreamBuf env (Data ys) r = Some (no_error, False, True, r1, [Received ys]) \<and> waiting r1 = [ys] \<and>
         cc_http_pending (rl_cli r1) = cc_http_pending (rl_cli r) \<and> \<not> cc_http_is_keep_alive (rl_cli r1))) \<and>
    (\<forall>buf head body hp. growable_inv buf \<and> offset buf = 0 \<and> view buf = head @ body \<and> body \<noteq> [] \<and>
      Parse (ce_lib (snd env)) (ce_framer (snd env)) (view buf) HttpRequestParser = (int (length head), True, hp) \<and> \<not> http_is_connect hp \<and>
      same_name (ce_lib (snd env)) (hp_connection hp) ''Keep-Alive'' \<and> bh_chunked (hp_headers hp) \<and> bh_content_length (hp_headers hp) = 0 \<and>
      length (ReforgeHttpRequest (ce_lib (snd env)) None hp) \<le> length head \<longrightarrow>
      (\<exists>b c p. OnReadHttpRequest (snd env) buf (rl_cli r) = Some (no_error, b, c) \<and>
         view b = bytes_of (ReforgeHttpRequest (ce_lib (snd env)) None hp) \<and>
         cc_http_pending c = Some p \<and> view p = body \<and> \<not> cc_http_is_keep_alive c))"
proof (intro conjI impI allI)
  have data: "\<exists>r1. GetNextUpstreamBuf env (Data ys) r0 = Some (no_error, False, True, r1, [Received ys]) \<and> waiting r1 = [ys] \<and>
      cc_http_pending (rl_cli r1) = cc_http_pending (rl_cli r0) \<and> cc_http_previous (rl_cli r1) = cc_http_previous (rl_cli r0) \<and>
      \<not> cc_http_is_keep_alive (rl_cli r1)"
    if "relay_ok r0" "open_relay r0" "relays_plain (cc_method (rl_cli r0))" "waiting r0 = []" "\<not> cc_closed (rl_cli r0)" for r0
    using plain.next_data [OF that assms(10,11), of env] that(2) by (auto simp: open_relay_def)
  {
    assume "\<not> cc_http_is_keep_alive (rl_cli r)"
    then have "open_relay r" using assms(3,4,7) by (simp add: open_relay_def)
    from data [OF assms(1) this assms(6,2,5)] show "\<exists>r1. GetNextUpstreamBuf env (Data ys) r = Some (no_error, False, True, r1, [Received ys]) \<and>
      waiting r1 = [ys] \<and> cc_http_pending (rl_cli r1) = cc_http_pending (rl_cli r) \<and> \<not> cc_http_is_keep_alive (rl_cli r1)" by blast
  }
  {
    assume "cc_http_is_keep_alive (rl_cli r) \<and> cc_http_remaining (rl_cli r) = 0 \<and> cc_http_pending (rl_cli r) = None \<and>
      cc_http_previous (rl_cli r) = None \<and> \<not> fst (snd (Parse (ce_lib (snd env)) (ce_framer (snd env)) xs HttpRequestParser))"
    then have k: "cc_http_is_keep_alive (rl_cli r)" "cc_http_remaining (rl_cli r) = 0" "cc_http_pending (rl_cli r) = None"
      "cc_http_previous (rl_cli r) = None" "\<not> fst (snd (Parse (ce_lib (snd env)) (ce_framer (snd env)) xs HttpRequestParser))" by simp_all
    let ?c = "\<lambda>b. (rl_cli r)\<lparr>cc_rbytes := cc_rbytes (rl_cli r) + length xs, cc_http_is_keep_alive := False, cc_http_remaining := 0, cc_http_previous := Some b\<rparr>"
    obtain b where b: "GetNextUpstreamBuf env (Data xs) r = Some (try_again, False, False, r\<lparr>rl_cli := ?c b\<rparr>, [Received xs])" "view b = xs"
      using incomplete_request_kept [OF assms(1-5) k(1-4) assms(8,9) k(5)] by (elim exE conjE) (rule that)
    have "open_relay (r\<lparr>rl_cli := ?c b\<rparr>)" using assms(3,4,7) by (simp add: open_relay_def)
    with data [of "r\<lparr>rl_cli := ?c b\<rparr>"] assms(1,2,5,6) b show "\<exists>r1 r2 b. GetNextUpstreamBuf env (Data xs) r = Some (try_again, False, False, r1, [Received xs]) \<and>
         GetNextUpstreamBuf env (Data ys) r1 = Some (no_error, False, True, r2, [Received ys]) \<and> waiting r2 = [ys] \<and>
         cc_http_previous (rl_cli r2) = Some b \<and> view b = xs \<and> \<not> cc_http_is_keep_alive (rl_cli r2)"
      by auto
  }
qed (use chunked_body_set_aside [of _ _ _ "snd env"] in blast)

definition reject_framer :: balsa_framer where
  "reject_framer = (\<lambda>_. ([], 0))"

definition chunked_framer :: balsa_framer where
  "chunked_framer = (\<lambda>_. ([RequestFirstLineInput ''GET'' ''http://a/b'' ''HTTP/1.1'',
     ProcessHeadersInput \<lparr>bh_lines = [(''Connection'', ''keep-alive'')], bh_content_length = 0, bh_chunked = True\<rparr>, HeaderDoneInput], 80))"

lemma reject_framer_rejects: "fst (snd (Parse sample_lib reject_framer xs HttpRequestParser)) = False"
  by (simp add: Parse_def reject_framer_def HttpRequestParser_def)

lemma chunked_framer_accepts:
  "(case Parse sample_lib chunked_framer [] HttpRequestParser of (n, ok, hp) \<Rightarrow> n = 80 \<and> ok \<and> \<not> http_is_connect hp \<and>
     same_name sample_lib (hp_connection hp) ''Keep-Alive'' \<and> bh_chunked (hp_headers hp) \<and> bh_content_length (hp_headers hp) = 0 \<and>
     length (ReforgeHttpRequest sample_lib None hp) \<le> 80) = True"
  by code_simp

theorem keep_alive_data_lost_witness:
  "(\<exists>r1 r2 b. GetNextUpstreamBuf (plain_env, sample_cli_env\<lparr>ce_framer := reject_framer\<rparr>) (Data [1])
       (sample_relay\<lparr>rl_cli := (rl_cli sample_relay)\<lparr>cc_http_is_keep_alive := True\<rparr>\<rparr>) = Some (try_again, False, False, r1, [Received [1]]) \<and>
     GetNextUpstreamBuf (plain_env, sample_cli_env\<lparr>ce_framer := reject_framer\<rparr>) (Data [2]) r1 = Some (no_error, False, True, r2, [Received [2]]) \<and>
     waiting r2 = [[2]] \<and> cc_http_previous (rl_cli r2) = Some b \<and> view b = [1]) \<and>
   (\<exists>buf b c p. view buf = replicate 80 0 @ [7] \<and>
     OnReadHttpRequest (sample_cli_env\<lparr>ce_framer := chunked_framer\<rparr>) buf (rl_cli sample_relay) = Some (no_error, b, c) \<and>
     cc_http_pending c = Some p \<and> view p = [7] \<and> \<not> cc_http_is_keep_alive c)"
proof
  let ?r = "sample_relay\<lparr>rl_cli := (rl_cli sample_relay)\<lparr>cc_http_is_keep_alive := True\<rparr>\<rparr>"
  have fields: "rl_upstream_error ?r = no_error" "cc_channel (rl_cli ?r) = Connected" "\<not> cc_closed (rl_cli ?r)" "\<not> rl_socks_wait ?r"
      "cc_http_is_keep_alive (rl_cli ?r) \<and> cc_http_remaining (rl_cli ?r) = 0 \<and> cc_http_pending (rl_cli ?r) = None \<and> cc_http_previous (rl_cli ?r) = None"
      "int (length [1 :: byte]) \<le> SOCKET_BUF_SIZE"
    by (simp_all add: sample_relay_def cli_start_def SOCKET_BUF_SIZE_def)
  have r: "relay_ok ?r" "waiting ?r = []" "relays_plain (cc_method (rl_cli ?r))" using sample_relay_ok by simp_all
  have "\<not> fst (snd (Parse (ce_lib (snd (plain_env, sample_cli_env\<lparr>ce_framer := reject_framer\<rparr>)))
      (ce_framer (snd (plain_env, sample_cli_env\<lparr>ce_framer := reject_framer\<rparr>))) [1] HttpRequestParser))"
    by (simp add: sample_cli_env_def reject_framer_rejects)
  with keep_alive_data_lost [OF r(1,2) fields(1-3) r(3) fields(4), of "[1]" "[2]" "(plain_env, sample_cli_env\<lparr>ce_framer := reject_framer\<rparr>)"] fields(5,6)
  show "\<exists>r1 r2 b. GetNextUpstreamBuf (plain_env, sample_cli_env\<lparr>ce_framer := reject_framer\<rparr>) (Data [1]) ?r = Some (try_again, False, False, r1, [Received [1]]) \<and>
     GetNextUpstreamBuf (plain_env, sample_cli_env\<lparr>ce_framer := reject_framer\<rparr>) (Data [2]) r1 = Some (no_error, False, True, r2, [Received [2]]) \<and>
     waiting r2 = [[2]] \<and> cc_http_previous (rl_cli r2) = Some b \<and> view b = [1]" by fastforce
next
  let ?e = "(plain_env, sample_cli_env\<lparr>ce_framer := chunked_framer\<rparr>)"
  have fields: "rl_upstream_error sample_relay = no_error" "cc_channel (rl_cli sample_relay) = Connected" "\<not> cc_closed (rl_cli sample_relay)"
      "\<not> rl_socks_wait sample_relay" by (simp_all add: sample_relay_def cli_start_def)
  obtain buf where buf: "growable_inv buf" "offset buf = 0" "view buf = replicate 80 0 @ [7]"
    using read_segment_ok [of "replicate 80 0 @ [7 :: byte]" 100 "\<lambda>_. 0"] by (auto simp: INT_MAX_def)
  obtain n ok hp where p: "Parse sample_lib chunked_framer [] HttpRequestParser = (n, ok, hp)" by (rule prod_cases3)
  have same: "Parse sample_lib chunked_framer xs HttpRequestParser = (n, ok, hp)" for xs
    using p by (simp add: Parse_def chunked_framer_def)
  have "n = 80 \<and> ok \<and> \<not> http_is_connect hp \<and> same_name sample_lib (hp_connection hp) ''Keep-Alive'' \<and> bh_chunked (hp_headers hp) \<and>
      bh_content_length (hp_headers hp) = 0 \<and> length (ReforgeHttpRequest sample_lib None hp) \<le> 80"
    using chunked_framer_accepts by (simp only: p prod.case)
  moreover have "ce_lib (snd ?e) = sample_lib" "ce_framer (snd ?e) = chunked_framer" by (simp_all add: sample_cli_env_def)
  ultimately have "\<exists>b c p. OnReadHttpRequest (snd ?e) buf (rl_cli sample_relay) = Some (no_error, b, c) \<and>
         view b = bytes_of (ReforgeHttpRequest (ce_lib (snd ?e)) None hp) \<and>
         cc_http_pending c = Some p \<and> view p = [7] \<and> \<not> cc_http_is_keep_alive c"
    by (intro keep_alive_data_lost [OF sample_relay_ok(1,3) fields(1-3) sample_relay_ok(4) fields(4), of "[1]" "[2]" ?e,
        THEN conjunct2, THEN conjunct2, rule_format, of buf "replicate 80 0" "[7]" hp])
      (simp_all only: buf same list.distinct length_replicate, simp_all add: SOCKET_BUF_SIZE_def)
  with buf(3) show "\<exists>buf b c p. view buf = replicate 80 0 @ [7] \<and>
     OnReadHttpRequest (sample_cli_env\<lparr>ce_framer := chunked_framer\<rparr>) buf (rl_cli sample_relay) = Some (no_error, b, c) \<and>
     cc_http_pending c = Some p \<and> view p = [7] \<and> \<not> cc_http_is_keep_alive c"
    unfolding snd_conv by blast
qed

end
