(* ===== verification/Server_Relay.thy ===== *)
theory Server_Relay
  imports Client_Relay Socks_Server
begin

text \<open>
  The server connection between its client and the target (\<^verbatim>\<open>server/server_connection.cpp\<close>), in the direction of the
  target: reading and decrypting what the client sends, the loop that writes it to the target, and the callbacks that
  drive the loop. The connection is not an HTTP/2 connection (\<^verbatim>\<open>adapter_\<close> is null). As in \<^verbatim>\<open>Client_Relay\<close>, what the sockets
  and the clock do is given per iteration of the loop.
\<close>

section \<open>State\<close>

text \<open>\<^verbatim>\<open>closing_\<close> and \<^verbatim>\<open>closed_\<close> are set together.\<close>

record ('c, 'm) sconn =
  sc_method :: cipher_method
  sc_state :: srv_state
  sc_closed :: bool
  sc_shutdown :: bool
  sc_request :: ss_request
  sc_handshake :: "growable option"
  sc_http_is_connect :: bool
  sc_upstream :: "growable ioqueue"
  sc_upstream_error :: error_code
  sc_upstream_writable :: bool
  sc_downstream :: "growable ioqueue"
  sc_downstream_error :: error_code
  sc_encoder :: "('c, 'm) cipher option"
  sc_decoder :: "('c, 'm) cipher option"
  sc_channel :: channel_state
  sc_channel_eof :: bool
  sc_channel_read_inprogress :: bool
  sc_channel_write_inprogress :: bool
  sc_read_inprogress :: bool
  sc_write_inprogress :: bool

datatype srv_effect = Srv_closed error_code | Srv_read_handshake | Srv_connect "byte list" u16 | Srv_received "byte list"
  | Srv_to_target "byte list" | Srv_channel_lost error_code | Srv_wait_write | Srv_read_stream bool
  | Srv_from_target "byte list" | Srv_to_client "byte list" | Srv_wait_read bool | Srv_write_stream | Srv_shutdown

type_synonym ('c, 'm) srv_result = "(('c, 'm) sconn \<times> srv_effect list) option"

definition srv_OnDisconnect :: "error_code \<Rightarrow> ('c, 'm) sconn \<Rightarrow> ('c, 'm) sconn \<times> srv_effect list" where
  "srv_OnDisconnect ec s =
     (if sc_closed s then (s, [])
      else (s\<lparr>sc_closed := True, sc_channel := (if sc_channel s = No_channel then No_channel else Channel_closed),
              sc_channel_eof := (sc_channel s \<noteq> No_channel)\<rparr>,
            [Srv_closed (if ec = operation_aborted then no_error else ec)]))"

definition srv_fail :: "error_code \<Rightarrow> ('c, 'm) sconn \<Rightarrow> ('c, 'm) sconn \<times> srv_effect list" where
  "srv_fail ec s = srv_OnDisconnect ec (s\<lparr>sc_state := sv_state_error\<rparr>)"

section \<open>What the decoder delivers\<close>

text \<open>\<^const>\<open>None\<close>: a size that is not an \<^verbatim>\<open>int\<close>.\<close>

definition append_handshake :: "(nat \<Rightarrow> byte) \<Rightarrow> growable \<Rightarrow> growable \<Rightarrow> growable option" where
  "append_handshake uninit previous_chunk buf =
     (let n = RemainingCapacity previous_chunk + buf_size buf in
      if \<not> in_int n then None
      else do { h \<leftarrow> SetCapacity uninit n GrowableIOBuffer;
                xs \<leftarrow> data_slice previous_chunk 0 (nat (RemainingCapacity previous_chunk));
                h \<leftarrow> memcpy_data 0 xs h;
                ys \<leftarrow> data_slice buf 0 (nat (buf_size buf));
                memcpy_data (RemainingCapacity previous_chunk) ys h })"

definition srv_on_received_data :: "(nat \<Rightarrow> byte) \<Rightarrow> growable \<Rightarrow> ('c, 'm) sconn \<Rightarrow> (bool \<times> ('c, 'm) sconn) option" where
  "srv_on_received_data uninit buf s =
     (if sc_state s = sv_state_stream then
        (if iobuf_empty buf then Some (False, s)
         else do { q \<leftarrow> push_back buf (sc_upstream s); Some (True, s\<lparr>sc_upstream := q\<rparr>) })
      else if sc_state s = sv_state_handshake then
        (case sc_handshake s of
           Some h \<Rightarrow> do { h \<leftarrow> append_handshake uninit h buf; Some (True, s\<lparr>sc_handshake := Some h\<rparr>) }
         | None \<Rightarrow> Some (True, s\<lparr>sc_handshake := Some buf\<rparr>))
      else Some (False, s))"

text \<open>The connection as a visitor of its decoder; \<^const>\<open>None\<close> is a fault inside it.\<close>

definition srv_visitor :: "(nat \<Rightarrow> byte) \<Rightarrow> ('c, 'm) srv_result visitor" where
  "srv_visitor uninit =
     \<lparr>on_received_data = (\<lambda>buf x. case x of
          None \<Rightarrow> (False, None)
        | Some (s, es) \<Rightarrow> (case srv_on_received_data uninit buf s of None \<Rightarrow> (False, None) | Some (go, s) \<Rightarrow> (go, Some (s, es)))),
      on_protocol_error = map_option (\<lambda>(s, es). case srv_OnDisconnect connection_aborted s of (s, es1) \<Rightarrow> (s, es @ es1))\<rparr>"

definition srv_decode :: "('c, 'm) cipher_env \<Rightarrow> growable \<Rightarrow> ('c, 'm) sconn \<Rightarrow> ('c, 'm) srv_result" where
  "srv_decode env buf s =
     do { c \<leftarrow> sc_decoder s;
          (c, x) \<leftarrow> process_bytes env (srv_visitor (junk env)) buf c (Some (s, []));
          (s, es) \<leftarrow> x;
          Some (s\<lparr>sc_decoder := Some c\<rparr>, es) }"

section \<open>Data for the target\<close>

definition srv_wait_write :: "('c, 'm) sconn \<Rightarrow> ('c, 'm) srv_result" where
  "srv_wait_write s =
     (if sc_channel s = No_channel then None
      else if sc_channel s \<noteq> Connected then Some (s, [])
      else Some (s\<lparr>sc_channel_write_inprogress := True\<rparr>, [Srv_wait_write]))"

definition srv_OnUpstreamWriteFlush :: "('c, 'm) sconn \<Rightarrow> ('c, 'm) srv_result" where
  "srv_OnUpstreamWriteFlush s =
     (if \<not> ioq_empty (sc_upstream s) \<and> sc_upstream_writable s then srv_wait_write (s\<lparr>sc_upstream_writable := False\<rparr>) else Some (s, []))"

definition srv_OnUpstreamWrite :: "growable \<Rightarrow> ('c, 'm) sconn \<Rightarrow> ('c, 'm) srv_result" where
  "srv_OnUpstreamWrite buf s =
     do { q \<leftarrow> if iobuf_empty buf then Some (sc_upstream s) else push_back buf (sc_upstream s);
          srv_OnUpstreamWriteFlush (s\<lparr>sc_upstream := q\<rparr>) }"

text \<open>The result: the error code and whether there is a buffer (the front of the queue).\<close>

type_synonym ('c, 'm) srv_next = "(error_code \<times> bool \<times> ('c, 'm) sconn \<times> srv_effect list) option"

definition srv_next_out :: "error_code \<Rightarrow> ('c, 'm) sconn \<Rightarrow> srv_effect list \<Rightarrow> ('c, 'm) srv_next" where
  "srv_next_out ec s es =
     (if ioq_empty (sc_upstream s) then Some (if ec = no_error then try_again else ec, False, s, es)
      else Some (ec, True, if ec \<noteq> no_error \<and> \<not> soft ec then s\<lparr>sc_upstream_error := ec\<rparr> else s, es))"

definition srv_take :: "('c, 'm) cipher_env \<Rightarrow> growable \<Rightarrow> ('c, 'm) sconn \<Rightarrow> ('c, 'm) srv_result" where
  "srv_take env buf s =
     (if CIPHER_METHOD_IS_HTTPS (sc_method s) \<or> CIPHER_METHOD_IS_SOCKS (sc_method s)
      then do { q \<leftarrow> push_back buf (sc_upstream s); Some (s\<lparr>sc_upstream := q\<rparr>, []) }
      else srv_decode env buf s)"

definition srv_GetNextUpstreamBuf :: "('c, 'm) cipher_env \<Rightarrow> read_result \<Rightarrow> ('c, 'm) sconn \<Rightarrow> ('c, 'm) srv_next" where
  "srv_GetNextUpstreamBuf env rd s =
     (if \<not> ioq_empty (sc_upstream s) then Some (no_error, True, s, [])
      else if sc_upstream_error s \<noteq> no_error then Some (sc_upstream_error s, False, s, [])
      else if sc_closed s then Some (end_of_file, False, s, [])
      else case rd of
        WouldBlock \<Rightarrow> srv_next_out would_block s []
      | ReadError ec \<Rightarrow> (let (s, es) = (if soft ec \<or> ec = no_error then (s, []) else srv_fail ec s) in srv_next_out ec s es)
      | Data xs \<Rightarrow>
          do { buf \<leftarrow> read_segment (junk env) SOCKET_DEBUF_SIZE xs;
               if xs = [] then srv_next_out no_error s []
               else do { (s, es) \<leftarrow> srv_take env buf s; srv_next_out no_error s (Srv_received xs # es) } })"

datatype ('c, 'm) srv_step =
    Srv_return "('c, 'm) sconn" "srv_effect list"
  | Srv_break bool bool error_code "('c, 'm) sconn" "srv_effect list"
  | Srv_next bool "('c, 'm) sconn" "srv_effect list"

text \<open>Behind the call of \<^verbatim>\<open>write_some()\<close> on the front \<open>b\<close> of the queue. The number of bytes is not counted, so only the
  clock makes the loop yield.\<close>

definition srv_written :: "pipe_io \<Rightarrow> bool \<Rightarrow> growable \<Rightarrow> ('c, 'm) sconn \<Rightarrow> srv_effect list \<Rightarrow> ('c, 'm) srv_step option" where
  "srv_written io again b s es =
     (let (written, ec) = io_write io (nat (buf_size b)) in
      do { xs \<leftarrow> data_slice b 0 written;
           b \<leftarrow> set_offset (offset b + int written) b;
           let s = s\<lparr>sc_upstream := set_front b (sc_upstream s)\<rparr>;
           let es = es @ [Srv_to_target xs] @ (if ec \<noteq> no_error \<and> \<not> soft ec then [Srv_channel_lost ec] else []);
           if soft ec then Some (Srv_break again False ec s es)
           else do {
             s \<leftarrow> if iobuf_empty b then do { q \<leftarrow> pop_front (sc_upstream s); Some (s\<lparr>sc_upstream := q\<rparr>) } else Some s;
             if ec \<noteq> no_error then (let (s, es1) = srv_OnDisconnect ec s in Some (Srv_return s (es @ es1)))
             else if \<not> iobuf_empty b then Some (Srv_break again False try_again s es)
             else if io_late io then
               (if ioq_empty (sc_upstream s) then Some (Srv_break True True no_error s es)
                else Some (Srv_break again False try_again s es))
             else Some (Srv_next again s es) } })"

definition srv_iteration :: "('c, 'm) cipher_env \<Rightarrow> pipe_io \<Rightarrow> bool \<Rightarrow> ('c, 'm) sconn \<Rightarrow> ('c, 'm) srv_step option" where
  "srv_iteration env io again s =
     do { (ec, has_buf, s, es) \<leftarrow> srv_GetNextUpstreamBuf env (io_read io) s;
          b \<leftarrow> if has_buf then Option.bind (front (sc_upstream s)) id else Some GrowableIOBuffer;
          let read = (if has_buf then buf_size b else 0);
          if ec \<noteq> no_error \<and> \<not> soft ec then Some (Srv_return s es)
          else let again1 = (again \<or> soft ec) in
            if read = 0 then Some (Srv_break again1 False no_error s es)
            else if sc_channel s \<noteq> Connected \<or> sc_channel_eof s then Some (Srv_break again1 False try_again s es)
            else srv_written io again1 b s es }"

definition srv_ReadStream :: "bool \<Rightarrow> ('c, 'm) sconn \<Rightarrow> ('c, 'm) sconn \<times> srv_effect list" where
  "srv_ReadStream yield s =
     (if sc_read_inprogress s \<or> sc_closed s then (s, []) else (s\<lparr>sc_read_inprogress := True\<rparr>, [Srv_read_stream yield]))"

definition srv_pipe_end :: "bool \<Rightarrow> bool \<Rightarrow> error_code \<Rightarrow> ('c, 'm) sconn \<Rightarrow> srv_effect list \<Rightarrow> ('c, 'm) srv_result" where
  "srv_pipe_end again yield ec s es =
     (let (s, es1) = (if again \<and> \<not> sc_read_inprogress s then srv_ReadStream yield s else (s, []))
      in do { (s, es2) \<leftarrow> if soft ec then srv_OnUpstreamWriteFlush s else Some (s, []); Some (s, es @ es1 @ es2) })"

partial_function (option) srv_pipe_loop :: "('c, 'm) cipher_env \<Rightarrow> (nat \<Rightarrow> pipe_io) \<Rightarrow> nat \<Rightarrow> bool \<Rightarrow> ('c, 'm) sconn \<Rightarrow> srv_effect list
    \<Rightarrow> ('c, 'm) srv_result" where
  "srv_pipe_loop env io i again s es =
     do { st \<leftarrow> srv_iteration env (io i) again s;
          case st of
            Srv_return s es1 \<Rightarrow> Some (s, es @ es1)
          | Srv_break again yield ec s es1 \<Rightarrow> srv_pipe_end again yield ec s (es @ es1)
          | Srv_next again s es1 \<Rightarrow> srv_pipe_loop env io (Suc i) again s (es @ es1) }"

definition srv_WriteUpstreamInPipe :: "('c, 'm) cipher_env \<Rightarrow> (nat \<Rightarrow> pipe_io) \<Rightarrow> ('c, 'm) sconn \<Rightarrow> ('c, 'm) srv_result" where
  "srv_WriteUpstreamInPipe env io s =
     (if sc_channel s \<noteq> No_channel \<and> sc_channel_write_inprogress s then Some (s, []) else srv_pipe_loop env io 0 False s [])"

definition srv_pipe_and_flush :: "('c, 'm) cipher_env \<Rightarrow> (nat \<Rightarrow> pipe_io) \<Rightarrow> ('c, 'm) sconn \<Rightarrow> ('c, 'm) srv_result" where
  "srv_pipe_and_flush env io s =
     do { (s, es) \<leftarrow> srv_WriteUpstreamInPipe env io s; (s, es1) \<leftarrow> srv_OnUpstreamWriteFlush s; Some (s, es @ es1) }"

text \<open>The callbacks of \<^verbatim>\<open>ReadStream()\<close> and of \<^verbatim>\<open>wait_write()\<close>.\<close>

definition srv_on_readable :: "('c, 'm) cipher_env \<Rightarrow> (nat \<Rightarrow> pipe_io) \<Rightarrow> error_code \<Rightarrow> ('c, 'm) sconn \<Rightarrow> ('c, 'm) srv_result" where
  "srv_on_readable env io ec s =
     (let s = s\<lparr>sc_read_inprogress := False\<rparr> in
      if sc_closed s \<or> ec = bad_descriptor \<or> ec = operation_aborted then Some (s, [])
      else if ec \<noteq> no_error then Some (srv_fail ec s)
      else srv_pipe_and_flush env io s)"

definition srv_on_posted :: "('c, 'm) cipher_env \<Rightarrow> (nat \<Rightarrow> pipe_io) \<Rightarrow> ('c, 'm) sconn \<Rightarrow> ('c, 'm) srv_result" where
  "srv_on_posted env io s =
     (let s = s\<lparr>sc_read_inprogress := False\<rparr> in if sc_closed s then Some (s, []) else srv_pipe_and_flush env io s)"

definition srv_sent :: "('c, 'm) cipher_env \<Rightarrow> (nat \<Rightarrow> pipe_io) \<Rightarrow> ('c, 'm) sconn \<Rightarrow> ('c, 'm) srv_result" where
  "srv_sent env io s = srv_pipe_and_flush env io (s\<lparr>sc_upstream_writable := True\<rparr>)"

end
