(* ===== verification/Secure_Relay.thy ===== *)
theory Secure_Relay
  imports Client_Relay
begin

text \<open>
  The relay with encryption: \<^verbatim>\<open>EncryptData()\<close> of \<^verbatim>\<open>cli/cli_connection.cpp\<close> on top of \<^verbatim>\<open>net/cipher.cpp\<close>, for the AEAD methods. The
  encrypting relay is an instance of the locale \<open>upstream_codec\<close>, so everything shown there of the write loop holds for it
  too, with the frames of the data in place of the data. Together with what is known of the decoder this says what the
  server gets.
\<close>

section \<open>The frames of a piece of data\<close>

function frames :: "byte list \<Rightarrow> byte list list" where
  "frames xs = (if xs = [] then [] else take (nat SS_FRAME_SIZE) xs # frames (drop (nat SS_FRAME_SIZE) xs))"
  by pat_completeness auto
termination
  by (relation "measure length") (auto simp: SS_FRAME_SIZE_def)

declare frames.simps [simp del]

lemma frames_Nil [simp]: "frames [] = []"
  by (simp add: frames.simps)

lemma frames_step: "xs \<noteq> [] \<Longrightarrow> frames xs = take (nat SS_FRAME_SIZE) xs # frames (drop (nat SS_FRAME_SIZE) xs)"
  by (subst frames.simps) simp

lemma concat_frames [simp]: "concat (frames xs) = xs"
  by (induction xs rule: frames.induct) (subst frames.simps, simp)

lemma frames_block_ok: "\<forall>p\<in>set (frames xs). block_ok p"
proof (induction xs rule: frames.induct)
  case (1 xs)
  show ?case
  proof (cases "xs = []")
    case False
    then have "block_ok (take (nat SS_FRAME_SIZE) xs)" by (simp add: block_ok_def SS_FRAME_SIZE_def CHUNK_SIZE_MASK_def)
    with 1 False show ?thesis by (simp add: frames_step)
  qed simp
qed

lemma length_frames: "length xs \<le> k * 16256 \<Longrightarrow> length (frames xs) \<le> k"
proof (induction xs arbitrary: k rule: frames.induct)
  case (1 xs)
  show ?case
  proof (cases "xs = []")
    case False
    with 1(2) obtain j where "k = Suc j" by (cases k) auto
    with 1(1) [OF False, of j] 1(2) False show ?thesis by (simp add: frames_step SS_FRAME_SIZE_def)
  qed simp
qed

lemma length_wire:
  "packet_pair l e d \<Longrightarrow> length (wire l e n ps) = length (concat ps) + length ps * (CHUNK_SIZE_LEN + 2 * auth_tag_size e)"
  by (induction ps arbitrary: n) (simp_all add: length_frame)

section \<open>Encryption of a buffer\<close>

lemma data_slice_at:
  assumes "growable_inv b" "i + n \<le> length (view b)"
  shows "data_slice b (int i) n = Some (take n (drop i (view b)))"
proof -
  have le: "nat (offset b) + (i + n) \<le> nat (capacity b)" "nat (capacity b) \<le> length (mem b)" "0 \<le> offset b"
    using assms length_view [OF assms(1)] by (auto simp: growable_inv_def)
  then have "take n (drop (i + nat (offset b)) (mem b)) = take n (drop i (view b))"
    by (simp add: view_def drop_take take_take min_def)
  then show ?thesis using assms(1) le by (simp add: data_slice_def growable_inv_def mem_slice_def nat_add_distrib add.commute)
qed

lemma encrypt_loop_keyed:
  assumes pair: "packet_pair (lib env) e d" and pt: "growable_inv pt"
  shows "keyed_enc e c \<Longrightarrow> growable_inv ct \<Longrightarrow> k \<le> length (view pt) \<Longrightarrow>
    capacity ct + int (length (wire (lib env) e (counter c) (frames (drop k (view pt))))) \<le> INT_MAX \<Longrightarrow>
    \<exists>ct'. encrypt_loop env vis pt (int k) ct c s =
        Some (ct', c\<lparr>counter := counter c + 2 * of_nat (length (frames (drop k (view pt))))\<rparr>, s) \<and>
      growable_inv ct' \<and> view ct' = view ct @ wire (lib env) e (counter c) (frames (drop k (view pt))) \<and>
      offset ct' = offset ct \<and> capacity ct' = capacity ct + int (length (wire (lib env) e (counter c) (frames (drop k (view pt)))))"
proof (induction "length (view pt) - k" arbitrary: k ct c rule: less_induct)
  case less
  have size: "buf_size pt = int (length (view pt))" by (rule buf_size_view [OF pt])
  show ?case
  proof (cases "k < length (view pt)")
    case False
    then show ?thesis using less.prems size by (subst encrypt_loop.simps) simp
  next
    case True
    define n where "n = min (length (view pt) - k) (nat SS_FRAME_SIZE)"
    define j where "j = k + n"
    define p where "p = take n (drop k (view pt))"
    have n: "nat (min (buf_size pt - int k) SS_FRAME_SIZE) = n" "int k + min (buf_size pt - int k) SS_FRAME_SIZE = int j" "j \<le> length (view pt)" "k < j"
      using True size by (auto simp: SS_FRAME_SIZE_def n_def j_def)
    have fr: "frames (drop k (view pt)) = p # frames (drop j (view pt))"
      using True by (simp add: frames_step p_def j_def n_def min_def add.commute)
    have slice: "data_slice pt (int k) n = Some p" using data_slice_at [OF pt, of k n] n(3) by (simp add: p_def j_def)
    have p: "block_ok p" using frames_block_ok [of "drop k (view pt)"] fr by simp
    have room: "capacity ct + int (length (frame (lib env) e (counter c) p)) \<le> INT_MAX" using less.prems(4) by (simp add: fr)
    obtain ct1 where 1: "encrypt env vis p ct c s = Some (ct1, c\<lparr>counter := counter c + 2\<rparr>, s)" "growable_inv ct1"
        "view ct1 = view ct @ frame (lib env) e (counter c) p" "offset ct1 = offset ct"
        "capacity ct1 = capacity ct + int (length (frame (lib env) e (counter c) p))"
      using encrypt_keyed [OF pair less.prems(1) p less.prems(2) room, of vis s] by blast
    have "keyed_enc e (c\<lparr>counter := counter c + 2\<rparr>)" using less.prems(1) by (simp add: keyed_enc_def is_stream_def)
    moreover have "length (view pt) - j < length (view pt) - k" using n(3,4) by linarith
    moreover have "encrypt_loop env vis pt (int k) ct c s = encrypt_loop env vis pt (int j) ct1 (c\<lparr>counter := counter c + 2\<rparr>) s"
      using True size slice 1(1) n(1,2) by (subst encrypt_loop.simps) simp
    moreover have "capacity ct1 + int (length (wire (lib env) e (counter c + 2) (frames (drop j (view pt))))) \<le> INT_MAX"
      using less.prems(4) 1(5) by (simp add: fr)
    ultimately obtain ct' where 2: "encrypt_loop env vis pt (int k) ct c s =
          Some (ct', c\<lparr>counter := counter c + 2 + 2 * of_nat (length (frames (drop j (view pt))))\<rparr>, s)"
        "growable_inv ct'" "view ct' = view ct1 @ wire (lib env) e (counter c + 2) (frames (drop j (view pt)))" "offset ct' = offset ct1"
        "capacity ct' = capacity ct1 + int (length (wire (lib env) e (counter c + 2) (frames (drop j (view pt)))))"
      using less.hyps [of j "c\<lparr>counter := counter c + 2\<rparr>" ct1] 1(2) n(3) by auto
    have "counter c + 2 + 2 * of_nat (length (frames (drop j (view pt)))) = counter c + 2 * of_nat (length (frames (drop k (view pt))))"
      by (simp add: fr)
    with 2 1(3-5) show ?thesis by (intro exI [of _ ct']) (simp add: fr)
  qed
qed

section \<open>The state of an encoder\<close>

text \<open>Before the first packet an encoder is as the constructor left it; afterwards it has a key and a counter.\<close>

definition aead_env :: "('c, 'm) cipher_env \<Rightarrow> bool" where
  "aead_env env \<longleftrightarrow> aead_lib_ok (lib env) \<and> (\<forall>x. length (sha1 env x) = SHA_DIGEST_LENGTH) \<and> (\<forall>n. length (RandBytes env n) = n)"

definition encoder_at :: "('c, 'm) cipher_env \<Rightarrow> ('c, 'm) crypter \<Rightarrow> byte list \<Rightarrow> u64 option \<Rightarrow> ('c, 'm) cipher \<Rightarrow> bool" where
  "encoder_at env x mk st c \<longleftrightarrow> aead_env env \<and> aead_suite x \<and> (\<exists>d. packet_pair (lib env) (session_key env x mk) d) \<and>
     (case st of None \<Rightarrow> fresh_cipher x mk \<lparr>encrypter = Some x, decrypter = None\<rparr> c
               | Some n \<Rightarrow> keyed_enc (session_key env x mk) c \<and> counter c = n)"

text \<open>The bytes it makes of a piece of data.\<close>

definition cipher_code :: "('c, 'm) cipher_env \<Rightarrow> ('c, 'm) crypter \<Rightarrow> byte list \<Rightarrow> u64 option \<Rightarrow> byte list \<Rightarrow> byte list" where
  "cipher_code env x mk st xs =
     (case st of None \<Rightarrow> RandBytes env (key_size x) @ wire (lib env) (session_key env x mk) 0 (frames xs)
               | Some n \<Rightarrow> wire (lib env) (session_key env x mk) n (frames xs))"

definition cipher_advance :: "u64 option \<Rightarrow> byte list \<Rightarrow> u64 option" where
  "cipher_advance st xs = Some ((case st of None \<Rightarrow> 0 | Some n \<Rightarrow> n) + 2 * of_nat (length (frames xs)))"

lemma length_cipher_code:
  assumes "encoder_at env x mk st c" "int (length xs) \<le> SOCKET_BUF_SIZE"
  shows "int (length (cipher_code env x mk st xs)) \<le> SOCKET_BUF_SIZE + 132"
proof -
  obtain d where pair: "packet_pair (lib env) (session_key env x mk) d" using assms(1) by (auto simp: encoder_at_def)
  have x: "aead_suite x" "\<And>n. length (RandBytes env n) = n" using assms(1) by (auto simp: encoder_at_def aead_env_def)
  have tag: "auth_tag_size (session_key env x mk) \<le> 16"
    using assms(1) session_key_tag(2) [of env x mk] by (auto simp: encoder_at_def aead_env_def)
  have "length (frames xs) \<le> 2" using assms(2) by (intro length_frames) (simp add: SOCKET_BUF_SIZE_def)
  then have "length (frames xs) * (CHUNK_SIZE_LEN + 2 * auth_tag_size (session_key env x mk)) \<le> 2 * 34"
    using tag by (intro mult_le_mono) (simp_all add: CHUNK_SIZE_LEN_def)
  moreover have "key_size x \<le> 64" using x(1) by (simp add: aead_suite_def crypter_inv_def kMaxKeySize_def)
  moreover have "length (wire (lib env) (session_key env x mk) n (frames xs)) =
      length xs + length (frames xs) * (CHUNK_SIZE_LEN + 2 * auth_tag_size (session_key env x mk))" for n
    by (simp add: length_wire [OF pair])
  ultimately have "length (cipher_code env x mk st xs) \<le> 64 + (length xs + 2 * 34)"
    using x(2) by (cases st) (simp_all add: cipher_code_def)
  then show ?thesis using assms(2) by simp
qed

lemma encrypt_loop_ok:
  assumes "encoder_at env x mk st c" "growable_inv pt" "view pt \<noteq> [] \<or> st \<noteq> None" "growable_inv ct"
    and "capacity ct + int (length (cipher_code env x mk st (view pt))) \<le> INT_MAX"
  shows "\<exists>ct' c'. encrypt_loop env vis pt 0 ct c s = Some (ct', c', s) \<and> encoder_at env x mk (cipher_advance st (view pt)) c' \<and>
    growable_inv ct' \<and> view ct' = view ct @ cipher_code env x mk st (view pt) \<and> offset ct' = offset ct \<and>
    capacity ct' = capacity ct + int (length (cipher_code env x mk st (view pt)))"
proof -
  let ?e = "session_key env x mk" and ?fs = "frames (view pt)"
  obtain d where pair: "packet_pair (lib env) ?e d" using assms(1) by (auto simp: encoder_at_def)
  have env: "aead_lib_ok (lib env)" "\<And>x. length (sha1 env x) = SHA_DIGEST_LENGTH" "\<And>n. length (RandBytes env n) = n"
    using assms(1) by (auto simp: encoder_at_def aead_env_def)
  have keyed: "\<exists>ct' c'. encrypt_loop env vis pt 0 ct1 c1 s = Some (ct', c', s) \<and> encoder_at env x mk (Some (counter c1 + 2 * of_nat (length ?fs))) c' \<and>
      growable_inv ct' \<and> view ct' = view ct1 @ wire (lib env) ?e (counter c1) ?fs \<and> offset ct' = offset ct1 \<and>
      capacity ct' = capacity ct1 + int (length (wire (lib env) ?e (counter c1) ?fs))"
    if "keyed_enc ?e c1" "growable_inv ct1" "capacity ct1 + int (length (wire (lib env) ?e (counter c1) ?fs)) \<le> INT_MAX" for c1 ct1
    using encrypt_loop_keyed [OF pair assms(2) that(1,2), of 0 vis s] that(1,3) assms(1)
    by (auto simp: encoder_at_def keyed_enc_def is_stream_def)
  show ?thesis
  proof (cases st)
    case (Some n)
    then have "keyed_enc ?e c" "counter c = n" using assms(1) by (auto simp: encoder_at_def)
    with keyed [of c ct] assms(4,5) Some show ?thesis by (simp add: cipher_code_def cipher_advance_def)
  next
    case None
    then have c: "fresh_cipher x mk \<lparr>encrypter = Some x, decrypter = None\<rparr> c" "view pt \<noteq> []" using assms(1,3) by (simp_all add: encoder_at_def)
    define p where "p = take (nat (min (buf_size pt) SS_FRAME_SIZE)) (view pt)"
    have len: "length (cipher_code env x mk st (view pt)) = key_size x + length (wire (lib env) ?e 0 ?fs)"
      using None env(3) by (simp add: cipher_code_def)
    then have room: "capacity ct + int (key_size x) \<le> INT_MAX" using assms(5) by simp
    obtain ct0 c1 where 1: "encrypt env vis p ct c s = encrypt env vis p ct0 c1 s" "keyed_enc ?e c1" "counter c1 = 0" "growable_inv ct0"
        "view ct0 = view ct @ RandBytes env (key_size x)" "offset ct0 = offset ct" "capacity ct0 = capacity ct + int (key_size x)"
      using encrypt_fresh [OF env c(1) assms(4) room, of vis p s] by blast
    have "data_slice pt 0 (nat (min (buf_size pt) SS_FRAME_SIZE)) = Some p"
      using data_slice_view [OF assms(2)] buf_size_view [OF assms(2)] by (simp add: p_def)
    then have "encrypt_loop env vis pt 0 ct c s = encrypt_loop env vis pt 0 ct0 c1 s"
      using 1(1) c(2) buf_size_view [OF assms(2)] by (subst (1 2) encrypt_loop.simps) simp
    with keyed [OF 1(2,4)] 1(3,5-7) None len assms(5) show ?thesis by (auto simp: cipher_code_def cipher_advance_def)
  qed
qed

lemma EncryptData_ok:
  assumes "encoder_at env x mk st c" "growable_inv pt" "view pt \<noteq> [] \<or> st \<noteq> None" "ioq_rep dql q bs" "\<forall>b\<in>set bs. growable_inv b"
    and "(if bs = [] then 0 else capacity (last bs)) + int (length (cipher_code env x mk st (view pt))) \<le> INT_MAX"
  shows "\<exists>q' b c'. EncryptData env vis q pt c s = Some (q', c', s) \<and> encoder_at env x mk (cipher_advance st (view pt)) c' \<and>
    ioq_rep dql q' (butlast bs @ [b]) \<and> growable_inv b \<and>
    view b = (if bs = [] then [] else view (last bs)) @ cipher_code env x mk st (view pt) \<and>
    capacity b = (if bs = [] then 0 else capacity (last bs)) + int (length (cipher_code env x mk st (view pt)))"
proof (cases "bs = []")
  case True
  obtain q1 where q1: "push_back GrowableIOBuffer q = Some q1" "ioq_rep dql q1 [GrowableIOBuffer]"
    using push_back_rep [OF assms(4)] True by fastforce
  obtain b c' where b: "encrypt_loop env vis pt 0 GrowableIOBuffer c s = Some (b, c', s)" "encoder_at env x mk (cipher_advance st (view pt)) c'"
      "growable_inv b" "view b = cipher_code env x mk st (view pt)" "capacity b = int (length (cipher_code env x mk st (view pt)))"
    using encrypt_loop_ok [OF assms(1-3) new_buffer(1), of vis s] assms(6) True by auto
  have "ioq_rep dql (set_back b q1) [b]" using set_back_rep [of dql q1 "[]"] q1(2) by simp
  moreover have "ioq_empty q" using empty_rep [OF assms(4)] True by simp
  ultimately show ?thesis using True q1(1) b by (intro exI [of _ "set_back b q1"] exI [of _ b] exI [of _ c']) (simp add: EncryptData_def)
next
  case False
  obtain b c' where b: "encrypt_loop env vis pt 0 (last bs) c s = Some (b, c', s)" "encoder_at env x mk (cipher_advance st (view pt)) c'"
      "growable_inv b" "view b = view (last bs) @ cipher_code env x mk st (view pt)"
      "capacity b = capacity (last bs) + int (length (cipher_code env x mk st (view pt)))"
    using encrypt_loop_ok [OF assms(1-3), of "last bs" vis s] assms(5,6) False by auto
  have "ioq_rep dql (set_back b q) (butlast bs @ [b])" using set_back_rep [of dql q "butlast bs" "last bs"] assms(4) False by simp
  moreover have "\<not> ioq_empty q" "ioq_back q = Some (Some (last bs))" using empty_rep [OF assms(4)] back_rep [OF assms(4)] False by simp_all
  ultimately show ?thesis using False b by (intro exI [of _ "set_back b q"] exI [of _ b] exI [of _ c']) (simp add: EncryptData_def)
qed

section \<open>The encrypting relay\<close>

definition relays_secure :: "('c, 'm) cipher_env \<Rightarrow> ('c, 'm) crypter \<Rightarrow> byte list \<Rightarrow> cipher_method \<Rightarrow> ('c, 'm) cipher option \<Rightarrow> u64 option \<Rightarrow> bool" where
  "relays_secure env x mk m e st \<longleftrightarrow> \<not> relays_plain m \<and> (\<exists>c. e = Some c \<and> encoder_at env x mk st c)"

lemma cipher_code_nonempty:
  assumes "encoder_at env x mk st c" "xs \<noteq> []"
  shows "cipher_code env x mk st xs \<noteq> []"
proof -
  obtain d where "packet_pair (lib env) (session_key env x mk) d" using assms(1) by (auto simp: encoder_at_def)
  from length_wire [OF this, of _ "frames xs"] have "length xs \<le> length (wire (lib env) (session_key env x mk) n (frames xs))" for n by simp
  then have "wire (lib env) (session_key env x mk) n (frames xs) \<noteq> []" for n using assms(2) by (metis length_greater_0_conv not_less_zero le_zero_eq length_0_conv)
  then show ?thesis by (cases st) (simp_all add: cipher_code_def)
qed

lemma queue_upstream_secure:
  assumes "relay_ok r" "waiting r = []" "relays_secure (fst env) x mk (cc_method (rl_cli r)) (rl_encoder r) st"
    and "growable_inv b" "view b \<noteq> []" "int (length (view b)) \<le> SOCKET_BUF_SIZE"
  shows "\<exists>q e. queue_upstream env b r = Some (r\<lparr>rl_upstream := q, rl_encoder := e\<rparr>, []) \<and> relay_ok (r\<lparr>rl_upstream := q\<rparr>) \<and>
    waiting (r\<lparr>rl_upstream := q\<rparr>) = [cipher_code (fst env) x mk st (view b)] \<and>
    relays_secure (fst env) x mk (cc_method (rl_cli r)) e (cipher_advance st (view b)) \<and>
    int (length (cipher_code (fst env) x mk st (view b))) \<le> SOCKET_BUF_SIZE + 132"
proof -
  obtain c where c: "rl_encoder r = Some c" "encoder_at (fst env) x mk st c" "\<not> relays_plain (cc_method (rl_cli r))"
    using assms(3) by (auto simp: relays_secure_def)
  have q: "ioq_rep 16 (rl_upstream r) []" using waiting_rep [OF assms(1)] assms(2) by auto
  note len = length_cipher_code [OF c(2) assms(6)]
  have "int (length (cipher_code (fst env) x mk st (view b))) \<le> INT_MAX" using len by (simp add: SOCKET_BUF_SIZE_def INT_MAX_def)
  then obtain q' b' c' where e: "EncryptData (fst env) encoder_visitor (rl_upstream r) b c [] = Some (q', c', [])"
      "encoder_at (fst env) x mk (cipher_advance st (view b)) c'" "ioq_rep 16 q' [b']" "growable_inv b'"
      "view b' = cipher_code (fst env) x mk st (view b)"
    using EncryptData_ok [OF c(2) assms(4) _ q, of encoder_visitor "[]"] assms(5) by auto
  have "relay_ok (r\<lparr>rl_upstream := q'\<rparr>) \<and> waiting (r\<lparr>rl_upstream := q'\<rparr>) = map view [b']"
    using e(3-5) cipher_code_nonempty [OF c(2) assms(5)] by (intro relay_okI) simp_all
  moreover have "queue_upstream env b r = Some (r\<lparr>rl_upstream := q', rl_encoder := Some c'\<rparr>, [])"
    using c(1,3) e(1) by (simp add: queue_upstream_def relays_plain_def)
  ultimately show ?thesis using e(2,5) c(3) len by (auto simp: relays_secure_def)
qed

interpretation secure: upstream_codec env "relays_secure (fst env) x mk" "cipher_code (fst env) x mk" cipher_advance "SOCKET_BUF_SIZE + 132"
  by unfold_locales (use queue_upstream_secure in \<open>blast, simp\<close>)

text \<open>The stream as a whole: the salt, then the frames of everything that was read.\<close>

lemma coded_secure_keyed: "coded (cipher_code env x mk) cipher_advance (Some n) xss = wire (lib env) (session_key env x mk) n (concat (map frames xss))"
  by (induction xss arbitrary: n) (simp_all add: cipher_code_def cipher_advance_def wire_append)

lemma coded_secure:
  "xss \<noteq> [] \<Longrightarrow> coded (cipher_code env x mk) cipher_advance None xss =
     RandBytes env (key_size x) @ wire (lib env) (session_key env x mk) 0 (concat (map frames xss))"
  by (cases xss) (simp_all add: cipher_code_def cipher_advance_def wire_append coded_secure_keyed)

end
