(* ===== verification/Client_Connected.thy ===== *)
theory Client_Connected
  imports Secure_Relay
begin

text \<open>
  What a client connection does when its upstream is established: \<^verbatim>\<open>connected()\<close> of \<^verbatim>\<open>cli/cli_connection.cpp\<close>, for an HTTPS
  upstream and for an encrypting one. It creates the ciphers, queues the request for the upstream, replays the data that
  arrived in the meantime, and starts the relay. (The requests to a SOCKS upstream are in \<^verbatim>\<open>Socks_Upstream\<close>; an HTTP/2
  upstream is not modelled.) The last section composes the client with the decoder of the server.
\<close>

section \<open>The request to an HTTPS upstream\<close>

fun decimal :: "nat \<Rightarrow> string" where
  "decimal n = (if n < 10 then [char_of (48 + n)] else decimal (n div 10) @ [char_of (48 + n mod 10)])"

definition hostname_and_port :: "cli_env \<Rightarrow> ss_request \<Rightarrow> byte list option" where
  "hostname_and_port env req =
     do { (host, port) \<leftarrow> (if ss_address_type req = atyp_domain then do { p \<leftarrow> ss_port req; Some (ss_domain_name (ce_to_string env) req, p) }
                          else do { (addr, p) \<leftarrow> ss_endpoint req; Some (ce_to_string env addr, p) });
          let port_str = bytes_of (decimal (unat port));
          Some (case ce_make_address env host of
                  Some (AddressV6 _) \<Rightarrow> bytes_of ''['' @ host @ bytes_of '']'' @ bytes_of '':'' @ port_str
                | _ \<Rightarrow> host @ bytes_of '':'' @ port_str) }"

definition connect_header :: "cli_env \<Rightarrow> byte list \<Rightarrow> byte list \<Rightarrow> ss_request \<Rightarrow> byte list option" where
  "connect_header env user pass req =
     do { hp \<leftarrow> hostname_and_port env req;
          let auth_required = (user \<noteq> [] \<and> pass \<noteq> []);
          identity \<leftarrow> GetProxyAuthorizationIdentity user pass;
          Some (bytes_of ''CONNECT '' @ hp @ bytes_of ('' HTTP/1.1'' @ crlf) @ bytes_of ''Host: '' @ hp @ bytes_of crlf @
                (if auth_required then bytes_of ''Proxy-Authorization: basic '' @ identity @ bytes_of crlf else []) @
                bytes_of (''Proxy-Connection: Close'' @ crlf @ crlf)) }"

section \<open>Established\<close>

definition make_ciphers :: "('c, 'm) relay_env \<Rightarrow> byte list \<Rightarrow> ('c, 'm) relay \<Rightarrow> ('c, 'm) relay option" where
  "make_ciphers env pass r =
     (let m = cc_method (rl_cli r) in
      if CIPHER_METHOD_IS_HTTPS m \<or> CIPHER_METHOD_IS_SOCKS m then Some r
      else do { e \<leftarrow> new_cipher (fst env) [] pass m True;
                d \<leftarrow> new_cipher (fst env) [] pass m False;
                Some (r\<lparr>rl_encoder := Some e, rl_decoder := Some d\<rparr>) })"

definition queue_request :: "('c, 'm) relay_env \<Rightarrow> byte list \<Rightarrow> byte list \<Rightarrow> ('c, 'm) relay \<Rightarrow> (('c, 'm) relay \<times> relay_effect list) option" where
  "queue_request env user pass r =
     (if CIPHER_METHOD_IS_HTTPS (cc_method (rl_cli r)) then do {
        hdr \<leftarrow> connect_header (snd env) user pass (cc_request (rl_cli r));
        q \<leftarrow> push_back_bytes (ce_junk (snd env)) hdr (rl_upstream r);
        Some (r\<lparr>rl_upstream := q\<rparr>, []) }
      else do {
        xs \<leftarrow> mem_slice (cc_request (rl_cli r)) 0 (ss_length (cc_request (rl_cli r)));
        buf \<leftarrow> copyBuffer (ce_junk (snd env)) xs;
        c \<leftarrow> rl_encoder r;
        (q, c, es) \<leftarrow> EncryptData (fst env) encoder_visitor (rl_upstream r) buf c [];
        Some (r\<lparr>rl_upstream := q, rl_encoder := Some c\<rparr>, es) })"

partial_function (option) replay :: "('c, 'm) relay_env \<Rightarrow> growable ioqueue \<Rightarrow> ('c, 'm) relay \<Rightarrow> relay_effect list
    \<Rightarrow> (('c, 'm) relay \<times> relay_effect list) option" where
  "replay env q r es =
     (if ioq_empty q then Some (r, es)
      else do {
        buf \<leftarrow> Option.bind (front q) id;
        q \<leftarrow> pop_front q;
        (r, es1) \<leftarrow> relay_OnStreamRead env buf r;
        replay env q r (es @ es1) })"

definition replay_pending :: "('c, 'm) relay_env \<Rightarrow> (nat \<Rightarrow> pipe_io) \<Rightarrow> ('c, 'm) relay \<Rightarrow> (('c, 'm) relay \<times> relay_effect list) option" where
  "replay_pending env io r =
     (if ioq_empty (cc_pending (rl_cli r)) then Some (r, [])
      else do {
        let (q, c) = take_pending (rl_cli r);
        (r, es) \<leftarrow> replay env q (r\<lparr>rl_cli := c\<rparr>) [];
        (r, es1) \<leftarrow> WriteUpstreamInPipe env io r;
        Some (r, es @ es1) })"

text \<open>The sockets of the first and of the second call of \<^verbatim>\<open>WriteUpstreamInPipe()\<close> are \<open>io\<close> and \<open>io'\<close>.\<close>

definition connected :: "('c, 'm) relay_env \<Rightarrow> (nat \<Rightarrow> pipe_io) \<Rightarrow> (nat \<Rightarrow> pipe_io) \<Rightarrow> NextProto \<Rightarrow> byte list \<Rightarrow> byte list
    \<Rightarrow> ('c, 'm) relay \<Rightarrow> (('c, 'm) relay \<times> relay_effect list) option" where
  "connected env io io' negotiated user pass r =
     do { let r = (if negotiated = kProtoHTTP11 then r\<lparr>rl_cli := (rl_cli r)\<lparr>cc_method := CRYPTO_HTTPS\<rparr>\<rparr> else r);
          r \<leftarrow> make_ciphers env pass r;
          (r, es) \<leftarrow> queue_request env user pass r;
          (r, es1) \<leftarrow> replay_pending env io r;
          (r, es2) \<leftarrow> pipe_and_flush env io' (r\<lparr>rl_upstream_writable := True\<rparr>);
          Some (r, es @ es1 @ [Read_upstream] @ es2) }"

section \<open>The data that was waiting\<close>

lemma relay_OnStreamRead_secure:
  assumes "ioq_rep 16 (rl_upstream r) [b0]" "growable_inv b0" "cc_channel (rl_cli r) = Connected" "\<not> rl_upstream_writable r"
    and "\<not> relays_plain (cc_method (rl_cli r))" "rl_encoder r = Some c" "encoder_at (fst env) x mk (Some n) c" "growable_inv b"
    and "capacity b0 + int (length (wire (lib (fst env)) (session_key (fst env) x mk) n (frames (view b)))) \<le> INT_MAX"
  shows "\<exists>q b1 c'. relay_OnStreamRead env b r = Some (r\<lparr>rl_upstream := q, rl_encoder := Some c'\<rparr>, []) \<and> ioq_rep 16 q [b1] \<and> growable_inv b1 \<and>
    view b1 = view b0 @ wire (lib (fst env)) (session_key (fst env) x mk) n (frames (view b)) \<and>
    capacity b1 = capacity b0 + int (length (wire (lib (fst env)) (session_key (fst env) x mk) n (frames (view b)))) \<and>
    encoder_at (fst env) x mk (Some (n + 2 * of_nat (length (frames (view b))))) c'"
proof -
  obtain q b1 c' where q: "EncryptData (fst env) encoder_visitor (rl_upstream r) b c [] = Some (q, c', [])" "ioq_rep 16 q [b1]" "growable_inv b1"
      "view b1 = view b0 @ wire (lib (fst env)) (session_key (fst env) x mk) n (frames (view b))"
      "capacity b1 = capacity b0 + int (length (wire (lib (fst env)) (session_key (fst env) x mk) n (frames (view b))))"
      "encoder_at (fst env) x mk (Some (n + 2 * of_nat (length (frames (view b))))) c'"
    using EncryptData_ok [OF assms(7,8) _ assms(1), of encoder_visitor "[]"] assms(2,9)
    by (auto simp: cipher_code_def cipher_advance_def)
  then have "relay_OnStreamRead env b r = Some (r\<lparr>rl_upstream := q, rl_encoder := Some c'\<rparr>, [])"
    using assms(3-6) by (simp add: relay_OnStreamRead_def queue_upstream_def relays_plain_def OnUpstreamWriteFlush_def)
  with q show ?thesis by blast
qed

lemma replay_secure:
  assumes "encoder_at (fst env) x mk (Some n) c"
  shows "ioq_rep 4 q bs \<Longrightarrow> \<forall>b\<in>set bs. growable_inv b \<Longrightarrow> ioq_rep 16 (rl_upstream r) [b0] \<Longrightarrow> growable_inv b0 \<Longrightarrow>
    cc_channel (rl_cli r) = Connected \<Longrightarrow> \<not> rl_upstream_writable r \<Longrightarrow> \<not> relays_plain (cc_method (rl_cli r)) \<Longrightarrow> rl_encoder r = Some c \<Longrightarrow>
    capacity b0 + int (length (wire (lib (fst env)) (session_key (fst env) x mk) n (concat (map (\<lambda>b. frames (view b)) bs)))) \<le> INT_MAX \<Longrightarrow>
    \<exists>q' b1 c'. replay env q r es = Some (r\<lparr>rl_upstream := q', rl_encoder := Some c'\<rparr>, es) \<and> ioq_rep 16 q' [b1] \<and> growable_inv b1 \<and>
      view b1 = view b0 @ wire (lib (fst env)) (session_key (fst env) x mk) n (concat (map (\<lambda>b. frames (view b)) bs)) \<and>
      encoder_at (fst env) x mk (Some (n + 2 * of_nat (length (concat (map (\<lambda>b. frames (view b)) bs))))) c'"
  using assms
proof (induction bs arbitrary: q r b0 n c)
  case Nil
  then have "r\<lparr>rl_upstream := rl_upstream r, rl_encoder := Some c\<rparr> = r" "ioq_empty q" using empty_rep by auto
  with Nil show ?case by (subst replay.simps) (intro exI [of _ "rl_upstream r"] exI [of _ b0] exI [of _ c], simp)
next
  case (Cons b bs)
  let ?w = "wire (lib (fst env)) (session_key (fst env) x mk)"
  obtain q1 where q1: "pop_front q = Some q1" "ioq_rep 4 q1 bs" using pop_front_rep [OF Cons.prems(1)] by blast
  have f: "front q = Some (Some b)" "\<not> ioq_empty q" using front_rep [OF Cons.prems(1)] empty_rep [OF Cons.prems(1)] by simp_all
  have room: "capacity b0 + int (length (?w n (frames (view b)))) \<le> INT_MAX" using Cons.prems(9) by (simp add: wire_append)
  obtain q2 b1 c1 where 1: "relay_OnStreamRead env b r = Some (r\<lparr>rl_upstream := q2, rl_encoder := Some c1\<rparr>, [])" "ioq_rep 16 q2 [b1]" "growable_inv b1"
      "view b1 = view b0 @ ?w n (frames (view b))" "capacity b1 = capacity b0 + int (length (?w n (frames (view b))))"
      "encoder_at (fst env) x mk (Some (n + 2 * of_nat (length (frames (view b))))) c1"
    using relay_OnStreamRead_secure [OF Cons.prems(3-8,10) _ room] Cons.prems(2) by auto
  let ?r = "r\<lparr>rl_upstream := q2, rl_encoder := Some c1\<rparr>" and ?n = "n + 2 * of_nat (length (frames (view b)))"
  have "\<exists>q' b' c'. replay env q1 ?r es = Some (?r\<lparr>rl_upstream := q', rl_encoder := Some c'\<rparr>, es) \<and> ioq_rep 16 q' [b'] \<and> growable_inv b' \<and>
      view b' = view b1 @ ?w ?n (concat (map (\<lambda>b. frames (view b)) bs)) \<and>
      encoder_at (fst env) x mk (Some (?n + 2 * of_nat (length (concat (map (\<lambda>b. frames (view b)) bs))))) c'"
    by (rule Cons.IH [OF q1(2) _ _ 1(3) _ _ _ _ _ 1(6)]) (use Cons.prems 1(2,5) in \<open>simp_all add: wire_append\<close>)
  then obtain q' b' c' where 2: "replay env q1 ?r es = Some (?r\<lparr>rl_upstream := q', rl_encoder := Some c'\<rparr>, es)" "ioq_rep 16 q' [b']" "growable_inv b'"
      "view b' = view b1 @ ?w ?n (concat (map (\<lambda>b. frames (view b)) bs))"
      "encoder_at (fst env) x mk (Some (?n + 2 * of_nat (length (concat (map (\<lambda>b. frames (view b)) bs))))) c'" by blast
  have "replay env q r es = Some (r\<lparr>rl_upstream := q', rl_encoder := Some c'\<rparr>, es)"
    using f q1(1) 1(1) 2(1) by (subst replay.simps) simp
  with 2(2-5) 1(4) show ?case by (intro exI [of _ q'] exI [of _ b'] exI [of _ c']) (simp add: wire_append algebra_simps)
qed

section \<open>Starting the relay\<close>

lemma take_pending_rep:
  assumes "ioq_rep 4 (cc_pending c) bs" "take_pending c = (q, c')"
  shows "ioq_rep 4 q bs" "c' = c\<lparr>cc_pending := IoQueue 4\<rparr>"
  using assms by (auto simp: take_pending_def IoQueue_move_def IoQueue_def Let_def ioq_rep_def)

lemma length_wire_frames:
  assumes "packet_pair l e d" "auth_tag_size e \<le> 16"
  shows "length (wire l e n (concat (map frames xss))) \<le> 35 * length (concat xss)"
proof -
  have "length (frames xs) \<le> length xs" for xs by (rule length_frames) simp
  then have "length (concat (map frames xss)) \<le> length (concat xss)" by (induction xss) (auto intro: add_mono)
  then have "length (concat (map frames xss)) * (CHUNK_SIZE_LEN + 2 * auth_tag_size e) \<le> length (concat xss) * 34"
    using assms(2) by (intro mult_le_mono) (simp_all add: CHUNK_SIZE_LEN_def)
  moreover have "concat (concat (map frames xss)) = concat xss" by (induction xss) simp_all
  ultimately show ?thesis by (simp add: length_wire [OF assms(1)])
qed

text \<open>The request and what was waiting are in the queue, encrypted.\<close>

lemma queue_request_secure:
  assumes "ioq_rep 16 (rl_upstream r) []" "\<not> relays_plain (cc_method (rl_cli r))" "rl_encoder r = Some c" "encoder_at (fst env) x mk None c"
    and "cc_request (rl_cli r) = ss_enc (t, p) @ zs" "target_wf t"
  defines "hdr \<equiv> ss_enc (t, p)"
  shows "\<exists>q b c'. queue_request env user pass r = Some (r\<lparr>rl_upstream := q, rl_encoder := Some c'\<rparr>, []) \<and> ioq_rep 16 q [b] \<and> growable_inv b \<and>
    view b = cipher_code (fst env) x mk None hdr \<and> capacity b = int (length (view b)) \<and> length hdr \<le> 259 \<and> hdr \<noteq> [] \<and>
    encoder_at (fst env) x mk (cipher_advance None hdr) c'"
proof -
  have len: "length hdr \<le> 259" "hdr \<noteq> []" using assms(6) by (cases t rule: target_enc.cases; simp add: hdr_def ss_enc_def)+
  have slice: "mem_slice (cc_request (rl_cli r)) 0 (ss_length (cc_request (rl_cli r))) = Some hdr"
    using assms(5) ss_message_enc(2) [OF assms(6), of p zs] by (simp add: hdr_def mem_slice_def)
  obtain buf where buf: "copyBuffer (ce_junk (snd env)) hdr = Some buf" "growable_inv buf" "view buf = hdr"
    using copyBuffer_ok [of hdr "ce_junk (snd env)"] len(1) by (auto simp: INT_MAX_def)
  have "int (length (cipher_code (fst env) x mk None hdr)) \<le> INT_MAX"
    using length_cipher_code [OF assms(4), of hdr] len(1) by (simp add: SOCKET_BUF_SIZE_def INT_MAX_def)
  then obtain q b c' where q: "EncryptData (fst env) encoder_visitor (rl_upstream r) buf c [] = Some (q, c', [])" "ioq_rep 16 q [b]" "growable_inv b"
      "view b = cipher_code (fst env) x mk None hdr" "capacity b = int (length (view b))" "encoder_at (fst env) x mk (cipher_advance None hdr) c'"
    using EncryptData_ok [OF assms(4) buf(2) _ assms(1), of encoder_visitor "[]"] buf(3) len(2) by auto
  have "\<not> CIPHER_METHOD_IS_HTTPS (cc_method (rl_cli r))" using assms(2) by (simp add: relays_plain_def)
  then have "queue_request env user pass r = Some (r\<lparr>rl_upstream := q, rl_encoder := Some c'\<rparr>, [])"
    using slice buf(1) assms(3) q(1) by (simp add: queue_request_def)
  with q len show ?thesis by blast
qed

lemma secure_flow_start:
  assumes "ioq_rep 16 (rl_upstream r) [b]" "growable_inv b" "view b \<noteq> []" "\<not> relays_plain (cc_method (rl_cli r))"
    and "rl_encoder r = Some c" "encoder_at (fst env) x mk st c" "int (length (view b)) \<le> M"
  shows "secure.flow env x mk r st M r []" "waiting r = [view b]" "relay_ok r"
  using relay_okI [OF assms(1)] assms by (simp_all add: secure.flow_def relays_secure_def)

lemma replay_pending_secure:
  assumes "ioq_rep 16 (rl_upstream r) [b]" "growable_inv b" "view b \<noteq> []" "capacity b + 35 * int kMaxHeaderSize \<le> INT_MAX"
    and "\<not> relays_plain (cc_method (rl_cli r))" "rl_encoder r = Some c" "encoder_at (fst env) x mk (Some n) c"
    and "open_relay r" "pending_ok (rl_cli r)" "\<not> rl_upstream_writable r" "\<not> rl_channel_write_inprogress r" "\<forall>i. io_ok (io i)"
  defines "fs \<equiv> concat (map frames (queued (rl_cli r)))"
  shows "\<exists>r' es r0 M. replay_pending env io r = Some (r', es) \<and> SOCKET_BUF_SIZE + 132 \<le> M \<and>
    secure.flow env x mk r0 (Some (n + 2 * of_nat (length fs))) M r' es \<and> still_open r' \<and> \<not> rl_channel_write_inprogress r' \<and>
    concat (waiting r0) = view b @ wire (lib (fst env)) (session_key (fst env) x mk) n fs"
proof -
  let ?w = "wire (lib (fst env)) (session_key (fst env) x mk)"
  obtain bs where bs: "ioq_rep 4 (cc_pending (rl_cli r)) bs" "queued (rl_cli r) = map view bs" "\<forall>b\<in>set bs. growable_inv b"
      "length (concat (map view bs)) \<le> kMaxHeaderSize"
    using assms(9) by (auto simp: pending_ok_def ioq_inv_def queued_def)
  have fs: "fs = concat (map (\<lambda>b. frames (view b)) bs)" by (simp add: fs_def bs(2) comp_def)
  show ?thesis
  proof (cases "bs = []")
    case True
    define M where "M = max (SOCKET_BUF_SIZE + 132) (int (length (view b)))"
    have "replay_pending env io r = Some (r, [])" using True empty_rep [OF bs(1)] by (simp add: replay_pending_def)
    moreover have "still_open r" using assms(8) by (simp add: still_open_def)
    ultimately show ?thesis using secure_flow_start [OF assms(1-3,5-7), of M] assms(11) True fs
      by (intro exI [of _ r] exI [of _ "[]"] exI [of _ M]) (simp add: M_def)
  next
    case False
    obtain q c0 where tp: "take_pending (rl_cli r) = (q, c0)" by fastforce
    note tq = take_pending_rep [OF bs(1) tp]
    define r1 where "r1 = r\<lparr>rl_cli := c0\<rparr>"
    have r1: "ioq_rep 16 (rl_upstream r1) [b]" "cc_channel (rl_cli r1) = Connected" "\<not> rl_upstream_writable r1" "\<not> relays_plain (cc_method (rl_cli r1))"
        "rl_encoder r1 = Some c"
      using assms(1,5,6,8,10) tq(2) by (simp_all add: r1_def open_relay_def)
    obtain d where pair: "packet_pair (lib (fst env)) (session_key (fst env) x mk) d" using assms(7) by (auto simp: encoder_at_def)
    have tag: "auth_tag_size (session_key (fst env) x mk) \<le> 16"
      using assms(7) session_key_tag(2) [of "fst env" x mk] by (auto simp: encoder_at_def aead_env_def)
    have "int (length (?w n fs)) \<le> 35 * int kMaxHeaderSize"
      using length_wire_frames [OF pair tag, of n "map view bs"] bs(4) fs by (simp add: comp_def)
    then have room: "capacity b + int (length (?w n (concat (map (\<lambda>b. frames (view b)) bs)))) \<le> INT_MAX" using assms(4) fs by simp
    obtain q' b1 c' where rp: "replay env q r1 [] = Some (r1\<lparr>rl_upstream := q', rl_encoder := Some c'\<rparr>, [])" "ioq_rep 16 q' [b1]" "growable_inv b1"
        "view b1 = view b @ ?w n fs" "encoder_at (fst env) x mk (Some (n + 2 * of_nat (length fs))) c'"
      using replay_secure [OF assms(7) tq(1) bs(3) r1(1) assms(2) r1(2-5) room, of "[]"] fs by blast
    define r2 where "r2 = r1\<lparr>rl_upstream := q', rl_encoder := Some c'\<rparr>"
    define M where "M = max (SOCKET_BUF_SIZE + 132) (int (length (view b1)))"
    have r2: "ioq_rep 16 (rl_upstream r2) [b1]" "\<not> relays_plain (cc_method (rl_cli r2))" "rl_encoder r2 = Some c'" "open_relay r2"
        "\<not> rl_channel_write_inprogress r2" "\<not> rl_upstream_writable r2"
      using rp(2) r1(3,4) assms(8,11) tq(2) by (simp_all add: r2_def r1_def open_relay_def)
    have "view b1 \<noteq> []" using rp(4) assms(3) by simp
    note start = secure_flow_start [OF r2(1) rp(3) this r2(2,3) rp(5), of M]
    have codec: "relays_secure (fst env) x mk (cc_method (rl_cli r2)) (rl_encoder r2) (Some (n + 2 * of_nat (length fs)))"
      using r2(2,3) rp(5) by (simp add: relays_secure_def)
    obtain r3 es where p: "WriteUpstreamInPipe env io r2 = Some (r3, es)" "secure.ran env x mk r2 (Some (n + 2 * of_nat (length fs))) M r3 es"
      using secure.pipe_ok [OF assms(12) _ _ r2(4) codec _ r2(5), of M] start by (auto simp: M_def)
    have "replay_pending env io r = Some (r3, es)"
      using False empty_rep [OF bs(1)] tp rp(1) p(1) by (simp add: replay_pending_def r1_def r2_def)
    moreover have "secure.flow env x mk r2 (Some (n + 2 * of_nat (length fs))) M r3 es" using p(2) by (simp add: secure.flow_def secure.ran_def)
    moreover have "still_open r3" "\<not> rl_channel_write_inprogress r3"
      using p(2) r2(5,6) by (simp_all add: secure.ran_def armed_by_def same_flags_def)
    ultimately show ?thesis using start(2) rp(4)
      by (intro exI [of _ r3] exI [of _ es] exI [of _ r2] exI [of _ M]) (simp add: M_def)
  qed
qed

lemma connected_secure:
  assumes "encoder_at (fst env) x mk None ce" "new_cipher (fst env) [] pass (cc_method (rl_cli r)) True = Some ce"
    and "new_cipher (fst env) [] pass (cc_method (rl_cli r)) False = Some cd" "\<not> relays_plain (cc_method (rl_cli r))" "negotiated \<noteq> kProtoHTTP11"
    and "ioq_rep 16 (rl_upstream r) []" "open_relay r" "pending_ok (rl_cli r)" "cc_request (rl_cli r) = ss_enc (t, p) @ zs" "target_wf t"
    and "\<not> rl_upstream_writable r" "\<not> rl_channel_write_inprogress r" "\<forall>i. io_ok (io i)" "\<forall>i. io_ok (io' i)"
  defines "fs \<equiv> concat (map frames (ss_enc (t, p) # queued (rl_cli r)))"
  shows "\<exists>r' es r0 M. connected env io io' negotiated user pass r = Some (r', es) \<and> SOCKET_BUF_SIZE + 132 \<le> M \<and>
    secure.flow env x mk r0 (Some (2 * of_nat (length fs))) M r' es \<and> (open_relay r' \<longrightarrow> live r' \<and> armed r') \<and>
    concat (waiting r0) = RandBytes (fst env) (key_size x) @ wire (lib (fst env)) (session_key (fst env) x mk) 0 fs"
proof -
  define r1 where "r1 = r\<lparr>rl_encoder := Some ce, rl_decoder := Some cd\<rparr>"
  have mc: "make_ciphers env pass r = Some r1" using assms(2-4) by (simp add: make_ciphers_def r1_def relays_plain_def Let_def)
  obtain q b c1 where q: "queue_request env user pass r1 = Some (r1\<lparr>rl_upstream := q, rl_encoder := Some c1\<rparr>, [])" "ioq_rep 16 q [b]" "growable_inv b"
      "view b = cipher_code (fst env) x mk None (ss_enc (t, p))" "capacity b = int (length (view b))" "length (ss_enc (t, p)) \<le> 259" "ss_enc (t, p) \<noteq> []"
      "encoder_at (fst env) x mk (cipher_advance None (ss_enc (t, p))) c1"
    using queue_request_secure [of r1 ce env x mk t p zs user pass] assms(1,4,6,9,10) by (auto simp: r1_def)
  define r2 where "r2 = r1\<lparr>rl_upstream := q, rl_encoder := Some c1\<rparr>"
  have r2: "ioq_rep 16 (rl_upstream r2) [b]" "\<not> relays_plain (cc_method (rl_cli r2))" "rl_encoder r2 = Some c1" "open_relay r2" "pending_ok (rl_cli r2)"
      "\<not> rl_upstream_writable r2" "\<not> rl_channel_write_inprogress r2" "queued (rl_cli r2) = queued (rl_cli r)"
    using q(2) assms(4,7,8,11,12) by (simp_all add: r2_def r1_def open_relay_def)
  have "capacity b + 35 * int kMaxHeaderSize \<le> INT_MAX"
    using length_cipher_code [OF assms(1), of "ss_enc (t, p)"] q(4-6) by (simp add: SOCKET_BUF_SIZE_def INT_MAX_def kMaxHeaderSize_def)
  moreover have "encoder_at (fst env) x mk (Some (2 * of_nat (length (frames (ss_enc (t, p)))))) c1" using q(8) by (simp add: cipher_advance_def)
  moreover have "view b \<noteq> []" using cipher_code_nonempty [OF assms(1) q(7)] q(4) by simp
  moreover have "2 * of_nat (length (frames (ss_enc (t, p)))) + 2 * of_nat (length (concat (map frames (queued (rl_cli r2))))) = (2 * of_nat (length fs) :: u64)"
    using r2(8) by (simp add: fs_def)
  moreover have "view b @ wire (lib (fst env)) (session_key (fst env) x mk) (2 * of_nat (length (frames (ss_enc (t, p))))) (concat (map frames (queued (rl_cli r2)))) =
      RandBytes (fst env) (key_size x) @ wire (lib (fst env)) (session_key (fst env) x mk) 0 fs"
    using q(4) r2(8) by (simp add: fs_def cipher_code_def wire_append)
  ultimately obtain r3 es1 r0 M where 3: "replay_pending env io r2 = Some (r3, es1)" "SOCKET_BUF_SIZE + 132 \<le> M"
      "secure.flow env x mk r0 (Some (2 * of_nat (length fs))) M r3 es1" "still_open r3" "\<not> rl_channel_write_inprogress r3"
      "concat (waiting r0) = RandBytes (fst env) (key_size x) @ wire (lib (fst env)) (session_key (fst env) x mk) 0 fs"
    using replay_pending_secure [OF r2(1) q(3) _ _ r2(2,3) _ r2(4-7) assms(13), where env = env and x = x and mk = mk and
        n = "2 * of_nat (length (frames (ss_enc (t, p))))"] by metis
  define r4 where "r4 = r3\<lparr>rl_upstream_writable := True\<rparr>"
  have o: "only_flags r3 r4" by (simp add: r4_def only_flags_def)
  have f4: "secure.flow env x mk r0 (Some (2 * of_nat (length fs))) M r4 es1" using secure.flow_flags [OF o 3(3), of "[]"] by simp
  have "still_open r4" "rl_upstream_writable r4" "\<not> rl_channel_write_inprogress r4"
    using 3(4,5) only_flags_keep(4) [OF o] by (simp_all add: r4_def)
  from secure.pipe_any_ok [OF f4 this 3(2) assms(14)] obtain r5 es2 where 5: "pipe_and_flush env io' r4 = Some (r5, es2)" "secure.flow env x mk r0 (Some (2 * of_nat (length fs))) M r5 (es1 @ es2)"
      "open_relay r5 \<longrightarrow> live r5 \<and> armed r5" by blast
  have "connected env io io' negotiated user pass r = Some (r5, es1 @ [Read_upstream] @ es2)"
    using assms(5) mc q(1) 3(1) 5(1) by (simp add: connected_def r2_def r4_def)
  moreover have "secure.flow env x mk r0 (Some (2 * of_nat (length fs))) M r5 (es1 @ [Read_upstream] @ es2)" using 5(2) by (simp add: secure.flow_def)
  ultimately show ?thesis using 3(2,6) 5(3) by blast
qed

section \<open>From the local program to the server\<close>

lemma concat_frames_all: "concat (concat (map frames xss)) = concat xss"
  by (induction xss) simp_all

lemma frames_all_block_ok: "\<forall>p\<in>set (concat (map frames xss)). block_ok p"
  using frames_block_ok by auto

lemma aead_not_plain: "m \<in> set (map row_num YASS_CIPHER_METHOD_OLD_MAP) \<Longrightarrow> \<not> relays_plain m"
  by (auto simp: YASS_CIPHER_METHOD_OLD_MAP_def method_tables relays_plain_def CIPHER_METHOD_IS_HTTPS_def CIPHER_METHOD_IS_SOCKS_def)

lemma session_pair:
  assumes "aead_env env" "same_suite x y" "aead_suite x" "aead_suite y"
  shows "packet_pair (lib env) (session_key env x mk) (keyed (lib env) (subkey env mk (key_size x) (RandBytes env (key_size x))) y)"
proof -
  have "length (subkey env mk (key_size x) (RandBytes env (key_size x))) = key_size x"
    using assms(1) by (simp add: aead_env_def subkey_def length_rfc5869 SHA_DIGEST_LENGTH_def)
  then show ?thesis using keyed_packet_pair_suite [OF _ assms(2-4)] assms(1) by (simp add: session_key_def aead_env_def)
qed

text \<open>The decoder of the server, given a prefix of the client's stream.\<close>

lemma decoder_follows:
  assumes "aead_env env" "same_suite x y" "fresh_cipher x mk \<lparr>encrypter = Some x, decrypter = None\<rparr> ce"
    and "fresh_cipher y mk \<lparr>encrypter = None, decrypter = Some y\<rparr> cd" "\<forall>b\<in>set bs. growable_inv b \<and> int (length (view b)) + SOCKET_BUF_SIZE \<le> INT_MAX"
    and "concat (map view bs) @ zs = RandBytes env (key_size x) @ wire (lib env) (session_key env x mk) 0 (concat (map frames xss))"
  shows "\<exists>cd' got rest. feed_all env recorder bs cd ([], False) = Some (cd', (got, False)) \<and> concat got @ rest = concat xss \<and> (zs = [] \<longrightarrow> rest = [])"
proof -
  have env: "aead_lib_ok (lib env)" "\<And>x. length (sha1 env x) = SHA_DIGEST_LENGTH" "\<And>n. length (RandBytes env n) = n"
    using assms(1) by (auto simp: aead_env_def)
  have suites: "aead_suite x" "aead_suite y" "key_len cd = key_size x" "0 < key_size x"
    using assms(2-4) by (auto simp: fresh_cipher_def same_suite_def aead_suite_def evp_key_length_pos)
  let ?s = "RandBytes env (key_size x)" and ?pts = "concat (map frames xss)"
  define d where "d = keyed (lib env) (subkey env mk (key_len cd) ?s) y"
  have pair: "packet_pair (lib env) (session_key env x mk) d" unfolding d_def suites(3) by (rule session_pair [OF assms(1,2) suites(1,2)])
  have tag: "auth_tag_size (session_key env x mk) \<le> 16" by (rule session_key_tag(2) [OF env(1,2) suites(1)])
  have start: "decoding env (session_key env x mk) d ?s ?pts cd [] cd []"
    using suites(4) env(3) assms(4) by (simp add: decoding_def fresh_cipher_def)
  have slen: "length ?s = key_len cd" using env(3) suites(3) by simp
  obtain cd' got where g: "feed_all env recorder bs cd ([], False) = Some (cd', (got, False))"
      "decoding env (session_key env x mk) d ?s ?pts cd (concat (map view bs)) cd' got"
    using feed_all_decoding [of env, OF env(1,2) assms(4) d_def pair slen frames_all_block_ok tag start _ assms(5), of zs False] assms(6) by auto
  from decoding_delivers [OF g(2) pair] obtain k where k: "got = take k ?pts" "concat (map view bs) = ?s @ wire (lib env) (session_key env x mk) 0 ?pts \<longrightarrow> take k ?pts = ?pts"
    by blast
  have "concat got @ concat (drop k ?pts) = concat xss" unfolding k(1) concat_append [symmetric] append_take_drop_id by (rule concat_frames_all)
  moreover have "concat (drop k ?pts) = []" if "zs = []" using k(2) assms(6) that by (metis append_Nil2 append_take_drop_id concat.simps(1) same_append_eq)
  ultimately show ?thesis using g(1) by blast
qed

text \<open>C12: What the local program sends reaches the server, behind the request and in order. Take a client connection with an
  AEAD method whose upstream has just been established, with a well-formed request and any data that arrived in the
  meantime, and let its callbacks run in any order with sockets that deliver and accept any amounts. Then
  \<^verbatim>\<open>connected()\<close> and every callback return, and whatever part of the bytes sent so far the server has received, cut into any
  segments, its decoder has delivered without a protocol error exactly a prefix of the request header, followed by the
  data that was waiting, followed by the data read since; all of it, when the queue of the client is empty and all it
  has sent has arrived.\<close>

theorem secure_connection_delivers:
  assumes "aead_lib_ok (lib (fst env))" "\<forall>x. length (sha1 (fst env) x) = 20" "\<forall>x. length (md5 (fst env) x) = 16"
    and "\<forall>n. length (RandBytes (fst env) n) = n"
    and "m \<in> set (map row_num YASS_CIPHER_METHOD_OLD_MAP)" "\<not> (CRYPTO_AES_128_CFB \<le> m \<and> m \<le> CRYPTO_CAMELLIA_256_CFB)"
    and "cc_method (rl_cli r) = m" "negotiated \<noteq> kProtoHTTP11" "ioq_rep 16 (rl_upstream r) []" "open_relay r" "pending_ok (rl_cli r)"
    and "cc_request (rl_cli r) = ss_enc (t, p) @ zs" "target_wf t" "\<not> rl_upstream_writable r" "\<not> rl_channel_write_inprogress r"
    and "\<forall>i. io_ok (io i)" "\<forall>i. io_ok (io' i)"
  shows "\<exists>r1 es1 cd. connected env io io' negotiated user pass r = Some (r1, es1) \<and> new_cipher (fst env) [] pass m False = Some cd \<and>
    (\<forall>es2 r2. relay_run env r1 es2 r2 \<longrightarrow>
       (open_relay r2 \<and> \<not> cc_closed (rl_cli r2) \<longrightarrow> (\<exists>ev. enabled ev r2) \<and>
         (\<forall>ev io. enabled ev r2 \<and> (\<forall>i. io_ok (io i)) \<longrightarrow> (\<exists>r3 es3. handle_relay env io ev r2 = Some (r3, es3)))) \<and>
       (\<forall>bs rest. concat (map view bs) @ rest = sent (es1 @ es2) \<and> (\<forall>b\<in>set bs. growable_inv b \<and> int (length (view b)) + SOCKET_BUF_SIZE \<le> INT_MAX) \<longrightarrow>
         (\<exists>cd' got more. feed_all (fst env) recorder bs cd ([], False) = Some (cd', (got, False)) \<and>
            concat got @ more = ss_enc (t, p) @ concat (queued (rl_cli r)) @ concat (received (es1 @ es2)) \<and>
            (rest = [] \<and> waiting r2 = [] \<longrightarrow> more = []))))"
proof -
  have env: "aead_env (fst env)" using assms(1,2,4) by (simp add: aead_env_def SHA_DIGEST_LENGTH_def)
  obtain x y mk ce cd where n: "same_suite x y" "new_cipher (fst env) [] pass m True = Some ce"
      "fresh_cipher x mk \<lparr>encrypter = Some x, decrypter = None\<rparr> ce"
      "new_cipher (fst env) [] pass m False = Some cd" "fresh_cipher y mk \<lparr>encrypter = None, decrypter = Some y\<rparr> cd"
    using new_cipher_pair [of "fst env" m pass, OF assms(3,5,6)] by blast
  then have suites: "aead_suite x" "aead_suite y" by (auto simp: fresh_cipher_def)
  have at: "encoder_at (fst env) x mk None ce" using env n(3) suites(1) session_pair [OF env n(1) suites] by (auto simp: encoder_at_def)
  let ?first = "ss_enc (t, p) # queued (rl_cli r)"
  obtain r1 es1 r0 M where c: "connected env io io' negotiated user pass r = Some (r1, es1)" "SOCKET_BUF_SIZE + 132 \<le> M"
      "secure.flow env x mk r0 (Some (2 * of_nat (length (concat (map frames ?first))))) M r1 es1" "open_relay r1 \<longrightarrow> live r1 \<and> armed r1"
      "concat (waiting r0) = RandBytes (fst env) (key_size x) @ wire (lib (fst env)) (session_key (fst env) x mk) 0 (concat (map frames ?first))"
    using connected_secure [OF at _ _ _ assms(8-17), of pass cd user] n(2,4) assms(7) aead_not_plain [OF assms(5)] by blast
  have stream: "\<exists>cd' got more. feed_all (fst env) recorder bs cd ([], False) = Some (cd', (got, False)) \<and>
      concat got @ more = ss_enc (t, p) @ concat (queued (rl_cli r)) @ concat (received (es1 @ es2)) \<and> (rest = [] \<and> waiting r2 = [] \<longrightarrow> more = [])"
    if run: "relay_run env r1 es2 r2" and bs: "concat (map view bs) @ rest = sent (es1 @ es2)"
      "\<forall>b\<in>set bs. growable_inv b \<and> int (length (view b)) + SOCKET_BUF_SIZE \<le> INT_MAX" for es2 r2 bs rest
  proof -
    have "sent (es1 @ es2) @ concat (waiting r2) = RandBytes (fst env) (key_size x) @
        wire (lib (fst env)) (session_key (fst env) x mk) 0 (concat (map frames (?first @ received (es1 @ es2))))"
      using secure.run_ok [OF run c(3,4,2)] c(5) by (simp add: secure.flow_def coded_secure_keyed wire_append)
    with bs(1) have "concat (map view bs) @ rest @ concat (waiting r2) = RandBytes (fst env) (key_size x) @
        wire (lib (fst env)) (session_key (fst env) x mk) 0 (concat (map frames (?first @ received (es1 @ es2))))"
      by (metis append.assoc)
    from decoder_follows [OF env n(1,3,5) bs(2) this] show ?thesis by auto
  qed
  show ?thesis
    using c(1) n(4) stream secure.run_progress [OF _ c(3,4,2)] by (intro exI [of _ r1] exI [of _ es1] exI [of _ cd]) blast
qed

lemma byte_segments: "\<exists>bs. concat (map view bs) = xs \<and> (\<forall>b\<in>set bs. growable_inv b \<and> length (view b) = 1)"
proof (induction xs)
  case Nil
  then show ?case by (intro exI [of _ "[]"]) simp
next
  case (Cons x xs)
  then obtain bs where bs: "concat (map view bs) = xs" "\<forall>b\<in>set bs. growable_inv b \<and> length (view b) = 1" by blast
  obtain b where "growable_inv b" "view b = [x]" using copyBuffer_ok [of "[x]" "\<lambda>_. 0"] by (auto simp: INT_MAX_def)
  then show ?case using bs by (intro exI [of _ "b # bs"]) auto
qed

definition sample_secure_relay :: "(nat, unit) relay" where
  "sample_secure_relay = sample_relay\<lparr>rl_upstream_writable := False,
     rl_cli := (rl_cli sample_relay)\<lparr>cc_method := CRYPTO_AES256GCMSHA256_EVP, cc_request := ss_enc (Domain [97], 80)\<rparr>\<rparr>"

lemma sample_secure_setup:
  "aead_lib_ok (lib plain_env)" "\<forall>x. length (sha1 plain_env x) = 20" "\<forall>x. length (md5 plain_env x) = 16" "\<forall>n. length (RandBytes plain_env n) = n"
  "CRYPTO_AES256GCMSHA256_EVP \<in> set (map row_num YASS_CIPHER_METHOD_OLD_MAP)"
  "\<not> (CRYPTO_AES_128_CFB \<le> CRYPTO_AES256GCMSHA256_EVP \<and> CRYPTO_AES256GCMSHA256_EVP \<le> CRYPTO_CAMELLIA_256_CFB)"
  "cc_method (rl_cli sample_secure_relay) = CRYPTO_AES256GCMSHA256_EVP" "kProtoUnknown \<noteq> kProtoHTTP11"
  "ioq_rep 16 (rl_upstream sample_secure_relay) []" "open_relay sample_secure_relay" "pending_ok (rl_cli sample_secure_relay)"
  "cc_request (rl_cli sample_secure_relay) = ss_enc (Domain [97], 80) @ []" "target_wf (Domain [97])"
  "\<not> rl_upstream_writable sample_secure_relay" "\<not> rl_channel_write_inprogress sample_secure_relay"
  "queued (rl_cli sample_secure_relay) = []"
proof -
  have q4: "ioq_inv 4 (IoQueue 4 :: growable ioqueue)" "ioq_elems (IoQueue 4 :: growable ioqueue) = []"
    using ioq_rep_inv [OF IoQueue_rep [of 4]] by auto
  show "aead_lib_ok (lib plain_env)" "\<forall>x. length (sha1 plain_env x) = 20" "\<forall>x. length (md5 plain_env x) = 16" "\<forall>n. length (RandBytes plain_env n) = n"
    using plain_lib_ok by (simp_all add: plain_env_def)
  show "CRYPTO_AES256GCMSHA256_EVP \<in> set (map row_num YASS_CIPHER_METHOD_OLD_MAP)" by (simp add: YASS_CIPHER_METHOD_OLD_MAP_def method_tables)
  show "\<not> (CRYPTO_AES_128_CFB \<le> CRYPTO_AES256GCMSHA256_EVP \<and> CRYPTO_AES256GCMSHA256_EVP \<le> CRYPTO_CAMELLIA_256_CFB)" by (simp add: method_tables)
  show "ioq_rep 16 (rl_upstream sample_secure_relay) []" "open_relay sample_secure_relay" "pending_ok (rl_cli sample_secure_relay)"
      "queued (rl_cli sample_secure_relay) = []"
    using IoQueue_rep [of 16] q4 sample_relay_ok(2)
    by (simp_all add: sample_secure_relay_def sample_relay_def open_relay_def pending_ok_def queued_def cli_start_def)
qed (simp_all add: sample_secure_relay_def sample_relay_def)

theorem secure_connection_delivers_witness:
  "\<exists>r1 es1 cd bs cd' got more. connected (plain_env, sample_cli_env) sample_io sample_io kProtoUnknown [] [1] sample_secure_relay = Some (r1, es1) \<and>
     new_cipher plain_env [] [1] CRYPTO_AES256GCMSHA256_EVP False = Some cd \<and> concat (map view bs) = sent es1 \<and>
     feed_all plain_env recorder bs cd ([], False) = Some (cd', (got, False)) \<and>
     concat got @ more = ss_enc (Domain [97], 80) @ concat (received es1) \<and> (waiting r1 = [] \<longrightarrow> more = [])"
proof -
  let ?env = "(plain_env, sample_cli_env)"
  note h = sample_secure_setup
  have io: "\<forall>i. io_ok (sample_io i)" using sample_io_ok by simp
  note ok = secure_connection_delivers [of ?env, unfolded fst_conv, OF h(1-15) io io, of "[]" "[1]"]
  obtain r1 es1 cd where c: "connected ?env sample_io sample_io kProtoUnknown [] [1] sample_secure_relay = Some (r1, es1)"
      "new_cipher plain_env [] [1] CRYPTO_AES256GCMSHA256_EVP False = Some cd"
    and all: "\<forall>bs rest. concat (map view bs) @ rest = sent (es1 @ []) \<and> (\<forall>b\<in>set bs. growable_inv b \<and> int (length (view b)) + SOCKET_BUF_SIZE \<le> INT_MAX) \<longrightarrow>
      (\<exists>cd' got more. feed_all plain_env recorder bs cd ([], False) = Some (cd', (got, False)) \<and>
        concat got @ more = ss_enc (Domain [97], 80) @ concat (queued (rl_cli sample_secure_relay)) @ concat (received (es1 @ [])) \<and>
        (rest = [] \<and> waiting r1 = [] \<longrightarrow> more = []))"
    using ok run_start [of ?env] by metis
  obtain bs where bs: "concat (map view bs) = sent es1" "\<forall>b\<in>set bs. growable_inv b \<and> length (view b) = 1" using byte_segments by blast
  then have "concat (map view bs) @ [] = sent (es1 @ [])" "\<forall>b\<in>set bs. growable_inv b \<and> int (length (view b)) + SOCKET_BUF_SIZE \<le> INT_MAX"
    by (auto simp: SOCKET_BUF_SIZE_def INT_MAX_def)
  with all have "\<exists>cd' got more. feed_all plain_env recorder bs cd ([], False) = Some (cd', (got, False)) \<and>
      concat got @ more = ss_enc (Domain [97], 80) @ concat (queued (rl_cli sample_secure_relay)) @ concat (received (es1 @ [])) \<and>
      ([] = [] \<and> waiting r1 = [] \<longrightarrow> more = [])" by blast
  with c bs(1) show ?thesis unfolding h(16) by auto
qed

end
