(* ===== verification/Server_Handshake.thy ===== *)
theory Server_Handshake
  imports Server_Relay Client_Connected
begin

text \<open>
  The handshake of an encrypting server connection (\<^verbatim>\<open>server/server_connection.cpp\<close>): the first segments of the client are
  decrypted, the header in front of them names the target, and what follows is data for it. The last section
  composes it with the client of \<^verbatim>\<open>Client_Connected\<close>.
\<close>

section \<open>The handlers\<close>

definition srv_WriteStream :: "('c, 'm) sconn \<Rightarrow> ('c, 'm) sconn \<times> srv_effect list" where
  "srv_WriteStream s = (if sc_write_inprogress s then (s, []) else (s\<lparr>sc_write_inprogress := True\<rparr>, [Srv_write_stream]))"

definition srv_OnDownstreamWriteFlush :: "('c, 'm) sconn \<Rightarrow> ('c, 'm) sconn \<times> srv_effect list" where
  "srv_OnDownstreamWriteFlush s = (if \<not> ioq_empty (sc_downstream s) \<and> \<not> sc_write_inprogress s then srv_WriteStream s else (s, []))"

definition srv_OnDownstreamWrite :: "growable \<Rightarrow> ('c, 'm) sconn \<Rightarrow> ('c, 'm) srv_result" where
  "srv_OnDownstreamWrite buf s =
     do { q \<leftarrow> if iobuf_empty buf then Some (sc_downstream s) else push_back buf (sc_downstream s);
          Some (srv_OnDownstreamWriteFlush (s\<lparr>sc_downstream := q\<rparr>)) }"

definition srv_OnConnect :: "('c, 'm) relay_env \<Rightarrow> ('c, 'm) sconn \<Rightarrow> ('c, 'm) srv_result" where
  "srv_OnConnect env s =
     do { port \<leftarrow> ss_port (sc_request s);
          host \<leftarrow> if ss_address_type (sc_request s) = atyp_domain then Some (ss_domain_name (ce_to_string (snd env)) (sc_request s))
                 else map_option (\<lambda>(a, _). ce_to_string (snd env) a) (ss_endpoint (sc_request s));
          let s = s\<lparr>sc_channel := Connecting, sc_channel_eof := False\<rparr>;
          if CIPHER_METHOD_IS_HTTPS (sc_method s) \<and> sc_http_is_connect s then do {
            buf \<leftarrow> copyBuffer (ce_junk (snd env)) http_connect_reply;
            (s, es) \<leftarrow> srv_OnDownstreamWrite buf s;
            Some (s, Srv_connect host port # es) }
          else Some (s, [Srv_connect host port]) }"

text \<open>The part of \<^verbatim>\<open>ProcessReceivedData()\<close> for a buffer that was received.\<close>

definition srv_stream_data :: "('c, 'm) relay_env \<Rightarrow> (nat \<Rightarrow> pipe_io) \<Rightarrow> growable \<Rightarrow> ('c, 'm) sconn \<Rightarrow> ('c, 'm) srv_result" where
  "srv_stream_data env io buf s = (if \<not> iobuf_empty buf then srv_OnUpstreamWrite buf s else srv_pipe_and_flush (fst env) io s)"

definition srv_ProcessReceivedData :: "('c, 'm) relay_env \<Rightarrow> (nat \<Rightarrow> pipe_io) \<Rightarrow> growable \<Rightarrow> ('c, 'm) sconn \<Rightarrow> ('c, 'm) srv_result" where
  "srv_ProcessReceivedData env io buf s =
     (case sc_state s of
        sv_state_handshake \<Rightarrow>
          do { (s, es) \<leftarrow> srv_OnConnect env (s\<lparr>sc_state := sv_state_stream\<rparr>);
               (s, es1) \<leftarrow> srv_stream_data env io buf s;
               Some (s, es @ es1) }
      | sv_state_stream \<Rightarrow> srv_stream_data env io buf s
      | sv_state_error \<Rightarrow> Some (srv_fail invalid_argument s))"

text \<open>The header in front of the bytes decrypted so far. The end of the input is \<open>n\<close>, the number of encrypted bytes read
  last.\<close>

definition srv_read_header :: "('c, 'm) relay_env \<Rightarrow> (nat \<Rightarrow> pipe_io) \<Rightarrow> nat \<Rightarrow> growable \<Rightarrow> ('c, 'm) sconn \<Rightarrow> ('c, 'm) srv_result" where
  "srv_read_header env io n buf s =
     do { (res, i, req) \<leftarrow> ss_parse (sc_request s) (parse_mem buf) 0 n;
          let s = s\<lparr>sc_request := req\<rparr>;
          if res = good then do {
            buf \<leftarrow> set_offset (offset buf + int (ss_length req)) buf;
            let s = s\<lparr>sc_handshake := Some buf\<rparr>;
            port \<leftarrow> ss_port req;
            ep \<leftarrow> ss_endpoint req;
            if port = 0 \<or> ss_address_type req = atyp_domain \<and> ss_domain_name (ce_to_string (snd env)) req = [] \<or>
               ss_address_type req \<noteq> atyp_domain \<and> is_unspecified (fst ep)
            then Some (srv_OnDisconnect invalid_argument s)
            else srv_ProcessReceivedData env io buf s }
          else Some (srv_OnDisconnect invalid_argument s) }"

text \<open>The callback of \<^verbatim>\<open>ReadHandshake()\<close>; \<open>rd\<close> is what the socket delivers.\<close>

definition srv_ReadHandshake :: "('c, 'm) relay_env \<Rightarrow> (nat \<Rightarrow> pipe_io) \<Rightarrow> error_code \<Rightarrow> read_result \<Rightarrow> ('c, 'm) sconn \<Rightarrow> ('c, 'm) srv_result" where
  "srv_ReadHandshake env io ec rd s =
     (if sc_closed s \<or> ec = bad_descriptor \<or> ec = operation_aborted then Some (s, [])
      else if ec \<noteq> no_error then Some (srv_fail ec s)
      else case rd of
        WouldBlock \<Rightarrow> Some (s, [Srv_read_handshake])
      | ReadError ec \<Rightarrow> if soft ec then Some (s, [Srv_read_handshake]) else Some (srv_OnDisconnect ec s)
      | Data xs \<Rightarrow>
          do { cipherbuf \<leftarrow> read_segment (junk (fst env)) SOCKET_DEBUF_SIZE xs;
               (s, es) \<leftarrow> srv_decode (fst env) cipherbuf s;
               case sc_handshake s of
                 None \<Rightarrow> Some (s, es @ [Srv_read_handshake])
               | Some buf \<Rightarrow> do { (s, es1) \<leftarrow> srv_read_header env io (length xs) buf s; Some (s, es @ es1) } })"

text \<open>The members of a new connection, and the start of an encrypting one.\<close>

definition new_sconn :: "cipher_method \<Rightarrow> ('c, 'm) sconn" where
  "new_sconn m =
     \<lparr>sc_method = m, sc_state = sv_state_handshake, sc_closed = False, sc_shutdown = False, sc_request = new_ss_request, sc_handshake = None,
      sc_http_is_connect = False, sc_upstream = IoQueue 16, sc_upstream_error = no_error, sc_upstream_writable = False,
      sc_downstream = IoQueue 16, sc_downstream_error = no_error, sc_encoder = None, sc_decoder = None, sc_channel = No_channel,
      sc_channel_eof = False, sc_channel_read_inprogress = False, sc_channel_write_inprogress = False, sc_read_inprogress = False,
      sc_write_inprogress = False\<rparr>"

definition srv_Start :: "('c, 'm) cipher_env \<Rightarrow> byte list \<Rightarrow> ('c, 'm) sconn \<Rightarrow> ('c, 'm) srv_result" where
  "srv_Start env pass s =
     do { e \<leftarrow> new_cipher env [] pass (sc_method s) True;
          d \<leftarrow> new_cipher env [] pass (sc_method s) False;
          Some (s\<lparr>sc_encoder := Some e, sc_decoder := Some d\<rparr>, [Srv_read_handshake]) }"

section \<open>Collecting the handshake\<close>

lemma append_handshake_ok:
  assumes "growable_inv h" "growable_inv b" "int (length (view h)) + int (length (view b)) \<le> INT_MAX"
  shows "\<exists>h'. append_handshake uninit h b = Some h' \<and> growable_inv h' \<and> view h' = view h @ view b"
  using append_copy [OF assms(1,3), of uninit] assms
  by (auto simp: append_handshake_def Let_def RemainingCapacity_view buf_size_view in_int_nonneg data_slice_view)

definition collected :: "growable option \<Rightarrow> byte list" where
  "collected h = (case h of None \<Rightarrow> [] | Some b \<Rightarrow> view b)"

lemma collected_simps [simp]: "collected None = []" "collected (Some b) = view b"
  by (simp_all add: collected_def)

lemma delivers_handshake:
  assumes "\<forall>b\<in>set bs. plain_buffer b" "sc_state s = sv_state_handshake" "\<forall>h. sc_handshake s = Some h \<longrightarrow> growable_inv h"
    and "int (length (collected (sc_handshake s))) + int (length (concat (map view bs))) \<le> INT_MAX"
  shows "\<exists>h. delivers (srv_visitor uninit) bs (Some (s, es)) = Some (Some (s\<lparr>sc_handshake := h\<rparr>, es)) \<and>
    (\<forall>b. h = Some b \<longrightarrow> growable_inv b) \<and> collected h = collected (sc_handshake s) @ concat (map view bs) \<and>
    (bs = [] \<longrightarrow> h = sc_handshake s) \<and> (bs \<noteq> [] \<longrightarrow> h \<noteq> None) \<and> (\<forall>b. bs = [b] \<and> sc_handshake s = None \<longrightarrow> h = Some b)"
  using assms
proof (induction bs arbitrary: s)
  case Nil
  then show ?case by (intro exI [of _ "sc_handshake s"]) simp
next
  case (Cons b bs)
  have b: "growable_inv b" using Cons.prems(1) by (simp add: plain_buffer_def)
  have "\<exists>h1. srv_on_received_data uninit b s = Some (True, s\<lparr>sc_handshake := Some h1\<rparr>) \<and> growable_inv h1 \<and>
      view h1 = collected (sc_handshake s) @ view b \<and> (sc_handshake s = None \<longrightarrow> h1 = b)"
  proof (cases "sc_handshake s")
    case None
    then show ?thesis using Cons.prems(2) b by (simp add: srv_on_received_data_def)
  next
    case (Some a)
    then have "growable_inv a" "int (length (view a)) + int (length (view b)) \<le> INT_MAX" using Cons.prems(3,4) by auto
    from append_handshake_ok [OF this(1) b this(2), of uninit] show ?thesis using Some Cons.prems(2) by (auto simp: srv_on_received_data_def)
  qed
  then obtain h1 where h1: "srv_on_received_data uninit b s = Some (True, s\<lparr>sc_handshake := Some h1\<rparr>)" "growable_inv h1"
      "view h1 = collected (sc_handshake s) @ view b" "sc_handshake s = None \<longrightarrow> h1 = b" by (elim exE conjE)
  let ?s = "s\<lparr>sc_handshake := Some h1\<rparr>"
  have p: "\<forall>b\<in>set bs. plain_buffer b" "sc_state ?s = sv_state_handshake" "\<forall>h. sc_handshake ?s = Some h \<longrightarrow> growable_inv h"
      "int (length (collected (sc_handshake ?s))) + int (length (concat (map view bs))) \<le> INT_MAX"
    using Cons.prems h1(2,3) by simp_all
  obtain h where h: "delivers (srv_visitor uninit) bs (Some (?s, es)) = Some (Some (s\<lparr>sc_handshake := h\<rparr>, es))"
      "\<forall>b. h = Some b \<longrightarrow> growable_inv b" "collected h = view h1 @ concat (map view bs)" "bs = [] \<longrightarrow> h = Some h1" "bs \<noteq> [] \<longrightarrow> h \<noteq> None"
    using Cons.IH [OF p] by (elim exE conjE, intro that) simp_all
  have "on_received_data (srv_visitor uninit) b (Some (s, es)) = (True, Some (?s, es))" using h1(1) by (simp add: srv_visitor_def)
  then have "delivers (srv_visitor uninit) (b # bs) (Some (s, es)) = Some (Some (s\<lparr>sc_handshake := h\<rparr>, es))" using h(1) by simp
  moreover have "collected h = collected (sc_handshake s) @ concat (map view (b # bs))" using h(3) h1(3) by simp
  moreover have "h \<noteq> None" using h(4,5) by (cases bs) auto
  ultimately show ?case using h(2,4) h1(4) by (intro exI [of _ h]) simp
qed

text \<open>Decoding one more segment \<open>ct\<close> of a stream, during the handshake.\<close>

lemma srv_decode_handshake:
  assumes "aead_lib_ok (lib env)" "\<And>x. length (sha1 env x) = SHA_DIGEST_LENGTH"
    and "fresh_cipher y mk \<lparr>encrypter = None, decrypter = Some y\<rparr> c0"
    and "d = keyed (lib env) (subkey env mk (key_len c0) salt0) y" "packet_pair (lib env) e d"
    and "length salt0 = key_len c0" "\<forall>p\<in>set pts. block_ok p"
    and "decoding env e d salt0 pts c0 S c got" "growable_inv ct" "S @ view ct @ zs = salt0 @ wire (lib env) e 0 pts"
    and "(case chunk c of None \<Rightarrow> 0 | Some ch \<Rightarrow> length (view ch)) + length (view ct) \<le> nat INT_MAX"
    and s: "sc_decoder s = Some c" "sc_state s = sv_state_handshake" "sc_handshake s = None" "got = []" "int (length (concat pts)) \<le> INT_MAX"
  shows "\<exists>c' bs h. decoding env e d salt0 pts c0 (S @ view ct) c' (map view bs) \<and> (\<forall>b\<in>set bs. plain_buffer b) \<and>
    srv_decode env ct s = Some (s\<lparr>sc_handshake := h, sc_decoder := Some c'\<rparr>, []) \<and> (\<forall>b. h = Some b \<longrightarrow> growable_inv b) \<and>
    collected h = concat (map view bs) \<and> (bs = [] \<longleftrightarrow> h = None) \<and> (\<forall>b. bs = [b] \<longrightarrow> h = Some b)"
proof -
  obtain c' bs where d: "\<forall>b\<in>set bs. plain_buffer b" "decoding env e d salt0 pts c0 (S @ view ct) c' (got @ map view bs)"
      "\<forall>(vis :: ('a, 'b) srv_result visitor) v v'. delivers vis bs v = Some v' \<longrightarrow> process_bytes env vis ct c v = Some (c', v')"
    using decoding_step_visitor [OF assms(1-11)] by blast
  obtain k where "map view bs = take k pts" using decoding_delivers [OF d(2) assms(5)] s(4) by auto
  then have "length (concat (map view bs)) \<le> length (concat pts)" by (metis append_take_drop_id concat_append length_append le_add1)
  then obtain h where h: "delivers (srv_visitor (junk env)) bs (Some (s, [])) = Some (Some (s\<lparr>sc_handshake := h\<rparr>, []))"
      "\<forall>b. h = Some b \<longrightarrow> growable_inv b" "collected h = concat (map view bs)" "bs = [] \<longrightarrow> h = None" "bs \<noteq> [] \<longrightarrow> h \<noteq> None" "\<forall>b. bs = [b] \<longrightarrow> h = Some b"
    using delivers_handshake [OF d(1) s(2), of "junk env" "[]"] s(3,5) by auto
  then have "srv_decode env ct s = Some (s\<lparr>sc_handshake := h, sc_decoder := Some c'\<rparr>, [])" using d(3) s(1) by (simp add: srv_decode_def)
  then show ?thesis using d(1,2) h s(4) by (intro exI [of _ c'] exI [of _ bs] exI [of _ h]) auto
qed

section \<open>The header\<close>

fun srv_host :: "('c, 'm) relay_env \<Rightarrow> target \<Rightarrow> byte list" where
  "srv_host env (Domain d) = d"
| "srv_host env (Address a) = ce_to_string (snd env) a"

lemma ss_enc_accessors:
  assumes "target_wf t"
  shows "ss_port (ss_enc (t, p) @ zs) = Some p" "ss_length (ss_enc (t, p) @ zs) = length (ss_enc (t, p))"
    "(case t of Domain d \<Rightarrow> ss_address_type (ss_enc (t, p) @ zs) = atyp_domain \<and> ss_domain_name f (ss_enc (t, p) @ zs) = d
      | Address a \<Rightarrow> ss_address_type (ss_enc (t, p) @ zs) \<noteq> atyp_domain \<and> ss_endpoint (ss_enc (t, p) @ zs) = Some (a, p))"
proof -
  show "ss_port (ss_enc (t, p) @ zs) = Some p" "ss_length (ss_enc (t, p) @ zs) = length (ss_enc (t, p))"
    using ss_message_enc [OF assms] by simp_all
  show "case t of Domain d \<Rightarrow> ss_address_type (ss_enc (t, p) @ zs) = atyp_domain \<and> ss_domain_name f (ss_enc (t, p) @ zs) = d
      | Address a \<Rightarrow> ss_address_type (ss_enc (t, p) @ zs) \<noteq> atyp_domain \<and> ss_endpoint (ss_enc (t, p) @ zs) = Some (a, p)"
    using assms ss_message_enc(3) [OF assms, of p zs]
    by (cases t rule: target_enc.cases) (simp_all add: ss_enc_def ss_address_type_def ss_domain_name_def ss_domain_name_len_def ss_endpoint_def length_byte)
qed

lemma ss_endpoint_domain: "ss_address_type r = atyp_domain \<Longrightarrow> ss_endpoint r = Some (AddressV4 [0, 0, 0, 0], 0)"
  by (simp add: ss_endpoint_def)

lemma srv_OnConnect_enc:
  assumes "target_wf t" "sc_request s = ss_enc (t, p) @ zs" "\<not> CIPHER_METHOD_IS_HTTPS (sc_method s)"
  shows "srv_OnConnect env s = Some (s\<lparr>sc_channel := Connecting, sc_channel_eof := False\<rparr>, [Srv_connect (srv_host env t) p])"
  using ss_enc_accessors(1) [OF assms(1), of p zs] ss_enc_accessors(3) [OF assms(1), of p zs "ce_to_string (snd env)"] assms(2,3) by (cases t) (simp_all add: srv_OnConnect_def)

text \<open>With nothing to send and nothing to read, the loop starts a read.\<close>

lemma srv_pipe_idle:
  assumes "ioq_rep 16 (sc_upstream s) []" "sc_upstream_error s = no_error" "\<not> sc_closed s" "\<not> sc_read_inprogress s"
    and "io_read (io 0) = WouldBlock" "\<not> sc_channel_write_inprogress s"
  shows "srv_pipe_and_flush env io s = Some (s\<lparr>sc_read_inprogress := True\<rparr>, [Srv_read_stream False])"
proof -
  have e: "ioq_empty (sc_upstream s)" using empty_rep [OF assms(1)] by simp
  have "srv_iteration env (io 0) False s = Some (Srv_break True False no_error s [])"
    using e assms(2,3,5) by (simp add: srv_iteration_def srv_GetNextUpstreamBuf_def srv_next_out_def soft_def)
  then have "srv_pipe_loop env io 0 False s [] = Some (s\<lparr>sc_read_inprogress := True\<rparr>, [Srv_read_stream False])"
    using assms(3,4) by (subst srv_pipe_loop.simps) (simp add: srv_pipe_end_def srv_ReadStream_def soft_def)
  then show ?thesis using e assms(6) by (simp add: srv_pipe_and_flush_def srv_WriteUpstreamInPipe_def srv_OnUpstreamWriteFlush_def)
qed

definition srv_expecting :: "('c, 'm) sconn \<Rightarrow> bool" where
  "srv_expecting s \<longleftrightarrow> sc_state s = sv_state_handshake \<and> \<not> sc_closed s \<and> sc_request s = new_ss_request \<and> ioq_rep 16 (sc_upstream s) [] \<and>
     sc_upstream_error s = no_error \<and> \<not> sc_upstream_writable s \<and> \<not> sc_read_inprogress s \<and> \<not> sc_channel_write_inprogress s \<and>
     \<not> CIPHER_METHOD_IS_HTTPS (sc_method s)"

lemma srv_stream_data_ok:
  assumes "growable_inv buf" "ioq_rep 16 (sc_upstream s) []" "sc_upstream_error s = no_error" "\<not> sc_closed s" "\<not> sc_read_inprogress s"
    and "view buf = [] \<longrightarrow> io_read (io 0) = WouldBlock" "\<not> sc_channel_write_inprogress s" "\<not> sc_upstream_writable s"
  shows "\<exists>s' q. srv_stream_data env io buf s = Some (s', if view buf = [] then [Srv_read_stream False] else []) \<and>
    ioq_rep 16 (sc_upstream s') q \<and> concat (map view q) = view buf \<and> sc_state s' = sc_state s \<and> sc_channel s' = sc_channel s \<and> \<not> sc_closed s'"
proof (cases "view buf = []")
  case True
  then have "srv_stream_data env io buf s = Some (s\<lparr>sc_read_inprogress := True\<rparr>, [Srv_read_stream False])"
    using srv_pipe_idle [OF assms(2-5) _ assms(7), of io "fst env"] assms(1,6) by (simp add: srv_stream_data_def iobuf_empty_view)
  then show ?thesis using True assms(2,4) by (intro exI [of _ "s\<lparr>sc_read_inprogress := True\<rparr>"] exI [of _ "[]"]) simp
next
  case False
  obtain q where q: "push_back buf (sc_upstream s) = Some q" "ioq_rep 16 q [buf]" using push_back_rep [OF assms(2), of buf] by auto
  then have "srv_stream_data env io buf s = Some (s\<lparr>sc_upstream := q\<rparr>, [])"
    using False assms(1,8) by (simp add: srv_stream_data_def srv_OnUpstreamWrite_def srv_OnUpstreamWriteFlush_def iobuf_empty_view)
  then show ?thesis using False q(2) assms(4) by (intro exI [of _ "s\<lparr>sc_upstream := q\<rparr>"] exI [of _ "[buf]"]) simp
qed

lemma srv_read_header_ok:
  assumes "growable_inv buf" "view buf = ss_enc (t, p) @ rest" "target_wf t" "ss_asked t \<le> n" "cli_admits t p" "srv_expecting s"
    and "rest = [] \<longrightarrow> io_read (io 0) = WouldBlock"
  shows "\<exists>s' q. srv_read_header env io n buf s = Some (s', Srv_connect (srv_host env t) p # (if rest = [] then [Srv_read_stream False] else [])) \<and>
    ioq_rep 16 (sc_upstream s') q \<and> concat (map view q) = rest \<and> sc_state s' = sv_state_stream \<and> sc_channel s' = Connecting \<and> \<not> sc_closed s'"
proof -
  let ?req = "ss_enc (t, p) @ drop (length (ss_enc (t, p))) new_ss_request"
  obtain extra where m: "parse_mem buf = ss_enc (t, p) @ rest @ extra" using parse_mem_view(1) [OF assms(1)] assms(2) by auto
  have parse: "ss_parse (sc_request s) (parse_mem buf) 0 n = Some (good, length (ss_enc (t, p)), ?req)"
    using ss_parse_complete [OF assms(3,4), of p "rest @ extra"] assms(6) by (simp add: m srv_expecting_def)
  obtain buf' where buf': "set_offset (offset buf + int (length (ss_enc (t, p)))) buf = Some buf'" "growable_inv buf'" "view buf' = rest"
    using advance_view [OF assms(1), of "length (ss_enc (t, p))"] assms(2) by auto
  note acc = ss_enc_accessors(1,2) [OF assms(3), of p "drop (length (ss_enc (t, p))) new_ss_request"]
    ss_enc_accessors(3) [OF assms(3), of p "drop (length (ss_enc (t, p))) new_ss_request" "ce_to_string (snd env)"]
  define s1 where "s1 = s\<lparr>sc_request := ?req, sc_handshake := Some buf'\<rparr>"
  have ok: "\<exists>ep. ss_endpoint ?req = Some ep \<and> \<not> (p = 0 \<or> ss_address_type ?req = atyp_domain \<and> ss_domain_name (ce_to_string (snd env)) ?req = [] \<or>
      ss_address_type ?req \<noteq> atyp_domain \<and> is_unspecified (fst ep))"
    using acc(3) assms(5) ss_endpoint_domain [of ?req] by (cases t) auto
  have h: "srv_read_header env io n buf s = srv_ProcessReceivedData env io buf' s1"
    using parse buf'(1) acc(1,2) ok by (auto simp: srv_read_header_def s1_def)
  have c: "srv_OnConnect env (s1\<lparr>sc_state := sv_state_stream\<rparr>) =
      Some (s1\<lparr>sc_state := sv_state_stream, sc_channel := Connecting, sc_channel_eof := False\<rparr>, [Srv_connect (srv_host env t) p])"
    using srv_OnConnect_enc [OF assms(3), of "s1\<lparr>sc_state := sv_state_stream\<rparr>"] assms(6) by (simp add: s1_def srv_expecting_def)
  have "sc_state s1 = sv_state_handshake" using assms(6) by (simp add: s1_def srv_expecting_def)
  then show ?thesis
    using srv_stream_data_ok [OF buf'(2), of "s1\<lparr>sc_state := sv_state_stream, sc_channel := Connecting, sc_channel_eof := False\<rparr>" io env] assms(6,7) c buf'(3)
    by (auto simp: h srv_ProcessReceivedData_def s1_def srv_expecting_def split: if_splits)
qed

section \<open>Segments of a client's stream\<close>

text \<open>The stream a client with a fresh encoder sends for the blocks \<open>pts\<close>, and the decoder \<open>cd\<close> of the server for it.\<close>

definition client_stream :: "('c, 'm) cipher_env \<Rightarrow> ('c, 'm) crypter \<Rightarrow> byte list \<Rightarrow> byte list list \<Rightarrow> byte list" where
  "client_stream env x mk pts = RandBytes env (key_size x) @ wire (lib env) (session_key env x mk) 0 pts"

definition peers :: "('c, 'm) cipher_env \<Rightarrow> ('c, 'm) crypter \<Rightarrow> ('c, 'm) crypter \<Rightarrow> byte list \<Rightarrow> ('c, 'm) cipher \<Rightarrow> bool" where
  "peers env x y mk cd \<longleftrightarrow> aead_env env \<and> same_suite x y \<and> aead_suite x \<and> aead_suite y \<and> fresh_cipher y mk \<lparr>encrypter = None, decrypter = Some y\<rparr> cd"

text \<open>The server has read \<open>S\<close> of the stream and its decoder has delivered the blocks \<open>got\<close>.\<close>

definition srv_decoding :: "('c, 'm) cipher_env \<Rightarrow> ('c, 'm) crypter \<Rightarrow> ('c, 'm) crypter \<Rightarrow> byte list \<Rightarrow> ('c, 'm) cipher \<Rightarrow> byte list list \<Rightarrow> byte list
    \<Rightarrow> ('c, 'm) cipher \<Rightarrow> byte list list \<Rightarrow> bool" where
  "srv_decoding env x y mk cd pts =
     decoding env (session_key env x mk) (keyed (lib env) (subkey env mk (key_len cd) (RandBytes env (key_size x))) y) (RandBytes env (key_size x)) pts cd"

lemma peers_facts:
  assumes "peers env x y mk cd"
  shows "packet_pair (lib env) (session_key env x mk) (keyed (lib env) (subkey env mk (key_len cd) (RandBytes env (key_size x))) y)"
    "auth_tag_size (session_key env x mk) \<le> 16" "length (RandBytes env (key_size x)) = key_len cd" "0 < key_len cd" "key_len cd \<le> MAX_KEY_LENGTH"
    "aead_lib_ok (lib env)" "\<And>z. length (sha1 env z) = SHA_DIGEST_LENGTH"
proof -
  have k: "key_len cd = key_size x" using assms by (auto simp: peers_def fresh_cipher_def same_suite_def)
  show "packet_pair (lib env) (session_key env x mk) (keyed (lib env) (subkey env mk (key_len cd) (RandBytes env (key_size x))) y)"
    using session_pair [of env x y mk] assms k by (simp add: peers_def)
  show env: "aead_lib_ok (lib env)" "\<And>z. length (sha1 env z) = SHA_DIGEST_LENGTH" using assms by (auto simp: peers_def aead_env_def)
  show "auth_tag_size (session_key env x mk) \<le> 16" using session_key_tag(2) [OF env, of x mk] assms by (simp add: peers_def)
  show "length (RandBytes env (key_size x)) = key_len cd" "0 < key_len cd" "key_len cd \<le> MAX_KEY_LENGTH"
    using assms k by (auto simp: peers_def aead_env_def aead_suite_def crypter_inv_def kMaxKeySize_def MAX_KEY_LENGTH_def evp_key_length_pos)
qed

lemma srv_decoding_start: "peers env x y mk cd \<Longrightarrow> srv_decoding env x y mk cd pts [] cd []"
  using peers_facts(3,4) [of env x y mk cd] by (simp add: srv_decoding_def decoding_def peers_def fresh_cipher_def)

lemma srv_decoding_done:
  assumes "peers env x y mk cd" "srv_decoding env x y mk cd pts (client_stream env x mk pts) c got"
  shows "got = pts"
  using decoding_delivers [OF assms(2) [unfolded srv_decoding_def] peers_facts(1) [OF assms(1)]] by (auto simp: client_stream_def)

lemma srv_segment:
  assumes "peers env x y mk cd" "\<forall>p\<in>set pts. block_ok p" "srv_decoding env x y mk cd pts S c []" "S @ xs @ zs = client_stream env x mk pts"
    and "int (length xs) \<le> SOCKET_DEBUF_SIZE" "int (length (concat pts)) \<le> INT_MAX"
    and "sc_decoder s = Some c" "sc_state s = sv_state_handshake" "sc_handshake s = None"
  shows "\<exists>buf c' bs h. read_segment (junk env) SOCKET_DEBUF_SIZE xs = Some buf \<and>
    srv_decode env buf s = Some (s\<lparr>sc_handshake := h, sc_decoder := Some c'\<rparr>, []) \<and> srv_decoding env x y mk cd pts (S @ xs) c' (map view bs) \<and>
    (\<forall>b\<in>set bs. plain_buffer b) \<and> (\<forall>b. h = Some b \<longrightarrow> growable_inv b) \<and> collected h = concat (map view bs) \<and> (bs = [] \<longleftrightarrow> h = None) \<and> (\<forall>b. bs = [b] \<longrightarrow> h = Some b)"
proof -
  note f = peers_facts [OF assms(1)]
  obtain buf where buf: "read_segment (junk env) SOCKET_DEBUF_SIZE xs = Some buf" "growable_inv buf" "view buf = xs"
    using read_segment_ok [OF assms(5), of "junk env"] by (auto simp: SOCKET_DEBUF_SIZE_def INT_MAX_def)
  have "int (case chunk c of None \<Rightarrow> 0 | Some ch \<Rightarrow> length (view ch)) \<le> SOCKET_BUF_SIZE"
    using decoding_buffered [OF assms(3) [unfolded srv_decoding_def] f(1,2) assms(2)] f(3,5) by simp
  then have sz: "(case chunk c of None \<Rightarrow> 0 | Some ch \<Rightarrow> length (view ch)) + length (view buf) \<le> nat INT_MAX"
    using assms(5) buf(3) by (simp add: SOCKET_BUF_SIZE_def SOCKET_DEBUF_SIZE_def INT_MAX_def split: option.splits)
  have st: "S @ view buf @ zs = RandBytes env (key_size x) @ wire (lib env) (session_key env x mk) 0 pts"
    using assms(4) buf(3) by (simp add: client_stream_def)
  have fr: "fresh_cipher y mk \<lparr>encrypter = None, decrypter = Some y\<rparr> cd" using assms(1) by (simp add: peers_def)
  from srv_decode_handshake [OF f(6,7) fr refl f(1,3) assms(2) assms(3) [unfolded srv_decoding_def] buf(2) st sz assms(7,8,9) refl assms(6)]
  show ?thesis using buf unfolding srv_decoding_def by (elim exE conjE) (intro exI conjI; simp)
qed

lemma ss_demand_enc: "target_wf t \<Longrightarrow> ss_demand t \<le> length (ss_enc (t, p)) + 1"
  by (cases t rule: target_enc.cases) (simp_all add: ss_enc_def)

lemma evp_key_length_ge: "16 \<le> evp_key_length alg"
  by (cases alg) simp_all

lemma client_stream_length:
  assumes "peers env x y mk cd" "pts \<noteq> []"
  shows "length (concat pts) + 20 \<le> length (client_stream env x mk pts)"
proof -
  note f = peers_facts [OF assms(1)]
  have "16 \<le> key_size x" using assms(1) evp_key_length_ge by (auto simp: peers_def aead_suite_def)
  moreover have "length (RandBytes env (key_size x)) = key_size x" using assms(1) by (auto simp: peers_def aead_env_def)
  moreover have "4 \<le> CHUNK_SIZE_LEN + 2 * auth_tag_size (session_key env x mk)"
    using session_key_tag(1) [OF f(6,7), of x mk] assms(1) by (simp add: peers_def aead_suite_def CHUNK_SIZE_LEN_def)
  then have "1 * 4 \<le> length pts * (CHUNK_SIZE_LEN + 2 * auth_tag_size (session_key env x mk))"
    using assms(2) by (intro mult_le_mono) (simp_all add: Suc_leI)
  ultimately show ?thesis using length_wire [OF f(1), of 0 pts] by (simp add: client_stream_def)
qed

text \<open>A header that arrives complete in the first segment.\<close>

lemma srv_first_flight:
  assumes "peers (fst env) x y mk cd" "\<forall>q\<in>set pts. block_ok q" "concat pts = ss_enc (t, p) @ rest" "target_wf t" "cli_admits t p"
    and "int (length (client_stream (fst env) x mk pts)) \<le> SOCKET_DEBUF_SIZE" "rest = [] \<longrightarrow> io_read (io 0) = WouldBlock"
    and "srv_expecting s" "sc_decoder s = Some cd" "sc_handshake s = None"
  shows "\<exists>s' q. srv_ReadHandshake env io no_error (Data (client_stream (fst env) x mk pts)) s =
      Some (s', Srv_connect (srv_host env t) p # (if rest = [] then [Srv_read_stream False] else [])) \<and>
    ioq_rep 16 (sc_upstream s') q \<and> concat (map view q) = rest \<and> sc_state s' = sv_state_stream \<and> sc_channel s' = Connecting \<and> \<not> sc_closed s'"
proof -
  let ?xs = "client_stream (fst env) x mk pts"
  have ne: "pts \<noteq> []" using assms(3) by (auto simp: ss_enc_def)
  have len: "length (concat pts) + 20 \<le> length ?xs" by (rule client_stream_length [OF assms(1) ne])
  then have sz: "int (length (concat pts)) \<le> INT_MAX" using assms(6) by (simp add: SOCKET_DEBUF_SIZE_def INT_MAX_def)
  have st: "sc_state s = sv_state_handshake" "\<not> sc_closed s" using assms(8) by (simp_all add: srv_expecting_def)
  have "[] @ ?xs @ [] = ?xs" by simp
  from srv_segment [OF assms(1,2) srv_decoding_start [OF assms(1)] this assms(6) sz assms(9) st(1) assms(10)]
  obtain buf c' bs h where r: "read_segment (junk (fst env)) SOCKET_DEBUF_SIZE ?xs = Some buf"
      "srv_decode (fst env) buf s = Some (s\<lparr>sc_handshake := h, sc_decoder := Some c'\<rparr>, [])" "srv_decoding (fst env) x y mk cd pts ?xs c' (map view bs)"
      "\<forall>b. h = Some b \<longrightarrow> growable_inv b" "collected h = concat (map view bs)" "bs = [] \<longleftrightarrow> h = None" by auto
  have bs: "map view bs = pts" by (rule srv_decoding_done [OF assms(1) r(3)])
  then obtain b where b: "h = Some b" "growable_inv b" "view b = ss_enc (t, p) @ rest" using r(4-6) ne assms(3) by (cases h) auto
  have "ss_asked t \<le> length ?xs" using ss_demand_enc [OF assms(4), of p] ss_asked_le_demand [of t] len assms(3) by simp
  moreover have "srv_expecting (s\<lparr>sc_handshake := h, sc_decoder := Some c'\<rparr>)" using assms(8) by (simp add: srv_expecting_def)
  ultimately show ?thesis
    using srv_read_header_ok [where io = io, OF b(2,3) assms(4) _ assms(5) _ assms(7), of "length ?xs" "s\<lparr>sc_handshake := h, sc_decoder := Some c'\<rparr>" env] r(1,2) b(1) st(2)
    by (simp add: srv_ReadHandshake_def)
qed

lemma srv_Start_ok:
  assumes "new_cipher env [] pass m True = Some ce" "new_cipher env [] pass m False = Some cd" "\<not> CIPHER_METHOD_IS_HTTPS m"
  shows "srv_Start env pass (new_sconn m) = Some ((new_sconn m)\<lparr>sc_encoder := Some ce, sc_decoder := Some cd\<rparr>, [Srv_read_handshake])"
    "srv_expecting ((new_sconn m)\<lparr>sc_encoder := Some ce, sc_decoder := Some cd\<rparr>)"
  using assms IoQueue_rep [of 16] by (simp_all add: srv_Start_def srv_expecting_def new_sconn_def)

section \<open>From the local program to the target\<close>

text \<open>C11: A connection through an encrypting client and server reaches the right target. Take a client whose upstream has
  just been established, with a well-formed request for a target and any data that arrived in the meantime, and a
  server connection started with the same password and method. If what the client has encrypted when \<^verbatim>\<open>connected()\<close> returns
  arrives at the server in one segment, the server asks for a connection to exactly the requested host and port, and
  queues exactly the data behind the header for it (if there is none, it goes on reading). The segment is at most 35
  times as long as header and data, and a salt.\<close>

theorem server_connects_to_requested_target:
  assumes "aead_lib_ok (lib (fst env))" "\<forall>x. length (sha1 (fst env) x) = 20" "\<forall>x. length (md5 (fst env) x) = 16"
    and "\<forall>n. length (RandBytes (fst env) n) = n"
    and "m \<in> set (map row_num YASS_CIPHER_METHOD_OLD_MAP)" "\<not> (CRYPTO_AES_128_CFB \<le> m \<and> m \<le> CRYPTO_CAMELLIA_256_CFB)"
    and "cc_method (rl_cli r) = m" "negotiated \<noteq> kProtoHTTP11" "ioq_rep 16 (rl_upstream r) []" "open_relay r" "pending_ok (rl_cli r)"
    and "cc_request (rl_cli r) = ss_enc (t, p) @ zs" "target_wf t" "\<not> rl_upstream_writable r" "\<not> rl_channel_write_inprogress r"
    and "\<forall>i. io_ok (io i)" "\<forall>i. io_ok (io' i)" "cli_admits t p"
  shows "\<exists>r1 es1 s0. connected env io io' negotiated user pass r = Some (r1, es1) \<and>
    srv_Start (fst env) pass (new_sconn m) = Some (s0, [Srv_read_handshake]) \<and>
    (let xs = sent es1 @ concat (waiting r1); data = concat (queued (rl_cli r)) @ concat (received es1) in
     length xs \<le> 64 + 35 * length (ss_enc (t, p) @ data) \<and>
     (int (length xs) \<le> SOCKET_DEBUF_SIZE \<and> (data = [] \<longrightarrow> io_read (sio 0) = WouldBlock) \<longrightarrow>
     (\<exists>s q. srv_ReadHandshake env sio no_error (Data xs) s0 = Some (s, Srv_connect (srv_host env t) p # (if data = [] then [Srv_read_stream False] else [])) \<and>
        ioq_rep 16 (sc_upstream s) q \<and> concat (map view q) = data \<and> sc_state s = sv_state_stream \<and> sc_channel s = Connecting \<and> \<not> sc_closed s)))"
proof -
  have env: "aead_env (fst env)" using assms(1,2,4) by (simp add: aead_env_def SHA_DIGEST_LENGTH_def)
  obtain x y mk ce cd where n: "same_suite x y" "new_cipher (fst env) [] pass m True = Some ce"
      "fresh_cipher x mk \<lparr>encrypter = Some x, decrypter = None\<rparr> ce"
      "new_cipher (fst env) [] pass m False = Some cd" "fresh_cipher y mk \<lparr>encrypter = None, decrypter = Some y\<rparr> cd"
    using new_cipher_pair [of "fst env" m pass, OF assms(3,5,6)] by blast
  then have suites: "aead_suite x" "aead_suite y" by (auto simp: fresh_cipher_def)
  have peers: "peers (fst env) x y mk cd" using env n(1,5) suites by (simp add: peers_def)
  have at: "encoder_at (fst env) x mk None ce" using env n(3) suites(1) session_pair [OF env n(1) suites] by (auto simp: encoder_at_def)
  note plain = aead_not_plain [OF assms(5)]
  let ?first = "ss_enc (t, p) # queued (rl_cli r)"
  obtain r1 es1 r0 M where c: "connected env io io' negotiated user pass r = Some (r1, es1)"
      "secure.flow env x mk r0 (Some (2 * of_nat (length (concat (map frames ?first))))) M r1 es1"
      "concat (waiting r0) = RandBytes (fst env) (key_size x) @ wire (lib (fst env)) (session_key (fst env) x mk) 0 (concat (map frames ?first))"
    using connected_secure [OF at _ _ _ assms(8-17), of pass cd user] n(2,4) assms(7) plain by blast
  define pts where "pts = concat (map frames (?first @ received es1))"
  define rest where "rest = concat (queued (rl_cli r)) @ concat (received es1)"
  have xs: "sent es1 @ concat (waiting r1) = client_stream (fst env) x mk pts"
    using c(2,3) by (simp add: secure.flow_def coded_secure_keyed wire_append client_stream_def pts_def)
  have pts: "concat pts = ss_enc (t, p) @ rest" "\<forall>q\<in>set pts. block_ok q"
    using concat_frames_all [of "?first @ received es1"] frames_all_block_ok [of "?first @ received es1"] by (simp_all add: pts_def rest_def)
  have len: "length (sent es1 @ concat (waiting r1)) \<le> 64 + 35 * length (ss_enc (t, p) @ rest)"
  proof -
    have "length (RandBytes (fst env) (key_size x)) \<le> 64" using peers_facts(3,5) [OF peers] by (simp add: MAX_KEY_LENGTH_def)
    moreover have "length (wire (lib (fst env)) (session_key (fst env) x mk) 0 pts) \<le> 35 * length (concat (?first @ received es1))"
      unfolding pts_def by (rule length_wire_frames [OF peers_facts(1,2) [OF peers]])
    ultimately show ?thesis unfolding xs client_stream_def rest_def by simp
  qed
  have "\<not> CIPHER_METHOD_IS_HTTPS m" using plain by (simp add: relays_plain_def)
  note start = srv_Start_ok [OF n(2,4) this]
  have "\<exists>s q. srv_ReadHandshake env sio no_error (Data (sent es1 @ concat (waiting r1))) ((new_sconn m)\<lparr>sc_encoder := Some ce, sc_decoder := Some cd\<rparr>) =
        Some (s, Srv_connect (srv_host env t) p # (if rest = [] then [Srv_read_stream False] else [])) \<and>
        ioq_rep 16 (sc_upstream s) q \<and> concat (map view q) = rest \<and> sc_state s = sv_state_stream \<and> sc_channel s = Connecting \<and> \<not> sc_closed s"
    if "int (length (sent es1 @ concat (waiting r1))) \<le> SOCKET_DEBUF_SIZE" "rest = [] \<longrightarrow> io_read (sio 0) = WouldBlock"
    using srv_first_flight [where io = sio, OF peers pts(2,1) assms(13,18) _ that(2) start(2)] that(1) xs by (simp add: new_sconn_def)
  then show ?thesis unfolding Let_def
    by (intro exI [of _ r1] exI [of _ es1] exI [of _ "(new_sconn m)\<lparr>sc_encoder := Some ce, sc_decoder := Some cd\<rparr>"] conjI c(1) start(1) len [unfolded rest_def])
      (simp add: rest_def)
qed

text \<open>A client whose upstream does not accept anything yet.\<close>

definition sample_blocked :: "nat \<Rightarrow> pipe_io" where
  "sample_blocked i = \<lparr>io_read = WouldBlock, io_write = (\<lambda>_. (0, would_block)), io_late = False\<rparr>"

lemma sample_blocked_ok: "\<forall>i. io_ok (sample_blocked i)"
  by (simp add: io_ok_def sample_blocked_def)

lemma pipe_blocked:
  assumes "ioq_rep 16 (rl_upstream r) [b]" "growable_inv b" "view b \<noteq> []" "\<not> rl_socks_wait r" "cc_channel (rl_cli r) = Connected" "\<not> rl_channel_eof r"
    and "\<not> rl_channel_write_inprogress r"
  shows "\<exists>r' es. pipe_and_flush env sample_blocked r = Some (r', es) \<and> received es = []"
proof -
  have q: "front (rl_upstream r) = Some (Some b)" "\<not> ioq_empty (rl_upstream r)" using front_rep [OF assms(1)] empty_rep [OF assms(1)] by auto
  have b: "\<not> iobuf_empty b" "buf_size b \<noteq> 0" using assms(2,3) by (simp_all add: iobuf_empty_view buf_size_view)
  obtain b' where b': "set_offset (offset b) b = Some b'" using set_offset_advance [OF assms(2), of 0] by auto
  have "pipe_iteration env (sample_blocked 0) False 0 r =
      Some (Pipe_break False False would_block (r\<lparr>rl_upstream := set_front b' (rl_upstream r)\<rparr>) [Sent []])"
    using q b b' assms(2,4-6) by (simp add: pipe_iteration_def GetNextUpstreamBuf_def pipe_written_def sample_blocked_def soft_def data_slice_view)
  then show ?thesis using assms(7)
    by (simp add: pipe_and_flush_def WriteUpstreamInPipe_def pipe_loop.simps [of env sample_blocked 0] pipe_end_def OnUpstreamWriteFlush_def wait_write_def
        soft_def Let_def split: prod.splits)
qed

lemma sample_blocked_connected:
  assumes "connected (plain_env, sample_cli_env) sample_blocked sample_blocked kProtoUnknown [] [1] sample_secure_relay = Some (r1, es1)"
  shows "received es1 = []"
proof -
  note h = sample_secure_setup
  obtain x y mk ce cd where n: "same_suite x y" "new_cipher plain_env [] [1] CRYPTO_AES256GCMSHA256_EVP True = Some ce"
      "fresh_cipher x mk \<lparr>encrypter = Some x, decrypter = None\<rparr> ce" "new_cipher plain_env [] [1] CRYPTO_AES256GCMSHA256_EVP False = Some cd"
      "fresh_cipher y mk \<lparr>encrypter = None, decrypter = Some y\<rparr> cd"
    using new_cipher_pair [of plain_env CRYPTO_AES256GCMSHA256_EVP "[1]", OF h(3,5,6)] by blast
  then have suites: "aead_suite x" "aead_suite y" by (auto simp: fresh_cipher_def)
  have env: "aead_env plain_env" using h(1,2,4) by (simp add: aead_env_def SHA_DIGEST_LENGTH_def)
  have at: "encoder_at plain_env x mk None ce" using env n(3) suites(1) session_pair [OF env n(1) suites] by (auto simp: encoder_at_def)
  define r where "r = sample_secure_relay\<lparr>rl_encoder := Some ce, rl_decoder := Some cd\<rparr>"
  have "\<not> relays_plain (cc_method (rl_cli sample_secure_relay))" using aead_not_plain [OF h(5)] h(7) by simp
  then have mc: "make_ciphers (plain_env, sample_cli_env) [1] sample_secure_relay = Some r" "\<not> relays_plain (cc_method (rl_cli r))"
    using n(2,4) h(7) by (simp_all add: make_ciphers_def r_def relays_plain_def Let_def)
  obtain q b c1 where q: "queue_request (plain_env, sample_cli_env) [] [1] r = Some (r\<lparr>rl_upstream := q, rl_encoder := Some c1\<rparr>, [])" "ioq_rep 16 q [b]"
      "growable_inv b" "view b = cipher_code plain_env x mk None (ss_enc (Domain [97], 80))" "ss_enc (Domain [97], 80) \<noteq> []"
    using queue_request_secure [of r ce "(plain_env, sample_cli_env)" x mk "Domain [97]" 80 "[]" "[]" "[1]"] h(9,12,13) mc(2) at by (auto simp: r_def)
  let ?r = "r\<lparr>rl_upstream := q, rl_encoder := Some c1\<rparr>"
  have "replay_pending (plain_env, sample_cli_env) sample_blocked ?r = Some (?r, [])"
    by (simp add: replay_pending_def r_def sample_secure_relay_def sample_relay_def cli_start_def IoQueue_def ioq_empty_def)
  moreover obtain r' es where "pipe_and_flush (plain_env, sample_cli_env) sample_blocked (?r\<lparr>rl_upstream_writable := True\<rparr>) = Some (r', es)" "received es = []"
    using pipe_blocked [of "?r\<lparr>rl_upstream_writable := True\<rparr>" b "(plain_env, sample_cli_env)"] q(2-5) cipher_code_nonempty [OF at q(5)]
    by (auto simp: r_def sample_secure_relay_def sample_relay_def)
  ultimately show ?thesis using assms mc(1) q(1) by (auto simp: connected_def)
qed

theorem server_connects_to_requested_target_witness:
  "\<exists>r1 es1 s0 s. connected (plain_env, sample_cli_env) sample_blocked sample_blocked kProtoUnknown [] [1] sample_secure_relay = Some (r1, es1) \<and>
     srv_Start plain_env [1] (new_sconn CRYPTO_AES256GCMSHA256_EVP) = Some (s0, [Srv_read_handshake]) \<and>
     srv_ReadHandshake (plain_env, sample_cli_env) sample_blocked no_error (Data (sent es1 @ concat (waiting r1))) s0 =
       Some (s, [Srv_connect [97] 80, Srv_read_stream False]) \<and> sc_state s = sv_state_stream"
proof -
  let ?env = "(plain_env, sample_cli_env)"
  note h = sample_secure_setup
  have a: "cli_admits (Domain [97]) 80" by simp
  obtain r1 es1 s0 where c: "connected ?env sample_blocked sample_blocked kProtoUnknown [] [1] sample_secure_relay = Some (r1, es1)"
      "srv_Start plain_env [1] (new_sconn CRYPTO_AES256GCMSHA256_EVP) = Some (s0, [Srv_read_handshake])"
    and ok: "let xs = sent es1 @ concat (waiting r1); data = concat (queued (rl_cli sample_secure_relay)) @ concat (received es1) in
       length xs \<le> 64 + 35 * length (ss_enc (Domain [97], 80) @ data) \<and>
       (int (length xs) \<le> SOCKET_DEBUF_SIZE \<and> (data = [] \<longrightarrow> io_read (sample_blocked 0) = WouldBlock) \<longrightarrow>
       (\<exists>s q. srv_ReadHandshake ?env sample_blocked no_error (Data xs) s0 =
          Some (s, Srv_connect (srv_host ?env (Domain [97])) 80 # (if data = [] then [Srv_read_stream False] else [])) \<and>
        ioq_rep 16 (sc_upstream s) q \<and> concat (map view q) = data \<and> sc_state s = sv_state_stream \<and> sc_channel s = Connecting \<and> \<not> sc_closed s))"
    using server_connects_to_requested_target [of ?env, unfolded fst_conv, OF h(1-15) sample_blocked_ok sample_blocked_ok a, of "[]" "[1]" sample_blocked] by blast
  have r: "received es1 = []" by (rule sample_blocked_connected [OF c(1)])
  have "length (ss_enc (Domain [97], 80)) = 5" by (simp add: ss_enc_def)
  then show ?thesis using c ok r h(16) by (auto simp: Let_def SOCKET_DEBUF_SIZE_def sample_blocked_def)
qed

section \<open>Headers in pieces\<close>

lemma srv_decoding_partial:
  assumes "srv_decoding env x y mk cd [q] S c got" "S @ zs = client_stream env x mk [q]" "zs \<noteq> []"
  shows "got = []"
proof (cases "length S < length (RandBytes env (key_size x))")
  case True
  then show ?thesis using assms(1) by (simp add: srv_decoding_def decoding_def)
next
  case False
  then obtain k ch where k: "k \<le> 1" "got = take k [q]" "k = 1 \<longrightarrow> view ch = []"
      "S = RandBytes env (key_size x) @ wire (lib env) (session_key env x mk) 0 (take k [q]) @ view ch"
    using assms(1) by (auto simp: srv_decoding_def decoding_def)
  have "k \<noteq> 1" using k(3,4) assms(2,3) by (auto simp: client_stream_def)
  then show ?thesis using k(1,2) by (cases k) auto
qed

lemma ss_asked_le_enc: "target_wf t \<Longrightarrow> ss_asked t \<le> length (ss_enc (t, p)) + 1"
  using ss_asked_le_demand [of t] ss_demand_enc [of t p] by simp

lemma srv_read_header_short:
  assumes "growable_inv buf" "view buf = ss_enc (t, p) @ rest" "target_wf t" "n < ss_asked t" "srv_expecting s"
  shows "\<exists>s'. srv_read_header env io n buf s = Some (s', [Srv_closed invalid_argument])"
proof -
  obtain extra where m: "parse_mem buf = ss_enc (t, p) @ rest @ extra" using parse_mem_view(1) [OF assms(1)] assms(2) by auto
  have req: "length (sc_request s) = 259" "ss_domain_name_len (sc_request s) = 0" "\<not> sc_closed s"
    using assms(5) new_ss_request_zero by (auto simp: srv_expecting_def)
  have n: "n \<le> length (ss_enc (t, p) @ rest @ extra)" using ss_asked_le_enc [OF assms(3), of p] assms(4) by simp
  have "\<exists>i r. ss_parse (sc_request s) (parse_mem buf) 0 n = Some (indeterminate, i, r) \<and> i \<le> n"
    unfolding m by (rule ss_parse_incomplete [OF assms(3,4) n req(1,2)])
  then show ?thesis using req(3) by (auto simp: srv_read_header_def srv_OnDisconnect_def)
qed

lemma srv_ReadHandshake_None:
  assumes "read_segment (junk (fst env)) SOCKET_DEBUF_SIZE xs = Some buf" "srv_decode (fst env) buf s = Some (s1, [])" "sc_handshake s1 = None" "\<not> sc_closed s"
  shows "srv_ReadHandshake env io no_error (Data xs) s = Some (s1, [Srv_read_handshake])"
  using assms by (simp add: srv_ReadHandshake_def)

lemma srv_ReadHandshake_Some:
  assumes "read_segment (junk (fst env)) SOCKET_DEBUF_SIZE xs = Some buf" "srv_decode (fst env) buf s = Some (s1, [])" "sc_handshake s1 = Some h" "\<not> sc_closed s"
  shows "srv_ReadHandshake env io no_error (Data xs) s = srv_read_header env io (length xs) h s1"
  using assms by (simp add: srv_ReadHandshake_def)

lemma srv_split_header:
  assumes "peers (fst env) x y mk cd" "block_ok q" "xs @ ys = client_stream (fst env) x mk [q]"
    and "int (length (xs @ ys)) \<le> SOCKET_DEBUF_SIZE" "ys \<noteq> []"
    and "srv_expecting s" "sc_decoder s = Some cd" "sc_handshake s = None"
  shows "\<exists>s1 s2 b. srv_ReadHandshake env io no_error (Data xs) s = Some (s1, [Srv_read_handshake]) \<and>
    srv_ReadHandshake env io no_error (Data ys) s1 = srv_read_header env io (length ys) b s2 \<and> growable_inv b \<and> view b = q \<and> srv_expecting s2"
proof -
  have st: "sc_state s = sv_state_handshake" "\<not> sc_closed s" using assms(6) by (simp_all add: srv_expecting_def)
  have ok: "\<forall>q\<in>set [q]. block_ok q" and sz: "int (length (concat [q])) \<le> INT_MAX"
    using assms(2) by (simp_all add: block_ok_def CHUNK_SIZE_MASK_def INT_MAX_def)
  have len: "int (length xs) \<le> SOCKET_DEBUF_SIZE" "int (length ys) \<le> SOCKET_DEBUF_SIZE" using assms(4) by simp_all
  have "[] @ xs @ ys = client_stream (fst env) x mk [q]" using assms(3) by simp
  from srv_segment [OF assms(1) ok srv_decoding_start [OF assms(1)] this len(1) sz assms(7) st(1) assms(8)]
  obtain buf c1 bs h where 1: "read_segment (junk (fst env)) SOCKET_DEBUF_SIZE xs = Some buf"
      "srv_decode (fst env) buf s = Some (s\<lparr>sc_handshake := h, sc_decoder := Some c1\<rparr>, [])" "srv_decoding (fst env) x y mk cd [q] xs c1 (map view bs)"
      "bs = [] \<longleftrightarrow> h = None" by auto
  have "map view bs = []" by (rule srv_decoding_partial [OF 1(3) assms(3,5)])
  then have bs: "bs = []" "h = None" using 1(4) by auto
  define s1 where "s1 = s\<lparr>sc_handshake := None, sc_decoder := Some c1\<rparr>"
  have s1: "sc_decoder s1 = Some c1" "sc_state s1 = sv_state_handshake" "sc_handshake s1 = None" "\<not> sc_closed s1" using st by (simp_all add: s1_def)
  have d1: "srv_decoding (fst env) x y mk cd [q] xs c1 []" using 1(3) bs(1) by simp
  have "xs @ ys @ [] = client_stream (fst env) x mk [q]" using assms(3) by simp
  from srv_segment [OF assms(1) ok d1 this len(2) sz s1(1-3)]
  obtain buf2 c2 bs2 h2 where 2: "read_segment (junk (fst env)) SOCKET_DEBUF_SIZE ys = Some buf2"
      "srv_decode (fst env) buf2 s1 = Some (s1\<lparr>sc_handshake := h2, sc_decoder := Some c2\<rparr>, [])" "srv_decoding (fst env) x y mk cd [q] (xs @ ys) c2 (map view bs2)"
      "\<forall>b\<in>set bs2. plain_buffer b" "\<forall>b. bs2 = [b] \<longrightarrow> h2 = Some b" by auto
  have "map view bs2 = [q]" using srv_decoding_done [OF assms(1), of "[q]"] 2(3) assms(3) by simp
  then obtain b where b: "bs2 = [b]" "view b = q" by auto
  have g: "growable_inv b" using b(1) 2(4) by (simp add: plain_buffer_def)
  moreover have "srv_expecting (s1\<lparr>sc_handshake := h2, sc_decoder := Some c2\<rparr>)" using assms(6) by (simp add: s1_def srv_expecting_def)
  moreover have "srv_ReadHandshake env io no_error (Data ys) s1 = srv_read_header env io (length ys) b (s1\<lparr>sc_handshake := h2, sc_decoder := Some c2\<rparr>)"
    using srv_ReadHandshake_Some [OF 2(1,2) _ s1(4)] 2(5) b(1) by simp
  moreover have "srv_ReadHandshake env io no_error (Data xs) s = Some (s1, [Srv_read_handshake])"
    using srv_ReadHandshake_None [OF 1(1,2) _ st(2)] bs(2) by (simp add: s1_def)
  ultimately show ?thesis using b(2) by blast
qed

text \<open>A block encrypted by a client, and a server that waits for it.\<close>

lemma encrypted_block:
  assumes "aead_lib_ok (lib (fst env))" "\<forall>x. length (sha1 (fst env) x) = 20" "\<forall>x. length (md5 (fst env) x) = 16" "\<forall>n. length (RandBytes (fst env) n) = n"
    and "m \<in> set (map row_num YASS_CIPHER_METHOD_OLD_MAP)" "\<not> (CRYPTO_AES_128_CFB \<le> m \<and> m \<le> CRYPTO_CAMELLIA_256_CFB)" "block_ok q"
  shows "\<exists>x y mk ce cd ct ce' s0. peers (fst env) x y mk cd \<and> new_cipher (fst env) [] pass m True = Some ce \<and>
    encrypt (fst env) vis q GrowableIOBuffer ce v = Some (ct, ce', v) \<and> view ct = client_stream (fst env) x mk [q] \<and> int (length (view ct)) \<le> SOCKET_DEBUF_SIZE \<and>
    srv_Start (fst env) pass (new_sconn m) = Some (s0, [Srv_read_handshake]) \<and> srv_expecting s0 \<and> sc_decoder s0 = Some cd \<and> sc_handshake s0 = None"
proof -
  have env: "aead_env (fst env)" using assms(1,2,4) by (simp add: aead_env_def SHA_DIGEST_LENGTH_def)
  then have e: "\<And>x. length (sha1 (fst env) x) = SHA_DIGEST_LENGTH" "\<And>n. length (RandBytes (fst env) n) = n" by (auto simp: aead_env_def)
  obtain x y mk ce cd where n: "same_suite x y" "new_cipher (fst env) [] pass m True = Some ce"
      "fresh_cipher x mk \<lparr>encrypter = Some x, decrypter = None\<rparr> ce"
      "new_cipher (fst env) [] pass m False = Some cd" "fresh_cipher y mk \<lparr>encrypter = None, decrypter = Some y\<rparr> cd"
    using new_cipher_pair [of "fst env" m pass, OF assms(3,5,6)] by blast
  then have peers: "peers (fst env) x y mk cd" using env by (auto simp: peers_def fresh_cipher_def)
  obtain cts c' where "encrypt_all (fst env) vis [q] ce v = Some (cts, c', v)" "\<forall>ct\<in>set cts. int (length (view ct)) \<le> SOCKET_BUF_SIZE"
      "concat (map view cts) = client_stream (fst env) x mk [q]"
    using encrypt_all_fresh [OF assms(1) e n(3) refl peers_facts(1) [OF peers], of "[q]" vis v] assms(7) unfolding client_stream_def by auto
  then obtain ct ce' where ct: "encrypt (fst env) vis q GrowableIOBuffer ce v = Some (ct, ce', v)" "view ct = client_stream (fst env) x mk [q]"
      "int (length (view ct)) \<le> SOCKET_DEBUF_SIZE"
    by (auto simp: bind_eq_Some_conv SOCKET_BUF_SIZE_def SOCKET_DEBUF_SIZE_def)
  have "\<not> CIPHER_METHOD_IS_HTTPS m" using aead_not_plain [OF assms(5)] by (simp add: relays_plain_def)
  note start = srv_Start_ok [OF n(2,4) this]
  have "sc_handshake ((new_sconn m)\<lparr>sc_encoder := Some ce, sc_decoder := Some cd\<rparr>) = None" by (simp add: new_sconn_def)
  then show ?thesis using peers n(2) ct start
    by (intro exI [of _ x] exI [of _ y] exI [of _ mk] exI [of _ ce] exI [of _ cd] exI [of _ ct] exI [of _ ce']
        exI [of _ "(new_sconn m)\<lparr>sc_encoder := Some ce, sc_decoder := Some cd\<rparr>"]) simp
qed



lemma ss_length_ip:
  assumes "r ! 0 = atyp_ipv4 \<and> n = 4 \<or> r ! 0 = atyp_ipv6 \<and> n = 16"
  shows "ss_length r = n + 3"
  using assms by (auto simp: ss_length_def ss_address_type_size_def ss_address_type_def)

lemma srv_read_header_overrun:
  assumes "plain_buffer buf" "view buf ! 0 = atyp_ipv4 \<and> n = 4 \<or> view buf ! 0 = atyp_ipv6 \<and> n = 16" "view buf \<noteq> []" "length (view buf) < n + 3"
    and "n + 4 \<le> e" "srv_expecting s"
  shows "srv_read_header env io e buf s = None"
proof -
  have g: "growable_inv buf" "offset buf = 0" "length (mem buf) = nat SOCKET_BUF_SIZE" using assms(1) by (simp_all add: plain_buffer_def)
  obtain extra where m: "parse_mem buf = view buf @ extra" using parse_mem_view(1) [OF g(1)] by blast
  have "buf_data buf = 0" using g by (simp add: growable_inv_def)
  then have len: "length (parse_mem buf) = 17408" using g(3) by (simp add: parse_mem_def SOCKET_BUF_SIZE_def)
  have hd: "parse_mem buf ! 0 = view buf ! 0" using m assms(3) by (simp add: nth_append)
  have n: "n \<le> 16" using assms(2) by auto
  let ?r = "take (1 + n + 2) (parse_mem buf) @ drop (1 + n + 2) (sc_request s)"
  have "length (sc_request s) = 259" using assms(6) new_ss_request_zero by (simp add: srv_expecting_def)
  then have parse: "ss_parse (sc_request s) (parse_mem buf) 0 e = Some (good, 1 + n + 2, ?r)"
    using ss_parse_ip [of "parse_mem buf" "view buf ! 0" n e "sc_request s"] assms(2,5) hd len n by auto
  have "?r ! 0 = view buf ! 0" using hd len by (simp add: nth_append)
  then have "ss_length ?r = n + 3" using ss_length_ip [of ?r n] assms(2) by auto
  moreover have "set_offset (offset buf + int (n + 3)) buf = None" by (rule advance_None [OF g(1) assms(4)])
  ultimately show ?thesis using parse by (simp add: srv_read_header_def)
qed

text \<open>C40: A client with the right password can crash the server. A first block with only the beginning of an IP address
  is completed by the parser with the uninitialised bytes behind it in the buffer, because the length of the encrypted
  segment counts as the length of the input; the header found like this is longer than the block, and moving the
  offset behind it fails a check, which ends the process. The block need not be malicious: a client that sends the
  header in two blocks has the same effect.\<close>

theorem short_first_block_aborts:
  assumes "aead_lib_ok (lib (fst env))" "\<forall>x. length (sha1 (fst env) x) = 20" "\<forall>x. length (md5 (fst env) x) = 16" "\<forall>n. length (RandBytes (fst env) n) = n"
    and "m \<in> set (map row_num YASS_CIPHER_METHOD_OLD_MAP)" "\<not> (CRYPTO_AES_128_CFB \<le> m \<and> m \<le> CRYPTO_CAMELLIA_256_CFB)"
    and "q \<noteq> []" "q ! 0 = atyp_ipv4 \<and> length q < 7 \<or> q ! 0 = atyp_ipv6 \<and> length q < 19"
  shows "\<exists>ce ct ce' s0. new_cipher (fst env) [] pass m True = Some ce \<and> encrypt (fst env) vis q GrowableIOBuffer ce v = Some (ct, ce', v) \<and>
    srv_Start (fst env) pass (new_sconn m) = Some (s0, [Srv_read_handshake]) \<and> srv_ReadHandshake env io no_error (Data (view ct)) s0 = None"
proof -
  have ok: "block_ok q" using assms(7,8) by (auto simp: block_ok_def CHUNK_SIZE_MASK_def)
  obtain x y mk ce cd ct ce' s0 where b: "peers (fst env) x y mk cd" "new_cipher (fst env) [] pass m True = Some ce"
      "encrypt (fst env) vis q GrowableIOBuffer ce v = Some (ct, ce', v)" "view ct = client_stream (fst env) x mk [q]" "int (length (view ct)) \<le> SOCKET_DEBUF_SIZE"
      "srv_Start (fst env) pass (new_sconn m) = Some (s0, [Srv_read_handshake])" "srv_expecting s0" "sc_decoder s0 = Some cd" "sc_handshake s0 = None"
    using encrypted_block [OF assms(1-6) ok, of pass vis v] by (elim exE conjE) (rule that)
  have oks: "\<forall>q\<in>set [q]. block_ok q" and sz: "int (length (concat [q])) \<le> INT_MAX" using ok by (simp_all add: block_ok_def CHUNK_SIZE_MASK_def INT_MAX_def)
  have st: "sc_state s0 = sv_state_handshake" "\<not> sc_closed s0" using b(7) by (simp_all add: srv_expecting_def)
  have "[] @ view ct @ [] = client_stream (fst env) x mk [q]" using b(4) by simp
  from srv_segment [OF b(1) oks srv_decoding_start [OF b(1)] this b(5) sz b(8) st(1) b(9)]
  obtain buf c1 bs h where 1: "read_segment (junk (fst env)) SOCKET_DEBUF_SIZE (view ct) = Some buf"
      "srv_decode (fst env) buf s0 = Some (s0\<lparr>sc_handshake := h, sc_decoder := Some c1\<rparr>, [])" "srv_decoding (fst env) x y mk cd [q] (view ct) c1 (map view bs)"
      "\<forall>b\<in>set bs. plain_buffer b" "\<forall>b. bs = [b] \<longrightarrow> h = Some b" by auto
  have "map view bs = [q]" using srv_decoding_done [OF b(1), of "[q]"] 1(3) b(4) by simp
  then obtain b0 where b0: "bs = [b0]" "view b0 = q" by auto
  define n :: nat where "n = (if q ! 0 = atyp_ipv4 then 4 else 16)"
  have n: "view b0 ! 0 = atyp_ipv4 \<and> n = 4 \<or> view b0 ! 0 = atyp_ipv6 \<and> n = 16" "length (view b0) < n + 3" "n \<le> 16"
    using assms(8) b0(2) by (auto simp: n_def)
  have "length (concat [q]) + 20 \<le> length (view ct)" unfolding b(4) by (rule client_stream_length [OF b(1)]) simp
  then have "n + 4 \<le> length (view ct)" using n(3) by simp
  moreover have "srv_expecting (s0\<lparr>sc_handshake := h, sc_decoder := Some c1\<rparr>)" using b(7) by (simp add: srv_expecting_def)
  ultimately have "srv_read_header env io (length (view ct)) b0 (s0\<lparr>sc_handshake := h, sc_decoder := Some c1\<rparr>) = None"
    using srv_read_header_overrun [OF _ n(1) _ n(2)] 1(4) b0 assms(7) by simp
  then have "srv_ReadHandshake env io no_error (Data (view ct)) s0 = None" using srv_ReadHandshake_Some [OF 1(1,2) _ st(2)] 1(5) b0(1) by simp
  then show ?thesis using b(2,3,6) by (intro exI [of _ ce] exI [of _ ct] exI [of _ ce'] exI [of _ s0]) simp
qed

theorem short_first_block_aborts_witness:
  "\<exists>ce ct ce' s0. new_cipher plain_env [] [1] CRYPTO_AES256GCMSHA256_EVP True = Some ce \<and>
     encrypt plain_env recorder [1] GrowableIOBuffer ce ([], False) = Some (ct, ce', ([], False)) \<and>
     srv_Start plain_env [1] (new_sconn CRYPTO_AES256GCMSHA256_EVP) = Some (s0, [Srv_read_handshake]) \<and>
     srv_ReadHandshake (plain_env, sample_cli_env) sample_blocked no_error (Data (view ct)) s0 = None"
proof -
  have "[1 :: byte] ! 0 = atyp_ipv4 \<and> length [1 :: byte] < 7 \<or> [1 :: byte] ! 0 = atyp_ipv6 \<and> length [1 :: byte] < 19" by simp
  from short_first_block_aborts [of "(plain_env, sample_cli_env)", unfolded fst_conv, OF sample_secure_setup(1-6) _ this, of "[1]" recorder "([], False)" sample_blocked]
  show ?thesis by simp
qed

end
