(* ===== verification/Spec2Isabelle.thy ===== *)
theory Spec2Isabelle
  imports IO_Queue Cipher_Safety Padding Socks_Session Stream_Connect Stream_Wait Server_Handshake
begin

text \<open>
  A verification library for \<^verbatim>\<open>yass\<close>, a proxy that relays TCP connections between a local client program and a
  remote server over Shadowsocks, SOCKS, HTTPS or HTTP/2. All paths below are relative to \<^verbatim>\<open>src/\<close>.

  \<^bold>\<open>The program.\<close> A client process accepts local connections (\<^verbatim>\<open>cli/cli_connection.cpp\<close>), reads a SOCKS or HTTP
  handshake from them, connects to the configured server and relays bytes. A server process
  (\<^verbatim>\<open>server/server_connection.cpp\<close>) accepts those connections, finds out which target is wanted and relays to it.
  Both share the cipher layer (\<^verbatim>\<open>crypto/\<close>, \<^verbatim>\<open>net/cipher.cpp\<close>), the wire formats (\<^verbatim>\<open>net/ss*.hpp\<close>, \<^verbatim>\<open>net/socks*.hpp\<close>,
  \<^verbatim>\<open>net/http_parser.cpp\<close>), and byte buffers and queues (\<^verbatim>\<open>net/io_buffer.cpp\<close>, \<^verbatim>\<open>net/io_queue.hpp\<close>).

  \<^bold>\<open>How the code is modelled.\<close> A C++ object is a record or a datatype with the members and constructors of the
  source; a member function is a definition that takes the object and returns it. A failed \<^verbatim>\<open>CHECK\<close>, an access
  outside an allocation, a null dereference and a signed overflow are the value \<^const>\<open>None\<close> of an option type, so
  a theorem that a function returns \<^const>\<open>Some\<close> is also a proof that it is memory safe. \<^verbatim>\<open>DCHECK\<close>s have no effect, as
  in a release build, except in \<^verbatim>\<open>Stream_Wait\<close>, where a parameter tells whether they are enabled.
  Uninitialised memory is an argument \<open>junk\<close>. What a socket delivers, what a library computes
  (BoringSSL, mbedTLS, Balsa, the URL library, asio's textual addresses) and the order of a hash map are arguments,
  with their documented behaviour as hypotheses of the theorems that need it; each such theorem has a witness with
  a concrete instance.

  \<^bold>\<open>Theories.\<close>
  \<^item> \<^verbatim>\<open>Yass_Prelude\<close>: bytes, byte memory, byte order, rule collections.
  \<^item> \<^verbatim>\<open>IO_Buffer\<close> (\<^verbatim>\<open>net/io_buffer\<close>): all buffer classes. The locales \<open>consumable\<close> and \<open>byte_buffer\<close> are the contract
    that clients rely on; the growable and the drainable buffer are interpretations. A growable buffer delivers what
    was appended, in order.
  \<^item> \<^verbatim>\<open>IO_Queue\<close> (\<^verbatim>\<open>net/io_queue.hpp\<close>): the ring buffer refines a list (locale \<open>fifo\<close>).
  \<^item> \<^verbatim>\<open>Cipher_Methods\<close> (\<^verbatim>\<open>crypto/crypter_export\<close>, \<^verbatim>\<open>yass/crypto\<close>, \<^verbatim>\<open>net/protocol\<close>): registries and their inverses.
  \<^item> \<^verbatim>\<open>Crypters\<close> (\<^verbatim>\<open>crypto/\<close>): nonces, key set-up, sealing and opening of packets, the suites and the factories.
  \<^item> \<^verbatim>\<open>Key_Derivation\<close> (\<^verbatim>\<open>net/hmac_sha1\<close>, \<^verbatim>\<open>net/hkdf_sha1\<close>, part of \<^verbatim>\<open>net/cipher.cpp\<close>): equivalence with RFC 2104, RFC 5869 and
    \<^verbatim>\<open>EVP_BytesToKey\<close>.
  \<^item> \<^verbatim>\<open>Cipher\<close>, \<^verbatim>\<open>Cipher_Stream\<close>, \<^verbatim>\<open>Cipher_Safety\<close> (\<^verbatim>\<open>net/cipher.cpp\<close>): the framed stream. Encryption and incremental decryption
    compose to the identity under any segmentation; the decoder does not fault on arbitrary input.
  \<^item> \<^verbatim>\<open>Padding\<close> (\<^verbatim>\<open>net/padding.cpp\<close> and the loops of the connections that use it).
  \<^item> \<^verbatim>\<open>Request_Parser\<close>, \<^verbatim>\<open>Socks5\<close>, \<^verbatim>\<open>Socks4\<close>, \<^verbatim>\<open>SS_Request\<close> (\<^verbatim>\<open>net/*_request*.hpp\<close>): the locale \<open>message_parser\<close> is the contract of a
    parser (complete on encodings, sound, within its input); all parsers are interpretations.
  \<^item> \<^verbatim>\<open>Net_Io\<close>, \<^verbatim>\<open>Handshake_Parsing\<close>: segments read from a socket, and parsers run on them (locale \<open>buffered_parser\<close>).
  \<^item> \<^verbatim>\<open>Socks_Server\<close>, \<^verbatim>\<open>Socks_Upstream\<close>, \<^verbatim>\<open>Socks_Session\<close>: the SOCKS handshake of the server as a step relation, of the client
    towards its upstream as handlers, and both run against each other.
  \<^item> \<^verbatim>\<open>Http_Parser\<close> (\<^verbatim>\<open>net/http_parser.cpp\<close>): which requests are accepted, and that a request written again reads back as the
    one received, without the fields meant for the proxy. \<^verbatim>\<open>Base64\<close> (\<^verbatim>\<open>net/base64.cpp\<close>, \<^verbatim>\<open>third_party/modp_b64\<close>): the credentials.
  \<^item> \<^verbatim>\<open>Http_Proxy\<close>: HTTP requests at both connections, that is, replacing the header of a request in its buffer,
    splitting a keep-alive buffer, and the HTTPS handshake of the server (\<^verbatim>\<open>OnReadHandshakeViaHttps\<close>).
  \<^item> \<^verbatim>\<open>Client_Handshake\<close> (\<^verbatim>\<open>cli/cli_connection.cpp\<close>): the handshake with the local program, from the first segment to the
    started connection. Handlers return the operations they start; the invariant is proved over all sequences of events.
  \<^item> \<^verbatim>\<open>Client_Relay\<close> (\<^verbatim>\<open>cli/cli_connection.cpp\<close>): the way from the local program to an upstream without HTTP/2. The locale
    \<open>upstream_codec\<close> is what the loop of \<^verbatim>\<open>WriteUpstreamInPipe\<close> needs to know about the encoding of the data; inside it the
    loop is shown to return, to lose nothing and to leave a pending operation behind, in every run of the callbacks.
  \<^item> \<^verbatim>\<open>Secure_Relay\<close>: the same contract for an encrypting upstream (second interpretation of \<open>upstream_codec\<close>).
  \<^item> \<^verbatim>\<open>Client_Connected\<close> (\<^verbatim>\<open>cli/cli_connection.cpp\<close>): what \<^verbatim>\<open>connected()\<close> sends first, and the composition of an encrypting client with
    the decoder of the server.
  \<^item> \<^verbatim>\<open>Stream_Connect\<close>, \<^verbatim>\<open>Stream_Wait\<close> (\<^verbatim>\<open>net/stream.hpp\<close>): the upstream itself. Connecting is a state machine over the completions of
    resolver, sockets and timers, with an invariant in three phases. The time to wait for the rate limit is shown to be right, but a delayed write
    is shown not to count as in progress.
  \<^item> \<^verbatim>\<open>Server_Relay\<close>, \<^verbatim>\<open>Server_Handshake\<close> (\<^verbatim>\<open>server/server_connection.cpp\<close>): the server behind an encrypting client, from the first
    segment to the request for the target, and composed with the client.

  \<^bold>\<open>Bounds.\<close> No definition uses fuel to hide non-termination: loops are structural or have a measure, and
  the loop of \<^verbatim>\<open>WriteUpstreamInPipe\<close>, a partial function because it runs as long as its sockets deliver, is proved to return
  on a client that is not kept alive for further HTTP requests, as is the one that replays the waiting data. The loop of
  the same name of the server is a partial function too; the theorems meet it only where its queue is empty and nothing can be read.
  The dialogue of \<^verbatim>\<open>Socks_Session\<close> takes a number of turns; its theorem shows that the handshake completes within it.

  \<^bold>\<open>Not modelled.\<close> TLS sockets (bindings of BoringSSL), the HTTP/2 adapter (quiche), the relay of replies, threads, the
  resolvers (c-ares and asio), configuration files and flags, platform code and user interfaces: what they do is
  decided by libraries and the operating system.
\<close>

end
